(* ===== verification/GoPrelude.thy ===== *)
theory GoPrelude
  imports
    "HOL-Library.Word"
    "HOL-Library.Multiset"
    "HOL-Library.Char_ord"
    "HOL-Library.List_Lexorder"
    "HOL-Library.Product_Lexorder"
begin

text \<open>
  The prelude of the development: what every component shares.
  A Go function that returns \<open>(T, error)\<close> is a value of the sum type \<open>'e + 'a\<close>
  (\<open>Inl\<close> the error, \<open>Inr\<close> the result). A Go function that also reads and writes
  the outside world is a state transformer \<open>('s, 'e, 'a) io\<close> over that sum type, and
  its statements are composed with \<open>bindM\<close> (stop at the first error) and \<open>onResult\<close>
  (look at the error, as \<open>if err != nil\<close> with a non-returning branch does).
  The collection \<open>go_sum\<close> holds the rules that split these compositions.
\<close>

named_theorems go_sum
named_theorems go_str

section \<open>Results and effects\<close>

definition bindE :: "'e + 'a \<Rightarrow> ('a \<Rightarrow> 'e + 'b) \<Rightarrow> 'e + 'b" where
  "bindE m f = (case m of Inl e \<Rightarrow> Inl e | Inr x \<Rightarrow> f x)"

definition guardE :: "bool \<Rightarrow> 'e \<Rightarrow> 'e + unit" where
  "guardE b e = (if b then Inr () else Inl e)"

type_synonym ('s, 'e, 'a) io = "'s \<Rightarrow> ('e + 'a) \<times> 's"

definition ret :: "'a \<Rightarrow> ('s, 'e, 'a) io" where
  "ret x s = (Inr x, s)"

definition fail :: "'e \<Rightarrow> ('s, 'e, 'a) io" where
  "fail e s = (Inl e, s)"

definition liftE :: "'e + 'a \<Rightarrow> ('s, 'e, 'a) io" where
  "liftE r s = (r, s)"

definition bindM :: "('s, 'e, 'a) io \<Rightarrow> ('a \<Rightarrow> ('s, 'e, 'b) io) \<Rightarrow> ('s, 'e, 'b) io" where
  "bindM m f s = (case m s of (Inl e, t) \<Rightarrow> (Inl e, t) | (Inr x, t) \<Rightarrow> f x t)"

definition onResult :: "('s, 'e, 'a) io \<Rightarrow> ('e + 'a \<Rightarrow> ('s, 'f, 'b) io) \<Rightarrow> ('s, 'f, 'b) io" where
  "onResult m k s = (case m s of (r, t) \<Rightarrow> k r t)"

lemma bindE_Inl [simp]: "bindE (Inl e) f = Inl e"
  by (simp add: bindE_def)

lemma bindE_Inr [simp]: "bindE (Inr x) f = f x"
  by (simp add: bindE_def)

lemma bindE_eq_Inr [go_sum]: "bindE m f = Inr y \<longleftrightarrow> (\<exists>x. m = Inr x \<and> f x = Inr y)"
  by (cases m) auto

lemma guardE_Inr [go_sum]: "guardE b e = Inr u \<longleftrightarrow> b"
  by (simp add: guardE_def)

lemma guardE_simps [simp]: "guardE True e = Inr ()" "guardE False e = Inl e"
  by (simp_all add: guardE_def)

lemma bindM_eq_Inr [go_sum]:
  "bindM m f s = (Inr y, u) \<longleftrightarrow> (\<exists>x t. m s = (Inr x, t) \<and> f x t = (Inr y, u))"
  by (auto simp: bindM_def split: prod.splits sum.splits)

lemma bindM_eq_Inl [go_sum]:
  "bindM m f s = (Inl e, u) \<longleftrightarrow>
     (m s = (Inl e, u)) \<or> (\<exists>x t. m s = (Inr x, t) \<and> f x t = (Inl e, u))"
  by (auto simp: bindM_def split: prod.splits sum.splits)

lemma io_simps [simp]:
  "ret x s = (Inr x, s)" "fail e s = (Inl e, s)" "liftE r s = (r, s)"
  by (simp_all add: ret_def fail_def liftE_def)

lemma bindM_step [simp]:
  "m s = (Inr x, t) \<Longrightarrow> bindM m f s = f x t"
  "m s = (Inl e, t) \<Longrightarrow> bindM m f s = (Inl e, t)"
  by (simp_all add: bindM_def)

lemma onResult_step [simp]: "m s = (r, t) \<Longrightarrow> onResult m k s = k r t"
  by (simp add: onResult_def)

text \<open>A state predicate that every step of a composition keeps is kept by the composition.\<close>

definition keeps :: "('s \<Rightarrow> 's \<Rightarrow> bool) \<Rightarrow> ('s, 'e, 'a) io \<Rightarrow> bool" where
  "keeps R m \<longleftrightarrow> (\<forall>s. R s (snd (m s)))"

lemma keeps_ret [intro, simp]: "(\<And>s. R s s) \<Longrightarrow> keeps R (ret x)"
  by (simp add: keeps_def)

lemma keeps_fail [intro, simp]: "(\<And>s. R s s) \<Longrightarrow> keeps R (fail x)"
  by (simp add: keeps_def)

lemma keeps_liftE [intro, simp]: "(\<And>s. R s s) \<Longrightarrow> keeps R (liftE x)"
  by (simp add: keeps_def)

lemma keeps_bindM:
  assumes "keeps R m" and "\<And>x. keeps R (f x)" and "\<And>a b c. R a b \<Longrightarrow> R b c \<Longrightarrow> R a c"
  shows "keeps R (bindM m f)"
proof (unfold keeps_def, intro allI)
  fix s
  from assms(1) have "R s (snd (m s))" by (simp add: keeps_def)
  moreover have "\<And>x t. R t (snd (f x t))" using assms(2) by (simp add: keeps_def)
  ultimately show "R s (snd (bindM m f s))"
    using assms(3) by (cases "m s"; cases "fst (m s)") auto
qed

lemma keeps_onResult:
  assumes "keeps R m" and "\<And>r. keeps R (k r)" and "\<And>a b c. R a b \<Longrightarrow> R b c \<Longrightarrow> R a c"
  shows "keeps R (onResult m k)"
proof (unfold keeps_def, intro allI)
  fix s
  from assms(1) have "R s (snd (m s))" by (simp add: keeps_def)
  moreover have "\<And>x t. R t (snd (k x t))" using assms(2) by (simp add: keeps_def)
  ultimately show "R s (snd (onResult m k s))"
    using assms(3) by (cases "m s") auto
qed

section \<open>Lists\<close>

text \<open>Go's \<open>xs[lo:hi]\<close>, for bounds already checked by the code.\<close>

definition goSlice :: "nat \<Rightarrow> nat \<Rightarrow> 'a list \<Rightarrow> 'a list" where
  "goSlice lo hi xs = take (hi - lo) (drop lo xs)"

lemma goSlice_full [simp]: "goSlice 0 (length xs) xs = xs"
  by (simp add: goSlice_def)

lemma length_goSlice [simp]: "length (goSlice lo hi xs) = min (hi - lo) (length xs - lo)"
  by (simp add: goSlice_def)

lemma goSlice_append:
  assumes "lo \<le> mid" "mid \<le> hi"
  shows "goSlice lo mid xs @ goSlice mid hi xs = goSlice lo hi xs"
proof -
  define ys where "ys = drop lo xs"
  have "goSlice mid hi xs = take (hi - mid) (drop (mid - lo) ys)"
    using assms(1) by (simp add: goSlice_def ys_def)
  moreover have "goSlice lo hi xs = take ((mid - lo) + (hi - mid)) ys"
    using assms by (simp add: goSlice_def ys_def)
  ultimately show ?thesis by (simp only: take_add goSlice_def ys_def)
qed

lemma set_goSlice: "set (goSlice lo hi xs) \<subseteq> set xs"
  unfolding goSlice_def by (meson order_trans set_drop_subset set_take_subset)

lemma find_split:
  "List.find P xs = Some x \<longleftrightarrow>
     (\<exists>pre post. xs = pre @ x # post \<and> P x \<and> (\<forall>u \<in> set pre. \<not> P u))"
proof
  show "List.find P xs = Some x \<Longrightarrow>
     \<exists>pre post. xs = pre @ x # post \<and> P x \<and> (\<forall>u \<in> set pre. \<not> P u)"
  proof (induction xs)
    case Nil
    then show ?case by simp
  next
    case (Cons a as)
    show ?case
    proof (cases "P a")
      case True
      with Cons.prems have "a # as = [] @ x # as \<and> P x \<and> (\<forall>u \<in> set []. \<not> P u)" by simp
      then show ?thesis by blast
    next
      case False
      with Cons.IH Cons.prems obtain pre post where
        "as = pre @ x # post" "P x" "\<forall>u \<in> set pre. \<not> P u" by auto
      with False have "a # as = (a # pre) @ x # post \<and> P x \<and> (\<forall>u \<in> set (a # pre). \<not> P u)" by simp
      then show ?thesis by blast
    qed
  qed
next
  have "List.find P (pre @ x # post) = Some x" if "P x" "\<forall>u \<in> set pre. \<not> P u" for pre post
    using that by (induction pre) auto
  then show "\<exists>pre post. xs = pre @ x # post \<and> P x \<and> (\<forall>u \<in> set pre. \<not> P u) \<Longrightarrow>
      List.find P xs = Some x" by blast
qed

text \<open>The greedy budget loop that several output builders share: keep entries while the
  separators and encoded sizes fit, stop at the first that does not.\<close>

fun takeWithin :: "('a \<Rightarrow> nat) \<Rightarrow> nat \<Rightarrow> nat \<Rightarrow> bool \<Rightarrow> 'a list \<Rightarrow> 'a list \<times> bool" where
  "takeWithin sz maximum used started [] = ([], False)"
| "takeWithin sz maximum used started (x # xs) =
     (let separator = (if started then 1 else 0) in
      if used + separator + sz x > maximum then ([], True)
      else (let (rest, dropped) = takeWithin sz maximum (used + separator + sz x) True xs
            in (x # rest, dropped)))"

fun sepSum :: "bool \<Rightarrow> nat list \<Rightarrow> nat" where
  "sepSum started [] = 0"
| "sepSum started (n # ns) = (if started then 1 else 0) + n + sepSum True ns"

lemma takeWithin_prefix:
  "takeWithin sz m u b xs = (ys, d) \<Longrightarrow> \<exists>zs. xs = ys @ zs \<and> (d \<longleftrightarrow> zs \<noteq> [])"
proof (induction xs arbitrary: u b ys d)
  case Nil
  then show ?case by simp
next
  case (Cons x xs)
  then show ?case
    by (fastforce simp: Let_def split: if_splits prod.splits)
qed

lemma takeWithin_bound:
  "takeWithin sz m u b xs = (ys, d) \<Longrightarrow> u \<le> m \<Longrightarrow> u + sepSum b (map sz ys) \<le> m"
proof (induction xs arbitrary: u b ys d)
  case Nil
  then show ?case by simp
next
  case (Cons x xs)
  then show ?case
    by (fastforce simp: Let_def split: if_splits prod.splits)
qed

lemma takeWithin_maximal:
  "takeWithin sz m u b xs = (ys, True) \<Longrightarrow>
     \<exists>z zs. xs = ys @ z # zs \<and> u + sepSum b (map sz (ys @ [z])) > m"
proof (induction xs arbitrary: u b ys)
  case Nil
  then show ?case by simp
next
  case (Cons x xs)
  show ?case
  proof (cases "u + (if b then 1 else 0) + sz x > m")
    case True
    with Cons.prems show ?thesis by (auto simp: Let_def)
  next
    case False
    with Cons.prems obtain rest where r: "ys = x # rest"
      "takeWithin sz m (u + (if b then 1 else 0) + sz x) True xs = (rest, True)"
      by (auto simp: Let_def split: prod.splits)
    from Cons.IH [OF r(2)] r(1) show ?thesis by (auto simp: algebra_simps)
  qed
qed

section \<open>Ceiling division, the page counts of the pagination code\<close>

lemma ceil_div_le:
  fixes n p k :: int
  assumes "0 < p"
  shows "k \<le> (n + p - 1) div p \<longleftrightarrow> (k - 1) * p < n"
proof -
  define q r where "q = (n + p - 1) div p" and "r = (n + p - 1) mod p"
  have eq: "n + p - 1 = q * p + r" and r: "0 \<le> r" "r < p"
    using assms by (simp_all add: q_def r_def)
  have "k \<le> q \<longleftrightarrow> k * p \<le> q * p + r"
  proof
    assume "k \<le> q"
    then have "k * p \<le> q * p" using assms by (simp add: mult_right_mono)
    with r(1) show "k * p \<le> q * p + r" by linarith
  next
    assume le: "k * p \<le> q * p + r"
    show "k \<le> q"
    proof (rule ccontr)
      assume "\<not> k \<le> q"
      then have "(q + 1) * p \<le> k * p" using assms by (intro mult_right_mono) auto
      with le r show False by (simp add: algebra_simps)
    qed
  qed
  moreover have "k * p \<le> q * p + r \<longleftrightarrow> (k - 1) * p < n"
    unfolding eq [symmetric] left_diff_distrib by linarith
  ultimately show ?thesis by (simp only: q_def)
qed

section \<open>Sorting\<close>

text \<open>\<open>sort.Slice(xs, less)\<close>. Where the program uses it the comparison tells every two entries apart,
  so the sorted arrangement is unique and any sorting algorithm gives it; this is insertion sort.\<close>

fun insertBy :: "('a \<Rightarrow> 'a \<Rightarrow> bool) \<Rightarrow> 'a \<Rightarrow> 'a list \<Rightarrow> 'a list" where
  "insertBy lt x [] = [x]"
| "insertBy lt x (y # ys) = (if lt y x then y # insertBy lt x ys else x # y # ys)"

definition sortSlice :: "('a \<Rightarrow> 'a \<Rightarrow> bool) \<Rightarrow> 'a list \<Rightarrow> 'a list" where
  "sortSlice lt xs = foldr (insertBy lt) xs []"

lemma mset_insertBy [simp]: "mset (insertBy lt x ys) = add_mset x (mset ys)"
  by (induction ys) auto

lemma mset_sortSlice [simp]: "mset (sortSlice lt xs) = mset xs"
  by (induction xs) (auto simp: sortSlice_def)

lemma set_sortSlice [simp]: "set (sortSlice lt xs) = set xs"
  by (metis mset_sortSlice set_mset_mset)

lemma length_sortSlice [simp]: "length (sortSlice lt xs) = length xs"
  by (metis mset_sortSlice size_mset)

lemma distinct_sortSlice [simp]: "distinct (sortSlice lt xs) = distinct xs"
  by (metis mset_sortSlice mset_eq_imp_distinct_iff)

text \<open>When \<open>lt\<close> is a strict weak order, no entry is less than one in front of it.\<close>

lemma sorted_sortSlice:
  assumes asym: "\<And>a b. lt a b \<Longrightarrow> \<not> lt b a" and weak: "\<And>a b c. lt a c \<Longrightarrow> lt a b \<or> lt b c"
  shows "sorted_wrt (\<lambda>a b. \<not> lt b a) (sortSlice lt xs)"
proof -
  have set_ins: "set (insertBy lt x ys) = insert x (set ys)" for x ys
    by (metis mset_insertBy set_mset_add_mset_insert set_mset_mset)
  have "sorted_wrt (\<lambda>a b. \<not> lt b a) (insertBy lt x ys)"
    if "sorted_wrt (\<lambda>a b. \<not> lt b a) ys" for x ys
    using that
  proof (induction ys)
    case (Cons y ys)
    then show ?case
      using asym weak by (auto simp: set_ins) blast
  qed simp
  then show ?thesis by (induction xs) (auto simp: sortSlice_def)
qed

section \<open>Pages\<close>

text \<open>The contract of the page cutters of the program: for a positive page and page size a page is the
  corresponding stretch of the list, in the arrangement \<open>view\<close> in which the code shows it.
  Concatenating the pages gives the arranged list back.\<close>

definition pageCount :: "int \<Rightarrow> int \<Rightarrow> int" where
  "pageCount n perPage = (n + perPage - 1) div perPage"

text \<open>The stretch the page cutters take out of an arranged list, and whether more entries follow it.\<close>

definition pageStart :: "int \<Rightarrow> int \<Rightarrow> int \<Rightarrow> int" where
  "pageStart page perPage n = (if page \<le> (n + perPage - 1) div perPage then (page - 1) * perPage else n)"

definition pageEnd :: "int \<Rightarrow> int \<Rightarrow> int \<Rightarrow> int" where
  "pageEnd page perPage n = min (pageStart page perPage n + perPage) n"

definition cutPage :: "int \<Rightarrow> int \<Rightarrow> 'a list \<Rightarrow> 'a list" where
  "cutPage page perPage xs =
     (let n = int (length xs) in goSlice (nat (pageStart page perPage n)) (nat (pageEnd page perPage n)) xs)"

definition nextPageOf :: "int \<Rightarrow> int \<Rightarrow> int \<Rightarrow> int option" where
  "nextPageOf page perPage n = (if pageEnd page perPage n < n then Some (page + 1) else None)"

lemma cutPage_slice:
  assumes pos: "1 \<le> page" "1 \<le> perPage"
  shows "cutPage page perPage xs = take (nat perPage) (drop (nat ((page - 1) * perPage)) xs)"
proof -
  let ?n = "int (length xs)" and ?s = "(page - 1) * perPage"
  have s: "0 \<le> ?s" using pos by simp
  show ?thesis
  proof (cases "?s < ?n")
    case True
    then have "page \<le> (?n + perPage - 1) div perPage" using pos ceil_div_le [of perPage page ?n] by simp
    then have "cutPage page perPage xs = take (nat (min (?s + perPage) ?n) - nat ?s) (drop (nat ?s) xs)"
      by (simp add: cutPage_def pageStart_def pageEnd_def goSlice_def Let_def)
    moreover have "nat (min (?s + perPage) ?n) - nat ?s = min (nat perPage) (nat ?n - nat ?s)"
      using True s pos by linarith
    ultimately show ?thesis by (simp add: min_def)
  next
    case False
    then have "\<not> page \<le> (?n + perPage - 1) div perPage" using pos ceil_div_le [of perPage page ?n] by simp
    then have "cutPage page perPage xs = []"
      using pos by (simp add: cutPage_def pageStart_def pageEnd_def goSlice_def)
    moreover have "length xs \<le> nat ?s" using False by linarith
    ultimately show ?thesis by simp
  qed
qed

lemma nextPageOf_iff:
  assumes "1 \<le> page" "1 \<le> perPage" "0 \<le> n"
  shows "nextPageOf page perPage n = (if page * perPage < n then Some (page + 1) else None)"
proof -
  have "page \<le> (n + perPage - 1) div perPage \<longleftrightarrow> (page - 1) * perPage < n"
    using assms(2) by (simp add: ceil_div_le)
  moreover have "(page - 1) * perPage + perPage = page * perPage" by (simp add: left_diff_distrib)
  ultimately show ?thesis using assms by (auto simp: nextPageOf_def pageEnd_def pageStart_def min_def)
qed

locale paginator =
  fixes pageOf :: "int \<Rightarrow> int \<Rightarrow> 'a list \<Rightarrow> 'a list"
    and view :: "'a list \<Rightarrow> 'a list"
  assumes page_slice: "1 \<le> page \<Longrightarrow> 1 \<le> perPage \<Longrightarrow>
    pageOf page perPage xs = take (nat perPage) (drop (nat ((page - 1) * perPage)) (view xs))"
    and view_length: "length (view xs) = length xs"
begin

lemma page_length: "1 \<le> page \<Longrightarrow> 1 \<le> perPage \<Longrightarrow> int (length (pageOf page perPage xs)) \<le> perPage"
  by (simp add: page_slice)

lemma page_beyond:
  assumes "1 \<le> perPage" "pageCount (int (length xs)) perPage < page" "1 \<le> page"
  shows "pageOf page perPage xs = []"
proof -
  have "\<not> (page - 1) * perPage < int (length xs)"
    using assms ceil_div_le [of perPage page "int (length xs)"] by (simp add: pageCount_def)
  then have "length xs \<le> nat ((page - 1) * perPage)" by linarith
  then show ?thesis using assms by (simp add: page_slice view_length)
qed

lemma pages_upto:
  assumes "1 \<le> perPage"
  shows "concat (map (\<lambda>k. pageOf (int k + 1) perPage xs) [0..<n]) = take (n * nat perPage) (view xs)"
proof (induction n)
  case 0
  then show ?case by simp
next
  case (Suc n)
  have "pageOf (int n + 1) perPage xs = take (nat perPage) (drop (n * nat perPage) (view xs))"
    using assms by (simp add: page_slice nat_mult_distrib mult.commute)
  moreover have "Suc n * nat perPage = n * nat perPage + nat perPage" by simp
  ultimately show ?case using Suc by (simp only: take_add upt_Suc_append) simp
qed

lemma pages_all:
  assumes "1 \<le> perPage" "pageCount (int (length xs)) perPage \<le> int n"
  shows "concat (map (\<lambda>k. pageOf (int k + 1) perPage xs) [0..<n]) = view xs"
proof -
  have "\<not> int n * perPage < int (length xs)"
    using assms ceil_div_le [of perPage "int n + 1" "int (length xs)"] by (simp add: pageCount_def)
  moreover have "int (n * nat perPage) = int n * perPage" using assms(1) by simp
  ultimately have "length xs \<le> n * nat perPage" by linarith
  then show ?thesis by (simp add: pages_upto [OF assms(1)] view_length)
qed

end

end
