(* ===== verification/GoString.thy ===== *)
theory GoString
  imports GoPrelude
begin

text \<open>
  The part of Go's \<open>strings\<close>, \<open>bytes\<close> and \<open>strconv\<close> packages that the program
  calls. A Go string is a list of bytes, a HOL \<open>string\<close> (a \<open>char\<close> is a byte), so
  \<open>length\<close> is Go's \<open>len\<close>. These definitions model the standard library, not files
  under src/.
\<close>

section \<open>Prefixes, suffixes, substrings\<close>

definition hasPrefix :: "string \<Rightarrow> string \<Rightarrow> bool" where
  "hasPrefix s p \<longleftrightarrow> take (length p) s = p"

definition hasSuffix :: "string \<Rightarrow> string \<Rightarrow> bool" where
  "hasSuffix s p \<longleftrightarrow> length p \<le> length s \<and> drop (length s - length p) s = p"

definition trimPrefix :: "string \<Rightarrow> string \<Rightarrow> string" where
  "trimPrefix s p = (if hasPrefix s p then drop (length p) s else s)"

definition trimSuffix :: "string \<Rightarrow> string \<Rightarrow> string" where
  "trimSuffix s p = (if hasSuffix s p then take (length s - length p) s else s)"

lemma hasPrefix_append [simp]: "hasPrefix (p @ s) p"
  by (simp add: hasPrefix_def)

lemma hasPrefix_iff: "hasPrefix s p \<longleftrightarrow> (\<exists>t. s = p @ t)"
  by (metis append_eq_conv_conj append_take_drop_id hasPrefix_def)

lemma hasSuffix_iff: "hasSuffix s p \<longleftrightarrow> (\<exists>t. s = t @ p)"
proof
  assume "hasSuffix s p"
  then have "s = take (length s - length p) s @ p"
    by (metis append_take_drop_id hasSuffix_def)
  then show "\<exists>t. s = t @ p" ..
next
  assume "\<exists>t. s = t @ p"
  then show "hasSuffix s p" by (auto simp: hasSuffix_def)
qed

lemma trimSuffix_append [simp]: "trimSuffix (s @ p) p = s"
  by (simp add: trimSuffix_def hasSuffix_def)

lemma trimPrefix_append [simp]: "trimPrefix (p @ s) p = s"
  by (simp add: trimPrefix_def)

text \<open>\<open>strings.Index\<close>: the first position at which the needle occurs.\<close>

fun indexOf :: "string \<Rightarrow> string \<Rightarrow> nat option" where
  "indexOf [] needle = (if needle = [] then Some 0 else None)"
| "indexOf (c # cs) needle =
     (if hasPrefix (c # cs) needle then Some 0 else map_option Suc (indexOf cs needle))"

definition contains :: "string \<Rightarrow> string \<Rightarrow> bool" where
  "contains s needle \<longleftrightarrow> indexOf s needle \<noteq> None"

lemma indexOf_Some:
  "indexOf s n = Some i \<Longrightarrow> hasPrefix (drop i s) n \<and> i + length n \<le> length s \<and>
     (\<forall>j < i. \<not> hasPrefix (drop j s) n)"
proof (induction s arbitrary: i)
  case Nil
  then show ?case by (auto simp: hasPrefix_def split: if_splits)
next
  case (Cons c cs)
  show ?case
  proof (cases "hasPrefix (c # cs) n")
    case True
    then have "length n \<le> length (c # cs)"
      by (metis hasPrefix_def length_take min.cobounded1 min.commute)
    with True Cons.prems show ?thesis by auto
  next
    case False
    with Cons.prems obtain k where k: "i = Suc k" "indexOf cs n = Some k" by auto
    have "\<not> hasPrefix (drop j (c # cs)) n" if "j < i" for j
      using that Cons.IH [OF k(2)] k(1) False by (cases j) auto
    with Cons.IH [OF k(2)] k(1) show ?thesis by auto
  qed
qed

lemma indexOf_None: "indexOf s n = None \<Longrightarrow> \<not> hasPrefix (drop j s) n"
proof (induction s arbitrary: j)
  case Nil
  then show ?case by (auto simp: hasPrefix_def split: if_splits)
next
  case (Cons c cs)
  then show ?case by (cases j) (auto split: if_splits)
qed

lemma contains_iff: "contains s n \<longleftrightarrow> (\<exists>a b. s = a @ n @ b)"
proof
  assume "contains s n"
  then obtain i where "indexOf s n = Some i" by (auto simp: contains_def)
  then have "hasPrefix (drop i s) n" using indexOf_Some by blast
  then show "\<exists>a b. s = a @ n @ b" by (metis append_take_drop_id hasPrefix_iff)
next
  assume "\<exists>a b. s = a @ n @ b"
  then obtain a b where "s = a @ n @ b" by blast
  then have "hasPrefix (drop (length a) s) n" by (simp add: hasPrefix_iff)
  then show "contains s n" unfolding contains_def using indexOf_None by blast
qed

section \<open>Split and join\<close>

text \<open>\<open>strings.Split(s, sep)\<close> for a one-byte separator.\<close>

fun splitOn :: "char \<Rightarrow> string \<Rightarrow> string list" where
  "splitOn c [] = [[]]"
| "splitOn c (x # xs) =
     (if x = c then [] # splitOn c xs
      else (case splitOn c xs of [] \<Rightarrow> [[x]] | y # ys \<Rightarrow> (x # y) # ys))"

fun joinWith :: "string \<Rightarrow> string list \<Rightarrow> string" where
  "joinWith sep [] = []"
| "joinWith sep [x] = x"
| "joinWith sep (x # y # ys) = x @ sep @ joinWith sep (y # ys)"

lemma splitOn_nonempty [simp]: "splitOn c s \<noteq> []"
  by (cases s) (auto split: list.splits)

lemma joinWith_Cons: "xs \<noteq> [] \<Longrightarrow> joinWith sep (x # xs) = x @ sep @ joinWith sep xs"
  by (cases xs) auto

lemma joinWith_append:
  "xs \<noteq> [] \<Longrightarrow> ys \<noteq> [] \<Longrightarrow> joinWith sep (xs @ ys) = joinWith sep xs @ sep @ joinWith sep ys"
proof (induction xs)
  case Nil
  then show ?case by simp
next
  case (Cons x xs)
  then show ?case by (cases "xs = []") (auto simp: joinWith_Cons)
qed

lemma join_split [simp]: "joinWith [c] (splitOn c s) = s"
proof (induction s)
  case Nil
  then show ?case by simp
next
  case (Cons x xs)
  show ?case
  proof (cases "splitOn c xs")
    case Nil
    then show ?thesis by simp
  next
    case (Cons y ys)
    with Cons.IH show ?thesis
      by (cases ys) (auto simp: joinWith_Cons)
  qed
qed

lemma splitOn_no_sep: "p \<in> set (splitOn c s) \<Longrightarrow> c \<notin> set p"
  by (induction s arbitrary: p) (auto split: if_splits list.splits)

lemma splitOn_id: "c \<notin> set s \<Longrightarrow> splitOn c s = [s]"
  by (induction s) auto

lemma splitOn_sep: "c \<notin> set a \<Longrightarrow> splitOn c (a @ c # b) = a # splitOn c b"
  by (induction a) auto

lemma splitOn_append_sep: "splitOn c (a @ c # b) = splitOn c a @ splitOn c b"
proof (induction a)
  case Nil
  then show ?case by simp
next
  case (Cons x xs)
  then show ?case by (cases "splitOn c xs") auto
qed

lemma split_join:
  "ps \<noteq> [] \<Longrightarrow> (\<And>p. p \<in> set ps \<Longrightarrow> c \<notin> set p) \<Longrightarrow> splitOn c (joinWith [c] ps) = ps"
proof (induction ps)
  case Nil
  then show ?case by simp
next
  case (Cons p ps)
  then show ?case
    by (cases ps) (auto simp: splitOn_id splitOn_sep)
qed

lemma length_splitOn_pos: "0 < length (splitOn c s)"
  by simp

text \<open>\<open>strings.Cut\<close>: the parts around the first separator, if there is one.\<close>

definition cut :: "string \<Rightarrow> string \<Rightarrow> (string \<times> string) option" where
  "cut s sep = (case indexOf s sep of None \<Rightarrow> None
     | Some i \<Rightarrow> Some (take i s, drop (i + length sep) s))"

lemma cut_Some: "cut s sep = Some (a, b) \<Longrightarrow> s = a @ sep @ b"
proof -
  assume "cut s sep = Some (a, b)"
  then obtain i where i: "indexOf s sep = Some i" "a = take i s" "b = drop (i + length sep) s"
    by (auto simp: cut_def split: option.splits)
  from indexOf_Some [OF i(1)] obtain t where "drop i s = sep @ t" by (auto simp: hasPrefix_iff)
  then have "s = take i s @ sep @ t" and "t = drop (i + length sep) s"
    by (metis append_take_drop_id)
      (metis add.commute append_eq_conv_conj drop_drop \<open>drop i s = sep @ t\<close>)
  with i show ?thesis by simp
qed

section \<open>Replacement\<close>

text \<open>\<open>strings.ReplaceAll\<close> with a non-empty old string: a left-to-right scan that
  replaces non-overlapping occurrences.\<close>

function replaceAll :: "string \<Rightarrow> string \<Rightarrow> string \<Rightarrow> string" where
  "replaceAll s old new =
     (if old = [] then s else
      case s of [] \<Rightarrow> []
      | c # cs \<Rightarrow> if hasPrefix s old then new @ replaceAll (drop (length old) s) old new
                 else c # replaceAll cs old new)"
  by pat_completeness auto
termination
  by (relation "measure (\<lambda>(s, old, new). length s)") auto

declare replaceAll.simps [simp del]

section \<open>Trimming\<close>

text \<open>The UTF-8 encodings of the runes \<open>unicode.IsSpace\<close> accepts.\<close>

definition goSpaces :: "string list" where
  "goSpaces = map (\<lambda>c. [c]) [CHR 0x09, CHR 0x0A, CHR 0x0B, CHR 0x0C, CHR 0x0D, CHR 0x20]
     @ [[CHR 0xC2, CHR 0x85], [CHR 0xC2, CHR 0xA0], [CHR 0xE1, CHR 0x9A, CHR 0x80],
        [CHR 0xE2, CHR 0x80, CHR 0x80], [CHR 0xE2, CHR 0x80, CHR 0x81],
        [CHR 0xE2, CHR 0x80, CHR 0x82], [CHR 0xE2, CHR 0x80, CHR 0x83],
        [CHR 0xE2, CHR 0x80, CHR 0x84], [CHR 0xE2, CHR 0x80, CHR 0x85],
        [CHR 0xE2, CHR 0x80, CHR 0x86], [CHR 0xE2, CHR 0x80, CHR 0x87],
        [CHR 0xE2, CHR 0x80, CHR 0x88], [CHR 0xE2, CHR 0x80, CHR 0x89],
        [CHR 0xE2, CHR 0x80, CHR 0x8A], [CHR 0xE2, CHR 0x80, CHR 0xA8],
        [CHR 0xE2, CHR 0x80, CHR 0xA9], [CHR 0xE2, CHR 0x80, CHR 0xAF],
        [CHR 0xE2, CHR 0x81, CHR 0x9F], [CHR 0xE3, CHR 0x80, CHR 0x80]]"

lemma goSpaces_nonempty: "w \<in> set goSpaces \<Longrightarrow> 0 < length w"
  by (auto simp: goSpaces_def)

function trimLeft :: "string list \<Rightarrow> string \<Rightarrow> string" where
  "trimLeft ws s = (case List.find (\<lambda>w. 0 < length w \<and> hasPrefix s w) ws of
     None \<Rightarrow> s | Some w \<Rightarrow> trimLeft ws (drop (length w) s))"
  by pat_completeness auto
termination
  by (relation "measure (\<lambda>(ws, s). length s)")
    (auto simp: find_Some_iff hasPrefix_def intro!: diff_less)

function trimRight :: "string list \<Rightarrow> string \<Rightarrow> string" where
  "trimRight ws s = (case List.find (\<lambda>w. 0 < length w \<and> hasSuffix s w) ws of
     None \<Rightarrow> s | Some w \<Rightarrow> trimRight ws (take (length s - length w) s))"
  by pat_completeness auto
termination
  by (relation "measure (\<lambda>(ws, s). length s)")
    (auto simp: find_Some_iff hasSuffix_def intro!: diff_less Suc_leI)

declare trimLeft.simps [simp del] trimRight.simps [simp del]

definition trimSpace :: "string \<Rightarrow> string" where
  "trimSpace s = trimRight goSpaces (trimLeft goSpaces s)"

section \<open>Case folding\<close>

text \<open>
  \<open>strings.ToLower\<close>, as far as a comparison with ASCII text can see it: ASCII letters,
  and the two non-ASCII runes whose lower case is ASCII (the Kelvin sign U+212A and the
  dotted capital I, U+0130). Other bytes are left as they are.
\<close>

definition lowerByte :: "char \<Rightarrow> char" where
  "lowerByte c = (if of_char c \<ge> (65::nat) \<and> of_char c \<le> (90::nat)
     then char_of (of_char c + (32::nat)) else c)"

fun toLower :: "string \<Rightarrow> string" where
  "toLower (a # b # c # s) =
     (if [a, b, c] = [CHR 0xE2, CHR 0x84, CHR 0xAA] then CHR ''k'' # toLower s
      else if [a, b] = [CHR 0xC4, CHR 0xB0] then CHR ''i'' # toLower (c # s)
      else lowerByte a # toLower (b # c # s))"
| "toLower [a, b] = (if [a, b] = [CHR 0xC4, CHR 0xB0] then [CHR ''i''] else [lowerByte a, lowerByte b])"
| "toLower [a] = [lowerByte a]"
| "toLower [] = []"

section \<open>Numbers\<close>

definition digitChar :: "nat \<Rightarrow> char" where
  "digitChar d = char_of (48 + d)"

fun natDigits :: "nat \<Rightarrow> string" where
  "natDigits n = (if n < 10 then [digitChar n] else natDigits (n div 10) @ [digitChar (n mod 10)])"

declare natDigits.simps [simp del]

text \<open>\<open>strconv.FormatInt(n, 10)\<close> and \<open>strconv.Itoa\<close>.\<close>

definition formatInt :: "int \<Rightarrow> string" where
  "formatInt n = (if n < 0 then CHR ''-'' # natDigits (nat (- n)) else natDigits (nat n))"

definition isDigit :: "char \<Rightarrow> bool" where
  "isDigit c \<longleftrightarrow> 48 \<le> (of_char c :: nat) \<and> (of_char c :: nat) \<le> 57"

definition digitValue :: "char \<Rightarrow> int" where
  "digitValue c = int (of_char c :: nat) - 48"

definition digitsValue :: "string \<Rightarrow> int" where
  "digitsValue s = foldl (\<lambda>n c. 10 * n + digitValue c) 0 s"

definition maxInt64 :: int where "maxInt64 = 9223372036854775807"
definition minInt64 :: int where "minInt64 = - 9223372036854775808"

text \<open>\<open>strconv.ParseInt(s, 10, 64)\<close>: an optional sign, at least one digit, in range;
  every other input is an error (\<open>None\<close>).\<close>

definition parseInt :: "string \<Rightarrow> int option" where
  "parseInt s =
     (let neg = (case s of c # _ \<Rightarrow> c = CHR ''-'' | [] \<Rightarrow> False);
          body = (case s of c # t \<Rightarrow> if c = CHR ''-'' \<or> c = CHR ''+'' then t else s | [] \<Rightarrow> []);
          v = (if neg then - digitsValue body else digitsValue body)
      in if body = [] \<or> \<not> list_all isDigit body then None
         else if v < minInt64 \<or> v > maxInt64 then None else Some v)"

lemma of_char_digit [simp]: "d < 10 \<Longrightarrow> (of_char (digitChar d) :: nat) = 48 + d"
  by (simp add: digitChar_def of_char_of)

lemma isDigit_digitChar: "d < 10 \<Longrightarrow> isDigit (digitChar d)"
  by (simp add: isDigit_def)

lemma natDigits_digits: "list_all isDigit (natDigits n)"
proof (induction n rule: natDigits.induct)
  case (1 n)
  then show ?case
    by (cases "n < 10") (auto simp: natDigits.simps [of n] isDigit_digitChar)
qed

lemma natDigits_nonempty [simp]: "natDigits n \<noteq> []"
  by (simp add: natDigits.simps [of n])

lemma digitValue_digitChar [simp]: "d < 10 \<Longrightarrow> digitValue (digitChar d) = int d"
  by (simp add: digitValue_def)

lemma digitsValue_natDigits [simp]: "digitsValue (natDigits n) = int n"
proof (induction n rule: natDigits.induct)
  case (1 n)
  show ?case
  proof (cases "n < 10")
    case True
    then show ?thesis by (simp add: natDigits.simps [of n] digitsValue_def)
  next
    case False
    with "1.IH" have "digitsValue (natDigits n) = 10 * int (n div 10) + int (n mod 10)"
      by (simp add: natDigits.simps [of n] digitsValue_def)
    then show ?thesis by presburger
  qed
qed

lemma natDigits_inj: "natDigits m = natDigits n \<longleftrightarrow> m = n"
  by (metis digitsValue_natDigits of_nat_eq_iff)

lemma natDigits_only_digits: "c \<in> set (natDigits n) \<Longrightarrow> isDigit c"
  using natDigits_digits [of n] by (simp add: list_all_iff)

lemma not_digit [simp]: "\<not> isDigit CHR ''-''" "\<not> isDigit CHR ''+''" "\<not> isDigit CHR ''/''"
  "\<not> isDigit CHR ''.''"
  by (simp_all add: isDigit_def)

lemma formatInt_inj: "formatInt m = formatInt n \<longleftrightarrow> m = n"
proof
  assume eq: "formatInt m = formatInt n"
  have no_sign: "natDigits k \<noteq> CHR ''-'' # t" for k t
    using natDigits_only_digits [of "CHR ''-''" k] by auto
  show "m = n"
  proof (cases "m < 0"; cases "n < 0")
    assume "m < 0" "n < 0"
    with eq show ?thesis by (simp add: formatInt_def natDigits_inj)
  next
    assume "m < 0" "\<not> n < 0"
    with eq show ?thesis using no_sign by (auto simp: formatInt_def dest: sym)
  next
    assume "\<not> m < 0" "n < 0"
    with eq show ?thesis using no_sign by (auto simp: formatInt_def)
  next
    assume "\<not> m < 0" "\<not> n < 0"
    with eq show ?thesis by (simp add: formatInt_def natDigits_inj)
  qed
qed simp

lemma parse_format:
  assumes "minInt64 \<le> n" "n \<le> maxInt64"
  shows "parseInt (formatInt n) = Some n"
proof (cases "n < 0")
  case True
  then have "formatInt n = CHR ''-'' # natDigits (nat (- n))" by (simp add: formatInt_def)
  with True assms show ?thesis
    by (simp add: parseInt_def Let_def natDigits_digits)
next
  case False
  then have f: "formatInt n = natDigits (nat n)" by (simp add: formatInt_def)
  obtain c t where ct: "natDigits (nat n) = c # t" by (cases "natDigits (nat n)") auto
  then have "isDigit c" using natDigits_digits [of "nat n"] by simp
  then have "c \<noteq> CHR ''-''" "c \<noteq> CHR ''+''" using not_digit by auto
  with False assms f ct show ?thesis
    using digitsValue_natDigits [of "nat n"] natDigits_digits [of "nat n"]
    by (simp add: parseInt_def Let_def)
qed

end
