(* ===== verification/GoUtf8.thy ===== *)
theory GoUtf8
  imports GoString
begin

text \<open>
  Go's \<open>unicode/utf8\<close> package as the program uses it, and the length of the JSON text
  that \<open>json.Marshal\<close> writes for a string. A rune is represented by its UTF-8 encoding,
  so \<open>[]rune(s)\<close> is the list of encodings \<open>goRunes s\<close> and \<open>string(runes)\<close> is their
  concatenation; a byte that does not decode becomes the encoding of U+FFFD, as in Go.
  The lemmas give the boundary structure of valid strings: cutting one at a rune start
  leaves two valid strings.
\<close>

section \<open>Decoding\<close>

definition byte :: "char \<Rightarrow> nat" where
  "byte c = of_char c"

definition isCont :: "char \<Rightarrow> bool" where
  "isCont c \<longleftrightarrow> 128 \<le> byte c \<and> byte c < 192"

text \<open>\<open>utf8.RuneStart\<close>.\<close>

definition runeStart :: "char \<Rightarrow> bool" where
  "runeStart c \<longleftrightarrow> \<not> isCont c"

text \<open>\<open>utf8.DecodeRuneInString\<close>: whether a rune decodes, and the width consumed.\<close>

definition leadWidth :: "nat \<Rightarrow> nat" where
  "leadWidth x = (if x < 128 then 1 else if 194 \<le> x \<and> x \<le> 223 then 2
     else if 224 \<le> x \<and> x \<le> 239 then 3 else if 240 \<le> x \<and> x \<le> 244 then 4 else 0)"

definition tailOk :: "nat \<Rightarrow> string \<Rightarrow> bool" where
  "tailOk x bs = (case bs of [] \<Rightarrow> True
     | b # rest \<Rightarrow>
         (if x = 224 then 160 else if x = 240 then 144 else 128) \<le> byte b \<and>
         byte b \<le> (if x = 237 then 159 else if x = 244 then 143 else 191) \<and>
         list_all isCont rest)"

fun runeWidth :: "string \<Rightarrow> bool \<times> nat" where
  "runeWidth [] = (False, 0)"
| "runeWidth (a # s) =
     (let w = leadWidth (byte a) in
      if 0 < w \<and> w - 1 \<le> length s \<and> tailOk (byte a) (take (w - 1) s) then (True, w)
      else (False, 1))"

lemma leadWidth_le: "leadWidth x \<le> 4"
  by (simp add: leadWidth_def)

lemma tailOk_cont: "tailOk x bs \<Longrightarrow> list_all isCont bs"
  by (auto simp: tailOk_def isCont_def split: list.splits if_splits)

lemma leadWidth_start: "0 < leadWidth (byte c) \<Longrightarrow> runeStart c"
  by (auto simp: leadWidth_def runeStart_def isCont_def split: if_splits)

lemma runeWidth_bounds:
  "s \<noteq> [] \<Longrightarrow> runeWidth s = (ok, n) \<Longrightarrow> 1 \<le> n \<and> n \<le> 4 \<and> n \<le> length s"
  by (cases s) (auto simp: Let_def leadWidth_le split: if_splits)

lemma runeWidth_decreases: "s \<noteq> [] \<Longrightarrow> (ok, n) = runeWidth s \<Longrightarrow> length s - n < length s"
  using runeWidth_bounds [of s ok n] by (cases s) auto

lemma runeWidth_cont:
  "runeWidth s = (True, n) \<Longrightarrow> runeStart (hd s) \<and> list_all isCont (take (n - 1) (tl s))"
  by (cases s) (auto simp: Let_def leadWidth_start tailOk_cont split: if_splits)

lemma runeWidth_take: "runeWidth s = (True, n) \<Longrightarrow> n \<le> k \<Longrightarrow> runeWidth (take k s) = (True, n)"
  by (cases s; cases k) (auto simp: Let_def min_def split: if_splits)

lemma runeWidth_append: "runeWidth s = (True, n) \<Longrightarrow> runeWidth (s @ t) = (True, n)"
  by (cases s) (auto simp: Let_def split: if_splits)

definition replacementChar :: string where
  "replacementChar = [CHR 0xEF, CHR 0xBF, CHR 0xBD]"

text \<open>\<open>[]rune(s)\<close>.\<close>

function goRunes :: "string \<Rightarrow> string list" where
  "goRunes s = (if s = [] then [] else
     (case runeWidth s of (ok, n) \<Rightarrow>
        (if ok then take n s else replacementChar) # goRunes (drop n s)))"
  by pat_completeness auto
termination
  by (relation "measure length") (auto simp: runeWidth_decreases)

text \<open>\<open>utf8.Valid\<close> and \<open>utf8.ValidString\<close>.\<close>

function validUtf8 :: "string \<Rightarrow> bool" where
  "validUtf8 s = (if s = [] then True else
     (case runeWidth s of (ok, n) \<Rightarrow> if ok then validUtf8 (drop n s) else False))"
  by pat_completeness auto
termination
  by (relation "measure length") (auto simp: runeWidth_decreases)

declare goRunes.simps [simp del] validUtf8.simps [simp del]

lemma validUtf8_Nil [simp]: "validUtf8 []"
  by (simp add: validUtf8.simps)

lemma goRunes_Nil [simp]: "goRunes [] = []"
  by (simp add: goRunes.simps)

lemma validUtf8_step:
  assumes "validUtf8 s" "s \<noteq> []"
  obtains n where "runeWidth s = (True, n)" "1 \<le> n" "n \<le> 4" "n \<le> length s" "validUtf8 (drop n s)"
proof -
  from assms obtain n where n: "runeWidth s = (True, n)" "validUtf8 (drop n s)"
    by (auto simp: validUtf8.simps [of s] split: prod.splits if_splits)
  with runeWidth_bounds [OF assms(2) n(1)] show thesis by (intro that) auto
qed

lemma validUtf8_stepI: "runeWidth s = (True, n) \<Longrightarrow> validUtf8 (drop n s) \<Longrightarrow> validUtf8 s"
  by (simp add: validUtf8.simps [of s])

lemma validUtf8_start: "validUtf8 s \<Longrightarrow> s \<noteq> [] \<Longrightarrow> runeStart (hd s)"
  by (metis runeWidth_cont validUtf8_step)

lemma concat_goRunes [simp]: "validUtf8 s \<Longrightarrow> concat (goRunes s) = s"
proof (induction s rule: length_induct)
  case (1 s)
  show ?case
  proof (cases "s = []")
    case False
    with "1.prems" obtain n where n: "runeWidth s = (True, n)" "1 \<le> n" "n \<le> length s"
      "validUtf8 (drop n s)" by (rule validUtf8_step)
    with "1.IH" False have "concat (goRunes (drop n s)) = drop n s" by simp
    with n False show ?thesis by (simp add: goRunes.simps [of s])
  qed simp
qed

section \<open>Boundaries\<close>

definition boundary :: "string \<Rightarrow> nat \<Rightarrow> bool" where
  "boundary s i \<longleftrightarrow> i = length s \<or> (i < length s \<and> runeStart (s ! i))"

lemma boundary_length [simp]: "boundary s (length s)"
  by (simp add: boundary_def)

lemma boundary_le: "boundary s i \<Longrightarrow> i \<le> length s"
  by (auto simp: boundary_def)

text \<open>No rune start lies strictly inside a decoded rune.\<close>

lemma no_start_inside:
  assumes "runeWidth s = (True, n)" "0 < i" "i < n" "n \<le> length s"
  shows "\<not> runeStart (s ! i)"
proof -
  from assms obtain a t where s: "s = a # t" by (cases s) auto
  from runeWidth_cont [OF assms(1)] s have "list_all isCont (take (n - 1) t)" by simp
  moreover have "t ! (i - 1) \<in> set (take (n - 1) t)"
    using assms s by (auto simp: in_set_conv_nth intro!: exI [of _ "i - 1"])
  ultimately have "isCont (t ! (i - 1))" by (simp add: list_all_iff)
  with assms(2) s show ?thesis by (simp add: runeStart_def nth_Cons')
qed

lemma valid_drop_take:
  "validUtf8 s \<Longrightarrow> boundary s i \<Longrightarrow> validUtf8 (drop i s) \<and> validUtf8 (take i s)"
proof (induction s arbitrary: i rule: length_induct)
  case (1 s)
  show ?case
  proof (cases "s = [] \<or> i = 0 \<or> i = length s")
    case True
    with "1.prems" show ?thesis by auto
  next
    case False
    with "1.prems"(1) obtain n where n: "runeWidth s = (True, n)" "1 \<le> n" "n \<le> length s"
      "validUtf8 (drop n s)" using validUtf8_step by metis
    from False "1.prems"(2) have i: "0 < i" "i < length s" "runeStart (s ! i)"
      by (auto simp: boundary_def)
    with no_start_inside [OF n(1)] n(3) have "n \<le> i" by (meson not_le)
    then have b: "boundary (drop n s) (i - n)" using i by (auto simp: boundary_def)
    have "length (drop n s) < length s" using n False by auto
    with "1.IH" n(4) b have "validUtf8 (drop (i - n) (drop n s)) \<and> validUtf8 (take (i - n) (drop n s))"
      by blast
    moreover have "take (i - n) (drop n s) = drop n (take i s)"
      by (simp add: drop_take)
    moreover have "runeWidth (take i s) = (True, n)" using runeWidth_take n(1) \<open>n \<le> i\<close> by blast
    ultimately show ?thesis using \<open>n \<le> i\<close> by (auto intro: validUtf8_stepI)
  qed
qed

lemma boundary_next:
  assumes "validUtf8 s" "boundary s i" "i < length s" "runeWidth (drop i s) = (ok, n)"
  shows "boundary s (i + n) \<and> ok \<and> 1 \<le> n \<and> n \<le> 4"
proof -
  have v: "validUtf8 (drop i s)" using valid_drop_take assms by blast
  with assms obtain m where m: "runeWidth (drop i s) = (True, m)" "1 \<le> m" "m \<le> 4"
    "m \<le> length (drop i s)" "validUtf8 (drop m (drop i s))"
    by (metis drop_eq_Nil not_le validUtf8_step)
  then have "boundary s (i + m)"
  proof (cases "i + m = length s")
    case False
    with m(4) assms(3) have lt: "i + m < length s" by auto
    then have "runeStart (hd (drop m (drop i s)))" using m(5) validUtf8_start by simp
    with lt show ?thesis by (simp add: boundary_def hd_drop_conv_nth add.commute)
  qed (simp add: boundary_def)
  with m assms(4) show ?thesis by simp
qed

section \<open>JSON string length\<close>

text \<open>
  The bytes \<open>json.Marshal\<close> writes for one rune of a string with HTML escaping on: two for
  the short escapes, six for \<open>\u00XX\<close>, for \<open><\<close>, \<open>>\<close>, \<open>&\<close>, for U+2028 and U+2029 and for
  an undecodable byte, the width otherwise.
\<close>

definition jsonRuneLen :: "bool \<Rightarrow> string \<Rightarrow> nat" where
  "jsonRuneLen ok r =
     (if \<not> ok then 6
      else if length r = 1 then
        (let x = byte (hd r) in
         if x \<in> {34, 92, 8, 9, 10, 12, 13} then 2
         else if x < 32 \<or> x \<in> {38, 60, 62} then 6 else 1)
      else if r = [CHR 0xE2, CHR 0x80, CHR 0xA8] \<or> r = [CHR 0xE2, CHR 0x80, CHR 0xA9] then 6
      else length r)"

function encodedStringLength :: "string \<Rightarrow> nat" where
  "encodedStringLength s = (if s = [] then 0 else
     (case runeWidth s of (ok, n) \<Rightarrow>
        jsonRuneLen ok (take n s) + encodedStringLength (drop n s)))"
  by pat_completeness auto
termination
  by (relation "measure length") (auto simp: runeWidth_decreases)

declare encodedStringLength.simps [simp del]

lemma encodedStringLength_Nil [simp]: "encodedStringLength [] = 0"
  by (simp add: encodedStringLength.simps)

lemma jsonRuneLen_le: "jsonRuneLen ok r \<le> max 6 (length r)"
  by (auto simp: jsonRuneLen_def Let_def)

lemma runeWidth_exact: "runeWidth s = (True, n) \<Longrightarrow> runeWidth (take n s) = (True, n)"
  using runeWidth_take by blast

lemma encodedStringLength_rune:
  assumes "runeWidth s = (True, n)" "s \<noteq> []"
  shows "encodedStringLength (take n s) = jsonRuneLen True (take n s)"
proof -
  have "take n s \<noteq> []" using runeWidth_bounds [OF assms(2,1)] by (cases s) auto
  with runeWidth_exact [OF assms(1)] show ?thesis
    by (simp add: encodedStringLength.simps [of "take n s"])
qed

lemma encodedStringLength_append:
  "validUtf8 s \<Longrightarrow> encodedStringLength (s @ t) = encodedStringLength s + encodedStringLength t"
proof (induction s rule: length_induct)
  case (1 s)
  show ?case
  proof (cases "s = []")
    case False
    with "1.prems" obtain n where n: "runeWidth s = (True, n)" "1 \<le> n" "n \<le> length s"
      "validUtf8 (drop n s)" by (rule validUtf8_step)
    with "1.IH" False
    have "encodedStringLength (drop n s @ t) = encodedStringLength (drop n s) + encodedStringLength t"
      by simp
    with n False runeWidth_append [OF n(1)] show ?thesis
      by (simp add: encodedStringLength.simps [of s] encodedStringLength.simps [of "s @ t"])
  qed simp
qed

end
