(* ===== verification/GoPath.thy ===== *)
theory GoPath
  imports GoUtf8
begin

text \<open>
  Go's \<open>path\<close> package (and \<open>path/filepath\<close> on Unix, where the separator is the same):
  \<open>Clean\<close>, \<open>Join\<close>, \<open>Base\<close>, \<open>Dir\<close> and \<open>Match\<close>. \<open>Clean\<close> is written over the slash-separated
  components, following its documentation: empty and "." components vanish, an inner ".." removes
  the component before it, a ".." at the root vanishes. The lemmas say that a cleaned
  rooted path has only normal components, and what joining normal components onto it gives.
\<close>

section \<open>Clean and Join\<close>

definition slash :: char where "slash = CHR ''/''"

definition cleanStep :: "bool \<Rightarrow> string list \<Rightarrow> string \<Rightarrow> string list" where
  "cleanStep rooted st c =
     (if c = [] \<or> c = ''.'' then st
      else if c = ''..'' then
        (case st of
           p # ps \<Rightarrow> if p \<noteq> ''..'' then ps else if rooted then st else c # st
         | [] \<Rightarrow> if rooted then [] else [c])
      else c # st)"

definition cleanComps :: "bool \<Rightarrow> string \<Rightarrow> string list" where
  "cleanComps rooted s = rev (foldl (cleanStep rooted) [] (splitOn slash s))"

definition isRooted :: "string \<Rightarrow> bool" where
  "isRooted s \<longleftrightarrow> (case s of c # _ \<Rightarrow> c = slash | [] \<Rightarrow> False)"

definition pathClean :: "string \<Rightarrow> string" where
  "pathClean s =
     (if s = [] then ''.''
      else if isRooted s then slash # joinWith [slash] (cleanComps True s)
      else if cleanComps False s = [] then ''.''
      else joinWith [slash] (cleanComps False s))"

definition pathJoin :: "string list \<Rightarrow> string" where
  "pathJoin elems = (case dropWhile (\<lambda>e. e = []) elems of
     [] \<Rightarrow> [] | es \<Rightarrow> pathClean (joinWith [slash] es))"

text \<open>\<open>path.Base\<close>: the last element, after dropping trailing slashes.\<close>

definition pathBase :: "string \<Rightarrow> string" where
  "pathBase s =
     (if s = [] then ''.''
      else (let t = rev (dropWhile (\<lambda>c. c = slash) (rev s)) in
            if t = [] then [slash] else last (splitOn slash t)))"

text \<open>\<open>path.Dir\<close>: everything up to the final slash, cleaned.\<close>

definition pathDir :: "string \<Rightarrow> string" where
  "pathDir s = pathClean (rev (dropWhile (\<lambda>c. c \<noteq> slash) (rev s)))"

definition normalComp :: "string \<Rightarrow> bool" where
  "normalComp c \<longleftrightarrow> c \<noteq> [] \<and> c \<noteq> ''.'' \<and> c \<noteq> ''..'' \<and> slash \<notin> set c"

lemma normalComp_step [simp]: "normalComp c \<Longrightarrow> cleanStep r st c = c # st"
  by (simp add: normalComp_def cleanStep_def)

lemma foldl_normal: "list_all normalComp cs \<Longrightarrow> foldl (cleanStep r) st cs = rev cs @ st"
  by (induction cs arbitrary: st) auto

lemma cleanStep_rooted:
  "list_all normalComp st \<Longrightarrow> slash \<notin> set c \<Longrightarrow> list_all normalComp (cleanStep True st c)"
  by (auto simp: cleanStep_def normalComp_def split: list.splits)

lemma cleanComps_rooted: "list_all normalComp (cleanComps True s)"
proof -
  have "list_all normalComp (foldl (cleanStep True) st cs)"
    if "list_all normalComp st" "\<And>c. c \<in> set cs \<Longrightarrow> slash \<notin> set c" for st cs
    using that by (induction cs arbitrary: st) (auto simp: cleanStep_rooted)
  from this [of "[]" "splitOn slash s"] show ?thesis
    using splitOn_no_sep by (auto simp: cleanComps_def)
qed

lemma cleanComps_append:
  assumes "list_all normalComp ps" "ps \<noteq> []"
  shows "cleanComps r (d @ slash # joinWith [slash] ps) = cleanComps r d @ ps"
proof -
  have "splitOn slash (joinWith [slash] ps) = ps"
    using assms by (intro split_join) (auto simp: list_all_iff normalComp_def)
  then show ?thesis
    using assms(1) by (simp add: cleanComps_def splitOn_append_sep foldl_normal)
qed

lemma cleanComps_normal:
  assumes "list_all normalComp ps" "ps \<noteq> []"
  shows "cleanComps r (joinWith [slash] ps) = ps"
proof -
  have "splitOn slash (joinWith [slash] ps) = ps"
    using assms by (intro split_join) (auto simp: list_all_iff normalComp_def)
  then show ?thesis
    using assms(1) by (simp add: cleanComps_def foldl_normal)
qed

lemma isRooted_Cons: "isRooted (slash # s)"
  by (simp add: isRooted_def)

lemma isRooted_append: "d \<noteq> [] \<Longrightarrow> isRooted (d @ s) = isRooted d"
  by (cases d) (auto simp: isRooted_def)

lemma joinWith_eq_Nil: "joinWith [c] ps = [] \<longleftrightarrow> ps = [] \<or> ps = [[]]"
  by (cases ps; cases "tl ps") auto

lemma not_rooted_join:
  "list_all normalComp ps \<Longrightarrow> ps \<noteq> [] \<Longrightarrow> \<not> isRooted (joinWith [slash] ps)"
  by (cases ps; cases "hd ps"; cases "tl ps") (auto simp: isRooted_def normalComp_def)

lemma pathClean_normal:
  assumes "list_all normalComp ps" "ps \<noteq> []"
  shows "pathClean (joinWith [slash] ps) = joinWith [slash] ps"
proof -
  have "joinWith [slash] ps \<noteq> []"
    using assms by (auto simp: joinWith_eq_Nil normalComp_def)
  then show ?thesis
    using assms by (simp add: pathClean_def not_rooted_join cleanComps_normal)
qed

text \<open>The components a cleaned path has, rooted or not.\<close>

definition rootComps :: "string \<Rightarrow> string list" where
  "rootComps d = cleanComps (isRooted d) d"

lemma pathJoin_normal:
  assumes "d \<noteq> []" "list_all normalComp ps" "ps \<noteq> []"
  shows "pathJoin (d # ps) =
    (if isRooted d then [slash] else []) @ joinWith [slash] (rootComps d @ ps)"
proof -
  have "joinWith [slash] (d # ps) = d @ slash # joinWith [slash] ps"
    using assms(3) by (simp add: joinWith_Cons)
  with assms show ?thesis
    by (simp add: pathJoin_def pathClean_def isRooted_append cleanComps_append rootComps_def)
qed

lemma set_cleanStep: "set (cleanStep r st a) \<subseteq> insert a (set st)"
  by (auto simp: cleanStep_def split: if_splits list.splits)

lemma rootComps_no_slash: "c \<in> set (rootComps d) \<Longrightarrow> slash \<notin> set c"
proof -
  have "slash \<notin> set c" if "c \<in> set (foldl (cleanStep r) st cs)"
    "\<And>x. x \<in> set cs \<Longrightarrow> slash \<notin> set x" "\<And>x. x \<in> set st \<Longrightarrow> slash \<notin> set x" for r st cs c
    using that
  proof (induction cs arbitrary: st)
    case (Cons a cs)
    have "\<And>x. x \<in> set (cleanStep r st a) \<Longrightarrow> slash \<notin> set x"
      using Cons.prems(2,3) set_cleanStep by fastforce
    with Cons.IH [of "cleanStep r st a"] Cons.prems show ?case by auto
  qed auto
  from this [of c "isRooted d" "[]" "splitOn slash d"]
  show "c \<in> set (rootComps d) \<Longrightarrow> slash \<notin> set c"
    by (simp add: rootComps_def cleanComps_def splitOn_no_sep)
qed

lemma pathJoin_inj:
  assumes "d \<noteq> []" "list_all normalComp ps" "list_all normalComp qs" "ps \<noteq> []" "qs \<noteq> []"
    and "pathJoin (d # ps) = pathJoin (d # qs)"
  shows "ps = qs"
proof -
  from assms have "joinWith [slash] (rootComps d @ ps) = joinWith [slash] (rootComps d @ qs)"
    by (simp add: pathJoin_normal)
  moreover have "splitOn slash (joinWith [slash] (rootComps d @ xs)) = rootComps d @ xs"
    if "list_all normalComp xs" "xs \<noteq> []" for xs
    using that rootComps_no_slash by (intro split_join) (auto simp: list_all_iff normalComp_def)
  ultimately show ?thesis using assms by (metis same_append_eq)
qed

section \<open>Match\<close>

text \<open>
  \<open>path.Match\<close>, chunk by chunk as the library runs it. \<open>None\<close> is \<open>ErrBadPattern\<close>.
  \<open>scanChunk\<close> splits the pattern at the next star outside a character class,
  \<open>matchChunk\<close> matches a star-free chunk at the start of the name and returns what
  is left, and after a star the chunk is tried at every position up to the next slash.
\<close>

fun scanBody :: "bool \<Rightarrow> string \<Rightarrow> string \<times> string" where
  "scanBody inrange [] = ([], [])"
| "scanBody inrange (c # cs) =
     (if c = CHR 0x5C then
        (case cs of [] \<Rightarrow> ([c], [])
         | d # ds \<Rightarrow> (let (a, b) = scanBody inrange ds in (c # d # a, b)))
      else if c = CHR ''['' then (let (a, b) = scanBody True cs in (c # a, b))
      else if c = CHR '']'' then (let (a, b) = scanBody False cs in (c # a, b))
      else if c = CHR ''*'' \<and> \<not> inrange then ([], c # cs)
      else (let (a, b) = scanBody inrange cs in (c # a, b)))"

definition scanChunk :: "string \<Rightarrow> bool \<times> string \<times> string" where
  "scanChunk pattern =
     (let p = dropWhile (\<lambda>c. c = CHR ''*'') pattern
      in (p \<noteq> pattern, scanBody False p))"

text \<open>\<open>getEsc\<close>: one possibly escaped character of a class and what follows it.\<close>

definition getEsc :: "string \<Rightarrow> (string \<times> string) option" where
  "getEsc chunk =
     (case chunk of [] \<Rightarrow> None
      | c # cs \<Rightarrow>
          if c = CHR ''-'' \<or> c = CHR '']'' then None
          else (let body = (if c = CHR 0x5C then cs else chunk) in
            if body = [] then None
            else (case runeWidth body of (ok, n) \<Rightarrow>
              if \<not> ok \<and> n = 1 then None
              else if drop n body = [] then None
              else Some (take n body, drop n body))))"

text \<open>The range loop of a class. Runes compare by code point, which is the bytewise order of
  their UTF-8 encodings.\<close>

fun classBody :: "nat \<Rightarrow> string \<Rightarrow> string \<Rightarrow> bool \<Rightarrow> nat \<Rightarrow> (bool \<times> string) option" where
  "classBody 0 r chunk m nrange = None"
| "classBody (Suc fuel) r chunk m nrange =
     (if chunk \<noteq> [] \<and> hd chunk = CHR '']'' \<and> nrange > 0 then Some (m, tl chunk)
      else (case getEsc chunk of None \<Rightarrow> None
        | Some (lo, rest) \<Rightarrow>
            (if hd rest = CHR ''-'' then
               (case getEsc (tl rest) of None \<Rightarrow> None
                | Some (hi, rest') \<Rightarrow>
                    classBody fuel r rest' (m \<or> (lo \<le> r \<and> r \<le> hi)) (Suc nrange))
             else classBody fuel r rest (m \<or> lo = r) (Suc nrange))))"

text \<open>The outcome of a chunk: \<open>None\<close> a bad pattern, \<open>Some None\<close> no match,
  \<open>Some (Some rest)\<close> a match that leaves \<open>rest\<close>.\<close>

fun matchChunk :: "nat \<Rightarrow> bool \<Rightarrow> string \<Rightarrow> string \<Rightarrow> string option option" where
  "matchChunk 0 failed chunk s = None"
| "matchChunk (Suc fuel) failed chunk s =
     (case chunk of [] \<Rightarrow> Some (if failed then None else Some s)
      | c # cs \<Rightarrow>
          (let failed = (failed \<or> s = []) in
           if c = CHR ''['' then
             (let w = (if failed then 0 else snd (runeWidth s));
                  r = (if failed then [] else if fst (runeWidth s) then take w s else replacementChar);
                  negated = (cs \<noteq> [] \<and> hd cs = CHR ''^'');
                  body = (if negated then tl cs else cs)
              in (case classBody (Suc (length body)) r body False 0 of None \<Rightarrow> None
                  | Some (m, rest) \<Rightarrow> matchChunk fuel (failed \<or> m = negated) rest (drop w s)))
           else if c = CHR ''?'' then
             (let w = (if failed then 0 else snd (runeWidth s))
              in matchChunk fuel (failed \<or> hd s = slash) cs (drop w s))
           else
             (let lit = (if c = CHR 0x5C then cs else chunk) in
              if lit = [] then None
              else matchChunk fuel (failed \<or> hd lit \<noteq> hd s) (tl lit) (if failed then s else tl s))))"

text \<open>After a star: the chunk at the start of the name or after each byte skipped, which must
  not be a slash.\<close>

fun starTry :: "string \<Rightarrow> bool \<Rightarrow> string \<Rightarrow> string option option" where
  "starTry chunk lastChunk [] = Some None"
| "starTry chunk lastChunk (c # cs) =
     (if c = slash then Some None
      else (case matchChunk (Suc (length chunk)) False chunk cs of
          None \<Rightarrow> None
        | Some (Some t) \<Rightarrow> if lastChunk \<and> t \<noteq> [] then starTry chunk lastChunk cs else Some (Some t)
        | Some None \<Rightarrow> starTry chunk lastChunk cs))"

fun restWellFormed :: "nat \<Rightarrow> string \<Rightarrow> bool" where
  "restWellFormed 0 pattern = False"
| "restWellFormed (Suc fuel) pattern =
     (if pattern = [] then True
      else (case scanChunk pattern of (star, chunk, rest) \<Rightarrow>
        matchChunk (Suc (length chunk)) True chunk [] \<noteq> None \<and> restWellFormed fuel rest))"

fun matchFrom :: "nat \<Rightarrow> string \<Rightarrow> string \<Rightarrow> bool option" where
  "matchFrom 0 pattern name = None"
| "matchFrom (Suc fuel) pattern name =
     (if pattern = [] then Some (name = [])
      else (case scanChunk pattern of (star, chunk, rest) \<Rightarrow>
        if star \<and> chunk = [] then Some (slash \<notin> set name)
        else (case matchChunk (Suc (length chunk)) False chunk name of
            None \<Rightarrow> None
          | Some hit \<Rightarrow>
              (case hit of
                 Some t \<Rightarrow>
                   if t = [] \<or> rest \<noteq> [] then matchFrom fuel rest t
                   else if star then
                     (case starTry chunk (rest = []) name of None \<Rightarrow> None
                      | Some (Some u) \<Rightarrow> matchFrom fuel rest u
                      | Some None \<Rightarrow> if restWellFormed (Suc (length rest)) rest then Some False else None)
                   else if restWellFormed (Suc (length rest)) rest then Some False else None
               | None \<Rightarrow>
                   if star then
                     (case starTry chunk (rest = []) name of None \<Rightarrow> None
                      | Some (Some u) \<Rightarrow> matchFrom fuel rest u
                      | Some None \<Rightarrow> if restWellFormed (Suc (length rest)) rest then Some False else None)
                   else if restWellFormed (Suc (length rest)) rest then Some False else None))))"

definition pathMatch :: "string \<Rightarrow> string \<Rightarrow> bool option" where
  "pathMatch pattern name = matchFrom (Suc (length pattern)) pattern name"

text \<open>The fuel of each loop is one more than the length of the pattern it consumes: every
  round removes at least one byte of the pattern.\<close>

end
