(* ===== verification/GogsErrors.thy ===== *)
theory GogsErrors
  imports GoPath
begin

text \<open>
  internal/gogs/errors.go: the shared error taxonomy and the classification of
  transport failures and HTTP statuses. A Go \<open>error\<close> is the list of layers that
  \<open>errors.Unwrap\<close> walks through, outermost first: \<open>errors.Is\<close> asks whether a layer
  occurs, \<open>errors.As\<close> takes the first layer of a kind. A \<open>*gogs.Error\<close> with a cause
  is the layer \<open>GogsErr\<close> in front of the layers of its cause.
\<close>

section \<open>Error values\<close>

datatype ErrorCode =
    CodeAuthenticationFailed | CodePermissionDenied | CodeResourceNotFoundOrForbidden
  | CodeConflict | CodeValidationFailed | CodeRateLimited | CodeUnavailable | CodeGogsError
  | CodeTLSError | CodeTimeout | CodeCanceled | CodeResponseTooLarge | CodeInvalidArgument
  | CodeArchiveUnsafe | CodeSearchTimeout | CodeCacheCapacityExceeded
  | CodeWriteOutcomeUnknown | CodeInternal

fun codeString :: "ErrorCode \<Rightarrow> string" where
  "codeString CodeAuthenticationFailed = ''AUTHENTICATION_FAILED''"
| "codeString CodePermissionDenied = ''PERMISSION_DENIED''"
| "codeString CodeResourceNotFoundOrForbidden = ''RESOURCE_NOT_FOUND_OR_FORBIDDEN''"
| "codeString CodeConflict = ''CONFLICT''"
| "codeString CodeValidationFailed = ''VALIDATION_FAILED''"
| "codeString CodeRateLimited = ''RATE_LIMITED''"
| "codeString CodeUnavailable = ''GOGS_UNAVAILABLE''"
| "codeString CodeGogsError = ''GOGS_ERROR''"
| "codeString CodeTLSError = ''TLS_ERROR''"
| "codeString CodeTimeout = ''TIMEOUT''"
| "codeString CodeCanceled = ''REQUEST_CANCELLED''"
| "codeString CodeResponseTooLarge = ''RESPONSE_TOO_LARGE''"
| "codeString CodeInvalidArgument = ''INVALID_ARGUMENT''"
| "codeString CodeArchiveUnsafe = ''ARCHIVE_UNSAFE''"
| "codeString CodeSearchTimeout = ''SEARCH_TIMEOUT''"
| "codeString CodeCacheCapacityExceeded = ''CACHE_CAPACITY_EXCEEDED''"
| "codeString CodeWriteOutcomeUnknown = ''WRITE_OUTCOME_UNKNOWN''"
| "codeString CodeInternal = ''INTERNAL_ERROR''"

record Error =
  Code :: ErrorCode
  Message :: string
  Retryable :: bool
  HTTPStatus :: int

text \<open>The package-level error values the program compares against with \<open>errors.Is\<close>;
  the ones of the Git library stand for its documented sentinels.\<close>

datatype sentinel =
    ErrArchiveTooLarge | ErrSnapshotTooLarge | ErrTooManyEntries | ErrUnsafeArchiveEntry
  | ErrCapacity | ErrInvalidOptions | ErrDiffLimit
  | GitAuthenticationRequired | GitAuthorizationFailed | GitInvalidAuthMethod
  | GitRepositoryNotFound | GitEmptyRemote
  | GitAlreadyUpToDate | GitNoMatchingRefSpec | GitReferenceNotFound

datatype tlsLayer =
    UnknownAuthorityError | CertificateInvalidError | HostnameError
  | CertificateVerificationError | RecordHeaderError

text \<open>\<open>NetError t\<close> is a layer that implements \<open>net.Error\<close> with \<open>Timeout() = t\<close>;
  \<open>OpError op t\<close> is a \<open>*net.OpError\<close>, which implements it too.\<close>

datatype errLayer =
    GogsErr Error
  | ContextCanceled
  | ContextDeadlineExceeded
  | NetError bool
  | OpError string bool
  | TlsErr tlsLayer
  | SentinelErr sentinel
  | MsgErr string

type_synonym goerr = "errLayer list"

definition errIs :: "goerr \<Rightarrow> errLayer \<Rightarrow> bool" where
  "errIs e l \<longleftrightarrow> l \<in> set e"

definition mkError :: "ErrorCode \<Rightarrow> string \<Rightarrow> bool \<Rightarrow> int \<Rightarrow> goerr \<Rightarrow> goerr" where
  "mkError c m r s cause =
     GogsErr \<lparr>Code = c, Message = m, Retryable = r, HTTPStatus = s\<rparr> # cause"

text \<open>\<open>&Error{Code: c, Message: m}\<close>.\<close>

definition gogsErr :: "ErrorCode \<Rightarrow> string \<Rightarrow> goerr" where
  "gogsErr c m = mkError c m False 0 []"

text \<open>The fields of the \<open>*Error\<close> at the head of a chain; other chains read as the internal
  error that \<open>AsError\<close> would make of them.\<close>

fun gogsOf :: "goerr \<Rightarrow> Error" where
  "gogsOf (GogsErr g # _) = g"
| "gogsOf _ = \<lparr>Code = CodeInternal, Message = ''An internal error occurred.'',
               Retryable = False, HTTPStatus = 0\<rparr>"

definition codeOf :: "goerr \<Rightarrow> ErrorCode" where
  "codeOf e = Code (gogsOf e)"

lemma codeOf_mkError [simp]: "codeOf (mkError c m r s cause) = c"
  by (simp add: codeOf_def mkError_def)

lemma codeOf_gogsErr [simp]: "codeOf (gogsErr c m) = c"
  by (simp add: gogsErr_def)

lemma gogsOf_mkError [simp]:
  "gogsOf (mkError c m r s cause) = \<lparr>Code = c, Message = m, Retryable = r, HTTPStatus = s\<rparr>"
  by (simp add: mkError_def)

section \<open>Classification\<close>

fun timeoutOf :: "goerr \<Rightarrow> bool option" where
  "timeoutOf [] = None"
| "timeoutOf (NetError t # _) = Some t"
| "timeoutOf (OpError op t # _) = Some t"
| "timeoutOf (ContextDeadlineExceeded # _) = Some True"
| "timeoutOf (_ # es) = timeoutOf es"

definition isTls :: "goerr \<Rightarrow> bool" where
  "isTls e \<longleftrightarrow> (\<exists>l \<in> set e. case l of TlsErr _ \<Rightarrow> True | _ \<Rightarrow> False)"

definition classifyTransportError :: "goerr \<Rightarrow> goerr" where
  "classifyTransportError err =
     (if errIs err ContextCanceled then
        mkError CodeCanceled ''The request was cancelled.'' False 0 err
      else if errIs err ContextDeadlineExceeded then
        mkError CodeTimeout ''The Gogs request timed out.'' True 0 err
      else if timeoutOf err = Some True then
        mkError CodeTimeout ''The Gogs request timed out.'' True 0 err
      else if isTls err then
        mkError CodeTLSError ''TLS verification for Gogs failed.'' False 0 err
      else mkError CodeUnavailable ''Gogs is unavailable.'' True 0 err)"

fun opOf :: "goerr \<Rightarrow> string option" where
  "opOf [] = None"
| "opOf (OpError op t # _) = Some op"
| "opOf (_ # es) = opOf es"

definition classifyWriteTransportError :: "goerr \<Rightarrow> goerr" where
  "classifyWriteTransportError err =
     (if opOf err = Some ''dial'' \<or> opOf err = Some ''proxyconnect'' then
        classifyTransportError err
      else if codeOf (classifyTransportError err) = CodeTLSError then
        classifyTransportError err
      else mkError CodeWriteOutcomeUnknown
        ''The write was sent to Gogs but its outcome is unknown; check the result before retrying.''
        False 0 err)"

definition classifyStatus :: "int \<Rightarrow> goerr" where
  "classifyStatus status =
     (if status = 401 then
        mkError CodeAuthenticationFailed ''Gogs rejected the configured credentials.'' False status []
      else if status = 403 then
        mkError CodePermissionDenied ''Gogs denied this operation.'' False status []
      else if status = 404 then
        mkError CodeResourceNotFoundOrForbidden
          ''The resource does not exist or the current user cannot access it.'' False status []
      else if status = 409 then
        mkError CodeConflict ''The request conflicts with the current Gogs state.'' False status []
      else if status = 422 then
        mkError CodeValidationFailed ''Gogs rejected the request data.'' False status []
      else if status = 429 then
        mkError CodeRateLimited ''Gogs or its proxy rate limited the request.'' True status []
      else if status = 502 \<or> status = 503 \<or> status = 504 then
        mkError CodeUnavailable ''Gogs is unavailable.'' True status []
      else mkError CodeGogsError ''Gogs returned an unexpected response.'' (status \<ge> 500) status [])"

fun isGogs :: "errLayer \<Rightarrow> bool" where
  "isGogs (GogsErr _) = True"
| "isGogs _ = False"

definition AsError :: "goerr \<Rightarrow> goerr" where
  "AsError err =
     (case dropWhile (\<lambda>l. \<not> isGogs l) err of
        l # ls \<Rightarrow> l # ls
      | [] \<Rightarrow>
          if errIs err ContextCanceled \<or> errIs err ContextDeadlineExceeded
          then classifyTransportError err
          else gogsErr CodeInternal ''An internal error occurred.'')"

lemma isGogs_mkError [simp]: "isGogs (hd (mkError c m r s e))" "mkError c m r s e \<noteq> []"
  by (simp_all add: mkError_def)

lemma AsError_gogs: "isGogs (hd (AsError e)) \<and> AsError e \<noteq> []"
proof (cases "dropWhile (\<lambda>l. \<not> isGogs l) e")
  case Nil
  then show ?thesis unfolding AsError_def Nil by (simp add: classifyTransportError_def gogsErr_def)
next
  case (Cons l ls)
  then have "isGogs l" by (metis hd_dropWhile list.distinct(1) list.sel(1))
  with Cons show ?thesis by (simp add: AsError_def)
qed

lemma AsError_id: "isGogs (hd e) \<Longrightarrow> e \<noteq> [] \<Longrightarrow> AsError e = e"
  by (cases e) (auto simp: AsError_def)

lemma AsError_mkError [simp]: "AsError (mkError c m r s cause) = mkError c m r s cause"
  by (simp add: AsError_id)

lemma AsError_gogsErr [simp]: "AsError (gogsErr c m) = gogsErr c m"
  by (simp add: gogsErr_def)

lemma AsError_idem: "AsError (AsError e) = AsError e"
  using AsError_gogs AsError_id by blast

lemma classifyTransport_codes:
  "codeOf (classifyTransportError e) \<in> {CodeCanceled, CodeTimeout, CodeTLSError, CodeUnavailable}"
  by (simp add: classifyTransportError_def)

lemma AsError_classifyTransport [simp]:
  "AsError (classifyTransportError e) = classifyTransportError e"
  by (simp add: classifyTransportError_def)

lemma AsError_classifyStatus [simp]: "AsError (classifyStatus n) = classifyStatus n"
  by (simp add: classifyStatus_def)

lemma AsError_classifyWrite [simp]:
  "AsError (classifyWriteTransportError e) = classifyWriteTransportError e"
  by (simp add: classifyWriteTransportError_def)

lemma classifyStatus_retryable:
  "Retryable (gogsOf (classifyStatus n)) \<longleftrightarrow> n = 429 \<or> n \<ge> 500"
  by (auto simp: classifyStatus_def)

lemma classifyStatus_not_unknown: "codeOf (classifyStatus n) \<noteq> CodeWriteOutcomeUnknown"
  by (simp add: classifyStatus_def)

text \<open>A write error is definitive only when the request cannot have reached Gogs.\<close>

lemma classifyWrite_unknown:
  "codeOf (classifyWriteTransportError e) = CodeWriteOutcomeUnknown \<longleftrightarrow>
     opOf e \<noteq> Some ''dial'' \<and> opOf e \<noteq> Some ''proxyconnect'' \<and>
     codeOf (classifyTransportError e) \<noteq> CodeTLSError"
  using classifyTransport_codes [of e] by (auto simp: classifyWriteTransportError_def)

end
