(* ===== verification/DiskCache.thy ===== *)
theory DiskCache
  imports GogsErrors
begin

text \<open>
  internal/diskcache: the shared disk budget of one user's cache. The cache directory is a tree of
  files and directories; a path inside it is the list of its components. Locks held by readers
  and failures of the file system are the fields of \<open>diskWorld\<close>; the tree itself is the state. The
  walk, the eviction loop of \<open>MakeRoom\<close>, the admission of growth by \<open>Reserve\<close> and the budgeted file
  are the operations of cache.go and filesystem.go.
\<close>

section \<open>Trees\<close>

datatype fnode =
    FFile int
  | FOther
  | FDir int "(string \<times> fnode) list"

type_synonym fpath = "string list"

fun fsize :: "fnode \<Rightarrow> int" where
  "fsize (FFile n) = n"
| "fsize FOther = 0"
| "fsize (FDir m cs) = sum_list (map (\<lambda>c. fsize (snd c)) cs)"

definition isDirNode :: "fnode \<Rightarrow> bool" where
  "isDirNode n \<longleftrightarrow> (case n of FDir _ _ \<Rightarrow> True | _ \<Rightarrow> False)"

fun nodeAt :: "fpath \<Rightarrow> fnode \<Rightarrow> fnode option" where
  "nodeAt [] n = Some n"
| "nodeAt (p # ps) (FDir m cs) = (case map_of cs p of None \<Rightarrow> None | Some c \<Rightarrow> nodeAt ps c)"
| "nodeAt (p # ps) _ = None"

text \<open>\<open>os.RemoveAll\<close> of a path below the root.\<close>

fun removeAt :: "fpath \<Rightarrow> fnode \<Rightarrow> fnode" where
  "removeAt [] n = n"
| "removeAt [p] (FDir m cs) = FDir m (filter (\<lambda>c. fst c \<noteq> p) cs)"
| "removeAt (p # q # ps) (FDir m cs) =
     FDir m (map (\<lambda>c. if fst c = p then (fst c, removeAt (q # ps) (snd c)) else c) cs)"
| "removeAt _ n = n"

fun validTree :: "fnode \<Rightarrow> bool" where
  "validTree (FFile n) \<longleftrightarrow> 0 \<le> n"
| "validTree FOther \<longleftrightarrow> True"
| "validTree (FDir m cs) \<longleftrightarrow> distinct (map fst cs) \<and> (\<forall>c \<in> set cs. validTree (snd c))"

section \<open>Cache entries\<close>

record cacheEntry =
  cePath :: fpath
  ceModified :: int

definition modTime :: "fnode \<Rightarrow> int" where
  "modTime n = (case n of FDir m _ \<Rightarrow> m | _ \<Rightarrow> 0)"

definition hasChild :: "string \<Rightarrow> fnode \<Rightarrow> bool" where
  "hasChild name n \<longleftrightarrow> (case n of FDir _ cs \<Rightarrow> map_of cs name \<noteq> None | _ \<Rightarrow> False)"

definition childNames :: "fnode \<Rightarrow> string list" where
  "childNames n = (case n of FDir _ cs \<Rightarrow> map fst cs | _ \<Rightarrow> [])"

text \<open>Whether the directory at \<open>parts\<close> is a cache entry; \<open>base\<close> is the last component of the root.\<close>

definition isEntry :: "string \<Rightarrow> fpath \<Rightarrow> fnode \<Rightarrow> bool" where
  "isEntry base parts n \<longleftrightarrow>
     (let published = (length parts = 3 \<and> hasChild ''metadata.json'' n);
          temporary = (length parts = 2 \<and> hd parts = ''.tmp'' \<and> hasPrefix (last parts) ''snapshot-'');
          gitRoot = (base = ''.pull'' \<or> base = ''pull'');
          gitEntry = (hasSuffix (last parts) ''.git''
            \<and> ((length parts = 2 \<and> hd parts = ''.pull'') \<or> (length parts = 1 \<and> gitRoot)))
      in published \<or> temporary \<or> gitEntry)"

text \<open>The walk below a directory that has been entered: its children in order.\<close>

fun walkEntries :: "string \<Rightarrow> fpath \<Rightarrow> fnode \<Rightarrow> cacheEntry list" where
  "walkEntries base parts (FDir m cs) =
     concat (map (\<lambda>c.
       (if \<not> isDirNode (snd c) then []
        else if hd (parts @ [fst c]) = ''.locks'' then []
        else if isEntry base (parts @ [fst c]) (snd c)
          then [\<lparr>cePath = parts @ [fst c], ceModified = modTime (snd c)\<rparr>]
        else walkEntries base (parts @ [fst c]) (snd c))) cs)"
| "walkEntries base parts _ = []"

definition cacheEntries :: "string \<Rightarrow> fnode \<Rightarrow> cacheEntry list" where
  "cacheEntries base root =
     sortSlice (\<lambda>a b. ceModified a < ceModified b) (walkEntries base [] root)"

section \<open>Making room\<close>

record Budget =
  bgBase :: string
  bgKeep :: "fpath option"
  bgMaxBytes :: int
  bgTTL :: int
  bgReady :: bool
  bgFree :: int

text \<open>\<open>dwLock p = Inr True\<close> when an exclusive lock of the entry is free, \<open>Inr False\<close> when another holder
  has it. \<open>dwSizeErr\<close> and \<open>dwRemoveErr\<close> are the failures of sizing and removing a path.\<close>

record diskWorld =
  dwNow :: int
  dwLock :: "fpath \<Rightarrow> goerr + bool"
  dwSizeErr :: "fpath \<Rightarrow> goerr option"
  dwWalkErr :: "goerr option"
  dwRemoveErr :: "fpath \<Rightarrow> goerr option"

definition errCapacity :: goerr where
  "errCapacity = [SentinelErr ErrCapacity]"

fun makeRoomLoop :: "diskWorld \<Rightarrow> Budget \<Rightarrow> int \<Rightarrow> int \<Rightarrow> fnode \<Rightarrow> cacheEntry list \<Rightarrow>
    (goerr + int) \<times> fnode" where
  "makeRoomLoop w b additional acc root [] = (Inr acc, root)"
| "makeRoomLoop w b additional acc root (e # es) =
     (let expired = (bgTTL b > 0 \<and> dwNow w - ceModified e > bgTTL b) in
      if (bgMaxBytes b \<le> 0 \<or> acc + additional \<le> bgMaxBytes b) \<and> \<not> expired then
        makeRoomLoop w b additional acc root es
      else if Some (cePath e) = bgKeep b then makeRoomLoop w b additional acc root es
      else (case dwLock w (cePath e) of
          Inl err \<Rightarrow> (Inl err, root)
        | Inr False \<Rightarrow> makeRoomLoop w b additional acc root es
        | Inr True \<Rightarrow>
            (case dwSizeErr w (cePath e) of
               Some err \<Rightarrow> (Inl err, root)
             | None \<Rightarrow>
                (case dwRemoveErr w (cePath e) of
                   Some err \<Rightarrow> (Inl err, root)
                 | None \<Rightarrow>
                    makeRoomLoop w b additional
                      (acc - (case nodeAt (cePath e) root of None \<Rightarrow> 0 | Some n \<Rightarrow> fsize n))
                      (removeAt (cePath e) root) es))))"

definition MakeRoom :: "diskWorld \<Rightarrow> Budget \<Rightarrow> int \<Rightarrow> fnode \<Rightarrow> (goerr + unit) \<times> fnode" where
  "MakeRoom w b additional root =
     (if bgMaxBytes b \<le> 0 \<and> bgTTL b \<le> 0 then (Inr (), root)
      else if bgMaxBytes b > 0 \<and> additional > bgMaxBytes b then (Inl errCapacity, root)
      else (case dwSizeErr w [] of Some err \<Rightarrow> (Inl err, root)
        | None \<Rightarrow>
          (case dwWalkErr w of Some err \<Rightarrow> (Inl err, root)
           | None \<Rightarrow>
             (case makeRoomLoop w b additional (fsize root) root (cacheEntries (bgBase b) root) of
                (Inl err, root) \<Rightarrow> (Inl err, root)
              | (Inr acc, root) \<Rightarrow>
                  if bgMaxBytes b > 0 \<and> acc + additional > bgMaxBytes b
                  then (Inl errCapacity, root) else (Inr (), root)))))"

section \<open>Reserving growth\<close>

type_synonym budgetState = "Budget \<times> fnode"

definition Reserve :: "diskWorld \<Rightarrow> int \<Rightarrow> budgetState \<Rightarrow> (goerr + unit) \<times> budgetState" where
  "Reserve w growth s =
     (case s of (b, root) \<Rightarrow>
      if bgMaxBytes b \<le> 0 then (Inr (), s)
      else
        (case (if \<not> bgReady b \<or> growth > bgFree b then
            (case MakeRoom w b growth root of
               (Inl err, root) \<Rightarrow> (Inl err, (b, root))
             | (Inr _, root) \<Rightarrow>
                 (case dwSizeErr w [] of
                    Some err \<Rightarrow> (Inl err, (b, root))
                  | None \<Rightarrow> (Inr (), (b\<lparr>bgFree := bgMaxBytes b - fsize root, bgReady := True\<rparr>, root))))
          else (Inr (), s)) of
          (Inl err, s) \<Rightarrow> (Inl err, s)
        | (Inr _, (b, root)) \<Rightarrow>
            if growth > bgFree b then (Inl errCapacity, (b, root))
            else (Inr (), (b\<lparr>bgFree := bgFree b - growth\<rparr>, root))))"

section \<open>Budgeted files\<close>

text \<open>Setting the size of a file, creating it when its parent exists.\<close>

fun resizeAt :: "fpath \<Rightarrow> int \<Rightarrow> fnode \<Rightarrow> fnode" where
  "resizeAt [] n t = t"
| "resizeAt [p] n (FDir m cs) =
     (if p \<in> fst ` set cs
      then FDir m (map (\<lambda>c. if fst c = p then (fst c, FFile n) else c) cs)
      else FDir m (cs @ [(p, FFile n)]))"
| "resizeAt (p # q # ps) n (FDir m cs) =
     FDir m (map (\<lambda>c. if fst c = p then (fst c, resizeAt (q # ps) n (snd c)) else c) cs)"
| "resizeAt _ n t = t"

record budgetFile =
  bfPath :: fpath
  bfSize :: int
  bfOffset :: int
  bfAppend :: bool

text \<open>\<open>budgetFile.Write\<close>: \<open>written\<close> is how many bytes the file system took, with its error.\<close>

definition fileWrite :: "diskWorld \<Rightarrow> budgetFile \<Rightarrow> int \<Rightarrow> int \<times> goerr option \<Rightarrow> budgetState \<Rightarrow>
    (int \<times> goerr option) \<times> budgetFile \<times> budgetState" where
  "fileWrite w f len result s =
     (let offset = (if bfAppend f then max (bfOffset f) (bfSize f) else bfOffset f);
          growth = max 0 (offset + len - bfSize f)
      in case Reserve w growth s of
           (Inl err, s) \<Rightarrow> ((0, Some err), f, s)
         | (Inr _, (b, root)) \<Rightarrow>
             (let n = fst result; newSize = max (bfSize f) (offset + n)
              in (result, f\<lparr>bfSize := newSize, bfOffset := offset + n\<rparr>,
                  (b, if n = 0 then root else resizeAt (bfPath f) newSize root))))"

definition fileTruncate :: "diskWorld \<Rightarrow> budgetFile \<Rightarrow> int \<Rightarrow> goerr option \<Rightarrow> budgetState \<Rightarrow>
    goerr option \<times> budgetFile \<times> budgetState" where
  "fileTruncate w f newSize failed s =
     (case Reserve w (max 0 (newSize - bfSize f)) s of
        (Inl err, s) \<Rightarrow> (Some err, f, s)
      | (Inr _, (b, root)) \<Rightarrow>
          (case failed of
             Some err \<Rightarrow> (Some err, f, (b, root))
           | None \<Rightarrow> (None, f\<lparr>bfSize := newSize\<rparr>, (b, resizeAt (bfPath f) newSize root))))"

section \<open>Removing a whole cache\<close>

definition errInUse :: goerr where
  "errInUse = [MsgErr ''cache entries are in use; retry cleanup after active requests finish'']"

fun lockAll :: "diskWorld \<Rightarrow> cacheEntry list \<Rightarrow> goerr option" where
  "lockAll w [] = None"
| "lockAll w (e # es) =
     (case dwLock w (cePath e) of
        Inl err \<Rightarrow> Some err
      | Inr False \<Rightarrow> Some errInUse
      | Inr True \<Rightarrow> lockAll w es)"

fun removeChildren :: "diskWorld \<Rightarrow> string list \<Rightarrow> fnode \<Rightarrow> goerr option \<times> fnode" where
  "removeChildren w [] root = (None, root)"
| "removeChildren w (name # names) root =
     (if name = ''.locks'' then removeChildren w names root
      else (case dwRemoveErr w [name] of
          Some err \<Rightarrow> (Some err, root)
        | None \<Rightarrow> removeChildren w names (removeAt [name] root)))"

text \<open>\<open>writer\<close> is what acquiring the user's writer lock returns, \<open>whole\<close> whether the removed root is
  not the writer root itself (then the directory goes too, \<open>None\<close>).\<close>

definition RemoveTree :: "diskWorld \<Rightarrow> goerr option \<Rightarrow> string \<Rightarrow> bool \<Rightarrow> fnode \<Rightarrow>
    goerr option \<times> fnode option" where
  "RemoveTree w writer base whole root =
     (case writer of Some err \<Rightarrow> (Some err, Some root)
      | None \<Rightarrow>
        (case dwWalkErr w of Some err \<Rightarrow> (Some err, Some root)
         | None \<Rightarrow>
           (case lockAll w (cacheEntries base root) of Some err \<Rightarrow> (Some err, Some root)
            | None \<Rightarrow>
              if whole then
                (case dwRemoveErr w [] of Some err \<Rightarrow> (Some err, Some root) | None \<Rightarrow> (None, None))
              else (case removeChildren w (childNames root) root of (err, root) \<Rightarrow> (err, Some root)))))"

section \<open>Waiting for a lock\<close>

text \<open>\<open>Acquire\<close> polls: at its \<open>k\<close>-th round it reads the context, tries the lock, and waits for the timer
  or for the context. Each is a function of the round; the rounds are bounded by fuel.\<close>

record lockWorld =
  lwCtx :: "nat \<Rightarrow> goerr option"
  lwTry :: "nat \<Rightarrow> goerr + bool"
  lwWait :: "nat \<Rightarrow> goerr option"

fun Acquire :: "lockWorld \<Rightarrow> nat \<Rightarrow> nat \<Rightarrow> (goerr + unit) option" where
  "Acquire w 0 k = None"
| "Acquire w (Suc fuel) k =
     (case lwCtx w k of
        Some err \<Rightarrow> Some (Inl err)
      | None \<Rightarrow>
        (case lwTry w k of
           Inl err \<Rightarrow> Some (Inl err)
         | Inr True \<Rightarrow> Some (Inr ())
         | Inr False \<Rightarrow>
            (case lwWait w k of
               Some err \<Rightarrow> Some (Inl err)
             | None \<Rightarrow> Acquire w fuel (Suc k))))"

section \<open>Sizes of trees\<close>

lemma fsize_nonneg: "validTree n \<Longrightarrow> 0 \<le> fsize n"
  by (induction n rule: fsize.induct) (auto intro!: sum_list_nonneg)

text \<open>Changing one child of a directory.\<close>

abbreviation updChild :: "string \<Rightarrow> (fnode \<Rightarrow> fnode) \<Rightarrow> (string \<times> fnode) list \<Rightarrow> (string \<times> fnode) list" where
  "updChild p h cs \<equiv> map (\<lambda>c. if fst c = p then (fst c, h (snd c)) else c) cs"

lemma updChild_keys: "map fst (updChild p h cs) = map fst cs"
  by (induction cs) auto

lemma updChild_absent: "map_of cs p = None \<Longrightarrow> updChild p h cs = cs"
  by (induction cs) (auto split: if_splits)

lemma updChild_map_of: "map_of (updChild p h cs) q = (if q = p then map_option h (map_of cs p) else map_of cs q)"
  by (induction cs) auto

lemma updChild_size:
  assumes "distinct (map fst cs)" "map_of cs p = Some c"
  shows "fsize (FDir m (updChild p h cs)) = fsize (FDir m cs) - fsize c + fsize (h c)"
  using assms
proof (induction cs)
  case Nil
  then show ?case by simp
next
  case (Cons x cs)
  obtain q d where x: "x = (q, d)" by (cases x)
  show ?case
  proof (cases "q = p")
    case True
    then have "c = d" "map_of cs p = None" using Cons.prems x by (auto simp: map_of_eq_None_iff)
    with True x show ?thesis by (simp add: updChild_absent)
  next
    case False
    with Cons x show ?thesis by simp
  qed
qed

lemma updChild_valid:
  assumes "validTree (FDir m cs)" "\<And>c. (p, c) \<in> set cs \<Longrightarrow> validTree (h c)"
  shows "validTree (FDir m (updChild p h cs))"
proof -
  have "distinct (map fst (updChild p h cs))"
    unfolding updChild_keys using assms(1) by simp
  moreover have "validTree (snd c)" if "c \<in> set (updChild p h cs)" for c
    using that assms by (auto split: if_splits)
  ultimately show ?thesis unfolding validTree.simps by blast
qed

lemma removeChild_size:
  assumes "distinct (map fst cs)"
  shows "fsize (FDir m (filter (\<lambda>c. fst c \<noteq> p) cs))
    = fsize (FDir m cs) - (case map_of cs p of None \<Rightarrow> 0 | Some c \<Rightarrow> fsize c)"
  using assms
proof (induction cs)
  case (Cons x cs)
  obtain q d where x: "x = (q, d)" by (cases x)
  show ?case
  proof (cases "q = p")
    case True
    then have none: "map_of cs p = None" using Cons.prems x by (auto simp: map_of_eq_None_iff)
    with True x Cons show ?thesis by simp
  next
    case False
    with Cons x show ?thesis by simp
  qed
qed simp

definition sizeAt :: "fpath \<Rightarrow> fnode \<Rightarrow> int" where
  "sizeAt p root = (case nodeAt p root of None \<Rightarrow> 0 | Some n \<Rightarrow> fsize n)"

lemma fsize_removeAt:
  "validTree root \<Longrightarrow> p \<noteq> [] \<Longrightarrow> fsize (removeAt p root) = fsize root - sizeAt p root"
proof (induction p root rule: removeAt.induct)
  case (2 p m cs)
  then show ?case
    using removeChild_size [of cs m p] by (simp add: sizeAt_def split: option.split)
next
  case (3 p q ps m cs)
  have dist: "distinct (map fst cs)" using "3.prems"(1) by simp
  show ?case
  proof (cases "map_of cs p")
    case None
    then have "removeAt (p # q # ps) (FDir m cs) = FDir m cs" by (simp add: updChild_absent)
    with None show ?thesis by (simp add: sizeAt_def)
  next
    case (Some c)
    then have mem: "(p, c) \<in> set cs" by (rule map_of_SomeD)
    then have "validTree (snd (p, c))" using "3.prems"(1) by fastforce
    from "3.IH" [OF mem _ this] have ih: "fsize (removeAt (q # ps) c) = fsize c - sizeAt (q # ps) c" by simp
    have "fsize (removeAt (p # q # ps) (FDir m cs)) = fsize (FDir m cs) - fsize c + fsize (removeAt (q # ps) c)"
      unfolding removeAt.simps by (rule updChild_size [OF dist Some])
    with Some ih show ?thesis by (simp add: sizeAt_def)
  qed
qed (auto simp: sizeAt_def)

lemma validTree_removeAt: "validTree root \<Longrightarrow> validTree (removeAt p root)"
proof (induction p root rule: removeAt.induct)
  case (2 p m cs)
  then show ?case by (auto simp: distinct_map_filter)
next
  case (3 p q ps m cs)
  show ?case
    unfolding removeAt.simps
    by (rule updChild_valid [OF "3.prems"]) (use 3 in fastforce)
qed auto

text \<open>A file outside a removed path stays as it is.\<close>

lemma nodeAt_removeAt:
  "\<not> (\<exists>r. q = p @ r) \<Longrightarrow> nodeAt q root = Some (FFile n) \<Longrightarrow> nodeAt q (removeAt p root) = Some (FFile n)"
proof (induction p root arbitrary: q rule: removeAt.induct)
  case (2 p m cs)
  then obtain a q' where q: "q = a # q'" by (cases q) auto
  with "2.prems"(1) have "a \<noteq> p" by auto
  moreover from this have "map_of (filter (\<lambda>c. fst c \<noteq> p) cs) a = map_of cs a"
    by (induction cs) auto
  ultimately show ?case using "2.prems"(2) q by simp
next
  case (3 p p' ps m cs)
  then obtain a q' where q: "q = a # q'" by (cases q) auto
  show ?case
  proof (cases "a = p")
    case False
    with "3.prems"(2) q show ?thesis by (simp add: updChild_map_of)
  next
    case True
    from "3.prems"(2) q obtain c where c: "map_of cs a = Some c" "nodeAt q' c = Some (FFile n)"
      by (auto split: option.splits)
    have "nodeAt q' (removeAt (p' # ps) (snd (p, c))) = Some (FFile n)"
      using "3.IH" [of "(p, c)" q'] c "3.prems"(1) q True map_of_SomeD [OF c(1)] by auto
    with c(1) q True show ?thesis by (simp add: updChild_map_of)
  qed
qed auto

section \<open>What making room does\<close>

lemma sizeAt_nonneg: "validTree root \<Longrightarrow> 0 \<le> sizeAt p root"
proof (induction p root rule: nodeAt.induct)
  case (1 n)
  then show ?case by (simp add: sizeAt_def fsize_nonneg)
next
  case (2 p ps m cs)
  show ?case
  proof (cases "map_of cs p")
    case (Some c)
    then have "validTree (snd (p, c))" using "2.prems" map_of_SomeD [OF Some] by fastforce
    with 2 Some show ?thesis by (simp add: sizeAt_def)
  qed (simp add: sizeAt_def)
qed (auto simp: sizeAt_def)

text \<open>The contract of the loop: which entries went, and why the others stayed.\<close>

definition roomMade :: "diskWorld \<Rightarrow> Budget \<Rightarrow> int \<Rightarrow> cacheEntry list \<Rightarrow> fnode \<Rightarrow>
    fpath list \<Rightarrow> goerr + int \<Rightarrow> fnode \<Rightarrow> bool" where
  "roomMade w b additional es root removed r root' \<longleftrightarrow>
     set removed \<subseteq> cePath ` set es
   \<and> root' = fold removeAt removed root \<and> validTree root' \<and> fsize root' \<le> fsize root
   \<and> (\<forall>p \<in> set removed. Some p \<noteq> bgKeep b \<and> dwLock w p = Inr True)
   \<and> (\<forall>used. r = Inr used \<longrightarrow> used = fsize root' \<and>
        (bgMaxBytes b > 0 \<and> used + additional > bgMaxBytes b \<longrightarrow>
          (\<forall>e \<in> set es. cePath e \<in> set removed \<or> Some (cePath e) = bgKeep b
             \<or> dwLock w (cePath e) = Inr False)))"

lemma roomMade_fits:
  assumes "roomMade w b additional es root removed r root'"
    "bgMaxBytes b \<le> 0 \<or> fsize root + additional \<le> bgMaxBytes b"
  shows "roomMade w b additional (e # es) root removed r root'"
  using assms unfolding roomMade_def by auto

lemma roomMade_stays:
  assumes "roomMade w b additional es root removed r root'"
    "Some (cePath e) = bgKeep b \<or> dwLock w (cePath e) = Inr False"
  shows "roomMade w b additional (e # es) root removed r root'"
  using assms unfolding roomMade_def by auto

lemma roomMade_fails:
  "validTree root \<Longrightarrow> roomMade w b additional es root [] (Inl err) root"
  by (simp add: roomMade_def)

lemma roomMade_removes:
  assumes "roomMade w b additional es (removeAt (cePath e) root) removed r root'"
    "Some (cePath e) \<noteq> bgKeep b" "dwLock w (cePath e) = Inr True"
    "fsize (removeAt (cePath e) root) \<le> fsize root"
  shows "roomMade w b additional (e # es) root (cePath e # removed) r root'"
  using assms unfolding roomMade_def by auto

lemma makeRoomLoop_spec:
  assumes "makeRoomLoop w b additional acc root es = (r, root')"
    and "validTree root" "acc = fsize root" "\<forall>e \<in> set es. cePath e \<noteq> []"
  shows "\<exists>removed. roomMade w b additional es root removed r root'"
  using assms
proof (induction es arbitrary: acc root)
  case Nil
  then have "roomMade w b additional [] root [] r root'" unfolding roomMade_def by auto
  then show ?case ..
next
  case (Cons e es)
  have ne: "\<forall>e \<in> set es. cePath e \<noteq> []" "cePath e \<noteq> []" using Cons.prems(4) by auto
  define fits where "fits = ((bgMaxBytes b \<le> 0 \<or> acc + additional \<le> bgMaxBytes b)
      \<and> \<not> (bgTTL b > 0 \<and> dwNow w - ceModified e > bgTTL b))"
  have step: "makeRoomLoop w b additional acc root (e # es) =
     (if fits \<or> Some (cePath e) = bgKeep b then makeRoomLoop w b additional acc root es
      else (case dwLock w (cePath e) of
          Inl err \<Rightarrow> (Inl err, root)
        | Inr False \<Rightarrow> makeRoomLoop w b additional acc root es
        | Inr True \<Rightarrow>
            (case dwSizeErr w (cePath e) of
               Some err \<Rightarrow> (Inl err, root)
             | None \<Rightarrow>
                (case dwRemoveErr w (cePath e) of
                   Some err \<Rightarrow> (Inl err, root)
                 | None \<Rightarrow> makeRoomLoop w b additional (acc - sizeAt (cePath e) root)
                      (removeAt (cePath e) root) es))))"
    unfolding makeRoomLoop.simps Let_def sizeAt_def fits_def [symmetric]
    by (cases fits; cases "Some (cePath e) = bgKeep b") simp_all
  have run: "makeRoomLoop w b additional acc root (e # es) = (r, root')" by (rule Cons.prems(1))
  consider (skip) "fits" | (keep) "\<not> fits" "Some (cePath e) = bgKeep b"
    | (lockErr) err where "\<not> fits" "Some (cePath e) \<noteq> bgKeep b" "dwLock w (cePath e) = Inl err"
    | (locked) "\<not> fits" "Some (cePath e) \<noteq> bgKeep b" "dwLock w (cePath e) = Inr False"
    | (free) "\<not> fits" "Some (cePath e) \<noteq> bgKeep b" "dwLock w (cePath e) = Inr True"
  proof -
    have "dwLock w (cePath e) = Inr True \<or> dwLock w (cePath e) = Inr False
        \<or> (\<exists>err. dwLock w (cePath e) = Inl err)"
      by (metis (full_types) sum.exhaust)
    with that show thesis by blast
  qed
  then show ?case
  proof cases
    case skip
    then have "makeRoomLoop w b additional acc root es = (r, root')" using run step by simp
    from Cons.IH [OF this Cons.prems(2,3) ne(1)] obtain removed
      where "roomMade w b additional es root removed r root'" ..
    moreover have "bgMaxBytes b \<le> 0 \<or> fsize root + additional \<le> bgMaxBytes b"
      using skip Cons.prems(3) by (simp add: fits_def)
    ultimately show ?thesis by (intro exI [of _ removed] roomMade_fits)
  next
    case keep
    then have "makeRoomLoop w b additional acc root es = (r, root')" using run step by simp
    from Cons.IH [OF this Cons.prems(2,3) ne(1)] obtain removed
      where "roomMade w b additional es root removed r root'" ..
    with keep(2) show ?thesis by (intro exI [of _ removed] roomMade_stays disjI1)
  next
    case (lockErr err)
    then have "r = Inl err" "root' = root" using run step by simp_all
    with roomMade_fails [OF Cons.prems(2)] show ?thesis by (intro exI [of _ "[]"]) simp
  next
    case locked
    then have "makeRoomLoop w b additional acc root es = (r, root')" using run step by simp
    from Cons.IH [OF this Cons.prems(2,3) ne(1)] obtain removed
      where "roomMade w b additional es root removed r root'" ..
    with locked(3) show ?thesis by (intro exI [of _ removed] roomMade_stays disjI2)
  next
    case free
    show ?thesis
    proof (cases "dwSizeErr w (cePath e) = None \<and> dwRemoveErr w (cePath e) = None")
      case False
      then obtain err where "root' = root" "r = Inl err"
        using run free unfolding step by (auto split: option.splits)
      with roomMade_fails [OF Cons.prems(2)] show ?thesis by (intro exI [of _ "[]"]) simp
    next
      case True
      let ?root = "removeAt (cePath e) root"
      have go: "makeRoomLoop w b additional (acc - sizeAt (cePath e) root) ?root es = (r, root')"
        using run step free True by simp
      have sz: "fsize ?root = fsize root - sizeAt (cePath e) root"
        using fsize_removeAt Cons.prems(2) ne(2) by simp
      have "validTree ?root" by (rule validTree_removeAt [OF Cons.prems(2)])
      moreover have "acc - sizeAt (cePath e) root = fsize ?root" using sz Cons.prems(3) by simp
      ultimately obtain removed where "roomMade w b additional es ?root removed r root'"
        using Cons.IH [OF go _ _ ne(1)] by blast
      moreover have "fsize ?root \<le> fsize root" using sz sizeAt_nonneg [OF Cons.prems(2)] by simp
      ultimately show ?thesis
        using free(2,3) by (intro exI [of _ "cePath e # removed"] roomMade_removes)
    qed
  qed
qed

section \<open>Which directories are cache entries\<close>

definition entryHere :: "string \<Rightarrow> fpath \<Rightarrow> fnode \<Rightarrow> fpath \<Rightarrow> bool" where
  "entryHere base parts n p \<longleftrightarrow> p \<noteq> [] \<and> hd (parts @ p) \<noteq> ''.locks''
     \<and> (\<exists>d. nodeAt p n = Some d \<and> isDirNode d \<and> isEntry base (parts @ p) d)"

text \<open>An entry that no enclosing entry hides: the walk does not look inside an entry.\<close>

definition topEntry :: "string \<Rightarrow> fpath \<Rightarrow> fnode \<Rightarrow> fpath \<Rightarrow> bool" where
  "topEntry base parts n p \<longleftrightarrow> entryHere base parts n p
     \<and> (\<forall>q r. p = q @ r \<and> r \<noteq> [] \<longrightarrow> \<not> entryHere base parts n q)"

lemma entryHere_Cons:
  "entryHere base parts (FDir m cs) (a # q) \<longleftrightarrow>
     (\<exists>c. map_of cs a = Some c \<and> hd (parts @ [a]) \<noteq> ''.locks''
       \<and> (if q = [] then isDirNode c \<and> isEntry base (parts @ [a]) c
          else entryHere base (parts @ [a]) c q))"
  by (cases parts) (auto simp: entryHere_def split: option.splits)

lemma entryHere_dir: "entryHere base parts n p \<Longrightarrow> isDirNode n"
  by (cases n; cases p) (auto simp: entryHere_def isDirNode_def)

lemma topEntry_file: "\<not> isDirNode n \<Longrightarrow> \<not> topEntry base parts n q"
  using entryHere_dir [of base parts n q] by (auto simp: topEntry_def)

lemma topEntry_Cons:
  "topEntry base parts (FDir m cs) (a # q) \<longleftrightarrow>
     (\<exists>c. map_of cs a = Some c \<and> isDirNode c \<and> hd (parts @ [a]) \<noteq> ''.locks''
       \<and> (if isEntry base (parts @ [a]) c then q = [] else topEntry base (parts @ [a]) c q))"
  (is "?l \<longleftrightarrow> ?r")
proof (cases "\<exists>c. map_of cs a = Some c \<and> isDirNode c \<and> hd (parts @ [a]) \<noteq> ''.locks''")
  case False
  then have "\<not> entryHere base parts (FDir m cs) (a # q)"
    unfolding entryHere_Cons using entryHere_dir by (metis (full_types))
  with False show ?thesis unfolding topEntry_def by blast
next
  case True
  then obtain c where c: "map_of cs a = Some c" "isDirNode c" "hd (parts @ [a]) \<noteq> ''.locks''" by blast
  have inner: "entryHere base parts (FDir m cs) (a # s) \<longleftrightarrow>
      (if s = [] then isEntry base (parts @ [a]) c else entryHere base (parts @ [a]) c s)" for s
    unfolding entryHere_Cons using c by simp
  have nil: "\<not> entryHere base ps n []" for ps n by (simp add: entryHere_def)
  have split: "(\<forall>s r. a # q = s @ r \<and> r \<noteq> [] \<longrightarrow> \<not> entryHere base parts (FDir m cs) s)
      \<longleftrightarrow> (\<forall>s r. q = s @ r \<and> r \<noteq> [] \<longrightarrow> \<not> entryHere base parts (FDir m cs) (a # s))"
    using nil by (auto simp: Cons_eq_append_conv)
  show ?thesis
  proof (cases "isEntry base (parts @ [a]) c")
    case entry: True
    have "?l \<longleftrightarrow> q = []"
    proof
      assume l: ?l
      show "q = []"
      proof (rule ccontr)
        assume "q \<noteq> []"
        with l have "\<not> entryHere base parts (FDir m cs) [a]"
          unfolding topEntry_def split by (metis append_Nil)
        with entry inner [of "[]"] show False by simp
      qed
    next
      assume q: "q = []"
      with entry inner [of "[]"] have "entryHere base parts (FDir m cs) (a # q)" by simp
      with q show ?l unfolding topEntry_def split by simp
    qed
    with c entry show ?thesis by simp
  next
    case other: False
    have "entryHere base parts (FDir m cs) (a # s) \<longleftrightarrow> entryHere base (parts @ [a]) c s" for s
      using inner [of s] other nil by simp
    then have "?l \<longleftrightarrow> topEntry base (parts @ [a]) c q"
      unfolding topEntry_def split by simp
    with c other show ?thesis by simp
  qed
qed

lemma bex_map_of:
  assumes "distinct (map fst cs)"
  shows "(\<exists>c \<in> set cs. Q c) \<longleftrightarrow> (\<exists>a c. map_of cs a = Some c \<and> Q (a, c))"
  using map_of_eq_Some_iff [OF assms] by (metis surj_pair)

lemma walkEntries_exact:
  "validTree n \<Longrightarrow>
    p \<in> cePath ` set (walkEntries base parts n) \<longleftrightarrow> (\<exists>q. p = parts @ q \<and> topEntry base parts n q)"
proof (induction base parts n arbitrary: p rule: walkEntries.induct)
  case (1 base parts m cs)
  let ?step = "\<lambda>c. isDirNode (snd c) \<and> hd (parts @ [fst c]) \<noteq> ''.locks'' \<and>
      (if isEntry base (parts @ [fst c]) (snd c) then p = parts @ [fst c]
       else \<exists>q. p = (parts @ [fst c]) @ q \<and> topEntry base (parts @ [fst c]) (snd c) q)"
  have one: "p \<in> cePath ` set (if \<not> isDirNode (snd c) then []
        else if hd (parts @ [fst c]) = ''.locks'' then []
        else if isEntry base (parts @ [fst c]) (snd c)
          then [\<lparr>cePath = parts @ [fst c], ceModified = modTime (snd c)\<rparr>]
        else walkEntries base (parts @ [fst c]) (snd c)) \<longleftrightarrow> ?step c" if "c \<in> set cs" for c
  proof (cases "isDirNode (snd c) \<and> hd (parts @ [fst c]) \<noteq> ''.locks'' \<and> \<not> isEntry base (parts @ [fst c]) (snd c)")
    case True
    moreover have "validTree (snd c)" using "1.prems" that by simp
    ultimately show ?thesis using "1.IH" [OF that] by simp
  qed auto
  have "p \<in> cePath ` set (walkEntries base parts (FDir m cs)) \<longleftrightarrow> (\<exists>c \<in> set cs. ?step c)"
    using one by (simp only: walkEntries.simps set_concat set_map image_UN UN_iff) blast
  also have "\<dots> \<longleftrightarrow> (\<exists>a c. map_of cs a = Some c \<and> ?step (a, c))"
    by (rule bex_map_of) (use "1.prems" in simp)
  also have "\<dots> \<longleftrightarrow> (\<exists>a q. p = parts @ a # q \<and> topEntry base parts (FDir m cs) (a # q))"
    unfolding topEntry_Cons by (auto split: if_splits)
  also have "\<dots> \<longleftrightarrow> (\<exists>q. p = parts @ q \<and> topEntry base parts (FDir m cs) q)"
  proof -
    have "\<not> topEntry base parts (FDir m cs) []" by (simp add: topEntry_def entryHere_def)
    then show ?thesis by (metis list.exhaust)
  qed
  finally show ?case .
qed (simp_all add: topEntry_file isDirNode_def)

lemma cacheEntries_spec:
  assumes "validTree root"
  shows "p \<in> cePath ` set (cacheEntries base root) \<longleftrightarrow> topEntry base [] root p"
  using walkEntries_exact [OF assms, of p base "[]"] by (simp add: cacheEntries_def)

lemma cacheEntries_below: "validTree root \<Longrightarrow> \<forall>e \<in> set (cacheEntries base root). cePath e \<noteq> []"
proof
  fix e
  assume "validTree root" "e \<in> set (cacheEntries base root)"
  then have "topEntry base [] root (cePath e)" using cacheEntries_spec by blast
  then show "cePath e \<noteq> []" by (simp add: topEntry_def entryHere_def)
qed

section \<open>MakeRoom\<close>

text \<open>What the eviction may take: entries nobody reads, other than the one being used.\<close>

definition evictable :: "diskWorld \<Rightarrow> Budget \<Rightarrow> fnode \<Rightarrow> fpath \<Rightarrow> bool" where
  "evictable w b root p \<longleftrightarrow> topEntry (bgBase b) [] root p \<and> Some p \<noteq> bgKeep b \<and> dwLock w p = Inr True"

lemma MakeRoom_spec:
  assumes run: "MakeRoom w b additional root = (r, root')" and valid: "validTree root"
  shows "\<exists>removed. (\<forall>p \<in> set removed. evictable w b root p) \<and> root' = fold removeAt removed root
    \<and> validTree root' \<and> fsize root' \<le> fsize root
    \<and> (r = Inr () \<and> bgMaxBytes b > 0 \<longrightarrow> fsize root' + additional \<le> bgMaxBytes b)"
proof (cases "(bgMaxBytes b \<le> 0 \<and> bgTTL b \<le> 0) \<or> (bgMaxBytes b > 0 \<and> additional > bgMaxBytes b)
    \<or> dwSizeErr w [] \<noteq> None \<or> dwWalkErr w \<noteq> None")
  case True
  then have "root' = root" "r = Inr () \<longrightarrow> bgMaxBytes b \<le> 0"
    using run by (auto simp: MakeRoom_def split: if_splits option.splits)
  with valid show ?thesis by (intro exI [of _ "[]"]) auto
next
  case False
  let ?es = "cacheEntries (bgBase b) root"
  obtain r1 root1 where loop: "makeRoomLoop w b additional (fsize root) root ?es = (r1, root1)"
    by fastforce
  then obtain removed where made: "roomMade w b additional ?es root removed r1 root1"
    using makeRoomLoop_spec [OF loop valid refl cacheEntries_below [OF valid]] by blast
  have "root' = root1 \<and> (r = Inr () \<and> bgMaxBytes b > 0 \<longrightarrow>
      (\<exists>used. r1 = Inr used \<and> used + additional \<le> bgMaxBytes b))"
    using run loop False by (auto simp: MakeRoom_def split: if_splits sum.splits)
  moreover have "evictable w b root p" if "p \<in> set removed" for p
  proof -
    from that made have "p \<in> cePath ` set ?es" "Some p \<noteq> bgKeep b" "dwLock w p = Inr True"
      unfolding roomMade_def by blast+
    then show ?thesis by (simp add: evictable_def cacheEntries_spec [OF valid])
  qed
  ultimately show ?thesis
    using made unfolding roomMade_def by (intro exI [of _ removed]) auto
qed

lemma fold_removeAt_keeps:
  assumes "nodeAt q root = Some (FFile n)" "\<forall>p \<in> set removed. \<not> (\<exists>r. q = p @ r)"
  shows "nodeAt q (fold removeAt removed root) = Some (FFile n)"
  using assms by (induction removed arbitrary: root) (simp_all add: nodeAt_removeAt)

lemma MakeRoom_keeps:
  assumes "MakeRoom w b additional root = (r, root')" "validTree root"
    "nodeAt q root = Some (FFile n)" "\<forall>p s. q = p @ s \<longrightarrow> \<not> evictable w b root p"
  shows "nodeAt q root' = Some (FFile n)"
proof -
  from MakeRoom_spec [OF assms(1,2)] obtain removed
    where "\<forall>p \<in> set removed. evictable w b root p" "root' = fold removeAt removed root" by blast
  with assms(3,4) show ?thesis using fold_removeAt_keeps by blast
qed

lemma removeAt_gone:
  "validTree root \<Longrightarrow> p \<noteq> [] \<Longrightarrow> nodeAt p (removeAt p root) = None"
proof (induction p root rule: removeAt.induct)
  case (2 p m cs)
  have "map_of (filter (\<lambda>c. fst c \<noteq> p) cs) p = None" by (induction cs) auto
  then show ?case by simp
next
  case (3 p q ps m cs)
  show ?case
  proof (cases "map_of cs p")
    case (Some c)
    then have "validTree (snd (p, c))" using "3.prems" map_of_SomeD [OF Some] by fastforce
    with "3.IH" [of "(p, c)"] map_of_SomeD [OF Some] Some show ?thesis by (simp add: updChild_map_of)
  qed (simp add: updChild_map_of)
qed auto

lemma removeAt_absent: "nodeAt p root = None \<Longrightarrow> nodeAt p (removeAt q root) = None"
proof (induction q root arbitrary: p rule: removeAt.induct)
  case (2 q m cs)
  show ?case
  proof (cases p)
    case (Cons a ps)
    have "map_of (filter (\<lambda>c. fst c \<noteq> q) cs) a = (if a = q then None else map_of cs a)"
      by (induction cs) auto
    with Cons 2 show ?thesis by simp
  qed (use 2 in simp)
next
  case (3 q q' qs m cs)
  show ?case
  proof (cases p)
    case (Cons a ps)
    show ?thesis
    proof (cases "map_of cs a")
      case (Some c)
      with "3.IH" [of "(a, c)" ps] "3.prems" Cons map_of_SomeD [OF Some] show ?thesis
        by (cases "a = q") (simp_all add: updChild_map_of)
    next
      case None
      with Cons show ?thesis by (cases "a = q") (simp_all add: updChild_map_of)
    qed
  qed (use 3 in simp)
qed auto

lemma fold_removeAt_gone:
  assumes "validTree root" "p \<in> set removed" "p \<noteq> []"
  shows "nodeAt p (fold removeAt removed root) = None"
proof -
  have absent: "nodeAt p root = None \<Longrightarrow> nodeAt p (fold removeAt rs root) = None" for rs root
    by (induction rs arbitrary: root) (simp_all add: removeAt_absent)
  from assms show ?thesis
  proof (induction removed arbitrary: root)
    case (Cons q qs)
    show ?case
    proof (cases "p = q")
      case True
      with absent [OF removeAt_gone [OF Cons.prems(1,3)]] show ?thesis by simp
    next
      case False
      with Cons validTree_removeAt show ?thesis by simp
    qed
  qed simp
qed

lemma makeRoomLoop_no_error:
  assumes "makeRoomLoop w b additional acc root es = (r, root')"
    and "\<forall>p. dwSizeErr w p = None \<and> dwRemoveErr w p = None \<and> \<not> isl (dwLock w p)"
  shows "\<exists>used. r = Inr used"
  using assms
  by (induction w b additional acc root es rule: makeRoomLoop.induct)
    (auto simp: Let_def isl_def split: if_splits sum.splits bool.splits)

section \<open>Properties of the eviction\<close>

text \<open>The walk finds exactly the outermost directories that are cache entries: a three-component
  path with its metadata, a snapshot being built below .tmp, or a bare mirror below the pull root.
  Names chosen by repository owners never turn an inner directory into an entry of its own, and
  nothing below .locks is one.\<close>

theorem cache_entries_exact:
  assumes "validTree root"
  shows "p \<in> cePath ` set (cacheEntries base root) \<longleftrightarrow> topEntry base [] root p"
  using assms by (rule cacheEntries_spec)

text \<open>C20: MakeRoom touches nothing but idle entries: a file outside every evictable entry keeps its
  contents, whatever the outcome; in particular the kept entry and every entry whose lock another
  reader holds survive.\<close>

theorem make_room_keeps_files_in_use:
  assumes "MakeRoom w b additional root = (r, root')" "validTree root"
    and "nodeAt q root = Some (FFile n)" "\<forall>p s. q = p @ s \<longrightarrow> \<not> evictable w b root p"
  shows "nodeAt q root' = Some (FFile n)"
  using assms by (rule MakeRoom_keeps)

text \<open>MakeRoom refuses only when it has no choice: on a file system that does not fail, the only
  error is the capacity error, and it is returned either for a request larger than the whole budget
  or after every evictable entry is gone; success means that the request fits.\<close>

theorem make_room_complete:
  assumes run: "MakeRoom w b additional root = (r, root')" and valid: "validTree root"
    and "\<forall>p. dwSizeErr w p = None \<and> dwRemoveErr w p = None \<and> \<not> isl (dwLock w p)" "dwWalkErr w = None"
    and "bgMaxBytes b > 0"
  shows "if r = Inr () then fsize root' + additional \<le> bgMaxBytes b
    else r = Inl errCapacity
      \<and> (additional > bgMaxBytes b \<or> (\<forall>p. evictable w b root p \<longrightarrow> nodeAt p root' = None))"
proof (cases "additional > bgMaxBytes b")
  case True
  with assms show ?thesis by (auto simp: MakeRoom_def split: if_splits)
next
  case False
  let ?es = "cacheEntries (bgBase b) root"
  obtain r1 root1 where loop: "makeRoomLoop w b additional (fsize root) root ?es = (r1, root1)"
    by fastforce
  then obtain removed where made: "roomMade w b additional ?es root removed r1 root1"
    using makeRoomLoop_spec [OF loop valid refl cacheEntries_below [OF valid]] by blast
  have "\<exists>used. r1 = Inr used" using loop assms(3) by (rule makeRoomLoop_no_error)
  then obtain used where used: "r1 = Inr used" ..
  then have r: "root' = root1" "r = (if used + additional > bgMaxBytes b then Inl errCapacity else Inr ())"
    using run loop False assms(3-5) by (auto simp: MakeRoom_def split: if_splits)
  show ?thesis
  proof (cases "used + additional > bgMaxBytes b")
    case True
    have "nodeAt p root' = None" if p: "evictable w b root p" for p
    proof -
      from p have "p \<in> cePath ` set ?es" "Some p \<noteq> bgKeep b" "dwLock w p = Inr True" "p \<noteq> []"
        by (auto simp: evictable_def cacheEntries_spec [OF valid] topEntry_def entryHere_def)
      with made used True assms(5) have "p \<in> set removed" "root1 = fold removeAt removed root"
        unfolding roomMade_def by auto
      with fold_removeAt_gone [OF valid] \<open>p \<noteq> []\<close> r show ?thesis by simp
    qed
    with r True show ?thesis by simp
  next
    case fits: False
    with made used r show ?thesis unfolding roomMade_def by simp
  qed
qed

section \<open>Reserving growth keeps the cache within its budget\<close>

text \<open>What a budget that has measured the disk knows: the unreserved part of the budget is really free.\<close>

definition budgetSound :: "Budget \<Rightarrow> fnode \<Rightarrow> bool" where
  "budgetSound b root \<longleftrightarrow> validTree root
     \<and> (bgReady b \<longrightarrow> 0 \<le> bgFree b \<and> fsize root + bgFree b \<le> bgMaxBytes b)"

lemma Reserve_spec:
  assumes run: "Reserve w growth (b, root) = (r, b', root')"
    and sound: "budgetSound b root" and pos: "0 \<le> growth" "0 < bgMaxBytes b"
  shows "budgetSound b' root' \<and> fsize root' \<le> fsize root
    \<and> bgMaxBytes b' = bgMaxBytes b \<and> bgKeep b' = bgKeep b \<and> bgBase b' = bgBase b
    \<and> (r = Inr () \<longrightarrow> bgReady b' \<and> fsize root' + growth + bgFree b' \<le> bgMaxBytes b)
    \<and> (\<forall>q n. nodeAt q root = Some (FFile n) \<and> (\<forall>p s. q = p @ s \<longrightarrow> \<not> evictable w b root p)
        \<longrightarrow> nodeAt q root' = Some (FFile n))"
proof (cases "\<not> bgReady b \<or> growth > bgFree b")
  case False
  with run sound pos show ?thesis by (auto simp: Reserve_def budgetSound_def)
next
  case True
  obtain r1 root1 where room: "MakeRoom w b growth root = (r1, root1)" by fastforce
  have valid: "validTree root" using sound by (simp add: budgetSound_def)
  from MakeRoom_spec [OF room valid] have made: "validTree root1" "fsize root1 \<le> fsize root"
    "r1 = Inr () \<Longrightarrow> fsize root1 + growth \<le> bgMaxBytes b" using pos by auto
  have files: "\<forall>q n. nodeAt q root = Some (FFile n) \<and> (\<forall>p s. q = p @ s \<longrightarrow> \<not> evictable w b root p)
        \<longrightarrow> nodeAt q root1 = Some (FFile n)"
    using MakeRoom_keeps [OF room valid] by blast
  have kept: "budgetSound b root1" using sound made by (auto simp: budgetSound_def)
  show ?thesis
  proof (cases "\<exists>err. r1 = Inl err \<or> dwSizeErr w [] = Some err")
    case True
    with run room pos \<open>\<not> bgReady b \<or> growth > bgFree b\<close>
    have "root' = root1 \<and> b' = b \<and> r \<noteq> Inr ()"
      by (auto simp: Reserve_def split: if_splits sum.splits option.splits)
    with kept made files show ?thesis by simp
  next
    case False
    then have r1: "r1 = Inr ()" "dwSizeErr w [] = None" by (cases r1; auto)+
    with run room pos \<open>\<not> bgReady b \<or> growth > bgFree b\<close> made(3)
    have "root' = root1" "b' = b\<lparr>bgReady := True, bgFree := bgMaxBytes b - fsize root1 - growth\<rparr>" "r = Inr ()"
      by (auto simp: Reserve_def)
    with made r1 pos files show ?thesis by (simp add: budgetSound_def)
  qed
qed

lemma resizeAt_size:
  assumes "validTree root" "nodeAt p root = Some (FFile old)" "p \<noteq> []" "0 \<le> n"
  shows "fsize (resizeAt p n root) = fsize root - old + n \<and> validTree (resizeAt p n root)"
  using assms
proof (induction p n root rule: resizeAt.induct)
  case (2 p n m cs)
  then obtain c where c: "map_of cs p = Some (FFile old)" by (auto split: option.splits)
  then have "p \<in> fst ` set cs" by (metis domI dom_map_of_conv_image_fst)
  moreover have "fsize (FDir m (updChild p (\<lambda>_. FFile n) cs)) = fsize (FDir m cs) - old + n"
    using updChild_size [OF _ c, of m "\<lambda>_. FFile n"] "2.prems"(1) by simp
  moreover have "validTree (FDir m (updChild p (\<lambda>_. FFile n) cs))"
    by (rule updChild_valid) (use 2 in auto)
  ultimately show ?case by simp
next
  case (3 p q ps n m cs)
  then obtain c where c: "map_of cs p = Some c" "nodeAt (q # ps) c = Some (FFile old)"
    by (auto split: option.splits)
  then have mem: "(p, c) \<in> set cs" using map_of_SomeD by fast
  have dist: "distinct (map fst cs)" "validTree c" using "3.prems"(1) mem by fastforce+
  have ih: "fsize (resizeAt (q # ps) n c) = fsize c - old + n \<and> validTree (resizeAt (q # ps) n c)"
    using "3.IH" [of "(p, c)"] mem c dist "3.prems" by simp
  have "fsize (FDir m (updChild p (resizeAt (q # ps) n) cs)) = fsize (FDir m cs) - old + n"
    using updChild_size [OF dist(1) c(1), of m "resizeAt (q # ps) n"] ih by simp
  moreover have "validTree (FDir m (updChild p (resizeAt (q # ps) n) cs))"
  proof (rule updChild_valid [OF "3.prems"(1)])
    fix d assume "(p, d) \<in> set cs"
    then have "d = c" using c(1) dist(1) by (simp add: map_of_is_SomeI)
    with ih show "validTree (resizeAt (q # ps) n d)" by simp
  qed
  ultimately show ?case by simp
qed auto

text \<open>The steps of a cache while its user holds the writer lock: growth is reserved, a file whose handle
  knows its size is written or truncated, and anything may be deleted.\<close>

definition writable :: "diskWorld \<Rightarrow> budgetFile \<Rightarrow> budgetState \<Rightarrow> bool" where
  "writable w f s \<longleftrightarrow> bfPath f \<noteq> [] \<and> 0 \<le> bfOffset f \<and> nodeAt (bfPath f) (snd s) = Some (FFile (bfSize f))
     \<and> (\<forall>p q. bfPath f = p @ q \<longrightarrow> \<not> evictable w (fst s) (snd s) p)"

inductive cacheStep :: "budgetState \<Rightarrow> budgetState \<Rightarrow> bool" where
  Reserved: "Reserve w growth s = (r, s') \<Longrightarrow> 0 \<le> growth \<Longrightarrow> cacheStep s s'"
| Written: "writable w f s \<Longrightarrow> fileWrite w f len (n, err) s = (r, f', s') \<Longrightarrow> 0 \<le> n \<Longrightarrow> n \<le> len
    \<Longrightarrow> cacheStep s s'"
| Truncated: "writable w f s \<Longrightarrow> fileTruncate w f size' failed s = (r, f', s') \<Longrightarrow> 0 \<le> size'
    \<Longrightarrow> cacheStep s s'"
| Removed: "p \<noteq> [] \<Longrightarrow> cacheStep (b, root) (b, removeAt p root)"

text \<open>The invariant: the budget is sound, and while nothing has been reserved yet the cache has not
  grown beyond its initial size \<open>start\<close>.\<close>

definition withinBudget :: "int \<Rightarrow> int \<Rightarrow> budgetState \<Rightarrow> bool" where
  "withinBudget limit start s \<longleftrightarrow> budgetSound (fst s) (snd s) \<and> bgMaxBytes (fst s) = limit
     \<and> fsize (snd s) \<le> (if bgReady (fst s) then limit else start)"

lemma Reserve_within:
  assumes "Reserve w growth s = (r, s')" "withinBudget limit start s" "0 \<le> growth" "0 < limit"
  shows "withinBudget limit start s'"
    and "r = Inr () \<Longrightarrow> bgReady (fst s') \<and> fsize (snd s') + growth + bgFree (fst s') \<le> limit"
    and "nodeAt q (snd s) = Some (FFile n) \<Longrightarrow> (\<forall>p t. q = p @ t \<longrightarrow> \<not> evictable w (fst s) (snd s) p)
      \<Longrightarrow> nodeAt q (snd s') = Some (FFile n)"
proof -
  obtain b root b' root' where s: "s = (b, root)" "s' = (b', root')" by (cases s; cases s')
  with assms have "budgetSound b root" "0 < bgMaxBytes b" "Reserve w growth (b, root) = (r, b', root')"
    by (simp_all add: withinBudget_def)
  note spec = Reserve_spec [OF this(3,1) assms(3) this(2)]
  have "bgReady b \<Longrightarrow> bgReady b'"
    using \<open>Reserve w growth (b, root) = (r, b', root')\<close> by (auto simp: Reserve_def split: if_splits sum.splits option.splits prod.splits)
  with assms(2) s spec have "fsize root' \<le> (if bgReady b' then limit else start)"
    by (cases "bgReady b'"; cases "bgReady b") (auto simp: withinBudget_def budgetSound_def)
  with spec assms(2) s show "withinBudget limit start s'" by (simp add: withinBudget_def)
  show "r = Inr () \<Longrightarrow> bgReady (fst s') \<and> fsize (snd s') + growth + bgFree (fst s') \<le> limit"
    using spec s assms(2) by (simp add: withinBudget_def)
  show "nodeAt q (snd s) = Some (FFile n) \<Longrightarrow> (\<forall>p t. q = p @ t \<longrightarrow> \<not> evictable w (fst s) (snd s) p)
      \<Longrightarrow> nodeAt q (snd s') = Some (FFile n)"
    using spec s by simp
qed

lemma withinBudget_removed:
  "withinBudget limit start (b, root) \<Longrightarrow> p \<noteq> [] \<Longrightarrow> withinBudget limit start (b, removeAt p root)"
proof -
  assume w: "withinBudget limit start (b, root)" and "p \<noteq> []"
  then have v: "validTree root" by (simp add: withinBudget_def budgetSound_def)
  then have "fsize (removeAt p root) \<le> fsize root"
    using fsize_removeAt [OF v \<open>p \<noteq> []\<close>] sizeAt_nonneg [OF v] by simp
  with w validTree_removeAt [OF v] show ?thesis by (auto simp: withinBudget_def budgetSound_def)
qed

text \<open>After a successful reservation a held file may grow by what was reserved.\<close>

lemma withinBudget_resized:
  assumes "withinBudget limit start (b, root)" "bgReady b" "fsize root + growth + bgFree b \<le> limit"
    and "nodeAt p root = Some (FFile old)" "p \<noteq> []" "0 \<le> n" "n \<le> old + growth"
  shows "withinBudget limit start (b, resizeAt p n root)"
proof -
  have "validTree root" using assms(1) by (simp add: withinBudget_def budgetSound_def)
  from resizeAt_size [OF this assms(4,5,6)] assms show ?thesis
    by (auto simp: withinBudget_def budgetSound_def)
qed

lemma fileWrite_within:
  assumes "fileWrite w f len (n, err) s = (r, f', s')" "writable w f s" "0 \<le> n" "n \<le> len"
    and "withinBudget limit start s" "0 < limit"
  shows "withinBudget limit start s'"
proof -
  define offset where "offset = (if bfAppend f then max (bfOffset f) (bfSize f) else bfOffset f)"
  define growth where "growth = max 0 (offset + len - bfSize f)"
  have held: "nodeAt (bfPath f) (snd s) = Some (FFile (bfSize f))" "bfPath f \<noteq> []" "0 \<le> bfOffset f"
    using assms(2) by (simp_all add: writable_def)
  have "validTree (snd s)" using assms(5) by (simp add: withinBudget_def budgetSound_def)
  obtain r1 b1 root1 where res: "Reserve w growth s = (r1, b1, root1)" by (metis surj_pair)
  have growth: "0 \<le> growth" by (simp add: growth_def)
  note within = Reserve_within [OF res assms(5) growth assms(6)]
  show ?thesis
  proof (cases r1)
    case (Inl e)
    with assms(1) res have "s' = (b1, root1)"
      by (simp add: fileWrite_def Let_def offset_def [symmetric] growth_def [symmetric])
    with within(1) show ?thesis by simp
  next
    case (Inr u)
    define size' where "size' = max (bfSize f) (offset + n)"
    have s': "s' = (b1, if n = 0 then root1 else resizeAt (bfPath f) size' root1)"
      using assms(1) res Inr
      by (auto simp: fileWrite_def Let_def offset_def [symmetric] growth_def [symmetric] size'_def)
    have "nodeAt (bfPath f) root1 = Some (FFile (bfSize f))"
      using within(3) [OF held(1)] assms(2) by (simp add: writable_def)
    moreover have "size' \<le> bfSize f + growth" "0 \<le> size'"
      using assms(3,4) held(3) by (auto simp: size'_def growth_def offset_def)
    ultimately have "withinBudget limit start (b1, resizeAt (bfPath f) size' root1)"
      using withinBudget_resized [OF within(1), of growth "bfPath f" "bfSize f" size'] within(2) Inr held(2) by simp
    with s' within(1) show ?thesis by simp
  qed
qed

lemma fileTruncate_within:
  assumes "fileTruncate w f size' failed s = (r, f', s')" "writable w f s" "0 \<le> size'"
    and "withinBudget limit start s" "0 < limit"
  shows "withinBudget limit start s'"
proof -
  define growth where "growth = max 0 (size' - bfSize f)"
  have held: "nodeAt (bfPath f) (snd s) = Some (FFile (bfSize f))" "bfPath f \<noteq> []"
    using assms(2) by (simp_all add: writable_def)
  obtain r1 b1 root1 where res: "Reserve w growth s = (r1, b1, root1)" by (metis surj_pair)
  have growth: "0 \<le> growth" by (simp add: growth_def)
  note within = Reserve_within [OF res assms(4) growth assms(5)]
  have cases': "s' = (b1, root1) \<or> (r1 = Inr () \<and> s' = (b1, resizeAt (bfPath f) size' root1))"
    using assms(1) res
    by (auto simp: fileTruncate_def growth_def [symmetric] split: sum.splits option.splits)
  show ?thesis
  proof (cases "s' = (b1, root1)")
    case True
    with within(1) show ?thesis by simp
  next
    case False
    with cases' have ok: "r1 = Inr ()" "s' = (b1, resizeAt (bfPath f) size' root1)" by auto
    have "nodeAt (bfPath f) root1 = Some (FFile (bfSize f))"
      using within(3) [OF held(1)] assms(2) by (simp add: writable_def)
    moreover have "size' \<le> bfSize f + growth" by (simp add: growth_def)
    ultimately show ?thesis
      using withinBudget_resized [OF within(1), of growth "bfPath f" "bfSize f" size'] within(2) ok held(2) assms(3) by simp
  qed
qed

lemma cacheStep_within:
  "cacheStep s s' \<Longrightarrow> withinBudget limit start s \<Longrightarrow> 0 < limit \<Longrightarrow> withinBudget limit start s'"
proof (induction rule: cacheStep.induct)
  case (Reserved w growth s r s')
  then show ?case using Reserve_within(1) by blast
next
  case (Written w f s len n err r f' s')
  then show ?case using fileWrite_within by blast
next
  case (Truncated w f s size' failed r f' s')
  then show ?case using fileTruncate_within by blast
next
  case (Removed p b root)
  then show ?case using withinBudget_removed by blast
qed

text \<open>C2: The disk budget is an invariant: starting from a budget that has not measured anything yet, any
  sequence of reservations, writes, truncations and deletions leaves the cache directory no larger than
  the configured maximum, or than it was at the start if that was more.\<close>

theorem disk_use_bounded:
  assumes "cacheStep\<^sup>*\<^sup>* (b, root) (b', root')"
    and "validTree root" "\<not> bgReady b" "0 < bgMaxBytes b"
  shows "fsize root' \<le> max (bgMaxBytes b) (fsize root)
    \<and> (bgReady b' \<longrightarrow> fsize root' + bgFree b' \<le> bgMaxBytes b)"
proof -
  have start: "withinBudget (bgMaxBytes b) (fsize root) (b, root)"
    using assms(2,3) by (simp add: withinBudget_def budgetSound_def)
  from assms(1) have "withinBudget (bgMaxBytes b) (fsize root) (b', root')"
  proof (induction rule: rtranclp_induct)
    case base
    show ?case by (rule start)
  next
    case (step y z)
    then show ?case using cacheStep_within assms(4) by blast
  qed
  then show ?thesis by (auto simp: withinBudget_def budgetSound_def split: if_splits)
qed

section \<open>A concrete cache\<close>

text \<open>A user's cache with two published snapshots, a bare mirror of which a reader holds the lock, and the
  lock directory.\<close>

definition someCache :: fnode where
  "someCache = FDir 0
     [(''v1'', FDir 0 [(''dir'', FDir 0
         [(''one'', FDir 10 [(''metadata.json'', FFile 10), (''tree'', FDir 0 [(''a'', FFile 40)])]),
          (''two'', FDir 20 [(''metadata.json'', FFile 10), (''b'', FFile 20)])])]),
      (''.pull'', FDir 0 [(''x.git'', FDir 5 [(''pack'', FFile 30)])]),
      (''.locks'', FDir 0 [(''x'', FFile 0)])]"

definition someDisk :: diskWorld where
  "someDisk = \<lparr>dwNow = 100, dwLock = (\<lambda>p. Inr (p \<noteq> [''.pull'', ''x.git''])),
     dwSizeErr = (\<lambda>p. None), dwWalkErr = None, dwRemoveErr = (\<lambda>p. None)\<rparr>"

definition someBudget :: "int \<Rightarrow> Budget" where
  "someBudget limit = \<lparr>bgBase = ''alice'', bgKeep = Some [''v1'', ''dir'', ''two''], bgMaxBytes = limit,
     bgTTL = 0, bgReady = False, bgFree = 0\<rparr>"

lemmas cache_run = someCache_def someDisk_def someBudget_def MakeRoom_def cacheEntries_def sortSlice_def
  isEntry_def hasChild_def isDirNode_def modTime_def hasSuffix_def hasPrefix_def Let_def

lemma someCache_valid: "validTree someCache"
  by (simp add: someCache_def)

lemma someCache_entries:
  "map cePath (cacheEntries ''alice'' someCache)
     = [[''.pull'', ''x.git''], [''v1'', ''dir'', ''one''], [''v1'', ''dir'', ''two'']]"
  by (simp add: cache_run)

lemma someCache_paths:
  "cePath ` set (cacheEntries ''alice'' someCache)
     = {[''.pull'', ''x.git''], [''v1'', ''dir'', ''one''], [''v1'', ''dir'', ''two'']}"
  using arg_cong [OF someCache_entries, of set] by simp

lemma someCache_top:
  "topEntry ''alice'' [] someCache p \<longleftrightarrow>
     p = [''.pull'', ''x.git''] \<or> p = [''v1'', ''dir'', ''one''] \<or> p = [''v1'', ''dir'', ''two'']"
  unfolding cacheEntries_spec [OF someCache_valid, symmetric] someCache_paths by blast

lemma makeRoom_some:
  "MakeRoom someDisk (someBudget 80) 20 someCache = (Inr (), removeAt [''v1'', ''dir'', ''one''] someCache)"
  by (simp add: cache_run)

lemma makeRoom_full:
  "MakeRoom someDisk (someBudget 80) 30 someCache
     = (Inl errCapacity, removeAt [''v1'', ''dir'', ''one''] someCache)"
  by (simp add: cache_run errCapacity_def)

theorem cache_entries_exact_witness:
  "validTree someCache \<and> topEntry ''alice'' [] someCache [''.pull'', ''x.git'']"
  using cache_entries_exact [of someCache "[''.pull'', ''x.git'']" "''alice''"] someCache_valid
  unfolding someCache_paths by blast

theorem make_room_keeps_files_in_use_witness:
  "nodeAt [''.pull'', ''x.git'', ''pack''] (snd (MakeRoom someDisk (someBudget 80) 20 someCache))
     = Some (FFile 30)"
proof -
  have ev: "evictable someDisk (someBudget 80) someCache p \<Longrightarrow> p = [''v1'', ''dir'', ''one'']" for p
    by (auto simp: evictable_def someDisk_def someBudget_def someCache_top)
  have "\<forall>p s. [''.pull'', ''x.git'', ''pack''] = p @ s \<longrightarrow> \<not> evictable someDisk (someBudget 80) someCache p"
    using ev by fastforce
  moreover have "nodeAt [''.pull'', ''x.git'', ''pack''] someCache = Some (FFile 30)"
    by (simp add: someCache_def)
  ultimately show ?thesis
    unfolding makeRoom_some snd_conv
    by (intro make_room_keeps_files_in_use [OF makeRoom_some someCache_valid])
qed

theorem make_room_complete_witness:
  "fst (MakeRoom someDisk (someBudget 80) 30 someCache) = Inl errCapacity
   \<and> nodeAt [''v1'', ''dir'', ''one''] (snd (MakeRoom someDisk (someBudget 80) 30 someCache)) = None"
proof -
  have "evictable someDisk (someBudget 80) someCache [''v1'', ''dir'', ''one'']"
    by (simp add: evictable_def someCache_top someDisk_def someBudget_def)
  then show ?thesis
    using make_room_complete [OF makeRoom_full someCache_valid]
    unfolding makeRoom_full fst_conv snd_conv by (simp add: someDisk_def someBudget_def)
qed

theorem disk_use_bounded_witness:
  "fsize (snd (snd (Reserve someDisk 20 (someBudget 80, someCache)))) \<le> 110"
proof -
  obtain r b root where run: "Reserve someDisk 20 (someBudget 80, someCache) = (r, b, root)"
    by (metis surj_pair)
  then have "cacheStep (someBudget 80, someCache) (b, root)" by (rule Reserved) simp
  then show ?thesis
    using disk_use_bounded [OF r_into_rtranclp] someCache_valid run
    by (force simp: someBudget_def someCache_def)
qed

section \<open>Removing a cache, and waiting for its locks\<close>

lemma lockAll_ok: "lockAll w es = None \<longleftrightarrow> (\<forall>e \<in> set es. dwLock w (cePath e) = Inr True)"
  by (induction w es rule: lockAll.induct) (auto split: sum.splits bool.splits)

lemma childNames_removeAt: "childNames (removeAt [p] root) = filter (\<lambda>n. n \<noteq> p) (childNames root)"
proof (cases root)
  case (FDir m cs)
  have "map fst (filter (\<lambda>c. fst c \<noteq> p) cs) = filter (\<lambda>n. n \<noteq> p) (map fst cs)" by (induction cs) auto
  with FDir show ?thesis by (simp add: childNames_def)
qed (simp_all add: childNames_def)

lemma removeChildren_left:
  "removeChildren w names root = (None, left) \<Longrightarrow>
    set (childNames left) \<subseteq> set (childNames root) - (set names - {''.locks''})"
  by (induction w names root rule: removeChildren.induct)
    (auto simp: childNames_removeAt split: if_splits option.splits)



text \<open>A lock that is free, or a context that ends, at round \<open>m\<close> stops the wait within \<open>m + 1\<close> rounds.\<close>

lemma Acquire_stops:
  assumes "lwCtx w m \<noteq> None \<or> lwTry w m \<noteq> Inr False \<or> lwWait w m \<noteq> None" "k \<le> m" "m < k + fuel"
  shows "Acquire w fuel k \<noteq> None"
  using assms
proof (induction w fuel k rule: Acquire.induct)
  case (2 w fuel k)
  show ?case
  proof (cases "k = m")
    case True
    with "2.prems"(1) show ?thesis by (auto split: option.splits sum.splits bool.splits)
  next
    case False
    with 2 show ?thesis by (auto split: option.splits sum.splits bool.splits)
  qed
qed simp

lemma Acquire_result:
  "Acquire w fuel k = Some r \<Longrightarrow> \<exists>i \<ge> k.
     (case r of Inr _ \<Rightarrow> lwCtx w i = None \<and> lwTry w i = Inr True
      | Inl err \<Rightarrow> lwCtx w i = Some err \<or> lwTry w i = Inl err \<or> lwWait w i = Some err)"
proof (induction w fuel k rule: Acquire.induct)
  case (2 w fuel k)
  show ?case
  proof (cases "lwCtx w k = None \<and> lwTry w k = Inr False \<and> lwWait w k = None")
    case True
    with 2 obtain i where "Suc k \<le> i" "case r of Inr _ \<Rightarrow> lwCtx w i = None \<and> lwTry w i = Inr True
      | Inl err \<Rightarrow> lwCtx w i = Some err \<or> lwTry w i = Inl err \<or> lwWait w i = Some err" by auto
    then show ?thesis by (intro exI [of _ i]) simp
  next
    case False
    with "2.prems" show ?thesis by (intro exI [of _ k]) (auto split: option.splits sum.splits bool.splits)
  qed
qed simp

text \<open>C40: Waiting for a cache lock ends: if at some round the lock is free, cannot be tried, or the context
  is done, then Acquire returns by that round, with the lock only when an attempt obtained it and with
  an error only when the context or an attempt reported that error.\<close>

theorem acquire_returns:
  assumes "lwCtx w m \<noteq> None \<or> lwTry w m \<noteq> Inr False \<or> lwWait w m \<noteq> None" "m < fuel"
  shows "\<exists>r. Acquire w fuel 0 = Some r \<and> (\<exists>i.
     (case r of Inr _ \<Rightarrow> lwCtx w i = None \<and> lwTry w i = Inr True
      | Inl err \<Rightarrow> lwCtx w i = Some err \<or> lwTry w i = Inl err \<or> lwWait w i = Some err))"
  using Acquire_stops [OF assms(1), of 0 fuel] Acquire_result [of w fuel 0] assms(2) by fastforce

definition busyLock :: lockWorld where
  "busyLock = \<lparr>lwCtx = (\<lambda>_. None), lwTry = (\<lambda>k. Inr (k = 2)), lwWait = (\<lambda>_. None)\<rparr>"

theorem acquire_returns_witness: "\<exists>r. Acquire busyLock 3 0 = Some r"
  using acquire_returns [of busyLock 2 3] by (auto simp: busyLock_def)

end
