(* ===== verification/HttpUsers.thy ===== *)
theory HttpUsers
  imports GogsErrors "HOL-Library.AList"
begin

text \<open>
  internal/httpserver/users.go, the two caches of the HTTP transport. The user cache maps token hashes
  to resolved users with an expiry, and keeps their hashes from the most to the least recently used;
  the map is an association list without duplicate keys, the list of the code is the list of hashes.
  The negative cache maps hashes of rejected tokens to their expiry. The clock is an argument.
\<close>

section \<open>The user cache\<close>

text \<open>\<open>ueServer\<close> stands for the tool server object built for the user.\<close>

record userEntry =
  ueHash :: string
  ueUserID :: int
  ueUsername :: string
  ueServer :: int
  ueExpires :: int

record userCache =
  ucMax :: int
  ucTTL :: int
  ucEntries :: "(string \<times> userEntry) list"
  ucOrder :: "string list"

definition newUserCache :: "int \<Rightarrow> int \<Rightarrow> userCache" where
  "newUserCache maximum ttl = \<lparr>ucMax = maximum, ucTTL = ttl, ucEntries = [], ucOrder = []\<rparr>"

definition removeEntry :: "string \<Rightarrow> userCache \<Rightarrow> userCache" where
  "removeEntry hash c =
     c\<lparr>ucOrder := removeAll hash (ucOrder c), ucEntries := AList.delete hash (ucEntries c)\<rparr>"

definition getUser :: "int \<Rightarrow> string \<Rightarrow> userCache \<Rightarrow> userEntry option \<times> userCache" where
  "getUser now hash c =
     (case map_of (ucEntries c) hash of
        None \<Rightarrow> (None, c)
      | Some entry \<Rightarrow>
          if now > ueExpires entry then (None, removeEntry hash c)
          else (Some entry, c\<lparr>ucOrder := hash # removeAll hash (ucOrder c)\<rparr>))"

text \<open>The eviction loop: from the back of the list, while there are too many entries. The order is given
  from the back.\<close>

fun evictLoop :: "int \<Rightarrow> (string \<times> userEntry) list \<Rightarrow> string list \<Rightarrow> int list \<Rightarrow>
    (string \<times> userEntry) list \<times> string list \<times> int list" where
  "evictLoop maximum entries [] evicted = (entries, [], evicted)"
| "evictLoop maximum entries (oldest # newer) evicted =
     (if int (length entries) > maximum then
        evictLoop maximum (AList.delete oldest entries) newer
          (evicted @ (case map_of entries oldest of Some e \<Rightarrow> [ueUserID e] | None \<Rightarrow> []))
      else (entries, oldest # newer, evicted))"

definition putUser :: "int \<Rightarrow> userEntry \<Rightarrow> userCache \<Rightarrow> (userEntry \<times> int list) \<times> userCache" where
  "putUser now entry c =
     (case map_of (ucEntries c) (ueHash entry) of
        Some existing \<Rightarrow> ((existing, []), c)
      | None \<Rightarrow>
          (let entry = entry\<lparr>ueExpires := now + ucTTL c\<rparr> in
           case evictLoop (ucMax c) ((ueHash entry, entry) # ucEntries c)
                  (rev (ueHash entry # ucOrder c)) [] of
             (entries, order, evicted) \<Rightarrow>
               ((entry, evicted), c\<lparr>ucEntries := entries, ucOrder := rev order\<rparr>)))"

definition invalidateUser :: "string \<Rightarrow> userCache \<Rightarrow> userCache" where
  "invalidateUser hash c =
     (case map_of (ucEntries c) hash of None \<Rightarrow> c | Some _ \<Rightarrow> removeEntry hash c)"

definition cachedUsers :: "userCache \<Rightarrow> int" where
  "cachedUsers c = int (length (ucEntries c))"

section \<open>The negative cache\<close>

record invalidTokens =
  itCapacity :: int
  itTTL :: int
  itEntries :: "(string \<times> int) list"

definition newInvalidTokens :: "int \<Rightarrow> int \<Rightarrow> invalidTokens" where
  "newInvalidTokens capacity ttl = \<lparr>itCapacity = capacity, itTTL = ttl, itEntries = []\<rparr>"

definition hasInvalid :: "int \<Rightarrow> string \<Rightarrow> invalidTokens \<Rightarrow> bool \<times> invalidTokens" where
  "hasInvalid now hash i =
     (case map_of (itEntries i) hash of
        None \<Rightarrow> (False, i)
      | Some expires \<Rightarrow>
          if now > expires then (False, i\<lparr>itEntries := AList.delete hash (itEntries i)\<rparr>)
          else (True, i))"

definition addInvalid :: "int \<Rightarrow> string \<Rightarrow> invalidTokens \<Rightarrow> invalidTokens" where
  "addInvalid now hash i =
     (let entries = (if int (length (itEntries i)) \<ge> itCapacity i then [] else itEntries i)
      in i\<lparr>itEntries := AList.update hash (now + itTTL i) entries\<rparr>)"

section \<open>The invariant of the user cache\<close>

text \<open>The map and the list hold the same hashes, each once, under its own name, and no more than the
  capacity.\<close>

definition cacheOk :: "userCache \<Rightarrow> bool" where
  "cacheOk c \<longleftrightarrow> 1 \<le> ucMax c \<and> distinct (map fst (ucEntries c)) \<and> distinct (ucOrder c)
     \<and> set (ucOrder c) = fst ` set (ucEntries c)
     \<and> (\<forall>(h, e) \<in> set (ucEntries c). ueHash e = h)
     \<and> int (length (ucEntries c)) \<le> ucMax c"

lemma cacheOk_length: "cacheOk c \<Longrightarrow> length (ucOrder c) = length (ucEntries c)"
  by (metis cacheOk_def distinct_card length_map list.set_map)

lemma cacheOk_new: "1 \<le> maximum \<Longrightarrow> cacheOk (newUserCache maximum ttl)"
  by (simp add: cacheOk_def newUserCache_def)

lemma delete_filter: "AList.delete h al = filter (\<lambda>c. fst c \<noteq> h) al"
  by (induction al) auto

lemma fst_delete: "fst ` set (AList.delete h al) = fst ` set al - {h}"
  by (auto simp: delete_filter image_iff)

lemma set_delete: "set (AList.delete h al) = {c \<in> set al. fst c \<noteq> h}"
  by (auto simp: delete_filter)

lemma length_delete_present:
  assumes "distinct (map fst al)" "h \<in> fst ` set al"
  shows "length al = Suc (length (AList.delete h al))"
proof -
  have "distinct (map fst (AList.delete h al))" using assms(1) by (simp add: distinct_delete)
  then have "card (fst ` set al) = length al" "card (fst ` set (AList.delete h al)) = length (AList.delete h al)"
    using assms(1) by (metis distinct_card length_map list.set_map)+
  then show ?thesis using assms(2) by (metis card_Suc_Diff1 finite_imageI finite_set fst_delete)
qed

lemma cacheOk_remove: "cacheOk c \<Longrightarrow> cacheOk (removeEntry hash c)"
proof -
  assume ok: "cacheOk c"
  have "length (AList.delete hash (ucEntries c)) \<le> length (ucEntries c)" by (rule length_delete_le)
  with ok show ?thesis
    by (auto simp: cacheOk_def removeEntry_def fst_delete set_delete distinct_delete distinct_removeAll)
qed

lemma cacheOk_get: "cacheOk c \<Longrightarrow> cacheOk (snd (getUser now hash c))"
proof -
  assume ok: "cacheOk c"
  show ?thesis
  proof (cases "map_of (ucEntries c) hash")
    case (Some entry)
    then have "hash \<in> fst ` set (ucEntries c)" by (metis domI dom_map_of_conv_image_fst)
    with Some ok cacheOk_remove [OF ok] show ?thesis
      by (auto simp: getUser_def cacheOk_def distinct_removeAll)
  qed (use ok in \<open>simp add: getUser_def\<close>)
qed

lemma cacheOk_invalidate: "cacheOk c \<Longrightarrow> cacheOk (invalidateUser hash c)"
  by (simp add: invalidateUser_def cacheOk_remove split: option.split)

text \<open>The eviction loop drops the oldest entries beyond the capacity, and nothing else.\<close>

lemma evictLoop_spec:
  assumes "distinct (map fst entries)" "distinct order" "set order = fst ` set entries"
  shows "evictLoop maximum entries order evicted =
    (let k = length entries - nat maximum in
     (filter (\<lambda>c. fst c \<notin> set (take k order)) entries, drop k order,
      evicted @ concat (map (\<lambda>h. case map_of entries h of Some e \<Rightarrow> [ueUserID e] | None \<Rightarrow> []) (take k order))))"
  using assms
proof (induction order arbitrary: entries evicted)
  case Nil
  then show ?case by simp
next
  case (Cons h hs)
  show ?case
  proof (cases "int (length entries) > maximum")
    case False
    then show ?thesis by (simp add: Let_def)
  next
    case True
    let ?rest = "AList.delete h entries"
    have dist: "distinct (map fst ?rest)" using Cons.prems(1) by (simp add: distinct_delete)
    have keys: "set hs = fst ` set ?rest" using Cons.prems by (auto simp: fst_delete)
    have "h \<in> fst ` set entries" using Cons.prems(3) by auto
    with Cons.prems(1) have len: "length entries = Suc (length ?rest)" by (rule length_delete_present)
    then have k: "length entries - nat maximum = Suc (length ?rest - nat maximum)" using True by linarith
    have same: "map_of ?rest g = map_of entries g" if "g \<in> set hs" for g
      using that Cons.prems(2) by (auto simp: delete_conv)
    have ids: "concat (map (\<lambda>h. case map_of ?rest h of Some e \<Rightarrow> [ueUserID e] | None \<Rightarrow> [])
          (take (length ?rest - nat maximum) hs))
        = concat (map (\<lambda>h. case map_of entries h of Some e \<Rightarrow> [ueUserID e] | None \<Rightarrow> [])
          (take (length ?rest - nat maximum) hs))"
    proof (rule arg_cong [where f = concat], rule map_cong [OF refl])
      fix g
      assume "g \<in> set (take (length ?rest - nat maximum) hs)"
      then have "g \<in> set hs" by (rule in_set_takeD)
      then show "(case map_of ?rest g of Some e \<Rightarrow> [ueUserID e] | None \<Rightarrow> [])
          = (case map_of entries g of Some e \<Rightarrow> [ueUserID e] | None \<Rightarrow> [])" by (simp only: same)
    qed
    have kept: "filter (\<lambda>c. fst c \<notin> set (take (length ?rest - nat maximum) hs)) ?rest
        = filter (\<lambda>c. fst c \<notin> set (take (length entries - nat maximum) (h # hs))) entries"
      unfolding k delete_filter by (auto simp: conj_commute intro!: filter_cong)
    let ?id = "case map_of entries h of Some e \<Rightarrow> [ueUserID e] | None \<Rightarrow> []"
    have "distinct hs" using Cons.prems(2) by simp
    note ih = Cons.IH [OF dist this keys, of "evicted @ ?id", unfolded Let_def ids kept]
    have "evictLoop maximum entries (h # hs) evicted = evictLoop maximum ?rest hs (evicted @ ?id)"
      using True by simp
    then show ?thesis unfolding ih Let_def k by simp
  qed
qed

text \<open>What inserting a new hash does: the least recently used entry makes room when the cache is full.\<close>

lemma putUser_new:
  fixes now :: int
  assumes ok: "cacheOk c" and new: "map_of (ucEntries c) (ueHash entry) = None"
  defines "added \<equiv> entry\<lparr>ueExpires := now + ucTTL c\<rparr>"
  shows "putUser now entry c =
    (if int (length (ucEntries c)) < ucMax c
     then ((added, []), c\<lparr>ucEntries := (ueHash entry, added) # ucEntries c, ucOrder := ueHash entry # ucOrder c\<rparr>)
     else ((added, [ueUserID (the (map_of (ucEntries c) (last (ucOrder c))))]),
       c\<lparr>ucEntries := (ueHash entry, added) # AList.delete (last (ucOrder c)) (ucEntries c),
         ucOrder := ueHash entry # butlast (ucOrder c)\<rparr>))"
proof -
  let ?h = "ueHash entry"
  let ?es = "(?h, added) # ucEntries c"
  let ?order = "rev (?h # ucOrder c)"
  have absent: "?h \<notin> fst ` set (ucEntries c)" using new by (simp add: map_of_eq_None_iff)
  have dist: "distinct (map fst ?es)" "distinct ?order" "set ?order = fst ` set ?es"
    using ok absent by (auto simp: cacheOk_def)
  have run: "putUser now entry c = (case evictLoop (ucMax c) ?es ?order [] of (entries, order, evicted) \<Rightarrow>
      ((added, evicted), c\<lparr>ucEntries := entries, ucOrder := rev order\<rparr>))"
    using new by (simp add: putUser_def added_def Let_def)
  note loop = evictLoop_spec [OF dist, of "ucMax c" "[]"]
  show ?thesis
  proof (cases "int (length (ucEntries c)) < ucMax c")
    case True
    then have "length ?es - nat (ucMax c) = 0" by simp
    with loop run True show ?thesis by (simp add: Let_def)
  next
    case False
    then have full: "int (length (ucEntries c)) = ucMax c" "1 \<le> ucMax c" using ok by (auto simp: cacheOk_def)
    then have one: "length ?es - nat (ucMax c) = 1" by simp
    have "length (ucOrder c) = length (ucEntries c)" by (rule cacheOk_length [OF ok])
    then have ne: "ucOrder c \<noteq> []" using full by auto
    let ?old = "last (ucOrder c)"
    have old: "?old \<in> fst ` set (ucEntries c)" using last_in_set [OF ne] ok by (simp add: cacheOk_def)
    then have other: "?old \<noteq> ?h" using absent by metis
    obtain e where e: "map_of (ucEntries c) ?old = Some e"
      using old by (metis map_of_eq_None_iff not_None_eq)
    have order: "?order = ?old # rev (butlast (ucOrder c)) @ [?h]"
      using ne by (metis append_Cons append_butlast_last_id rev.simps(2) rev_rev_ident rev_eq_Cons_iff)
    have "evictLoop (ucMax c) ?es ?order [] =
        ((?h, added) # AList.delete ?old (ucEntries c), rev (butlast (ucOrder c)) @ [?h], [ueUserID e])"
      unfolding loop Let_def one unfolding order using other e by (simp add: delete_filter)
    with run False e show ?thesis by simp
  qed
qed

lemma cacheOk_put: "cacheOk c \<Longrightarrow> cacheOk (snd (putUser now entry c))"
proof (cases "map_of (ucEntries c) (ueHash entry)")
  case None
  assume ok: "cacheOk c"
  have absent: "ueHash entry \<notin> fst ` set (ucEntries c)" using None by (simp add: map_of_eq_None_iff)
  show ?thesis
  proof (cases "int (length (ucEntries c)) < ucMax c")
    case True
    with putUser_new [OF ok None] ok absent show ?thesis by (auto simp: cacheOk_def)
  next
    case False
    have len: "length (ucOrder c) = length (ucEntries c)" by (rule cacheOk_length [OF ok])
    then have ne: "ucOrder c \<noteq> []" using False ok by (auto simp: cacheOk_def)
    let ?old = "last (ucOrder c)"
    have split: "ucOrder c = butlast (ucOrder c) @ [?old]" using ne by simp
    have "distinct (butlast (ucOrder c) @ [?old])" using ok split by (metis cacheOk_def)
    moreover have "set (ucOrder c) = set (butlast (ucOrder c) @ [?old])" using split by metis
    ultimately have parts: "distinct (butlast (ucOrder c))" "?old \<notin> set (butlast (ucOrder c))"
      "set (ucOrder c) = insert ?old (set (butlast (ucOrder c)))" by simp_all
    have ks: "set (butlast (ucOrder c)) = fst ` set (AList.delete ?old (ucEntries c))"
      using parts(2,3) ok by (auto simp: cacheOk_def fst_delete)
    have "distinct (map fst (ucEntries c))" "?old \<in> fst ` set (ucEntries c)"
      using ok last_in_set [OF ne] by (auto simp: cacheOk_def)
    then have "length (ucEntries c) = Suc (length (AList.delete ?old (ucEntries c)))"
      by (rule length_delete_present)
    moreover have "int (length (ucEntries c)) \<le> ucMax c" "1 \<le> ucMax c" using ok by (auto simp: cacheOk_def)
    ultimately show ?thesis
      using putUser_new [OF ok None] False ok absent parts ks
      by (auto simp: cacheOk_def set_delete distinct_delete fst_delete)
  qed
qed (simp add: putUser_def)

lemma putUser_present:
  assumes "cacheOk c"
  shows "map_of (ucEntries (snd (putUser now entry c))) (ueHash entry) \<noteq> None"
proof (cases "map_of (ucEntries c) (ueHash entry)")
  case None
  with putUser_new [OF assms this] show ?thesis by simp
qed (simp add: putUser_def)

lemma putUser_max:
  assumes "cacheOk c"
  shows "ucMax (snd (putUser now entry c)) = ucMax c"
proof (cases "map_of (ucEntries c) (ueHash entry)")
  case None
  with putUser_new [OF assms this] show ?thesis by simp
qed (simp add: putUser_def)

section \<open>The cache is a bounded most-recently-used list\<close>

text \<open>The abstract cache: the entries from the most to the least recently used. The map, the order list
  and the eviction loop of the code implement moving to the front and cutting at the capacity.\<close>

definition lruOf :: "userCache \<Rightarrow> userEntry list" where
  "lruOf c = map (\<lambda>h. the (map_of (ucEntries c) h)) (ucOrder c)"

definition lruDrop :: "string \<Rightarrow> userEntry list \<Rightarrow> userEntry list" where
  "lruDrop hash es = filter (\<lambda>e. ueHash e \<noteq> hash) es"

definition lruFind :: "string \<Rightarrow> userEntry list \<Rightarrow> userEntry option" where
  "lruFind hash es = List.find (\<lambda>e. ueHash e = hash) es"

definition lruGet :: "int \<Rightarrow> string \<Rightarrow> userEntry list \<Rightarrow> userEntry option \<times> userEntry list" where
  "lruGet now hash es =
     (case lruFind hash es of
        None \<Rightarrow> (None, es)
      | Some e \<Rightarrow> if now > ueExpires e then (None, lruDrop hash es) else (Some e, e # lruDrop hash es))"

definition lruPut :: "nat \<Rightarrow> userEntry \<Rightarrow> userEntry list \<Rightarrow> (userEntry \<times> int list) \<times> userEntry list" where
  "lruPut k entry es =
     (case lruFind (ueHash entry) es of
        Some existing \<Rightarrow> ((existing, []), es)
      | None \<Rightarrow> ((entry, map ueUserID (drop k (entry # es))), take k (entry # es)))"

lemma cacheOk_entry: "cacheOk c \<Longrightarrow> map_of (ucEntries c) h = Some e \<Longrightarrow> ueHash e = h"
  by (drule map_of_SomeD) (auto simp: cacheOk_def)

lemma cacheOk_hash:
  assumes "cacheOk c" "h \<in> set (ucOrder c)"
  shows "ueHash (the (map_of (ucEntries c) h)) = h"
proof -
  have "h \<in> fst ` set (ucEntries c)" using assms by (simp add: cacheOk_def)
  then obtain e where "map_of (ucEntries c) h = Some e" by (metis map_of_eq_None_iff not_None_eq)
  then show ?thesis using cacheOk_entry [OF assms(1)] by simp
qed

lemma lruOf_hashes: "cacheOk c \<Longrightarrow> map ueHash (lruOf c) = ucOrder c"
  unfolding lruOf_def by (simp add: map_idI cacheOk_hash)

lemma find_first_hash:
  "distinct hs \<Longrightarrow> \<forall>h \<in> set hs. ueHash (f h) = h \<Longrightarrow>
    List.find (\<lambda>e. ueHash e = h) (map f hs) = (if h \<in> set hs then Some (f h) else None)"
  by (induction hs) auto

lemma lruFind_lruOf:
  assumes "cacheOk c"
  shows "lruFind hash (lruOf c) = map_of (ucEntries c) hash"
proof -
  have "lruFind hash (lruOf c)
      = (if hash \<in> set (ucOrder c) then Some (the (map_of (ucEntries c) hash)) else None)"
    unfolding lruFind_def lruOf_def
    by (rule find_first_hash) (use assms cacheOk_hash in \<open>auto simp: cacheOk_def\<close>)
  moreover have "hash \<in> set (ucOrder c) \<longleftrightarrow> map_of (ucEntries c) hash \<noteq> None"
    using assms by (simp add: cacheOk_def map_of_eq_None_iff)
  ultimately show ?thesis by (cases "map_of (ucEntries c) hash") auto
qed

lemma filter_map_hash:
  "\<forall>h \<in> set hs. ueHash (f h) = h \<Longrightarrow>
    filter (\<lambda>e. ueHash e \<noteq> hash) (map f hs) = map f (removeAll hash hs)"
  by (induction hs) auto

lemma lruOf_removeAll:
  "cacheOk c \<Longrightarrow> map (\<lambda>h. the (map_of (ucEntries c) h)) (removeAll hash (ucOrder c)) = lruDrop hash (lruOf c)"
  unfolding lruOf_def lruDrop_def by (rule filter_map_hash [symmetric]) (simp add: cacheOk_hash)

lemma map_lookup_delete:
  "old \<notin> set hs \<Longrightarrow> map (\<lambda>h. the (map_of (AList.delete old es) h)) hs = map (\<lambda>h. the (map_of es h)) hs"
  by (intro map_cong) (auto simp: delete_conv)

lemma lruOf_remove:
  assumes "cacheOk c"
  shows "lruOf (removeEntry hash c) = lruDrop hash (lruOf c)"
proof -
  have "lruOf (removeEntry hash c)
      = map (\<lambda>h. the (map_of (AList.delete hash (ucEntries c)) h)) (removeAll hash (ucOrder c))"
    by (simp add: lruOf_def removeEntry_def)
  also have "\<dots> = map (\<lambda>h. the (map_of (ucEntries c) h)) (removeAll hash (ucOrder c))"
    by (rule map_lookup_delete) simp
  finally show ?thesis using lruOf_removeAll [OF assms] by simp
qed

lemma lruOf_get:
  assumes ok: "cacheOk c"
  shows "map_prod id lruOf (getUser now hash c) = lruGet now hash (lruOf c)"
proof (cases "map_of (ucEntries c) hash")
  case None
  then show ?thesis by (simp add: getUser_def lruGet_def lruFind_lruOf [OF ok])
next
  case (Some e)
  show ?thesis
  proof (cases "now > ueExpires e")
    case True
    with Some show ?thesis by (simp add: getUser_def lruGet_def lruFind_lruOf [OF ok] lruOf_remove [OF ok])
  next
    case False
    have "lruOf (c\<lparr>ucOrder := hash # removeAll hash (ucOrder c)\<rparr>) = e # lruDrop hash (lruOf c)"
      using Some lruOf_removeAll [OF ok, of hash] by (simp add: lruOf_def)
    with Some False show ?thesis by (simp add: getUser_def lruGet_def lruFind_lruOf [OF ok])
  qed
qed

lemma cut_last:
  "xs \<noteq> [] \<Longrightarrow> take (length (butlast xs)) xs = butlast xs \<and> drop (length (butlast xs)) xs = [last xs]"
  by (induction xs rule: rev_induct) simp_all

lemma lruOf_put:
  assumes ok: "cacheOk c"
  shows "map_prod id lruOf (putUser now entry c)
    = lruPut (nat (ucMax c)) (entry\<lparr>ueExpires := now + ucTTL c\<rparr>) (lruOf c)"
proof (cases "map_of (ucEntries c) (ueHash entry)")
  case (Some e)
  then show ?thesis by (simp add: putUser_def lruPut_def lruFind_lruOf [OF ok])
next
  case None
  let ?h = "ueHash entry" and ?e = "entry\<lparr>ueExpires := now + ucTTL c\<rparr>" and ?old = "last (ucOrder c)"
  have absent: "?h \<notin> set (ucOrder c)" using None ok by (simp add: cacheOk_def map_of_eq_None_iff)
  have len: "length (lruOf c) = length (ucEntries c)" by (simp add: lruOf_def cacheOk_length [OF ok])
  have fits: "int (length (ucEntries c)) \<le> ucMax c" "1 \<le> ucMax c" "distinct (ucOrder c)"
    using ok by (auto simp: cacheOk_def)
  show ?thesis
  proof (cases "int (length (ucEntries c)) < ucMax c")
    case True
    then have "length (?e # lruOf c) \<le> nat (ucMax c)" using len by simp
    moreover have "lruOf (c\<lparr>ucEntries := (?h, ?e) # ucEntries c, ucOrder := ?h # ucOrder c\<rparr>) = ?e # lruOf c"
      using absent by (simp add: lruOf_def)
    ultimately show ?thesis
      using putUser_new [OF ok None] True None by (simp add: lruPut_def lruFind_lruOf [OF ok])
  next
    case False
    with fits len have full: "nat (ucMax c) = Suc (length (butlast (lruOf c)))" by simp
    then have ne: "ucOrder c \<noteq> []" using False fits cacheOk_length [OF ok] by auto
    have last: "lruOf c \<noteq> []" "last (lruOf c) = the (map_of (ucEntries c) ?old)"
      using ne by (simp_all add: lruOf_def last_map)
    have old: "?old \<notin> set (butlast (ucOrder c))"
      using fits(3) ne by (metis append_butlast_last_id distinct_append list.set_intros(1) disjoint_iff)
    have "?h \<notin> set (butlast (ucOrder c))" using absent by (metis in_set_butlastD)
    with old have "lruOf (c\<lparr>ucEntries := (?h, ?e) # AList.delete ?old (ucEntries c),
        ucOrder := ?h # butlast (ucOrder c)\<rparr>) = ?e # butlast (lruOf c)"
      by (auto simp: lruOf_def map_butlast [symmetric] delete_conv)
    moreover have "take (nat (ucMax c)) (?e # lruOf c) = ?e # butlast (lruOf c)"
      "drop (nat (ucMax c)) (?e # lruOf c) = [the (map_of (ucEntries c) ?old)]"
      unfolding full using cut_last [OF last(1)] last(2) by simp_all
    ultimately show ?thesis
      using putUser_new [OF ok None] False None by (simp add: lruPut_def lruFind_lruOf [OF ok])
  qed
qed

lemma lruOf_invalidate:
  assumes ok: "cacheOk c"
  shows "lruOf (invalidateUser hash c) = lruDrop hash (lruOf c)"
proof (cases "map_of (ucEntries c) hash")
  case None
  then have "hash \<notin> set (ucOrder c)" using ok by (simp add: cacheOk_def map_of_eq_None_iff)
  then have "lruDrop hash (lruOf c) = lruOf c"
    using lruOf_removeAll [OF ok, of hash] by (simp add: lruOf_def)
  with None show ?thesis by (simp add: invalidateUser_def)
qed (simp add: invalidateUser_def lruOf_remove [OF ok])

text \<open>C31: The user cache is a list from the most to the least recently used user. A lookup moves the entry
  to the front, or drops it when it has expired; an insertion puts a new hash in front with a fresh expiry
  and cuts the list at the capacity, naming the users it lost, while a hash that is present keeps its entry;
  an invalidation drops the hash.\<close>

theorem user_cache_is_lru:
  assumes "cacheOk c"
  shows "map_prod id lruOf (getUser now hash c) = lruGet now hash (lruOf c)
    \<and> map_prod id lruOf (putUser now entry c)
        = lruPut (nat (ucMax c)) (entry\<lparr>ueExpires := now + ucTTL c\<rparr>) (lruOf c)
    \<and> lruOf (invalidateUser hash c) = lruDrop hash (lruOf c)
    \<and> cacheOk (snd (getUser now hash c)) \<and> cacheOk (snd (putUser now entry c))
    \<and> cacheOk (invalidateUser hash c)"
  using assms
  by (intro conjI lruOf_get lruOf_put lruOf_invalidate cacheOk_get cacheOk_put cacheOk_invalidate)

definition sampleCache :: userCache where
  "sampleCache = \<lparr>ucMax = 1, ucTTL = 5,
     ucEntries = [(''a'', \<lparr>ueHash = ''a'', ueUserID = 7, ueUsername = ''ann'', ueServer = 0, ueExpires = 9\<rparr>)],
     ucOrder = [''a'']\<rparr>"

theorem user_cache_is_lru_witness:
  "map_prod id lruOf (putUser 3 \<lparr>ueHash = ''b'', ueUserID = 8, ueUsername = ''bob'', ueServer = 1, ueExpires = 0\<rparr>
      sampleCache)
    = ((\<lparr>ueHash = ''b'', ueUserID = 8, ueUsername = ''bob'', ueServer = 1, ueExpires = 8\<rparr>, [7]),
       [\<lparr>ueHash = ''b'', ueUserID = 8, ueUsername = ''bob'', ueServer = 1, ueExpires = 8\<rparr>])"
proof -
  have "cacheOk sampleCache" by (simp add: cacheOk_def sampleCache_def)
  from user_cache_is_lru [OF this] show ?thesis
    by (simp add: lruPut_def lruFind_def lruOf_def sampleCache_def)
qed

section \<open>Both caches are bounded stores\<close>

text \<open>The shared contract: inserting keeps the store within its limit and makes the new key present.\<close>

locale boundedStore =
  fixes ok :: "'s \<Rightarrow> bool" and entries :: "'s \<Rightarrow> int" and limit :: "'s \<Rightarrow> int"
    and insert_key :: "'k \<Rightarrow> 's \<Rightarrow> 's" and present :: "'k \<Rightarrow> 's \<Rightarrow> bool"
  assumes within: "ok s \<Longrightarrow> entries s \<le> limit s"
    and ok_insert: "ok s \<Longrightarrow> ok (insert_key k s)"
    and limit_insert: "ok s \<Longrightarrow> limit (insert_key k s) = limit s"
    and present_insert: "ok s \<Longrightarrow> present k (insert_key k s)"
begin

lemma flood_ok: "ok s \<Longrightarrow> ok (fold insert_key ks s) \<and> limit (fold insert_key ks s) = limit s"
  by (induction ks arbitrary: s) (simp_all add: ok_insert limit_insert)

lemma flood: "ok s \<Longrightarrow> entries (fold insert_key ks s) \<le> limit s"
  using flood_ok [of s ks] within by metis

lemma latest_present: "ok s \<Longrightarrow> present k (fold insert_key (ks @ [k]) s)"
  using flood_ok [of s ks] present_insert by simp

end

interpretation users: boundedStore cacheOk cachedUsers ucMax
  "\<lambda>(now, entry) c. snd (putUser now entry c)" "\<lambda>(now, entry) c. map_of (ucEntries c) (ueHash entry) \<noteq> None"
proof unfold_locales
  fix c
  assume "cacheOk c"
  then show "cachedUsers c \<le> ucMax c" by (simp add: cacheOk_def cachedUsers_def)
next
  fix c :: userCache and k :: "int \<times> userEntry"
  assume ok: "cacheOk c"
  obtain now entry where k: "k = (now, entry)" by (cases k)
  show "cacheOk ((\<lambda>(now, entry) c. snd (putUser now entry c)) k c)" using cacheOk_put [OF ok] k by simp
  show "ucMax ((\<lambda>(now, entry) c. snd (putUser now entry c)) k c) = ucMax c" using putUser_max [OF ok] k by simp
  show "(\<lambda>(now, entry) c. map_of (ucEntries c) (ueHash entry) \<noteq> None) k
      ((\<lambda>(now, entry) c. snd (putUser now entry c)) k c)" using putUser_present [OF ok] k by simp
qed

definition tokensOk :: "invalidTokens \<Rightarrow> bool" where
  "tokensOk i \<longleftrightarrow> 1 \<le> itCapacity i \<and> 0 \<le> itTTL i \<and> int (length (itEntries i)) \<le> itCapacity i"

lemma tokensOk_new: "1 \<le> capacity \<Longrightarrow> 0 \<le> ttl \<Longrightarrow> tokensOk (newInvalidTokens capacity ttl)"
  by (simp add: tokensOk_def newInvalidTokens_def)

lemma length_update_le: "length (AList.update k v al) \<le> Suc (length al)"
  by (induction al) auto

lemma tokensOk_add: "tokensOk i \<Longrightarrow> tokensOk (addInvalid now hash i)"
  using length_update_le [of hash "now + itTTL i" "itEntries i"]
  by (auto simp: tokensOk_def addInvalid_def Let_def)

lemma tokensOk_has: "tokensOk i \<Longrightarrow> tokensOk (snd (hasInvalid now hash i))"
  using length_delete_le [of hash "itEntries i"]
  by (auto simp: tokensOk_def hasInvalid_def split: option.split)

lemma hasInvalid_added: "0 \<le> itTTL i \<Longrightarrow> fst (hasInvalid now hash (addInvalid now hash i))"
  by (simp add: hasInvalid_def addInvalid_def Let_def update_conv')

interpretation rejected: boundedStore tokensOk "\<lambda>i. int (length (itEntries i))" itCapacity
  "\<lambda>(now, hash) i. addInvalid now hash i" "\<lambda>(now, hash) i. fst (hasInvalid now hash i)"
proof unfold_locales
  fix i :: invalidTokens and k :: "int \<times> string"
  assume ok: "tokensOk i"
  obtain now hash where k: "k = (now, hash)" by (cases k)
  show "int (length (itEntries i)) \<le> itCapacity i" using ok by (simp add: tokensOk_def)
  show "tokensOk ((\<lambda>(now, hash) i. addInvalid now hash i) k i)" using tokensOk_add [OF ok] k by simp
  show "itCapacity ((\<lambda>(now, hash) i. addInvalid now hash i) k i) = itCapacity i"
    using k by (simp add: addInvalid_def Let_def)
  have "0 \<le> itTTL i" using ok by (simp add: tokensOk_def)
  then show "(\<lambda>(now, hash) i. fst (hasInvalid now hash i)) k ((\<lambda>(now, hash) i. addInvalid now hash i) k i)"
    using hasInvalid_added k by simp
qed

text \<open>A flood of forged tokens, or of users, never takes either cache beyond its capacity.\<close>

lemma caches_survive_flood:
  "cacheOk c \<Longrightarrow> cachedUsers (fold (\<lambda>(now, entry) c. snd (putUser now entry c)) es c) \<le> ucMax c"
  "tokensOk i \<Longrightarrow> int (length (itEntries (fold (\<lambda>(now, hash) i. addInvalid now hash i) hs i))) \<le> itCapacity i"
  by (rule users.flood, assumption) (rule rejected.flood)

lemma map_of_addInvalid:
  "map_of (itEntries (addInvalid now hash i)) h
    = (if h = hash then Some (now + itTTL i)
       else if int (length (itEntries i)) \<ge> itCapacity i then None else map_of (itEntries i) h)"
  by (simp add: addInvalid_def Let_def update_conv')

lemma addInvalid_keys: "fst ` set (itEntries (addInvalid now hash i)) \<subseteq> insert hash (fst ` set (itEntries i))"
proof
  fix h
  assume "h \<in> fst ` set (itEntries (addInvalid now hash i))"
  then have "map_of (itEntries (addInvalid now hash i)) h \<noteq> None" by (simp add: map_of_eq_None_iff)
  then show "h \<in> insert hash (fst ` set (itEntries i))"
    by (auto simp: map_of_addInvalid split: if_splits) (metis domI dom_map_of_conv_image_fst)
qed

lemma hasInvalid_keys: "fst ` set (itEntries (snd (hasInvalid now hash i))) \<subseteq> fst ` set (itEntries i)"
  by (auto simp: hasInvalid_def fst_delete split: option.split)

lemma hasInvalid_known: "fst (hasInvalid now hash i) \<Longrightarrow> hash \<in> fst ` set (itEntries i)"
  by (auto simp: hasInvalid_def split: option.splits if_splits dest!: map_of_SomeD intro: rev_image_eqI)

end
