(* ===== verification/GogsClient.thy ===== *)
theory GogsClient
  imports GogsErrors
begin

text \<open>
  internal/gogs/client.go: the HTTP client of the Gogs REST API. The network, the clock
  of a retry wait and the JSON parser are the fields of \<open>httpWorld\<close>: the network answers
  a request in view of everything sent before, so any server and any failure pattern is an
  instance. The client's state is the list of requests it sent, the log lines it wrote and the
  number of times it reported an authentication failure. GET requests are retried by
  \<open>getLoop\<close>; writes go through \<open>writeJSON\<close>, which sends exactly one request.
\<close>

section \<open>URLs\<close>

text \<open>\<open>url.PathEscape\<close> of one path segment.\<close>

definition pathSafe :: "char \<Rightarrow> bool" where
  "pathSafe c \<longleftrightarrow> (let x = byte c in
     (48 \<le> x \<and> x \<le> 57) \<or> (65 \<le> x \<and> x \<le> 90) \<or> (97 \<le> x \<and> x \<le> 122) \<or> c \<in> set ''-_.~$&+=:@'')"

definition hexUpper :: "nat \<Rightarrow> char" where
  "hexUpper n = (if n < 10 then char_of (48 + n) else char_of (55 + n))"

definition pathEscape :: "string \<Rightarrow> string" where
  "pathEscape s = concat (map (\<lambda>c. if pathSafe c then [c]
     else [CHR ''%'', hexUpper (byte c div 16), hexUpper (byte c mod 16)]) s)"

definition escapedPathSegments :: "string list \<Rightarrow> string list" where
  "escapedPathSegments segments = map pathEscape segments"

record url =
  Scheme :: string
  Host :: string
  Path :: string

text \<open>\<open>apiRoot.JoinPath(segments...)\<close> for the absolute root paths the client is built with.\<close>

definition joinURL :: "url \<Rightarrow> string list \<Rightarrow> string" where
  "joinURL u segments = pathJoin (Path u # escapedPathSegments segments)"

definition sameOrigin :: "url \<Rightarrow> url \<Rightarrow> bool" where
  "sameOrigin left right \<longleftrightarrow> Scheme left = Scheme right \<and> Host left = Host right"

section \<open>JSON values\<close>

datatype json =
    JNull | JBool bool | JNum int | JStr string | JArr "json list" | JObj "(string \<times> json) list"

text \<open>
  Decoding a JSON value into a Go struct field: a missing field and \<open>null\<close> leave the zero
  value, a value of another type is an error (\<open>None\<close>). The last duplicate of a key wins.
\<close>

definition jfield :: "json \<Rightarrow> string \<Rightarrow> json" where
  "jfield j k = (case j of
     JObj fs \<Rightarrow> (case map_of (rev fs) k of Some v \<Rightarrow> v | None \<Rightarrow> JNull)
   | _ \<Rightarrow> JNull)"

definition decStr :: "json \<Rightarrow> string option" where
  "decStr v = (case v of JStr s \<Rightarrow> Some s | JNull \<Rightarrow> Some [] | _ \<Rightarrow> None)"

definition decInt :: "json \<Rightarrow> int option" where
  "decInt v = (case v of JNum n \<Rightarrow> if minInt64 \<le> n \<and> n \<le> maxInt64 then Some n else None
     | JNull \<Rightarrow> Some 0 | _ \<Rightarrow> None)"

definition decBool :: "json \<Rightarrow> bool option" where
  "decBool v = (case v of JBool b \<Rightarrow> Some b | JNull \<Rightarrow> Some False | _ \<Rightarrow> None)"

definition decPtr :: "(json \<Rightarrow> 'a option) \<Rightarrow> json \<Rightarrow> 'a option option" where
  "decPtr dec v = (if v = JNull then Some None else map_option Some (dec v))"

fun decAll :: "(json \<Rightarrow> 'a option) \<Rightarrow> json list \<Rightarrow> 'a list option" where
  "decAll dec [] = Some []"
| "decAll dec (x # xs) = Option.bind (dec x) (\<lambda>y. Option.bind (decAll dec xs) (\<lambda>ys. Some (y # ys)))"

definition decList :: "(json \<Rightarrow> 'a option) \<Rightarrow> json \<Rightarrow> 'a list option" where
  "decList dec v = (case v of JArr xs \<Rightarrow> decAll dec xs | JNull \<Rightarrow> Some [] | _ \<Rightarrow> None)"

definition decObj :: "json \<Rightarrow> (json \<Rightarrow> 'a option) \<Rightarrow> 'a option" where
  "decObj j body = (case j of JObj _ \<Rightarrow> body j | JNull \<Rightarrow> body j | _ \<Rightarrow> None)"

section \<open>Requests and the world\<close>

record request =
  rqMethod :: string
  rqPath :: string
  rqQuery :: "(string \<times> string) list"
  rqPayload :: json
  rqToken :: string

datatype httpOutcome =
    DoError goerr
  | Response (respStatus: int) (respLink: string) (respBody: string)
      (respReadErr: "goerr option") (respCloseErr: "goerr option")

record httpWorld =
  doRequest :: "request list \<Rightarrow> request \<Rightarrow> httpOutcome"
  waitCanceled :: "request list \<Rightarrow> nat \<Rightarrow> goerr option"
  parseJSON :: "string \<Rightarrow> json option"

record Client =
  apiRoot :: url
  token :: string
  hasAuthenticationFailure :: bool

record clientState =
  sent :: "request list"
  logs :: "(int \<times> ErrorCode option) list"
  authenticationFailures :: nat

type_synonym 'a clientIO = "(clientState, goerr, 'a) io"

definition maxJSONResponseBytes :: int where
  "maxJSONResponseBytes = 8388608"

text \<open>\<open>io.ReadAll(io.LimitReader(body, max+1))\<close>.\<close>

definition limitRead :: "int \<Rightarrow> string \<Rightarrow> string" where
  "limitRead n body = (if int (length body) > n then take (nat n) body else body)"

definition logRequest :: "Client \<Rightarrow> int \<Rightarrow> ErrorCode option \<Rightarrow> clientState \<Rightarrow> clientState" where
  "logRequest c status code st =
     (let st = (if code = Some CodeAuthenticationFailed \<and> hasAuthenticationFailure c
                then st\<lparr>authenticationFailures := authenticationFailures st + 1\<rparr> else st)
      in st\<lparr>logs := logs st @ [(status, code)]\<rparr>)"

definition mkRequest :: "Client \<Rightarrow> string \<Rightarrow> (string \<times> string) list \<Rightarrow> json \<Rightarrow> string list \<Rightarrow> request" where
  "mkRequest c method query payload segments =
     \<lparr>rqMethod = method, rqPath = joinURL (apiRoot c) segments, rqQuery = query,
      rqPayload = payload, rqToken = token c\<rparr>"

text \<open>\<open>c.http.Do(request)\<close>: the request joins the history and the world answers it.\<close>

definition httpDo :: "httpWorld \<Rightarrow> request \<Rightarrow> clientState \<Rightarrow> httpOutcome \<times> clientState" where
  "httpDo w rq st = (doRequest w (sent st) rq, st\<lparr>sent := sent st @ [rq]\<rparr>)"

lemma logRequest_sent [simp]: "sent (logRequest c s k st) = sent st"
  by (simp add: logRequest_def Let_def)

section \<open>GET requests\<close>

definition getOnce :: "httpWorld \<Rightarrow> request \<Rightarrow> clientState \<Rightarrow>
    (int \<times> (goerr + string \<times> string)) \<times> clientState" where
  "getOnce w rq st =
     (case httpDo w rq st of
        (DoError e, st) \<Rightarrow> ((0, Inl e), st)
      | (Response status link respbody readErr closeErr, st) \<Rightarrow>
          (let body = limitRead (maxJSONResponseBytes + 1) respbody in
           case readErr of Some e \<Rightarrow> ((0, Inl (MsgErr ''read Gogs response'' # e)), st)
           | None \<Rightarrow>
             (case closeErr of Some e \<Rightarrow> ((0, Inl (MsgErr ''close Gogs response'' # e)), st)
              | None \<Rightarrow>
                if int (length body) > maxJSONResponseBytes then
                  ((0, Inl (gogsErr CodeResponseTooLarge ''The Gogs response exceeded the 8 MiB limit.'')), st)
                else ((status, Inr (link, body)), st))))"

text \<open>The \<open>for attempt := 0; attempt < 3\<close> loop of \<open>getJSONWithHeaders\<close>; the first
  argument counts the attempts that are left, so \<open>attempt + left = 3\<close>.\<close>

fun getLoop :: "httpWorld \<Rightarrow> Client \<Rightarrow> request \<Rightarrow> (json \<Rightarrow> 'a option) \<Rightarrow> nat \<Rightarrow> nat \<Rightarrow> goerr \<Rightarrow>
    (string \<times> 'a) clientIO" where
  "getLoop w c rq dec 0 attempt lastError st = (Inl lastError, st)"
| "getLoop w c rq dec (Suc left) attempt lastError st =
     (case (if attempt > 0 then waitCanceled w (sent st) attempt else None) of
        Some e \<Rightarrow> (Inl (classifyTransportError e), st)
      | None \<Rightarrow>
        (case getOnce w rq st of
           ((status, Inl err), st) \<Rightarrow>
             (if \<exists>l \<in> set err. isGogs l then
                (let g = AsError err in (Inl g, logRequest c status (Some (codeOf g)) st))
              else
                (let classified = classifyTransportError err;
                     st = logRequest c status (Some (codeOf classified)) st
                 in if codeOf classified = CodeTLSError \<or> codeOf classified = CodeTimeout \<or> attempt = 2
                    then (Inl classified, st)
                    else getLoop w c rq dec left (Suc attempt) classified st))
         | ((status, Inr (link, body)), st) \<Rightarrow>
             (if status < 200 \<or> status \<ge> 300 then
                (let classified = classifyStatus status;
                     st = logRequest c status (Some (codeOf classified)) st
                 in if (status = 502 \<or> status = 503 \<or> status = 504) \<and> attempt < 2
                    then getLoop w c rq dec left (Suc attempt) classified st
                    else (Inl classified, st))
              else
                (case Option.bind (parseJSON w body) dec of
                   None \<Rightarrow> (Inl (gogsErr CodeGogsError ''Gogs returned invalid JSON.''),
                            logRequest c status (Some CodeGogsError) st)
                 | Some v \<Rightarrow> (Inr (link, v), logRequest c status None st)))))"

definition getJSONWithHeaders :: "httpWorld \<Rightarrow> Client \<Rightarrow> (json \<Rightarrow> 'a option) \<Rightarrow>
    (string \<times> string) list \<Rightarrow> string list \<Rightarrow> (string \<times> 'a) clientIO" where
  "getJSONWithHeaders w c dec query segments =
     getLoop w c (mkRequest c ''GET'' query JNull segments) dec 3 0 []"

definition getJSONWithQuery :: "httpWorld \<Rightarrow> Client \<Rightarrow> (json \<Rightarrow> 'a option) \<Rightarrow>
    (string \<times> string) list \<Rightarrow> string list \<Rightarrow> 'a clientIO" where
  "getJSONWithQuery w c dec query segments =
     bindM (getJSONWithHeaders w c dec query segments) (\<lambda>(link, v). ret v)"

definition getJSON :: "httpWorld \<Rightarrow> Client \<Rightarrow> (json \<Rightarrow> 'a option) \<Rightarrow> string list \<Rightarrow> 'a clientIO" where
  "getJSON w c dec segments = getJSONWithQuery w c dec [] segments"

section \<open>Writes\<close>

definition unknownOutcome :: "goerr \<Rightarrow> goerr" where
  "unknownOutcome cause = mkError CodeWriteOutcomeUnknown
     ''The write was sent to Gogs but its outcome is unknown; check the result before retrying.''
     False 0 cause"

definition writeJSON :: "httpWorld \<Rightarrow> Client \<Rightarrow> string \<Rightarrow> (json \<Rightarrow> 'a option) \<Rightarrow> json \<Rightarrow>
    string list \<Rightarrow> 'a clientIO" where
  "writeJSON w c method dec payload segments st =
     (case httpDo w (mkRequest c method [] payload segments) st of
        (DoError e, st) \<Rightarrow>
          (let classified = classifyWriteTransportError e
           in (Inl classified, logRequest c 0 (Some (codeOf classified)) st))
      | (Response status link respbody readErr closeErr, st) \<Rightarrow>
          (let responseBody = limitRead (maxJSONResponseBytes + 1) respbody in
           if status \<ge> 400 \<and> status < 500 then
             (let classified = classifyStatus status
              in (Inl classified, logRequest c status (Some (codeOf classified)) st))
           else
             (let cause = (case readErr of Some e \<Rightarrow> e
                 | None \<Rightarrow> (case closeErr of Some e \<Rightarrow> e | None \<Rightarrow> [])) in
              if readErr \<noteq> None \<or> closeErr \<noteq> None
                 \<or> int (length responseBody) > maxJSONResponseBytes \<or> status < 200 \<or> status \<ge> 300
              then (Inl (unknownOutcome cause), logRequest c status (Some CodeWriteOutcomeUnknown) st)
              else
                (case Option.bind (parseJSON w responseBody) dec of
                   None \<Rightarrow>
                     (Inl (gogsErr CodeWriteOutcomeUnknown
                        ''The write was accepted by Gogs but the response was lost; check the result before retrying.''),
                      logRequest c status (Some CodeWriteOutcomeUnknown) st)
                 | Some v \<Rightarrow> (Inr v, logRequest c status None st)))))"

definition postJSON :: "httpWorld \<Rightarrow> Client \<Rightarrow> (json \<Rightarrow> 'a option) \<Rightarrow> json \<Rightarrow> string list \<Rightarrow> 'a clientIO" where
  "postJSON w c dec payload segments = writeJSON w c ''POST'' dec payload segments"

definition patchJSON :: "httpWorld \<Rightarrow> Client \<Rightarrow> (json \<Rightarrow> 'a option) \<Rightarrow> json \<Rightarrow> string list \<Rightarrow> 'a clientIO" where
  "patchJSON w c dec payload segments = writeJSON w c ''PATCH'' dec payload segments"

definition invalidateAuthentication :: "Client \<Rightarrow> goerr option \<Rightarrow> clientState \<Rightarrow> clientState" where
  "invalidateAuthentication c err st =
     (case err of None \<Rightarrow> st
      | Some e \<Rightarrow> if codeOf (AsError e) = CodeAuthenticationFailed \<and> hasAuthenticationFailure c
                  then st\<lparr>authenticationFailures := authenticationFailures st + 1\<rparr> else st)"

text \<open>\<open>CheckRedirect\<close>: whether the redirected request keeps its credential, and whether it is
  followed; \<open>via\<close> are the requests made so far, oldest first.\<close>

definition checkRedirect :: "url \<Rightarrow> url list \<Rightarrow> bool \<times> goerr option" where
  "checkRedirect target via =
     (via = [] \<or> sameOrigin target (hd via),
      if length via \<ge> 10 then Some [MsgErr ''too many redirects''] else None)"

section \<open>Request paths\<close>

lemma byte_less [simp]: "byte c < 256"
  by (simp add: byte_def)

lemma hexUpper_inj: "m < 16 \<Longrightarrow> n < 16 \<Longrightarrow> hexUpper m = hexUpper n \<longleftrightarrow> m = n"
proof -
  assume "m < 16" "n < 16"
  have code: "(of_char (hexUpper k) :: nat) = (if k < 10 then 48 + k else 55 + k)" if "k < 16" for k
    using that by (simp add: hexUpper_def of_char_of)
  show ?thesis
  proof
    assume "hexUpper m = hexUpper n"
    then have "(of_char (hexUpper m) :: nat) = of_char (hexUpper n)" by simp
    with \<open>m < 16\<close> \<open>n < 16\<close> show "m = n" by (simp only: code) (simp split: if_splits)
  qed simp
qed

lemma hexUpper_not_slash: "n < 16 \<Longrightarrow> hexUpper n \<noteq> slash"
proof
  assume "n < 16" and "hexUpper n = slash"
  then have "(of_char (hexUpper n) :: nat) = of_char slash" by simp
  with \<open>n < 16\<close> show False
    by (simp add: hexUpper_def of_char_of slash_def split: if_splits)
qed

lemma byte_inj: "byte c = byte d \<longleftrightarrow> c = d"
  by (simp add: byte_def)

lemma pathSafe_special [simp]: "\<not> pathSafe CHR ''%''" "\<not> pathSafe CHR ''/''" "pathSafe CHR ''.''"
  by (simp_all add: pathSafe_def byte_def Let_def)

lemma pathEscape_Nil [simp]: "pathEscape [] = []"
  by (simp add: pathEscape_def)

lemma pathEscape_Cons: "pathEscape (c # s) =
    (if pathSafe c then [c] else [CHR ''%'', hexUpper (byte c div 16), hexUpper (byte c mod 16)])
      @ pathEscape s"
  by (simp add: pathEscape_def)

lemma pathEscape_eq_Nil [simp]: "pathEscape s = [] \<longleftrightarrow> s = []"
  by (cases s) (auto simp: pathEscape_Cons)

lemma pathEscape_inj: "pathEscape s = pathEscape t \<longleftrightarrow> s = t"
proof
  show "pathEscape s = pathEscape t \<Longrightarrow> s = t"
  proof (induction s arbitrary: t)
    case Nil
    then show ?case by (cases t) (auto simp: pathEscape_Cons split: if_splits)
  next
    case (Cons c s)
    then obtain d t' where t: "t = d # t'" by (cases t) (auto simp: pathEscape_Cons split: if_splits)
    have same: "c = d \<and> pathEscape s = pathEscape t'"
    proof (cases "pathSafe c"; cases "pathSafe d")
      assume "\<not> pathSafe c" "\<not> pathSafe d"
      with Cons.prems t have eq: "hexUpper (byte c div 16) = hexUpper (byte d div 16)"
        "hexUpper (byte c mod 16) = hexUpper (byte d mod 16)" "pathEscape s = pathEscape t'"
        by (auto simp: pathEscape_Cons)
      have "byte c div 16 < 16" "byte d div 16 < 16"
        using byte_less [of c] byte_less [of d] by linarith+
      with eq have "byte c div 16 = byte d div 16" "byte c mod 16 = byte d mod 16"
        by (simp_all add: hexUpper_inj)
      then have "byte c = byte d" by (metis div_mod_decomp)
      with eq show ?thesis by (simp add: byte_inj)
    qed (use Cons.prems t in \<open>auto simp: pathEscape_Cons\<close>)
    with Cons.IH [of t'] t show ?case by simp
  qed
qed simp

lemma slash_notin_pathEscape: "slash \<notin> set (pathEscape s)"
proof (induction s)
  case (Cons c s)
  have "byte c div 16 < 16" using byte_less [of c] by linarith
  then have "slash \<notin> {CHR ''%'', hexUpper (byte c div 16), hexUpper (byte c mod 16)}"
    using hexUpper_not_slash [of "byte c div 16"] hexUpper_not_slash [of "byte c mod 16"]
    by (auto simp: slash_def)
  moreover have "pathSafe c \<Longrightarrow> c \<noteq> slash" by (auto simp: slash_def)
  ultimately show ?case using Cons by (auto simp: pathEscape_Cons)
qed simp

text \<open>A segment that reaches the server as one path component of its own.\<close>

definition plainSegment :: "string \<Rightarrow> bool" where
  "plainSegment s \<longleftrightarrow> s \<noteq> [] \<and> s \<noteq> ''.'' \<and> s \<noteq> ''..''"

lemma normalComp_pathEscape: "normalComp (pathEscape s) \<longleftrightarrow> plainSegment s"
proof -
  have "pathEscape ''.'' = ''.''" "pathEscape ''..'' = ''..''" by (simp_all add: pathEscape_Cons)
  then have "pathEscape s = ''.'' \<longleftrightarrow> s = ''.''" "pathEscape s = ''..'' \<longleftrightarrow> s = ''..''"
    using pathEscape_inj by metis+
  then show ?thesis by (auto simp: normalComp_def plainSegment_def slash_notin_pathEscape)
qed

lemma list_all_escaped [simp]:
  "list_all normalComp (escapedPathSegments ss) \<longleftrightarrow> list_all plainSegment ss"
  by (simp add: escapedPathSegments_def list_all_iff normalComp_pathEscape)

lemma joinURL_plain:
  assumes "isRooted (Path u)" "list_all plainSegment ss" "ss \<noteq> []"
  shows "joinURL u ss = slash # joinWith [slash] (rootComps (Path u) @ map pathEscape ss)"
proof -
  have "Path u \<noteq> []" using assms(1) by (auto simp: isRooted_def)
  then show ?thesis
    using assms pathJoin_normal [of "Path u" "escapedPathSegments ss"]
    unfolding joinURL_def list_all_escaped by (simp add: escapedPathSegments_def)
qed

text \<open>distinct lists of plain segments (none empty, "." or "..") give distinct request
  paths, whatever bytes the segments hold: no owner, repository, branch or file name can make a
  request of the client address another resource.\<close>

theorem joinURL_injective:
  assumes "isRooted (Path u)" "list_all plainSegment ss" "list_all plainSegment ts"
    and "ss \<noteq> []" "ts \<noteq> []" and "joinURL u ss = joinURL u ts"
  shows "ss = ts"
proof -
  have "escapedPathSegments ss = escapedPathSegments ts"
    using assms by (intro pathJoin_inj [of "Path u"])
      (auto simp: joinURL_def isRooted_def escapedPathSegments_def list_all_iff normalComp_pathEscape)
  then show ?thesis
    by (simp add: escapedPathSegments_def) (metis inj_on_def inj_map_eq_map pathEscape_inj injI)
qed

theorem joinURL_injective_witness:
  "joinURL \<lparr>Scheme = ''https'', Host = ''h'', Path = ''/api/v1''\<rparr> [''repos'', ''a/b'']
   \<noteq> joinURL \<lparr>Scheme = ''https'', Host = ''h'', Path = ''/api/v1''\<rparr> [''repos'', ''a'', ''b'']"
proof
  let ?u = "\<lparr>Scheme = ''https'', Host = ''h'', Path = ''/api/v1''\<rparr>"
  assume "joinURL ?u [''repos'', ''a/b''] = joinURL ?u [''repos'', ''a'', ''b'']"
  then have "[''repos'', ''a/b''] = [''repos'', ''a'', ''b'']"
    by (intro joinURL_injective [of ?u]) (simp_all add: isRooted_def slash_def plainSegment_def)
  then show False by simp
qed

text \<open>Without that condition a segment ".." removes the segment in front of it.\<close>

lemma joinURL_dotdot:
  "joinURL \<lparr>Scheme = ''https'', Host = ''h'', Path = ''/api/v1''\<rparr> [''repos'', ''..'', ''user'']
     = ''/api/v1/user''"
  by code_simp

section \<open>The retry loop\<close>

text \<open>How one attempt ends, read off the network's answer: a final error (\<open>Inl (Inl e)\<close>), an
  error worth another attempt (\<open>Inl (Inr e)\<close>), or a response body to decode.\<close>

definition attemptOf :: "httpOutcome \<Rightarrow> (goerr + goerr) + (string \<times> string)" where
  "attemptOf out =
     (let transport = (\<lambda>err. if \<exists>l \<in> set err. isGogs l then Inl (Inl (AsError err))
         else if codeOf (classifyTransportError err) \<in> {CodeTLSError, CodeTimeout}
         then Inl (Inl (classifyTransportError err)) else Inl (Inr (classifyTransportError err)))
      in case out of
        DoError e \<Rightarrow> transport e
      | Response status link body (Some e) _ \<Rightarrow> transport (MsgErr ''read Gogs response'' # e)
      | Response status link body None (Some e) \<Rightarrow> transport (MsgErr ''close Gogs response'' # e)
      | Response status link body None None \<Rightarrow>
          if int (length body) > maxJSONResponseBytes then
            Inl (Inl (gogsErr CodeResponseTooLarge ''The Gogs response exceeded the 8 MiB limit.''))
          else if 200 \<le> status \<and> status < 300 then Inr (link, body)
          else if status = 502 \<or> status = 503 \<or> status = 504 then Inl (Inr (classifyStatus status))
          else Inl (Inl (classifyStatus status)))"

definition worthRetry :: "httpOutcome \<Rightarrow> bool" where
  "worthRetry out \<longleftrightarrow> (case attemptOf out of Inl (Inr _) \<Rightarrow> True | _ \<Rightarrow> False)"

text \<open>The answer a finished call gives for the outcome of its last attempt.\<close>

definition answerOf :: "httpWorld \<Rightarrow> (json \<Rightarrow> 'a option) \<Rightarrow> httpOutcome \<Rightarrow> goerr + (string \<times> 'a)" where
  "answerOf w dec out =
     (case attemptOf out of Inl (Inl e) \<Rightarrow> Inl e | Inl (Inr e) \<Rightarrow> Inl e
      | Inr (link, body) \<Rightarrow>
          (case Option.bind (parseJSON w body) dec of
             None \<Rightarrow> Inl (gogsErr CodeGogsError ''Gogs returned invalid JSON.'')
           | Some v \<Rightarrow> Inr (link, v)))"

lemma limitRead_len:
  "0 \<le> n \<Longrightarrow> int (length (limitRead (n + 1) body)) > n \<longleftrightarrow> int (length body) > n"
  by (auto simp: limitRead_def)

lemma limitRead_id: "int (length body) \<le> n \<Longrightarrow> limitRead (n + 1) body = body"
  by (simp add: limitRead_def)

text \<open>The state after an attempt: the request in the history, and the attempt's log line.\<close>

definition attemptStatus :: "httpOutcome \<Rightarrow> int" where
  "attemptStatus out = (case out of
     Response status link body None None \<Rightarrow>
       if int (length body) > maxJSONResponseBytes then 0 else status
   | _ \<Rightarrow> 0)"

definition attemptCode :: "httpWorld \<Rightarrow> (json \<Rightarrow> 'a option) \<Rightarrow> httpOutcome \<Rightarrow> ErrorCode option" where
  "attemptCode w dec out = (case answerOf w dec out of Inl e \<Rightarrow> Some (codeOf e) | Inr _ \<Rightarrow> None)"

definition afterAttempt :: "httpWorld \<Rightarrow> Client \<Rightarrow> (json \<Rightarrow> 'a option) \<Rightarrow> httpOutcome \<Rightarrow> request \<Rightarrow>
    clientState \<Rightarrow> clientState" where
  "afterAttempt w c dec out rq st =
     logRequest c (attemptStatus out) (attemptCode w dec out) (st\<lparr>sent := sent st @ [rq]\<rparr>)"

lemma sent_afterAttempt [simp]: "sent (afterAttempt w c dec out rq st) = sent st @ [rq]"
  by (simp add: afterAttempt_def)

lemma isGogs_gogsErr [simp]: "\<exists>l \<in> set (gogsErr c m). isGogs l" "\<not> (\<forall>l \<in> set (gogsErr c m). \<not> isGogs l)"
  by (simp_all add: gogsErr_def mkError_def)

lemma getOnce_out:
  "getOnce w rq st =
     (let out = doRequest w (sent st) rq in
      (case out of
         Response status link body None None \<Rightarrow>
           if int (length body) > maxJSONResponseBytes
           then (0, Inl (gogsErr CodeResponseTooLarge ''The Gogs response exceeded the 8 MiB limit.''))
           else (status, Inr (link, body))
       | Response status link body None (Some e) \<Rightarrow> (0, Inl (MsgErr ''close Gogs response'' # e))
       | Response status link body (Some e) _ \<Rightarrow> (0, Inl (MsgErr ''read Gogs response'' # e))
       | DoError e \<Rightarrow> (0, Inl e), st\<lparr>sent := sent st @ [rq]\<rparr>))"
proof -
  have len: "maxJSONResponseBytes < int (length (limitRead (maxJSONResponseBytes + 1) b)) \<longleftrightarrow>
      maxJSONResponseBytes < int (length b)" for b
    by (rule limitRead_len) (simp add: maxJSONResponseBytes_def)
  show ?thesis
    by (simp add: getOnce_def httpDo_def Let_def len limitRead_id
        split: httpOutcome.splits option.splits)
qed

lemma getLoop_attempt:
  assumes "attempt > 0 \<Longrightarrow> waitCanceled w (sent st) attempt = None" "attempt \<le> 2"
  shows "getLoop w c rq dec (Suc left) attempt e st =
      (let out = doRequest w (sent st) rq; st' = afterAttempt w c dec out rq st in
       case attemptOf out of
         Inl (Inr e') \<Rightarrow> if attempt < 2 then getLoop w c rq dec left (Suc attempt) e' st'
                         else (Inl e', st')
       | _ \<Rightarrow> (answerOf w dec out, st'))"
proof -
  have wait: "(if attempt > 0 then waitCanceled w (sent st) attempt else None) = None"
    using assms(1) by simp
  have two: "attempt = 2 \<longleftrightarrow> \<not> attempt < 2" using assms(2) by linarith
  obtain out where out: "out = doRequest w (sent st) rq" by blast
  show ?thesis
  proof (cases out)
    case (DoError err)
    then show ?thesis
      using out wait two
      by (simp add: getOnce_out attemptOf_def answerOf_def afterAttempt_def attemptStatus_def
          attemptCode_def Let_def)
  next
    case (Response status link body re ce)
    then show ?thesis
      using out wait two
      by (cases re; cases ce; cases "Option.bind (parseJSON w body) dec")
        (simp_all add: getOnce_out attemptOf_def answerOf_def afterAttempt_def attemptStatus_def
          attemptCode_def Let_def)
  qed
qed

declare getLoop.simps [simp del]

lemma getLoop_spec:
  assumes "getLoop w c rq dec left attempt e st = (r, st')" "left + attempt = 3" "0 < left"
  shows "\<exists>k \<le> left. sent st' = sent st @ replicate k rq \<and> (attempt = 0 \<longrightarrow> 0 < k) \<and>
    (\<forall>i. i + 1 < k \<longrightarrow> worthRetry (doRequest w (sent st @ replicate i rq) rq)) \<and>
    ((\<exists>cause. r = Inl (classifyTransportError cause) \<and> 0 < attempt + k
        \<and> waitCanceled w (sent st') (attempt + k) = Some cause \<and>
        (\<forall>i < k. worthRetry (doRequest w (sent st @ replicate i rq) rq)))
     \<or> (0 < k \<and> r = answerOf w dec (doRequest w (sent st @ replicate (k - 1) rq) rq) \<and>
        (k = left \<or> \<not> worthRetry (doRequest w (sent st @ replicate (k - 1) rq) rq))))"
    (is "\<exists>k \<le> left. ?P left attempt st k")
  using assms
proof (induction left arbitrary: attempt e st)
  case 0
  then show ?case by simp
next
  case (Suc left)
  show ?case
  proof (cases "if attempt > 0 then waitCanceled w (sent st) attempt else None")
    case (Some cause)
    then have "getLoop w c rq dec (Suc left) attempt e st = (Inl (classifyTransportError cause), st)"
      "0 < attempt" "waitCanceled w (sent st) attempt = Some cause"
      by (auto simp: getLoop.simps split: if_splits)
    with Suc.prems show ?thesis
      by (intro exI [of _ 0]) auto
  next
    case None
    define out where "out = doRequest w (sent st) rq"
    define s1 where "s1 = afterAttempt w c dec out rq st"
    have "attempt > 0 \<Longrightarrow> waitCanceled w (sent st) attempt = None" using None by simp
    moreover have "attempt \<le> 2" using Suc.prems(2) by linarith
    ultimately have run: "(r, st') = (case attemptOf out of
        Inl (Inr e') \<Rightarrow> if attempt < 2 then getLoop w c rq dec left (Suc attempt) e' s1 else (Inl e', s1)
      | _ \<Rightarrow> (answerOf w dec out, s1))"
      using getLoop_attempt [of attempt w st c rq dec left e] Suc.prems(1)
      unfolding out_def s1_def Let_def by simp
    show ?thesis
    proof (cases "worthRetry out \<and> attempt < 2")
      case True
      then obtain e' where e': "attemptOf out = Inl (Inr e')"
        by (auto simp: worthRetry_def split: sum.splits)
      then have step: "getLoop w c rq dec left (Suc attempt) e' s1 = (r, st')" using run True by simp
      have lt: "left + Suc attempt = 3" "0 < left" using Suc.prems(2) True by linarith+
      from Suc.IH [OF step lt] obtain k where k: "k \<le> left" "?P left (Suc attempt) s1 k"
        by (elim exE conjE) (rule that, assumption, intro conjI, assumption+)
      have shift: "sent s1 @ replicate i rq = sent st @ replicate (Suc i) rq" for i
        by (simp add: s1_def)
      define W where "W = (\<lambda>i. worthRetry (doRequest w (sent st @ replicate i rq) rq))"
      have W1: "worthRetry (doRequest w (sent s1 @ replicate i rq) rq) = W (Suc i)" for i
        by (simp only: W_def shift)
      have W0: "W 0" using True by (simp add: out_def W_def)
      have up: "(\<forall>i < Suc m. W i) \<longleftrightarrow> (\<forall>i < m. W (Suc i))" for m
        using W0 less_Suc_eq_0_disj by auto
      have before: "\<forall>i. i + 1 < Suc k \<longrightarrow> W i"
        using k(2) W0 unfolding W1 by (metis Suc_eq_plus1 Suc_less_eq gr0_conv_Suc not_gr0)
      have Wi: "worthRetry (doRequest w (sent st @ replicate i rq) rq) = W i" for i
        by (simp only: W_def)
      have more: "0 < k \<Longrightarrow> Suc (k - 1) = k" by simp
      have "sent st' = sent st @ replicate (Suc k) rq" using k(2) unfolding shift by blast
      moreover have "(\<exists>cause. r = Inl (classifyTransportError cause) \<and> 0 < attempt + Suc k
          \<and> waitCanceled w (sent st') (attempt + Suc k) = Some cause \<and> (\<forall>i < Suc k. W i))
        \<or> (0 < Suc k \<and> r = answerOf w dec (doRequest w (sent st @ replicate (Suc k - 1) rq) rq) \<and>
           (Suc k = Suc left \<or> \<not> W (Suc k - 1)))"
        using k(2) more unfolding W1 unfolding up shift by (elim conjE disjE exE) auto
      ultimately have "?P (Suc left) attempt st (Suc k)"
        using before unfolding Wi by simp
      moreover have "Suc k \<le> Suc left" using k(1) by simp
      ultimately show ?thesis by blast
    next
      case False
      have "r = answerOf w dec out" "st' = s1"
        using run False by (auto simp: answerOf_def worthRetry_def split: sum.splits if_splits)
      moreover have "1 = Suc left \<or> \<not> worthRetry out" using False Suc.prems(2) by linarith
      ultimately show ?thesis
        by (intro exI [of _ 1]) (auto simp: s1_def out_def)
    qed
  qed
qed

text \<open>C22: a GET sends the same request one to three times. Every attempt but the last ended in a
  failure worth retrying (a transport failure that is neither a TLS failure nor a timeout, or
  a 502, 503 or 504 answer); the answer is that of the last attempt, which is either the third or
  one that is not worth retrying, unless the wait before the next attempt was cancelled.\<close>

theorem getJSON_attempts:
  assumes "getJSONWithHeaders w c dec query segments st = (r, st')"
  defines "rq \<equiv> mkRequest c ''GET'' query JNull segments"
  defines "out \<equiv> (\<lambda>i. doRequest w (sent st @ replicate i rq) rq)"
  shows "\<exists>k. 1 \<le> k \<and> k \<le> 3 \<and> sent st' = sent st @ replicate k rq \<and>
    (\<forall>i. i + 1 < k \<longrightarrow> worthRetry (out i)) \<and>
    ((\<exists>cause. r = Inl (classifyTransportError cause) \<and> waitCanceled w (sent st') k = Some cause)
     \<or> (r = answerOf w dec (out (k - 1)) \<and> (k = 3 \<or> \<not> worthRetry (out (k - 1)))))"
proof -
  from assms(1) have "getLoop w c rq dec 3 0 [] st = (r, st')"
    by (simp add: getJSONWithHeaders_def rq_def)
  from getLoop_spec [OF this] show ?thesis
    unfolding out_def by (simp add: Suc_le_eq) blast
qed

definition flakyWorld :: httpWorld where
  "flakyWorld = \<lparr>doRequest = (\<lambda>h rq. if h = [] then Response 503 [] [] None None
       else Response 200 ''next'' ''body'' None None),
     waitCanceled = (\<lambda>_ _. None), parseJSON = (\<lambda>s. Some (JStr s))\<rparr>"

definition someClient :: Client where
  "someClient = \<lparr>apiRoot = \<lparr>Scheme = ''https'', Host = ''gogs'', Path = ''/api/v1''\<rparr>,
     token = ''secret'', hasAuthenticationFailure = True\<rparr>"

definition freshState :: clientState where
  "freshState = \<lparr>sent = [], logs = [], authenticationFailures = 0\<rparr>"

theorem getJSON_attempts_witness:
  "fst (getJSONWithHeaders flakyWorld someClient decStr [] [''user''] freshState)
     = Inr (''next'', ''body'')
   \<and> (\<exists>k. 1 \<le> k \<and> k \<le> 3 \<and> length (sent (snd (getJSONWithHeaders flakyWorld someClient decStr []
          [''user''] freshState))) = k)"
proof -
  let ?run = "getJSONWithHeaders flakyWorld someClient decStr [] [''user''] freshState"
  have val: "fst ?run = Inr (''next'', ''body'')" by code_simp
  have "\<exists>k. 1 \<le> k \<and> k \<le> 3 \<and> length (sent (snd ?run)) = k"
    using getJSON_attempts [of flakyWorld someClient decStr "[]" "[''user'']" freshState
        "fst ?run" "snd ?run"]
    by (auto simp: freshState_def)
  with val show ?thesis by simp
qed

section \<open>Writes send one request\<close>

text \<open>A write was certainly not applied when it failed before it could be sent, or when Gogs
  answered it with a 4xx status.\<close>

definition rejected :: "httpOutcome \<Rightarrow> bool" where
  "rejected out \<longleftrightarrow> (case out of
     DoError e \<Rightarrow> opOf e = Some ''dial'' \<or> opOf e = Some ''proxyconnect''
       \<or> codeOf (classifyTransportError e) = CodeTLSError
   | Response status _ _ _ _ \<Rightarrow> 400 \<le> status \<and> status < 500)"

definition confirmed :: "httpWorld \<Rightarrow> (json \<Rightarrow> 'a option) \<Rightarrow> httpOutcome \<Rightarrow> 'a \<Rightarrow> bool" where
  "confirmed w dec out v \<longleftrightarrow> (case out of
     DoError e \<Rightarrow> False
   | Response status _ body readErr closeErr \<Rightarrow> 200 \<le> status \<and> status < 300 \<and> readErr = None
       \<and> closeErr = None \<and> int (length body) \<le> maxJSONResponseBytes
       \<and> Option.bind (parseJSON w body) dec = Some v)"

text \<open>C5: a POST or PATCH sends exactly one request, whatever happens to it. It reports success
  exactly when Gogs confirmed the write with a complete, decodable 2xx answer; an error that is
  not WRITE_OUTCOME_UNKNOWN is reported exactly when the write was certainly not applied.\<close>

theorem write_once:
  fixes dec :: "json \<Rightarrow> 'a option"
  assumes "writeJSON w c verb dec payload segments st = (r, st')"
  defines "rq \<equiv> mkRequest c verb [] payload segments"
  shows "sent st' = sent st @ [rq] \<and>
    (\<forall>v. r = Inr v \<longleftrightarrow> confirmed w dec (doRequest w (sent st) rq) v) \<and>
    ((\<exists>e. r = Inl e \<and> codeOf e \<noteq> CodeWriteOutcomeUnknown) \<longleftrightarrow> rejected (doRequest w (sent st) rq))"
proof -
  have len: "maxJSONResponseBytes < int (length (limitRead (maxJSONResponseBytes + 1) b)) \<longleftrightarrow>
      maxJSONResponseBytes < int (length b)" for b
    by (rule limitRead_len) (simp add: maxJSONResponseBytes_def)
  show ?thesis
  proof (cases "doRequest w (sent st) rq")
    case (DoError e)
    have "(r, st') = (Inl (classifyWriteTransportError e),
        logRequest c 0 (Some (codeOf (classifyWriteTransportError e))) (st\<lparr>sent := sent st @ [rq]\<rparr>))"
      using assms(1) DoError by (simp add: writeJSON_def httpDo_def rq_def Let_def)
    with DoError show ?thesis
      using classifyWrite_unknown [of e] by (auto simp: rejected_def confirmed_def)
  next
    case (Response status link body re ce)
    show ?thesis
    proof (cases "400 \<le> status \<and> status < 500")
      case True
      then have "(r, st') = (Inl (classifyStatus status),
          logRequest c status (Some (codeOf (classifyStatus status))) (st\<lparr>sent := sent st @ [rq]\<rparr>))"
        using assms(1) Response by (simp add: writeJSON_def httpDo_def rq_def Let_def)
      with True Response show ?thesis
        using classifyStatus_not_unknown [of status] by (auto simp: rejected_def confirmed_def)
    next
      case False
      then show ?thesis
        using assms(1) Response
        by (cases "Option.bind (parseJSON w body) dec")
          (auto simp: writeJSON_def httpDo_def rq_def Let_def len limitRead_id rejected_def
            confirmed_def unknownOutcome_def split: if_splits)
    qed
  qed
qed

theorem write_once_witness:
  "length (sent (snd (postJSON flakyWorld someClient decStr JNull [''user''] freshState))) = 1
   \<and> fst (postJSON flakyWorld someClient decStr JNull [''user''] freshState) \<noteq> Inr ''body''"
  using write_once [of flakyWorld someClient "''POST''" decStr JNull "[''user'']" freshState
      "fst (postJSON flakyWorld someClient decStr JNull [''user''] freshState)"
      "snd (postJSON flakyWorld someClient decStr JNull [''user''] freshState)"]
  by (auto simp: freshState_def postJSON_def confirmed_def flakyWorld_def)

lemmas client_defs = getJSONWithHeaders_def getJSONWithQuery_def getJSON_def postJSON_def patchJSON_def

section \<open>What a call may send\<close>

text \<open>The requests added by a call all satisfy \<open>P\<close>, and there are at most \<open>n\<close> of them. The rules
  compose the bounds along \<open>bindM\<close> and \<open>onResult\<close>.\<close>

definition sends :: "(request \<Rightarrow> bool) \<Rightarrow> nat \<Rightarrow> 'a clientIO \<Rightarrow> bool" where
  "sends P n m \<longleftrightarrow> (\<forall>st. \<exists>new. sent (snd (m st)) = sent st @ new \<and> list_all P new \<and> length new \<le> n)"

named_theorems sends_intro

lemma sends_mono: "sends P m f \<Longrightarrow> m \<le> n \<Longrightarrow> sends P n f"
  unfolding sends_def by (meson le_trans)

lemma sends_weaken: "sends P m f \<Longrightarrow> (\<And>q. P q \<Longrightarrow> Q q) \<Longrightarrow> sends Q m f"
  unfolding sends_def list_all_iff by blast

lemma sends_pure [sends_intro, simp]:
  "sends P n (ret x)" "sends P n (fail e)" "sends P n (liftE r)"
  by (simp_all add: sends_def)

lemma sends_bindM:
  assumes "sends P m f" and "\<And>x. sends P n (g x)"
  shows "sends P (m + n) (bindM f g)"
  unfolding sends_def
proof (intro allI)
  fix st
  from assms(1) obtain a where a: "sent (snd (f st)) = sent st @ a" "list_all P a" "length a \<le> m"
    unfolding sends_def by blast
  show "\<exists>new. sent (snd (bindM f g st)) = sent st @ new \<and> list_all P new \<and> length new \<le> m + n"
  proof (cases "f st")
    case (Pair r t)
    show ?thesis
    proof (cases r)
      case (Inl e)
      with Pair a show ?thesis by (intro exI [of _ a]) simp
    next
      case (Inr x)
      from assms(2) [of x] obtain b where
        "sent (snd (g x t)) = sent t @ b" "list_all P b" "length b \<le> n"
        unfolding sends_def by blast
      with Pair Inr a show ?thesis by (intro exI [of _ "a @ b"]) simp
    qed
  qed
qed

lemma sends_onResult:
  assumes "sends P m f" and "\<And>r. sends P n (g r)"
  shows "sends P (m + n) (onResult f g)"
  unfolding sends_def
proof (intro allI)
  fix st
  obtain r t where ft: "f st = (r, t)" by (cases "f st")
  from assms(1) ft obtain a where a: "sent t = sent st @ a" "list_all P a" "length a \<le> m"
    unfolding sends_def by (metis snd_conv)
  from assms(2) [of r] obtain b where
    "sent (snd (g r t)) = sent t @ b" "list_all P b" "length b \<le> n"
    unfolding sends_def by blast
  with ft a show "\<exists>new. sent (snd (onResult f g st)) = sent st @ new \<and> list_all P new
      \<and> length new \<le> m + n"
    by (intro exI [of _ "a @ b"]) simp
qed

lemma sends_getJSONWithHeaders [sends_intro]:
  assumes "P (mkRequest c ''GET'' query JNull segments)"
  shows "sends P 3 (getJSONWithHeaders w c dec query segments)"
  unfolding sends_def
proof
  fix st
  have "getLoop w c (mkRequest c ''GET'' query JNull segments) dec 3 0 [] st
      = (fst (getJSONWithHeaders w c dec query segments st),
         snd (getJSONWithHeaders w c dec query segments st))"
    by (simp add: getJSONWithHeaders_def)
  from getLoop_spec [OF this] obtain k where "k \<le> 3"
    "sent (snd (getJSONWithHeaders w c dec query segments st))
       = sent st @ replicate k (mkRequest c ''GET'' query JNull segments)" by auto
  with assms show "\<exists>new. sent (snd (getJSONWithHeaders w c dec query segments st)) = sent st @ new
      \<and> list_all P new \<and> length new \<le> 3"
    by (intro exI [of _ "replicate k (mkRequest c ''GET'' query JNull segments)"])
      (simp add: list_all_iff)
qed

lemma sends_getJSONWithQuery [sends_intro]:
  assumes "P (mkRequest c ''GET'' query JNull segments)"
  shows "sends P 3 (getJSONWithQuery w c dec query segments)"
  unfolding getJSONWithQuery_def
  by (rule sends_mono, rule sends_bindM [where n = 0], rule sends_getJSONWithHeaders)
    (use assms in \<open>auto split: prod.split\<close>)

lemma sends_getJSON [sends_intro]:
  assumes "P (mkRequest c ''GET'' [] JNull segments)"
  shows "sends P 3 (getJSON w c dec segments)"
  unfolding getJSON_def using assms by (rule sends_getJSONWithQuery)

lemma sends_writeJSON [sends_intro]:
  assumes "P (mkRequest c verb [] payload segments)"
  shows "sends P 1 (writeJSON w c verb dec payload segments)"
  unfolding sends_def
proof
  fix st
  let ?run = "writeJSON w c verb dec payload segments st"
  have "sent (snd ?run) = sent st @ [mkRequest c verb [] payload segments]"
    by (auto simp: writeJSON_def httpDo_def Let_def split: httpOutcome.splits option.splits)
  with assms show "\<exists>new. sent (snd ?run) = sent st @ new \<and> list_all P new \<and> length new \<le> 1"
    by simp
qed

text \<open>A read: a GET with the client's own token.\<close>

definition isRead :: "Client \<Rightarrow> request \<Rightarrow> bool" where
  "isRead c q \<longleftrightarrow> rqMethod q = ''GET'' \<and> rqToken q = token c \<and> rqPayload q = JNull"

lemma isRead_get [simp]: "isRead c (mkRequest c ''GET'' query JNull segments)"
  by (simp add: isRead_def mkRequest_def)


section \<open>The wait between attempts\<close>

text \<open>\<open>waitForRetry\<close> in nanoseconds; \<open>random\<close> is what \<open>rand.Int64N\<close> returns below the given bound, \<open>canceled\<close> the cause
  of the context when it ends before the timer. The field \<open>waitCanceled\<close> of the world is its answer after a request.\<close>

definition retryDelays :: "int list" where "retryDelays = [100000000, 300000000]"

definition retryDelay :: "(int \<Rightarrow> int) \<Rightarrow> nat \<Rightarrow> int" where
  "retryDelay random attempt =
     (let baseDelay = retryDelays ! (attempt - 1); jitterRange = baseDelay div 5;
          jitter = random (2 * jitterRange + 1) - jitterRange
      in baseDelay + jitter)"

definition waitForRetry :: "(int \<Rightarrow> int) \<Rightarrow> (int \<Rightarrow> goerr option) \<Rightarrow> nat \<Rightarrow> goerr option" where
  "waitForRetry random canceled attempt = canceled (retryDelay random attempt)"

text \<open>The loop waits before its second and its third attempt, 80 to 120 and 240 to 360 milliseconds.\<close>

lemma retryDelay_bounds:
  assumes "\<And>n. 0 < n \<Longrightarrow> 0 \<le> random n \<and> random n < n" "attempt \<in> {1, 2}"
  shows "4 * retryDelays ! (attempt - 1) \<le> 5 * retryDelay random attempt
    \<and> 5 * retryDelay random attempt \<le> 6 * retryDelays ! (attempt - 1)"
  using assms(1) [of "40000001"] assms(1) [of "120000001"] assms(2)
  by (auto simp: retryDelay_def retryDelays_def Let_def)

end
