(* ===== verification/Config.thy ===== *)
theory Config
  imports GogsClient
begin

unbundle bit_operations_syntax

text \<open>
  internal/config/config.go: the configuration from the file, the environment and the defaults.
  \<open>applyFile\<close>, \<open>applyEnvironment\<close> and \<open>validate\<close> are lists of steps, one for each \<open>if\<close> statement of
  the code in its order, which \<open>applySteps\<close> runs up to the first error. The file system, the URL, duration
  and host/port parsers and the JSON decoder are the fields of \<open>configWorld\<close>; durations are nanoseconds. An
  error is its message, the format string where the code formats one; a wrapped error is the message
  in front of the layers of its cause.
\<close>

section \<open>Data\<close>

record baseURL = url +
  urlUser :: bool
  RawQuery :: string
  Fragment :: string

record Config =
  BaseURL :: "baseURL option"
  Token :: string
  TokenFile :: string
  CAFile :: string
  AllowInsecureHTTP :: bool
  WriteEnabled :: bool
  HTTPTimeout :: int
  LogLevel :: string
  CacheDir :: string
  CacheMaxBytes :: int
  CacheTTL :: int
  SearchTimeout :: int
  MaxFileBytes :: int
  Transport :: string
  HTTPAddr :: string
  HTTPEndpoint :: string
  HTTPTokenHeader :: string
  HTTPUserCacheTTL :: int
  HTTPMaxUsers :: int
  HTTPJSONResponse :: bool

record fileConfig =
  fcBaseURL :: string
  fcTokenFile :: string
  fcCAFile :: string
  fcAllowInsecureHTTP :: "bool option"
  fcWriteEnabled :: "bool option"
  fcHTTPTimeout :: string
  fcCacheDir :: string
  fcCacheMaxBytes :: int
  fcCacheTTL :: string
  fcSearchTimeout :: string
  fcMaxFileBytes :: int
  fcLogLevel :: string
  fcTransport :: string
  fcHTTPAddr :: string
  fcHTTPEndpoint :: string
  fcHTTPTokenHeader :: string
  fcHTTPUserCacheTTL :: string
  fcHTTPMaxUsers :: int
  fcHTTPJSONResponse :: "bool option"

text \<open>What follows the first JSON value of the file.\<close>

datatype trailing = AtEOF | BadTrailing goerr | AnotherValue

record fileInfo =
  fiRegular :: bool
  fiPerm :: "9 word"
  fiSize :: int

record configWorld =
  cwParseURL :: "string \<Rightarrow> goerr + baseURL"
  cwParseDuration :: "string \<Rightarrow> goerr + int"
  cwSplitHostPort :: "string \<Rightarrow> goerr + unit"
  cwOpen :: "string \<Rightarrow> goerr + unit"
  cwReadAll :: "string \<Rightarrow> goerr + string"
  cwClose :: "string \<Rightarrow> goerr + unit"
  cwDecode :: "string \<Rightarrow> goerr + (fileConfig \<times> trailing)"
  cwStat :: "string \<Rightarrow> goerr + fileInfo"
  cwLstat :: "string \<Rightarrow> goerr + fileInfo"
  cwReadFile :: "string \<Rightarrow> goerr + string"

type_synonym lookupEnv = "string \<Rightarrow> string option"

definition second :: int where "second = 1000000000"
definition maxSearchTimeout :: int where "maxSearchTimeout = 300 * second"
definition maxConfigBytes :: int where "maxConfigBytes = 1048576"
definition maxTokenBytes :: int where "maxTokenBytes = 8192"
definition maxHTTPUserCacheTTL :: int where "maxHTTPUserCacheTTL = 3600 * second"
definition maxHTTPMaxUsers :: int where "maxHTTPMaxUsers = 1024"

definition defaultConfig :: Config where
  "defaultConfig = \<lparr>BaseURL = None, Token = [], TokenFile = [], CAFile = [], AllowInsecureHTTP = False,
     WriteEnabled = False, HTTPTimeout = 30 * second, LogLevel = ''info'', CacheDir = [],
     CacheMaxBytes = 2147483648, CacheTTL = 86400 * second, SearchTimeout = 30 * second,
     MaxFileBytes = 1048576, Transport = [], HTTPAddr = [], HTTPEndpoint = ''/mcp'',
     HTTPTokenHeader = ''Authorization'', HTTPUserCacheTTL = 300 * second, HTTPMaxUsers = 128,
     HTTPJSONResponse = False\<rparr>"

section \<open>Steps\<close>

type_synonym 'c step = "'c \<Rightarrow> goerr + 'c"

fun applySteps :: "'c step list \<Rightarrow> 'c step" where
  "applySteps [] c = Inr c"
| "applySteps (s # ss) c = bindE (s c) (applySteps ss)"

definition wrapErr :: "string \<Rightarrow> goerr + 'a \<Rightarrow> goerr + 'a" where
  "wrapErr m r = (case r of Inl e \<Rightarrow> Inl (MsgErr m # e) | Inr x \<Rightarrow> Inr x)"

definition check :: "('c \<Rightarrow> bool) \<Rightarrow> string \<Rightarrow> 'c step" where
  "check bad m c = (if bad c then Inl [MsgErr m] else Inr c)"

definition setWhen :: "bool \<Rightarrow> ('c \<Rightarrow> 'c) \<Rightarrow> 'c step" where
  "setWhen b f c = Inr (if b then f c else c)"

text \<open>Setting a field from a value that may not parse.\<close>

definition setParsed :: "bool \<Rightarrow> string \<Rightarrow> goerr + 'v \<Rightarrow> ('v \<Rightarrow> 'c \<Rightarrow> 'c) \<Rightarrow> 'c step" where
  "setParsed b m parsed f c = (if b then bindE (wrapErr m parsed) (\<lambda>v. Inr (f v c)) else Inr c)"

definition fromEnv :: "lookupEnv \<Rightarrow> string \<Rightarrow> (string \<Rightarrow> 'c step) \<Rightarrow> 'c step" where
  "fromEnv lookup name f c = (case lookup name of None \<Rightarrow> Inr c | Some v \<Rightarrow> f v c)"

lemma applySteps_Cons: "applySteps (s # ss) c = Inr d \<longleftrightarrow> (\<exists>m. s c = Inr m \<and> applySteps ss m = Inr d)"
  by (simp add: bindE_eq_Inr)

lemma applySteps_append: "applySteps (ss @ ts) c = bindE (applySteps ss c) (applySteps ts)"
proof (induction ss arbitrary: c)
  case (Cons s ss)
  then show ?case by (cases "s c") simp_all
qed simp

lemma check_Inr [simp]: "check bad m c = Inr d \<longleftrightarrow> \<not> bad c \<and> d = c"
  by (auto simp: check_def)

lemma wrapErr_Inr [simp]: "wrapErr m r = Inr x \<longleftrightarrow> r = Inr x"
  by (cases r) (simp_all add: wrapErr_def)

text \<open>A property that every step keeps is kept by the run.\<close>

lemma applySteps_keeps:
  "(\<And>s c d. s \<in> set ss \<Longrightarrow> s c = Inr d \<Longrightarrow> P c \<Longrightarrow> P d) \<Longrightarrow> applySteps ss c = Inr d \<Longrightarrow> P c \<Longrightarrow> P d"
proof (induction ss arbitrary: c)
  case (Cons s ss)
  from Cons.prems(2) obtain m where m: "s c = Inr m" "applySteps ss m = Inr d" by (auto simp: bindE_eq_Inr)
  show ?case
  proof (rule Cons.IH)
    show "P m" using Cons.prems(1) [of s c m] m(1) Cons.prems(3) by simp
    show "applySteps ss m = Inr d" by (rule m(2))
  next
    fix t and x y :: 'a
    assume "t \<in> set ss" "t x = Inr y" "P x"
    then show "P y" using Cons.prems(1) [of t x y] by simp
  qed
qed simp

section \<open>The configuration file\<close>

definition readFile :: "configWorld \<Rightarrow> string \<Rightarrow> goerr + fileConfig" where
  "readFile w configPath =
     bindE (wrapErr ''open config file'' (cwOpen w configPath)) (\<lambda>_.
     bindE (wrapErr ''read config file''
       (bindE (cwReadAll w configPath) (\<lambda>c. Inr (limitRead (maxConfigBytes + 1) c)))) (\<lambda>contents.
     bindE (wrapErr ''close config file'' (cwClose w configPath)) (\<lambda>_.
     if int (length contents) > maxConfigBytes then Inl [MsgErr ''config file exceeds 1 MiB'']
     else bindE (wrapErr ''decode config file'' (cwDecode w contents)) (\<lambda>(values, rest).
       case rest of
         AtEOF \<Rightarrow> Inr values
       | BadTrailing e \<Rightarrow> Inl (MsgErr ''decode trailing config data'' # e)
       | AnotherValue \<Rightarrow> Inl [MsgErr ''config file contains multiple JSON values'']))))"

definition applyFileSteps :: "configWorld \<Rightarrow> fileConfig \<Rightarrow> Config step list" where
  "applyFileSteps w v =
    [setParsed (fcBaseURL v \<noteq> []) ''parse base_url'' (cwParseURL w (fcBaseURL v)) (\<lambda>u c. c\<lparr>BaseURL := Some u\<rparr>),
     setWhen True (\<lambda>c. c\<lparr>TokenFile := fcTokenFile v, CAFile := fcCAFile v\<rparr>),
     setWhen (fcAllowInsecureHTTP v \<noteq> None) (\<lambda>c. c\<lparr>AllowInsecureHTTP := the (fcAllowInsecureHTTP v)\<rparr>),
     setWhen (fcWriteEnabled v \<noteq> None) (\<lambda>c. c\<lparr>WriteEnabled := the (fcWriteEnabled v)\<rparr>),
     setParsed (fcHTTPTimeout v \<noteq> []) ''parse http_timeout'' (cwParseDuration w (fcHTTPTimeout v)) (\<lambda>d c. c\<lparr>HTTPTimeout := d\<rparr>),
     setWhen (fcLogLevel v \<noteq> []) (\<lambda>c. c\<lparr>LogLevel := fcLogLevel v\<rparr>),
     setWhen (fcCacheDir v \<noteq> []) (\<lambda>c. c\<lparr>CacheDir := fcCacheDir v\<rparr>),
     setWhen (fcCacheMaxBytes v \<noteq> 0) (\<lambda>c. c\<lparr>CacheMaxBytes := fcCacheMaxBytes v\<rparr>),
     setParsed (fcCacheTTL v \<noteq> []) ''parse cache_ttl'' (cwParseDuration w (fcCacheTTL v)) (\<lambda>d c. c\<lparr>CacheTTL := d\<rparr>),
     setParsed (fcSearchTimeout v \<noteq> []) ''parse search_timeout'' (cwParseDuration w (fcSearchTimeout v)) (\<lambda>d c. c\<lparr>SearchTimeout := d\<rparr>),
     setWhen (fcMaxFileBytes v \<noteq> 0) (\<lambda>c. c\<lparr>MaxFileBytes := fcMaxFileBytes v\<rparr>),
     setWhen (fcTransport v \<noteq> []) (\<lambda>c. c\<lparr>Transport := fcTransport v\<rparr>),
     setWhen (fcHTTPAddr v \<noteq> []) (\<lambda>c. c\<lparr>HTTPAddr := fcHTTPAddr v\<rparr>),
     setWhen (fcHTTPEndpoint v \<noteq> []) (\<lambda>c. c\<lparr>HTTPEndpoint := fcHTTPEndpoint v\<rparr>),
     setWhen (fcHTTPTokenHeader v \<noteq> []) (\<lambda>c. c\<lparr>HTTPTokenHeader := fcHTTPTokenHeader v\<rparr>),
     setParsed (fcHTTPUserCacheTTL v \<noteq> []) ''parse http_user_cache_ttl'' (cwParseDuration w (fcHTTPUserCacheTTL v)) (\<lambda>d c. c\<lparr>HTTPUserCacheTTL := d\<rparr>),
     setWhen (fcHTTPMaxUsers v \<noteq> 0) (\<lambda>c. c\<lparr>HTTPMaxUsers := fcHTTPMaxUsers v\<rparr>),
     setWhen (fcHTTPJSONResponse v \<noteq> None) (\<lambda>c. c\<lparr>HTTPJSONResponse := the (fcHTTPJSONResponse v)\<rparr>)]"

definition applyFile :: "configWorld \<Rightarrow> fileConfig \<Rightarrow> Config step" where
  "applyFile w v = applySteps (applyFileSteps w v)"

section \<open>The environment\<close>

text \<open>\<open>strconv.ParseBool\<close>.\<close>

definition parseBool :: "string \<Rightarrow> goerr + bool" where
  "parseBool s =
     (if s \<in> set [''1'', ''t'', ''T'', ''TRUE'', ''true'', ''True''] then Inr True
      else if s \<in> set [''0'', ''f'', ''F'', ''FALSE'', ''false'', ''False''] then Inr False
      else Inl [MsgErr ''strconv.ParseBool: invalid syntax''])"

definition parseInt64 :: "string \<Rightarrow> goerr + int" where
  "parseInt64 s = (case parseInt s of Some n \<Rightarrow> Inr n | None \<Rightarrow> Inl [MsgErr ''strconv.ParseInt: invalid value''])"

definition applyBoolEnv :: "(bool \<Rightarrow> Config \<Rightarrow> Config) \<Rightarrow> string \<Rightarrow> lookupEnv \<Rightarrow> Config step" where
  "applyBoolEnv put name lookup c =
     (case lookup name of
        None \<Rightarrow> Inr c
      | Some value \<Rightarrow> bindE (wrapErr (''parse '' @ name) (parseBool value)) (\<lambda>parsed. Inr (put parsed c)))"

definition applyToken :: "lookupEnv \<Rightarrow> Config step" where
  "applyToken lookup c =
     (case (lookup ''GOGS_TOKEN'', lookup ''GOGS_TOKEN_FILE'') of
        (Some _, Some _) \<Rightarrow> Inl [MsgErr ''GOGS_TOKEN and GOGS_TOKEN_FILE are mutually exclusive'']
      | (Some tok, None) \<Rightarrow> Inr (c\<lparr>Token := tok, TokenFile := []\<rparr>)
      | (None, Some tokenFile) \<Rightarrow> Inr (c\<lparr>TokenFile := tokenFile, Token := []\<rparr>)
      | (None, None) \<Rightarrow> Inr c)"

definition envParsed :: "lookupEnv \<Rightarrow> string \<Rightarrow> (string \<Rightarrow> goerr + 'v) \<Rightarrow> ('v \<Rightarrow> Config \<Rightarrow> Config) \<Rightarrow> Config step" where
  "envParsed lookup name parse put = fromEnv lookup name (\<lambda>v. setParsed True (''parse '' @ name) (parse v) put)"

definition envString :: "lookupEnv \<Rightarrow> string \<Rightarrow> (string \<Rightarrow> Config \<Rightarrow> Config) \<Rightarrow> Config step" where
  "envString lookup name put = fromEnv lookup name (\<lambda>v. setWhen True (put v))"

definition applyEnvironmentSteps :: "configWorld \<Rightarrow> lookupEnv \<Rightarrow> Config step list" where
  "applyEnvironmentSteps w lookup =
    [envParsed lookup ''GOGS_BASE_URL'' (cwParseURL w) (\<lambda>u c. c\<lparr>BaseURL := Some u\<rparr>),
     applyToken lookup,
     envString lookup ''GOGS_CA_FILE'' (\<lambda>v c. c\<lparr>CAFile := v\<rparr>),
     applyBoolEnv (\<lambda>b c. c\<lparr>AllowInsecureHTTP := b\<rparr>) ''GOGS_ALLOW_INSECURE_HTTP'' lookup,
     applyBoolEnv (\<lambda>b c. c\<lparr>WriteEnabled := b\<rparr>) ''GOGS_MCP_WRITE_ENABLED'' lookup,
     envParsed lookup ''GOGS_HTTP_TIMEOUT'' (cwParseDuration w) (\<lambda>d c. c\<lparr>HTTPTimeout := d\<rparr>),
     envString lookup ''GOGS_LOG_LEVEL'' (\<lambda>v c. c\<lparr>LogLevel := v\<rparr>),
     envString lookup ''GOGS_MCP_CACHE_DIR'' (\<lambda>v c. c\<lparr>CacheDir := v\<rparr>),
     envParsed lookup ''GOGS_MCP_CACHE_MAX_BYTES'' parseInt64 (\<lambda>n c. c\<lparr>CacheMaxBytes := n\<rparr>),
     envParsed lookup ''GOGS_MCP_CACHE_TTL'' (cwParseDuration w) (\<lambda>d c. c\<lparr>CacheTTL := d\<rparr>),
     envParsed lookup ''GOGS_MCP_SEARCH_TIMEOUT'' (cwParseDuration w) (\<lambda>d c. c\<lparr>SearchTimeout := d\<rparr>),
     envParsed lookup ''GOGS_MCP_MAX_FILE_BYTES'' parseInt64 (\<lambda>n c. c\<lparr>MaxFileBytes := n\<rparr>),
     envString lookup ''GOGS_MCP_TRANSPORT'' (\<lambda>v c. c\<lparr>Transport := v\<rparr>),
     envString lookup ''GOGS_MCP_HTTP_ADDR'' (\<lambda>v c. c\<lparr>HTTPAddr := v\<rparr>),
     envString lookup ''GOGS_MCP_HTTP_ENDPOINT'' (\<lambda>v c. c\<lparr>HTTPEndpoint := v\<rparr>),
     envString lookup ''GOGS_MCP_HTTP_TOKEN_HEADER'' (\<lambda>v c. c\<lparr>HTTPTokenHeader := v\<rparr>),
     envParsed lookup ''GOGS_MCP_HTTP_USER_CACHE_TTL'' (cwParseDuration w) (\<lambda>d c. c\<lparr>HTTPUserCacheTTL := d\<rparr>),
     envParsed lookup ''GOGS_MCP_HTTP_MAX_USERS'' parseInt64 (\<lambda>n c. c\<lparr>HTTPMaxUsers := n\<rparr>),
     applyBoolEnv (\<lambda>b c. c\<lparr>HTTPJSONResponse := b\<rparr>) ''GOGS_MCP_HTTP_JSON_RESPONSE'' lookup]"

definition applyEnvironment :: "configWorld \<Rightarrow> lookupEnv \<Rightarrow> Config step" where
  "applyEnvironment w lookup = applySteps (applyEnvironmentSteps w lookup)"

section \<open>Validation\<close>

text \<open>The runes of a header name are compared byte by byte: every rune the code accepts is ASCII.\<close>

definition headerChar :: "char \<Rightarrow> bool" where
  "headerChar c \<longleftrightarrow> (97 \<le> byte c \<and> byte c \<le> 122) \<or> (65 \<le> byte c \<and> byte c \<le> 90) \<or> (48 \<le> byte c \<and> byte c \<le> 57)
     \<or> c \<in> set ''!#$%&*+-.^_|~'' \<union> {CHR 0x27, CHR 0x60}"

definition isValidHeaderName :: "string \<Rightarrow> bool" where
  "isValidHeaderName name \<longleftrightarrow> name \<noteq> [] \<and> list_all headerChar name"

text \<open>\<open>strings.EqualFold\<close> of names that passed \<open>isValidHeaderName\<close>, so of ASCII text.\<close>

definition equalFold :: "string \<Rightarrow> string \<Rightarrow> bool" where
  "equalFold s t \<longleftrightarrow> map lowerByte s = map lowerByte t"

definition reservedHeaders :: "string list" where
  "reservedHeaders = [''Host'', ''Content-Length'', ''Content-Type'', ''Transfer-Encoding'',
     ''Accept'', ''Cookie'', ''Expect'', ''Connection'',
     ''Mcp-Session-Id'', ''Mcp-Protocol-Version'', ''Last-Event-Id'']"

definition reservedHeader :: "string \<Rightarrow> bool" where
  "reservedHeader name \<longleftrightarrow> list_ex (equalFold name) reservedHeaders"

definition readTokenFile :: "configWorld \<Rightarrow> string \<Rightarrow> goerr + string" where
  "readTokenFile w tokenPath =
     bindE (wrapErr ''inspect token file'' (cwLstat w tokenPath)) (\<lambda>info.
     if \<not> fiRegular info then Inl [MsgErr ''GOGS_TOKEN_FILE must be a regular file'']
     else if fiPerm info AND 63 \<noteq> 0 then Inl [MsgErr ''GOGS_TOKEN_FILE permissions must not be wider than 0600'']
     else if fiSize info > maxTokenBytes then Inl [MsgErr ''GOGS_TOKEN_FILE exceeds 8 KiB'']
     else bindE (wrapErr ''read token file'' (cwReadFile w tokenPath)) (\<lambda>contents.
       Inr (trimSuffix (trimSuffix contents [CHR 0x0A]) [CHR 0x0D])))"

definition validateHTTPSettings :: "Config step" where
  "validateHTTPSettings = applySteps
    [check (\<lambda>c. \<not> hasPrefix (HTTPEndpoint c) [slash] \<or> HTTPEndpoint c = [slash]
         \<or> pathClean (HTTPEndpoint c) \<noteq> HTTPEndpoint c) ''GOGS_MCP_HTTP_ENDPOINT %q must be one absolute request path'',
     check (\<lambda>c. HTTPEndpoint c = ''/healthz'')
       ''GOGS_MCP_HTTP_ENDPOINT %q is reserved for the unauthenticated health probe'',
     check (\<lambda>c. \<not> isValidHeaderName (HTTPTokenHeader c) \<or> reservedHeader (HTTPTokenHeader c))
       ''GOGS_MCP_HTTP_TOKEN_HEADER %q is not usable as a credential header'',
     check (\<lambda>c. HTTPUserCacheTTL c \<le> 0 \<or> HTTPUserCacheTTL c > maxHTTPUserCacheTTL)
       ''GOGS_MCP_HTTP_USER_CACHE_TTL must be between just above zero and %s'',
     check (\<lambda>c. HTTPMaxUsers c \<le> 0 \<or> HTTPMaxUsers c > maxHTTPMaxUsers)
       ''GOGS_MCP_HTTP_MAX_USERS must be between 1 and %d'']"

definition validateTransport :: "configWorld \<Rightarrow> Config step" where
  "validateTransport w c =
     (if Transport c = [] \<or> Transport c = ''stdio'' then Inr (c\<lparr>Transport := ''stdio''\<rparr>)
      else if Transport c = ''http'' then
        (if HTTPAddr c = [] then Inl [MsgErr ''GOGS_MCP_HTTP_ADDR is required for the http transport'']
         else bindE (wrapErr ''parse GOGS_MCP_HTTP_ADDR'' (cwSplitHostPort w (HTTPAddr c))) (\<lambda>_. Inr c))
      else Inl [MsgErr ''GOGS_MCP_TRANSPORT %q is invalid; use stdio or http''])"

definition loadTokenFile :: "configWorld \<Rightarrow> Config step" where
  "loadTokenFile w c =
     (if TokenFile c \<noteq> [] then bindE (readTokenFile w (TokenFile c)) (\<lambda>t. Inr (c\<lparr>Token := t\<rparr>)) else Inr c)"

definition validateCAFile :: "configWorld \<Rightarrow> Config step" where
  "validateCAFile w c =
     (if CAFile c \<noteq> [] then
        bindE (wrapErr ''inspect CA file'' (cwStat w (CAFile c))) (\<lambda>info.
          if \<not> fiRegular info then Inl [MsgErr ''GOGS_CA_FILE must be a regular file''] else Inr c)
      else Inr c)"

abbreviation base :: "Config \<Rightarrow> baseURL" where
  "base c \<equiv> the (BaseURL c)"

definition validate :: "configWorld \<Rightarrow> bool \<Rightarrow> Config step" where
  "validate w requireStdioToken = applySteps
    [check (\<lambda>c. BaseURL c = None) ''GOGS_BASE_URL is required'',
     check (\<lambda>c. Scheme (base c) \<noteq> ''https'' \<and> Scheme (base c) \<noteq> ''http'') ''GOGS_BASE_URL must use http or https'',
     check (\<lambda>c. Host (base c) = []) ''GOGS_BASE_URL must include a host'',
     check (\<lambda>c. urlUser (base c) \<or> RawQuery (base c) \<noteq> [] \<or> Fragment (base c) \<noteq> [])
       ''GOGS_BASE_URL must not include credentials, query parameters, or a fragment'',
     check (\<lambda>c. Scheme (base c) = ''http'' \<and> \<not> AllowInsecureHTTP c) ''plain HTTP requires GOGS_ALLOW_INSECURE_HTTP=true'',
     validateTransport w,
     check (\<lambda>c. Token c \<noteq> [] \<and> TokenFile c \<noteq> []) ''GOGS_TOKEN and GOGS_TOKEN_FILE are mutually exclusive'',
     check (\<lambda>c. Token c = [] \<and> TokenFile c = [] \<and> Transport c = ''stdio'' \<and> requireStdioToken)
       ''exactly one of GOGS_TOKEN or GOGS_TOKEN_FILE is required'',
     loadTokenFile w,
     check (\<lambda>c. Transport c = ''stdio'' \<and> requireStdioToken \<and> trimSpace (Token c) = []) ''Gogs token must not be empty'',
     check (\<lambda>c. CHR 0x0D \<in> set (Token c) \<or> CHR 0x0A \<in> set (Token c)) ''Gogs token must be a single line'',
     check (\<lambda>c. HTTPTimeout c \<le> 0) ''GOGS_HTTP_TIMEOUT must be greater than zero'',
     check (\<lambda>c. LogLevel c \<notin> set [''debug'', ''info'', ''warn'', ''error'']) ''GOGS_LOG_LEVEL %q is invalid'',
     validateCAFile w,
     check (\<lambda>c. CacheDir c \<noteq> [] \<and> \<not> isRooted (CacheDir c)) ''GOGS_MCP_CACHE_DIR must be an absolute path'',
     check (\<lambda>c. CacheMaxBytes c \<le> 0) ''GOGS_MCP_CACHE_MAX_BYTES must be greater than zero'',
     check (\<lambda>c. CacheTTL c \<le> 0) ''GOGS_MCP_CACHE_TTL must be greater than zero'',
     check (\<lambda>c. SearchTimeout c \<le> 0) ''GOGS_MCP_SEARCH_TIMEOUT must be greater than zero'',
     check (\<lambda>c. SearchTimeout c > maxSearchTimeout) ''GOGS_MCP_SEARCH_TIMEOUT must not exceed %s'',
     check (\<lambda>c. MaxFileBytes c \<le> 0) ''GOGS_MCP_MAX_FILE_BYTES must be greater than zero'',
     validateHTTPSettings]"

definition loadConfig :: "configWorld \<Rightarrow> string \<Rightarrow> lookupEnv \<Rightarrow> bool \<Rightarrow> goerr + Config" where
  "loadConfig w configPath lookup requireStdioToken =
     bindE (if configPath \<noteq> [] then bindE (readFile w configPath) (\<lambda>values. applyFile w values defaultConfig)
            else Inr defaultConfig) (\<lambda>cfg.
     bindE (applyEnvironment w lookup cfg) (validate w requireStdioToken))"

definition Load :: "configWorld \<Rightarrow> string \<Rightarrow> lookupEnv \<Rightarrow> goerr + Config" where
  "Load w configPath lookup = loadConfig w configPath lookup True"

definition LoadForMaintenance :: "configWorld \<Rightarrow> string \<Rightarrow> lookupEnv \<Rightarrow> goerr + Config" where
  "LoadForMaintenance w configPath lookup = loadConfig w configPath lookup False"

section \<open>The API root\<close>

definition apiRootPath :: "string \<Rightarrow> string" where
  "apiRootPath p =
     (let cleaned = trimSuffix (pathClean (slash # p)) [slash];
          cleaned = (if \<not> hasSuffix cleaned ''/api/v1'' then cleaned @ ''/api/v1'' else cleaned)
      in cleaned @ [slash])"

definition APIRoot :: "Config \<Rightarrow> baseURL" where
  "APIRoot c = (base c)\<lparr>Path := apiRootPath (Path (base c))\<rparr>"

section \<open>What a loaded configuration guarantees\<close>

lemma check_then: "bindE (check bad m c) f = Inr d \<longleftrightarrow> \<not> bad c \<and> f c = Inr d"
  by (simp add: check_def)

definition httpSettingsOk :: "Config \<Rightarrow> bool" where
  "httpSettingsOk c \<longleftrightarrow> isRooted (HTTPEndpoint c) \<and> HTTPEndpoint c \<noteq> [slash] \<and> HTTPEndpoint c \<noteq> ''/healthz''
     \<and> pathClean (HTTPEndpoint c) = HTTPEndpoint c
     \<and> isValidHeaderName (HTTPTokenHeader c) \<and> \<not> reservedHeader (HTTPTokenHeader c)
     \<and> 0 < HTTPUserCacheTTL c \<and> HTTPUserCacheTTL c \<le> 3600 * second
     \<and> 1 \<le> HTTPMaxUsers c \<and> HTTPMaxUsers c \<le> 1024"

lemma rooted_prefix: "hasPrefix s [slash] \<longleftrightarrow> isRooted s"
  by (cases s) (auto simp: hasPrefix_def isRooted_def)

lemma validateHTTPSettings_Inr: "validateHTTPSettings c = Inr d \<longleftrightarrow> d = c \<and> httpSettingsOk c"
  by (auto simp: validateHTTPSettings_def httpSettingsOk_def bindE_eq_Inr rooted_prefix
      maxHTTPUserCacheTTL_def maxHTTPMaxUsers_def)

lemma validateTransport_Inr:
  "validateTransport w c = Inr d \<longleftrightarrow>
     (Transport c = [] \<or> Transport c = ''stdio'') \<and> d = c\<lparr>Transport := ''stdio''\<rparr>
     \<or> Transport c = ''http'' \<and> HTTPAddr c \<noteq> [] \<and> cwSplitHostPort w (HTTPAddr c) = Inr () \<and> d = c"
  by (auto simp: validateTransport_def bindE_eq_Inr)

lemma loadTokenFile_Inr:
  "loadTokenFile w c = Inr d \<longleftrightarrow>
     (if TokenFile c \<noteq> [] then \<exists>t. readTokenFile w (TokenFile c) = Inr t \<and> d = c\<lparr>Token := t\<rparr> else d = c)"
  by (auto simp: loadTokenFile_def bindE_eq_Inr)

lemma validateCAFile_Inr:
  "validateCAFile w c = Inr d \<longleftrightarrow>
     d = c \<and> (CAFile c \<noteq> [] \<longrightarrow> (\<exists>info. cwStat w (CAFile c) = Inr info \<and> fiRegular info))"
  by (auto simp: validateCAFile_def bindE_eq_Inr split: if_splits)

lemma validateCAFile_then:
  "bindE (validateCAFile w c) f = Inr d \<longleftrightarrow>
     (CAFile c \<noteq> [] \<longrightarrow> (\<exists>info. cwStat w (CAFile c) = Inr info \<and> fiRegular info)) \<and> f c = Inr d"
  by (auto simp: bindE_eq_Inr validateCAFile_Inr)

lemma validateHTTPSettings_then:
  "bindE (validateHTTPSettings c) f = Inr d \<longleftrightarrow> httpSettingsOk c \<and> f c = Inr d"
  by (auto simp: bindE_eq_Inr validateHTTPSettings_Inr)

text \<open>What the commands may assume of a configuration, stated of its fields alone.\<close>

definition configOk :: "bool \<Rightarrow> Config \<Rightarrow> bool" where
  "configOk requireStdioToken c \<longleftrightarrow>
     (\<exists>u. BaseURL c = Some u \<and> Scheme u \<in> {''http'', ''https''} \<and> Host u \<noteq> [] \<and> \<not> urlUser u
        \<and> RawQuery u = [] \<and> Fragment u = [] \<and> (AllowInsecureHTTP c \<or> Scheme u = ''https''))
     \<and> (Transport c = ''stdio'' \<or> Transport c = ''http'' \<and> HTTPAddr c \<noteq> [])
     \<and> CHR 0x0A \<notin> set (Token c) \<and> CHR 0x0D \<notin> set (Token c)
     \<and> (Transport c = ''stdio'' \<and> requireStdioToken \<longrightarrow> trimSpace (Token c) \<noteq> [])
     \<and> 0 < HTTPTimeout c \<and> LogLevel c \<in> {''debug'', ''info'', ''warn'', ''error''}
     \<and> (CacheDir c = [] \<or> isRooted (CacheDir c)) \<and> 0 < CacheMaxBytes c \<and> 0 < CacheTTL c
     \<and> 0 < SearchTimeout c \<and> SearchTimeout c \<le> 300 * second \<and> 0 < MaxFileBytes c \<and> httpSettingsOk c"

lemma httpSettingsOk_updates [simp]:
  "httpSettingsOk (c\<lparr>Transport := t\<rparr>) = httpSettingsOk c" "httpSettingsOk (c\<lparr>Token := k\<rparr>) = httpSettingsOk c"
  by (simp_all add: httpSettingsOk_def)

text \<open>The two steps of \<open>validate\<close> that change the configuration: the transport gets its default, and the
  token comes out of its file.\<close>

lemma validate_Inr:
  assumes "validate w req c = Inr d"
  shows "\<exists>c1. validateTransport w c = Inr c1 \<and> loadTokenFile w c1 = Inr d
    \<and> BaseURL c \<noteq> None \<and> (Scheme (base c) = ''https'' \<or> Scheme (base c) = ''http'') \<and> Host (base c) \<noteq> []
    \<and> \<not> urlUser (base c) \<and> RawQuery (base c) = [] \<and> Fragment (base c) = []
    \<and> (Scheme (base c) = ''http'' \<longrightarrow> AllowInsecureHTTP c)
    \<and> (Token c1 = [] \<or> TokenFile c1 = [])
    \<and> (Transport d = ''stdio'' \<and> req \<longrightarrow> trimSpace (Token d) \<noteq> [])
    \<and> CHR 0x0D \<notin> set (Token d) \<and> CHR 0x0A \<notin> set (Token d) \<and> 0 < HTTPTimeout d
    \<and> LogLevel d \<in> set [''debug'', ''info'', ''warn'', ''error'']
    \<and> (CacheDir d = [] \<or> isRooted (CacheDir d)) \<and> 0 < CacheMaxBytes d \<and> 0 < CacheTTL d
    \<and> 0 < SearchTimeout d \<and> SearchTimeout d \<le> maxSearchTimeout \<and> 0 < MaxFileBytes d \<and> httpSettingsOk d"
  using assms
  apply (simp only: validate_def applySteps.simps check_then validateCAFile_then validateHTTPSettings_then)
  apply (simp only: bindE_eq_Inr [of "validateTransport w c"] bindE_eq_Inr [of "loadTokenFile w c1" for c1]
      applySteps.simps check_then validateCAFile_then validateHTTPSettings_then sum.inject)
  apply (elim exE conjE)
  subgoal for c1 d1
    by (rule exI [of _ c1]) (intro conjI; simp only: not_less not_le; blast)
  done

lemma validate_configOk:
  assumes "validate w req c = Inr d"
  shows "configOk req d"
proof -
  obtain c1 where t: "validateTransport w c = Inr c1" and k: "loadTokenFile w c1 = Inr d"
    and u: "BaseURL c \<noteq> None" "Scheme (base c) = ''https'' \<or> Scheme (base c) = ''http''" "Host (base c) \<noteq> []"
      "\<not> urlUser (base c)" "RawQuery (base c) = []" "Fragment (base c) = []"
      "Scheme (base c) = ''http'' \<longrightarrow> AllowInsecureHTTP c"
    and d: "Transport d = ''stdio'' \<and> req \<longrightarrow> trimSpace (Token d) \<noteq> []"
      "CHR 0x0D \<notin> set (Token d)" "CHR 0x0A \<notin> set (Token d)" "0 < HTTPTimeout d"
      "LogLevel d \<in> set [''debug'', ''info'', ''warn'', ''error'']"
      "CacheDir d = [] \<or> isRooted (CacheDir d)" "0 < CacheMaxBytes d" "0 < CacheTTL d"
      "0 < SearchTimeout d" "SearchTimeout d \<le> maxSearchTimeout" "0 < MaxFileBytes d" "httpSettingsOk d"
    using validate_Inr [OF assms] by blast
  have same: "BaseURL d = BaseURL c" "AllowInsecureHTTP d = AllowInsecureHTTP c"
      "Transport d = ''stdio'' \<or> Transport d = ''http'' \<and> HTTPAddr d \<noteq> []"
    using t k by (auto simp: validateTransport_Inr loadTokenFile_Inr split: if_splits)
  from u same have "\<exists>u. BaseURL d = Some u \<and> Scheme u \<in> {''http'', ''https''} \<and> Host u \<noteq> [] \<and> \<not> urlUser u
      \<and> RawQuery u = [] \<and> Fragment u = [] \<and> (AllowInsecureHTTP d \<or> Scheme u = ''https'')" by auto
  with d same(3) show ?thesis unfolding configOk_def maxSearchTimeout_def by simp
qed

lemma load_configOk: "loadConfig w path lookup req = Inr c \<Longrightarrow> configOk req c"
  by (auto simp: loadConfig_def bindE_eq_Inr validate_configOk)

section \<open>Where the credential comes from\<close>

definition sameToken :: "Config \<Rightarrow> Config \<Rightarrow> bool" where
  "sameToken c d \<longleftrightarrow> Token d = Token c \<and> TokenFile d = TokenFile c"

definition keepsToken :: "Config step \<Rightarrow> bool" where
  "keepsToken s \<longleftrightarrow> (\<forall>c d. s c = Inr d \<longrightarrow> sameToken c d)"

lemma keepsToken_steps:
  "(\<And>v c. sameToken c (f v c)) \<Longrightarrow> keepsToken (setParsed b m p f)"
  "(\<And>v c. sameToken c (put v c)) \<Longrightarrow> keepsToken (envParsed lookup name parse put)"
  "(\<And>v c. sameToken c (str v c)) \<Longrightarrow> keepsToken (envString lookup name str)"
  "(\<And>v c. sameToken c (flag v c)) \<Longrightarrow> keepsToken (applyBoolEnv flag name lookup)"
  by (auto simp: keepsToken_def setParsed_def envParsed_def envString_def fromEnv_def applyBoolEnv_def
      setWhen_def bindE_eq_Inr sameToken_def split: if_splits option.splits)

lemma applySteps_keepsToken:
  assumes "list_all keepsToken ss" "applySteps ss c = Inr d"
  shows "sameToken c d"
  using assms
proof (induction ss arbitrary: c)
  case (Cons s ss)
  from Cons.prems(2) obtain m where m: "s c = Inr m" "applySteps ss m = Inr d" by (auto simp: bindE_eq_Inr)
  have "sameToken c m" using Cons.prems(1) m(1) by (simp add: keepsToken_def)
  moreover have "sameToken m d" using Cons.IH Cons.prems(1) m(2) by simp
  ultimately show ?case by (simp add: sameToken_def)
qed (simp add: sameToken_def)

lemma applyFile_token: "applyFile w v c = Inr d \<Longrightarrow> Token d = Token c"
proof -
  assume run: "applyFile w v c = Inr d"
  have "Token e = Token c" if "s \<in> set (applyFileSteps w v)" "s b = Inr e" "Token b = Token c" for s b e
    using that by (auto simp: applyFileSteps_def setParsed_def setWhen_def bindE_eq_Inr split: if_splits)
  then show ?thesis
    using applySteps_keeps [of "applyFileSteps w v" "\<lambda>b. Token b = Token c" c d] run
    unfolding applyFile_def by blast
qed

lemma applyEnvironment_token:
  assumes "applyEnvironment w lookup c = Inr d"
  shows "\<exists>b e. sameToken c b \<and> applyToken lookup b = Inr e \<and> sameToken e d"
proof -
  define pre post where "pre = take 1 (applyEnvironmentSteps w lookup)" and "post = drop 2 (applyEnvironmentSteps w lookup)"
  have split: "applyEnvironmentSteps w lookup = pre @ applyToken lookup # post"
    by (simp add: pre_def post_def applyEnvironmentSteps_def)
  have kept: "list_all keepsToken pre" "list_all keepsToken post"
    by (simp_all add: pre_def post_def applyEnvironmentSteps_def keepsToken_steps sameToken_def)
  have "bindE (applySteps pre c) (applySteps (applyToken lookup # post)) = Inr d"
    using assms unfolding applyEnvironment_def split applySteps_append .
  then obtain b e where "applySteps pre c = Inr b" "applyToken lookup b = Inr e" "applySteps post e = Inr d"
    by (auto simp only: bindE_eq_Inr applySteps_Cons)
  with kept show ?thesis using applySteps_keepsToken by blast
qed

lemma applyToken_Inr:
  "applyToken lookup b = Inr e \<longleftrightarrow>
     (case lookup ''GOGS_TOKEN'' of
        Some t \<Rightarrow> lookup ''GOGS_TOKEN_FILE'' = None \<and> e = b\<lparr>Token := t, TokenFile := []\<rparr>
      | None \<Rightarrow> e = (case lookup ''GOGS_TOKEN_FILE'' of Some f \<Rightarrow> b\<lparr>TokenFile := f, Token := []\<rparr> | None \<Rightarrow> b))"
  by (auto simp: applyToken_def split: option.splits)

text \<open>A file that only its owner can read, of at most 8 KiB.\<close>

definition privateFile :: "configWorld \<Rightarrow> string \<Rightarrow> bool" where
  "privateFile w f \<longleftrightarrow> (case cwLstat w f of
     Inl _ \<Rightarrow> False | Inr info \<Rightarrow> fiRegular info \<and> fiPerm info AND 63 = 0 \<and> fiSize info \<le> 8192)"

lemma readTokenFile_private: "readTokenFile w f = Inr t \<Longrightarrow> privateFile w f"
  by (auto simp: readTokenFile_def privateFile_def bindE_eq_Inr maxTokenBytes_def split: if_splits)

lemma readFile_defaultToken:
  assumes "(if path \<noteq> [] then bindE (readFile w path) (\<lambda>v. applyFile w v defaultConfig) else Inr defaultConfig) = Inr c"
  shows "Token c = []"
  using assms applyFile_token [of w _ defaultConfig c]
  by (auto simp: bindE_eq_Inr defaultConfig_def split: if_splits)

text \<open>C32: The token of a loaded configuration is the one of the environment, which then excludes every
  token file; or it is read from the token file, the one of the environment before the one of the
  configuration file, and that file is regular, private to its owner and at most 8 KiB; or there is no
  token. The loaded configuration satisfies everything the commands assume of it.\<close>

theorem credential_source:
  assumes "loadConfig w path lookup req = Inr c"
  shows "configOk req c \<and>
    (case lookup ''GOGS_TOKEN'' of
       Some t \<Rightarrow> Token c = t \<and> TokenFile c = [] \<and> lookup ''GOGS_TOKEN_FILE'' = None
     | None \<Rightarrow>
         (if TokenFile c = [] then Token c = []
          else readTokenFile w (TokenFile c) = Inr (Token c) \<and> privateFile w (TokenFile c))
         \<and> (case lookup ''GOGS_TOKEN_FILE'' of Some f \<Rightarrow> TokenFile c = f | None \<Rightarrow> True))"
proof -
  from assms obtain c0 c1 where
    c0: "(if path \<noteq> [] then bindE (readFile w path) (\<lambda>v. applyFile w v defaultConfig) else Inr defaultConfig) = Inr c0"
    and c1: "applyEnvironment w lookup c0 = Inr c1" and v: "validate w req c1 = Inr c"
    unfolding loadConfig_def by (auto simp only: bindE_eq_Inr)
  have none: "Token c0 = []" by (rule readFile_defaultToken [OF c0])
  from applyEnvironment_token [OF c1] obtain b e where
    env: "sameToken c0 b" "applyToken lookup b = Inr e" "sameToken e c1" by blast
  from validate_Inr [OF v] obtain c2 where
    c2: "validateTransport w c1 = Inr c2" and load: "loadTokenFile w c2 = Inr c" by blast
  from c2 have c2t: "sameToken c1 c2" by (auto simp: validateTransport_Inr sameToken_def)
  have "configOk req c" by (rule validate_configOk [OF v])
  moreover have "readTokenFile w f = Inr t \<Longrightarrow> privateFile w f" for f t by (rule readTokenFile_private)
  ultimately show ?thesis
    using none env c2t load
    by (auto simp: sameToken_def applyToken_Inr loadTokenFile_Inr split: option.splits if_splits)
qed

definition sampleConfigWorld :: configWorld where
  "sampleConfigWorld = \<lparr>cwParseURL = (\<lambda>s. Inr \<lparr>Scheme = ''https'', Host = s, Path = ''/git'', urlUser = False, RawQuery = [], Fragment = []\<rparr>),
     cwParseDuration = (\<lambda>s. Inr second), cwSplitHostPort = (\<lambda>s. Inr ()), cwOpen = (\<lambda>s. Inl [MsgErr s]),
     cwReadAll = (\<lambda>s. Inl [MsgErr s]), cwClose = (\<lambda>s. Inr ()), cwDecode = (\<lambda>s. Inl [MsgErr s]), cwStat = (\<lambda>s. Inl [MsgErr s]),
     cwLstat = (\<lambda>s. Inr \<lparr>fiRegular = True, fiPerm = 384, fiSize = 4\<rparr>), cwReadFile = (\<lambda>s. Inr ''abc'')\<rparr>"

definition sampleEnv :: lookupEnv where
  "sampleEnv = map_of [(''GOGS_BASE_URL'', ''host''), (''GOGS_TOKEN_FILE'', ''/t'')]"

lemma sample_loads: "map_sum id Token (loadConfig sampleConfigWorld [] sampleEnv False) = Inr ''abc''"
  by code_simp

theorem credential_source_witness:
  "case loadConfig sampleConfigWorld [] sampleEnv False of
     Inr c \<Rightarrow> configOk False c \<and> TokenFile c = ''/t'' \<and> Token c = ''abc'' \<and> privateFile sampleConfigWorld ''/t''
   | Inl _ \<Rightarrow> False"
proof -
  from sample_loads obtain c where c: "loadConfig sampleConfigWorld [] sampleEnv False = Inr c" "Token c = ''abc''"
    by (cases "loadConfig sampleConfigWorld [] sampleEnv False") auto
  have "sampleEnv ''GOGS_TOKEN'' = None" "sampleEnv ''GOGS_TOKEN_FILE'' = Some ''/t''" by (simp_all add: sampleEnv_def)
  with credential_source [OF c(1)] c show ?thesis by (auto split: if_splits)
qed

section \<open>The API root is stable\<close>

lemma hasSuffix_append [simp]: "hasSuffix (a @ s) s"
  by (auto simp: hasSuffix_iff)

definition rooted :: "string list \<Rightarrow> string" where
  "rooted cs = slash # joinWith [slash] cs"

lemma cleanComps_joined:
  assumes "list_all normalComp cs" "cs \<noteq> []"
  shows "cleanComps True (slash # rooted cs @ [slash]) = cs"
proof -
  have parts: "splitOn slash (joinWith [slash] cs) = cs"
    using assms by (intro split_join) (auto simp: list_all_iff normalComp_def)
  have "splitOn slash (slash # rooted cs @ [slash]) = [] # [] # cs @ [[]]"
    using splitOn_append_sep [of slash "joinWith [slash] cs" "[]"] parts by (simp add: rooted_def)
  then show ?thesis using assms(1) by (simp add: cleanComps_def foldl_normal cleanStep_def)
qed

lemma last_joined: "list_all normalComp cs \<Longrightarrow> cs \<noteq> [] \<Longrightarrow> last (joinWith [slash] cs) = last (last cs)"
proof (induction cs)
  case (Cons x xs)
  show ?case
  proof (cases "xs = []")
    case False
    then have "joinWith [slash] xs \<noteq> []" using Cons.prems by (auto simp: joinWith_eq_Nil normalComp_def)
    with Cons False show ?thesis by (simp add: joinWith_Cons)
  qed simp
qed simp

lemma rooted_no_trailing:
  assumes "list_all normalComp cs" "cs \<noteq> []"
  shows "trimSuffix (rooted cs) [slash] = rooted cs"
proof -
  have "\<not> hasSuffix (rooted cs) [slash]"
  proof
    assume "hasSuffix (rooted cs) [slash]"
    then obtain t where t: "rooted cs = t @ [slash]" by (auto simp: hasSuffix_iff)
    have "last (rooted cs) = last (joinWith [slash] cs)"
      using assms by (auto simp: rooted_def joinWith_eq_Nil normalComp_def)
    moreover have "last (joinWith [slash] cs) = last (last cs)" by (rule last_joined [OF assms])
    moreover have "last cs \<noteq> []" "slash \<notin> set (last cs)"
      using assms by (auto simp: list_all_iff normalComp_def)
    ultimately show False using t by (metis last_in_set last_snoc)
  qed
  then show ?thesis by (simp add: trimSuffix_def)
qed

lemma normal_api: "list_all normalComp [''api'', ''v1'']"
  by (simp add: normalComp_def slash_def)

lemma rooted_append: "cs \<noteq> [] \<Longrightarrow> rooted (cs @ [''api'', ''v1'']) = rooted cs @ ''/api/v1''"
  by (simp add: rooted_def joinWith_append slash_def)

lemma apiRootPath_shape:
  "\<exists>cs. list_all normalComp cs \<and> cs \<noteq> [] \<and> hasSuffix (rooted cs) ''/api/v1'' \<and> apiRootPath p = rooted cs @ [slash]"
proof -
  let ?cs = "cleanComps True (slash # p)"
  have normal: "list_all normalComp ?cs" by (rule cleanComps_rooted)
  have clean: "pathClean (slash # p) = rooted ?cs" by (simp add: pathClean_def isRooted_def rooted_def)
  show ?thesis
  proof (cases "?cs = []")
    case True
    then have "trimSuffix (pathClean (slash # p)) [slash] = []"
      by (simp add: clean rooted_def trimSuffix_def hasSuffix_def)
    then have "apiRootPath p = rooted [''api'', ''v1''] @ [slash]"
      by (simp add: apiRootPath_def hasSuffix_def rooted_def slash_def)
    moreover have "hasSuffix (rooted [''api'', ''v1'']) ''/api/v1''" by (simp add: rooted_def slash_def hasSuffix_def)
    ultimately show ?thesis using normal_api by blast
  next
    case False
    note trim = rooted_no_trailing [OF normal False]
    show ?thesis
    proof (cases "hasSuffix (rooted ?cs) ''/api/v1''")
      case True
      with normal False show ?thesis by (intro exI [of _ ?cs]) (simp add: apiRootPath_def clean trim)
    next
      case other: False
      have "apiRootPath p = rooted (?cs @ [''api'', ''v1'']) @ [slash]"
        using other rooted_append [OF False] by (simp add: apiRootPath_def clean trim)
      moreover have "hasSuffix (rooted (?cs @ [''api'', ''v1''])) ''/api/v1''"
        unfolding rooted_append [OF False] by simp
      ultimately show ?thesis using normal normal_api by (intro exI [of _ "?cs @ [''api'', ''v1'']"]) simp
    qed
  qed
qed

text \<open>Rooting an API root again changes nothing, so a base URL may already name the API.\<close>

lemma apiRootPath_idem: "apiRootPath (apiRootPath p) = apiRootPath p"
proof -
  obtain cs where cs: "list_all normalComp cs" "cs \<noteq> []" "hasSuffix (rooted cs) ''/api/v1''"
    "apiRootPath p = rooted cs @ [slash]" using apiRootPath_shape by blast
  have "pathClean (slash # rooted cs @ [slash]) = rooted cs"
    using cleanComps_joined [OF cs(1,2)] by (simp add: pathClean_def isRooted_def rooted_def)
  with cs rooted_no_trailing [OF cs(1,2)] show ?thesis by (simp add: apiRootPath_def)
qed

end
