(* ===== verification/GitRefs.thy ===== *)
theory GitRefs
  imports GogsClient "HOL-Library.Monad_Syntax"
begin

text \<open>
  internal/gogs/git.go, tag.go, repository.go and snapshot.go, and the user lookup of client.go:
  repositories, branches, tags, commits, and the resolution of a ref to a commit SHA. A response
  struct of the code is a record with its fields, its JSON decoding a function to that record;
  what the tools see is the mapped record.
\<close>

section \<open>Users and repositories\<close>

record User =
  uId :: int
  uUsername :: string
  uFullName :: string
  uEmail :: string

record userResponse =
  urId :: int
  urUsername :: string
  urLogin :: string
  urFullName :: string
  urEmail :: string

definition decUser :: "json \<Rightarrow> userResponse option" where
  "decUser j = decObj j (\<lambda>j. do {
     i \<leftarrow> decInt (jfield j ''id'');
     u \<leftarrow> decStr (jfield j ''username'');
     l \<leftarrow> decStr (jfield j ''login'');
     f \<leftarrow> decStr (jfield j ''full_name'');
     e \<leftarrow> decStr (jfield j ''email'');
     Some \<lparr>urId = i, urUsername = u, urLogin = l, urFullName = f, urEmail = e\<rparr> })"

definition GetAuthenticatedUser :: "httpWorld \<Rightarrow> Client \<Rightarrow> User clientIO" where
  "GetAuthenticatedUser w c =
     bindM (getJSON w c decUser [''user'']) (\<lambda>r.
       ret \<lparr>uId = urId r,
            uUsername = (if urUsername r = [] then urLogin r else urUsername r),
            uFullName = urFullName r, uEmail = urEmail r\<rparr>)"

record RepositoryPermissions =
  permPull :: bool
  permPush :: bool
  permAdmin :: bool

record Repository =
  repoId :: int
  repoName :: string
  repoFullName :: string
  repoOwner :: string
  repoDescription :: string
  repoDefaultBranch :: string
  repoPrivate :: bool
  repoCloneURL :: string
  repoWebURL :: string
  repoPermissions :: RepositoryPermissions

record repositoryResponse =
  rrId :: int
  rrName :: string
  rrFullName :: string
  rrOwner :: userResponse
  rrDescription :: string
  rrDefaultBranch :: string
  rrPrivate :: bool
  rrCloneURL :: string
  rrHTMLURL :: string
  rrPermissions :: "RepositoryPermissions option"

definition decPermissions :: "json \<Rightarrow> RepositoryPermissions option" where
  "decPermissions j = decObj j (\<lambda>j. do {
     pl \<leftarrow> decBool (jfield j ''pull'');
     ps \<leftarrow> decBool (jfield j ''push'');
     ad \<leftarrow> decBool (jfield j ''admin'');
     Some \<lparr>permPull = pl, permPush = ps, permAdmin = ad\<rparr> })"

definition decRepository :: "json \<Rightarrow> repositoryResponse option" where
  "decRepository j = decObj j (\<lambda>j. do {
     i \<leftarrow> decInt (jfield j ''id'');
     n \<leftarrow> decStr (jfield j ''name'');
     f \<leftarrow> decStr (jfield j ''full_name'');
     ow \<leftarrow> decUser (jfield j ''owner'');
     d \<leftarrow> decStr (jfield j ''description'');
     b \<leftarrow> decStr (jfield j ''default_branch'');
     p \<leftarrow> decBool (jfield j ''private'');
     cl \<leftarrow> decStr (jfield j ''clone_url'');
     h \<leftarrow> decStr (jfield j ''html_url'');
     ps \<leftarrow> decPtr decPermissions (jfield j ''permissions'');
     Some \<lparr>rrId = i, rrName = n, rrFullName = f, rrOwner = ow, rrDescription = d,
           rrDefaultBranch = b, rrPrivate = p, rrCloneURL = cl, rrHTMLURL = h, rrPermissions = ps\<rparr> })"

definition mapRepository :: "repositoryResponse \<Rightarrow> Repository" where
  "mapRepository r =
     \<lparr>repoId = rrId r, repoName = rrName r, repoFullName = rrFullName r,
      repoOwner = (if urUsername (rrOwner r) = [] then urLogin (rrOwner r) else urUsername (rrOwner r)),
      repoDescription = rrDescription r, repoDefaultBranch = rrDefaultBranch r,
      repoPrivate = rrPrivate r, repoCloneURL = rrCloneURL r, repoWebURL = rrHTMLURL r,
      repoPermissions = (case rrPermissions r of
          None \<Rightarrow> \<lparr>permPull = False, permPush = False, permAdmin = False\<rparr> | Some p \<Rightarrow> p)\<rparr>"

definition ListRepositories :: "httpWorld \<Rightarrow> Client \<Rightarrow> Repository list clientIO" where
  "ListRepositories w c =
     bindM (getJSON w c (decList decRepository) [''user'', ''repos'']) (\<lambda>rs. ret (map mapRepository rs))"

text \<open>A not-found answer is reworded for the resource, keeping its classification.\<close>

definition rewordNotFound :: "string \<Rightarrow> goerr \<Rightarrow> goerr" where
  "rewordNotFound message err =
     (let classified = gogsOf (AsError err) in
      if Code classified = CodeResourceNotFoundOrForbidden
      then mkError (Code classified) message (Retryable classified) (HTTPStatus classified) err
      else err)"

definition GetRepository :: "httpWorld \<Rightarrow> Client \<Rightarrow> string \<Rightarrow> string \<Rightarrow> Repository clientIO" where
  "GetRepository w c owner name =
     onResult (getJSON w c decRepository [''repos'', owner, name]) (\<lambda>r. case r of
       Inl err \<Rightarrow> fail (rewordNotFound
         ''The repository does not exist or the current user cannot access it.'' err)
     | Inr response \<Rightarrow> ret (mapRepository response))"

section \<open>Branches, tags and commits\<close>

record Branch =
  brName :: string
  brHeadSHA :: string

record branchResponse =
  bresName :: string
  bresCommit :: "string option"

definition decBranch :: "json \<Rightarrow> branchResponse option" where
  "decBranch j = decObj j (\<lambda>j. do {
     n \<leftarrow> decStr (jfield j ''name'');
     cm \<leftarrow> decPtr (\<lambda>j. decObj j (\<lambda>j. decStr (jfield j ''id''))) (jfield j ''commit'');
     Some \<lparr>bresName = n, bresCommit = cm\<rparr> })"

definition mapBranch :: "branchResponse \<Rightarrow> Branch" where
  "mapBranch r = \<lparr>brName = bresName r,
     brHeadSHA = (case bresCommit r of None \<Rightarrow> [] | Some i \<Rightarrow> i)\<rparr>"

definition ListBranches :: "httpWorld \<Rightarrow> Client \<Rightarrow> string \<Rightarrow> string \<Rightarrow> Branch list clientIO" where
  "ListBranches w c owner repo =
     bindM (getJSON w c (decList decBranch) [''repos'', owner, repo, ''branches''])
       (\<lambda>rs. ret (map mapBranch rs))"

definition ValidateBranchName :: "string \<Rightarrow> goerr + unit" where
  "ValidateBranchName branch =
     (if branch = [] then Inl (gogsErr CodeValidationFailed ''The branch name is required.'')
      else if CHR 0x00 \<in> set branch \<or> CHR 0x5C \<in> set branch then
        Inl (gogsErr CodeValidationFailed ''The branch name is invalid.'')
      else if \<exists>segment \<in> set (splitOn slash branch).
          segment = [] \<or> segment = ''.'' \<or> segment = ''..'' then
        Inl (gogsErr CodeValidationFailed ''The branch name is invalid.'')
      else Inr ())"

definition branchPathSegments :: "string \<Rightarrow> string \<Rightarrow> string \<Rightarrow> string list" where
  "branchPathSegments owner repo branch =
     [''repos'', owner, repo, ''branches''] @ splitOn slash branch"

definition GetBranch :: "httpWorld \<Rightarrow> Client \<Rightarrow> string \<Rightarrow> string \<Rightarrow> string \<Rightarrow> Branch clientIO" where
  "GetBranch w c owner repo branch =
     bindM (liftE (ValidateBranchName branch)) (\<lambda>_.
     bindM (getJSON w c decBranch (branchPathSegments owner repo branch)) (\<lambda>r. ret (mapBranch r)))"

record CommitPerson =
  cpName :: string
  cpEmail :: string
  cpDate :: string

record Commit =
  cmSHA :: string
  cmMessage :: string
  cmWebURL :: string
  cmAuthor :: CommitPerson
  cmCommitter :: CommitPerson
  cmParentSHAs :: "string list"

record commitBody =
  cbMessage :: string
  cbAuthor :: "CommitPerson option"
  cbCommitter :: "CommitPerson option"

record commitResponse =
  crSHA :: string
  crHTMLURL :: string
  crCommit :: "commitBody option"
  crParents :: "string list"

definition decPerson :: "json \<Rightarrow> CommitPerson option" where
  "decPerson j = decObj j (\<lambda>j. do {
     n \<leftarrow> decStr (jfield j ''name'');
     e \<leftarrow> decStr (jfield j ''email'');
     d \<leftarrow> decStr (jfield j ''date'');
     Some \<lparr>cpName = n, cpEmail = e, cpDate = d\<rparr> })"

definition decCommit :: "json \<Rightarrow> commitResponse option" where
  "decCommit j = decObj j (\<lambda>j. do {
     s \<leftarrow> decStr (jfield j ''sha'');
     h \<leftarrow> decStr (jfield j ''html_url'');
     cm \<leftarrow> decPtr (\<lambda>j. decObj j (\<lambda>j. do {
         m \<leftarrow> decStr (jfield j ''message'');
         a \<leftarrow> decPtr decPerson (jfield j ''author'');
         k \<leftarrow> decPtr decPerson (jfield j ''committer'');
         Some \<lparr>cbMessage = m, cbAuthor = a, cbCommitter = k\<rparr> })) (jfield j ''commit'');
     ps \<leftarrow> decList (\<lambda>j. decObj j (\<lambda>j. decStr (jfield j ''sha''))) (jfield j ''parents'');
     Some \<lparr>crSHA = s, crHTMLURL = h, crCommit = cm, crParents = ps\<rparr> })"

definition noPerson :: CommitPerson where
  "noPerson = \<lparr>cpName = [], cpEmail = [], cpDate = []\<rparr>"

definition mapCommit :: "commitResponse \<Rightarrow> Commit" where
  "mapCommit r =
     (let commit = \<lparr>cmSHA = crSHA r, cmMessage = [], cmWebURL = crHTMLURL r, cmAuthor = noPerson,
            cmCommitter = noPerson, cmParentSHAs = crParents r\<rparr>
      in case crCommit r of None \<Rightarrow> commit
         | Some b \<Rightarrow> commit\<lparr>cmMessage := cbMessage b,
             cmAuthor := (case cbAuthor b of None \<Rightarrow> noPerson | Some p \<Rightarrow> p),
             cmCommitter := (case cbCommitter b of None \<Rightarrow> noPerson | Some p \<Rightarrow> p)\<rparr>)"

definition ListCommits :: "httpWorld \<Rightarrow> Client \<Rightarrow> string \<Rightarrow> string \<Rightarrow> int \<Rightarrow> Commit list clientIO" where
  "ListCommits w c owner repo limit =
     bindM (getJSONWithQuery w c (decList decCommit) [(''pageSize'', formatInt limit)]
         [''repos'', owner, repo, ''commits''])
       (\<lambda>rs. ret (map mapCommit rs))"

definition ValidateCommitRevision :: "string \<Rightarrow> goerr + unit" where
  "ValidateCommitRevision sha =
     (if sha = [] then Inl (gogsErr CodeValidationFailed ''The commit SHA is required.'')
      else if sha = ''.'' \<or> sha = ''..'' \<or> (\<exists>ch \<in> set sha. ch \<in> {CHR 0x5C, slash, CHR 0x00}) then
        Inl (gogsErr CodeValidationFailed ''The commit SHA is invalid.'')
      else Inr ())"

definition GetCommit :: "httpWorld \<Rightarrow> Client \<Rightarrow> string \<Rightarrow> string \<Rightarrow> string \<Rightarrow> Commit clientIO" where
  "GetCommit w c owner repo sha =
     bindM (liftE (ValidateCommitRevision sha)) (\<lambda>_.
     bindM (getJSON w c decCommit [''repos'', owner, repo, ''commits'', sha]) (\<lambda>r. ret (mapCommit r)))"

record Tag =
  tagName :: string
  tagCommitSHA :: string

definition ListTags :: "httpWorld \<Rightarrow> Client \<Rightarrow> string \<Rightarrow> string \<Rightarrow> Tag list clientIO" where
  "ListTags w c owner repo =
     bindM (getJSON w c (decList decBranch) [''repos'', owner, repo, ''tags'']) (\<lambda>rs.
       ret (map (\<lambda>r. \<lparr>tagName = bresName r,
          tagCommitSHA = (case bresCommit r of None \<Rightarrow> [] | Some i \<Rightarrow> i)\<rparr>) rs))"

section \<open>Resolving a ref to a commit\<close>

definition branchHeadSHA :: "httpWorld \<Rightarrow> Client \<Rightarrow> string \<Rightarrow> string \<Rightarrow> string \<Rightarrow> string clientIO" where
  "branchHeadSHA w c owner repo branch =
     bindM (GetBranch w c owner repo branch) (\<lambda>found.
       if brHeadSHA found = [] then
         fail (gogsErr CodeGogsError ''Gogs did not report a head commit for the branch.'')
       else ret (brHeadSHA found))"

definition isHexChar :: "char \<Rightarrow> bool" where
  "isHexChar ch \<longleftrightarrow> (let x = byte ch in
     (48 \<le> x \<and> x \<le> 57) \<or> (97 \<le> x \<and> x \<le> 102) \<or> (65 \<le> x \<and> x \<le> 70))"

definition isHexRevision :: "string \<Rightarrow> bool" where
  "isHexRevision ref \<longleftrightarrow>
     (if length ref < 7 \<or> length ref > 40 then False else list_all isHexChar ref)"

definition noSuchRef :: goerr where
  "noSuchRef = gogsErr CodeResourceNotFoundOrForbidden
     ''The ref cannot be resolved to a commit: no branch, tag, or revision matched.''"

definition ResolveCommitSHA :: "httpWorld \<Rightarrow> Client \<Rightarrow> string \<Rightarrow> string \<Rightarrow> string \<Rightarrow> string clientIO" where
  "ResolveCommitSHA w c owner repo ref =
     (if ref = [] then
        bindM (GetRepository w c owner repo) (\<lambda>repository.
          if repoDefaultBranch repository = [] then
            fail (gogsErr CodeResourceNotFoundOrForbidden
              ''The repository has no default branch to resolve.'')
          else branchHeadSHA w c owner repo (repoDefaultBranch repository))
      else
        onResult (branchHeadSHA w c owner repo ref) (\<lambda>r. case r of
          Inr sha \<Rightarrow> ret sha
        | Inl err \<Rightarrow>
            if codeOf (AsError err) \<noteq> CodeResourceNotFoundOrForbidden then fail err
            else
              bindM (ListTags w c owner repo) (\<lambda>tags.
                case List.find (\<lambda>tag. tagName tag = ref \<and> tagCommitSHA tag \<noteq> []) tags of
                  Some tag \<Rightarrow> ret (tagCommitSHA tag)
                | None \<Rightarrow>
                    if isHexRevision ref then
                      onResult (GetCommit w c owner repo ref) (\<lambda>r. case r of
                        Inr commit \<Rightarrow> ret (cmSHA commit)
                      | Inl err \<Rightarrow>
                          if codeOf (AsError err) \<noteq> CodeResourceNotFoundOrForbidden then fail err
                          else fail noSuchRef)
                    else fail noSuchRef)))"

definition ValidateArchiveSHA :: "string \<Rightarrow> goerr + unit" where
  "ValidateArchiveSHA sha =
     (if length sha = 40 \<and> isHexRevision sha then Inr ()
      else Inl (gogsErr CodeValidationFailed
        ''The archive must be requested with a full 40-character commit SHA.''))"

text \<open>The archive body is streamed: the whole body stands for the stream.\<close>

definition DownloadArchive :: "httpWorld \<Rightarrow> Client \<Rightarrow> string \<Rightarrow> string \<Rightarrow> string \<Rightarrow> string clientIO" where
  "DownloadArchive w c owner repo sha =
     bindM (liftE (ValidateArchiveSHA sha)) (\<lambda>_ st.
       (case httpDo w (mkRequest c ''GET'' [] JNull
            [''repos'', owner, repo, ''archive'', sha @ ''.tar.gz'']) st of
          (DoError e, st) \<Rightarrow>
            (let classified = classifyTransportError e
             in (Inl classified, logRequest c 0 (Some (codeOf classified)) st))
        | (Response status link body readErr closeErr, st) \<Rightarrow>
            if status < 200 \<or> status \<ge> 300 then
              (let classified = classifyStatus status
               in (Inl classified, logRequest c status (Some (codeOf classified)) st))
            else (Inr body, logRequest c status None st)))"

section \<open>What the reads send\<close>

lemma sends_GetRepository [sends_intro]:
  "P (mkRequest c ''GET'' [] JNull [''repos'', owner, repo]) \<Longrightarrow> sends P 3 (GetRepository w c owner repo)"
  unfolding GetRepository_def
  by (rule sends_mono, rule sends_onResult [where n = 0], rule sends_getJSON)
    (auto split: sum.split)

lemma sends_GetBranch [sends_intro]:
  "P (mkRequest c ''GET'' [] JNull (branchPathSegments owner repo branch)) \<Longrightarrow>
     sends P 3 (GetBranch w c owner repo branch)"
  unfolding GetBranch_def
  by (rule sends_mono, rule sends_bindM [where m = 0], simp, rule sends_bindM [where n = 0],
      rule sends_getJSON) auto

lemma sends_branchHeadSHA [sends_intro]:
  "P (mkRequest c ''GET'' [] JNull (branchPathSegments owner repo branch)) \<Longrightarrow>
     sends P 3 (branchHeadSHA w c owner repo branch)"
  unfolding branchHeadSHA_def
  by (rule sends_mono, rule sends_bindM [where n = 0], rule sends_GetBranch) auto

lemma sends_ListTags [sends_intro]:
  "P (mkRequest c ''GET'' [] JNull [''repos'', owner, repo, ''tags'']) \<Longrightarrow>
     sends P 3 (ListTags w c owner repo)"
  unfolding ListTags_def
  by (rule sends_mono, rule sends_bindM [where n = 0], rule sends_getJSON) auto

lemma sends_GetCommit [sends_intro]:
  "P (mkRequest c ''GET'' [] JNull [''repos'', owner, repo, ''commits'', sha]) \<Longrightarrow>
     sends P 3 (GetCommit w c owner repo sha)"
  unfolding GetCommit_def
  by (rule sends_mono, rule sends_bindM [where m = 0], simp, rule sends_bindM [where n = 0],
      rule sends_getJSON) auto

lemma sends_ResolveCommitSHA [sends_intro]:
  "sends (isRead c) 9 (ResolveCommitSHA w c owner repo ref)"
proof (cases "ref = []")
  case True
  have "sends (isRead c) (3 + 3) (ResolveCommitSHA w c owner repo ref)"
    unfolding ResolveCommitSHA_def if_P [OF True]
    by (intro sends_bindM sends_GetRepository isRead_get) (auto intro: sends_intro)
  then show ?thesis by (rule sends_mono) simp
next
  case False
  have commit: "sends (isRead c) (3 + 0) (onResult (GetCommit w c owner repo ref) f)"
    if "\<And>r. sends (isRead c) 0 (f r)" for f :: "goerr + Commit \<Rightarrow> string clientIO"
    by (intro sends_onResult sends_intro isRead_get that)
  have tags: "sends (isRead c) (3 + 3) (bindM (ListTags w c owner repo) f)"
    if "\<And>t. sends (isRead c) 3 (f t)" for f :: "Tag list \<Rightarrow> string clientIO"
    by (intro sends_bindM sends_intro isRead_get that)
  have "sends (isRead c) (3 + 6) (ResolveCommitSHA w c owner repo ref)"
    unfolding ResolveCommitSHA_def if_not_P [OF False]
    by (intro sends_onResult sends_branchHeadSHA isRead_get)
      (auto split: sum.split option.split intro!: tags [simplified] commit [simplified])
  then show ?thesis by simp
qed

text \<open>A source that says the ref is not there lets the next source be asked.\<close>

definition absent :: "goerr + 'a \<Rightarrow> bool" where
  "absent r \<longleftrightarrow> (case r of Inl e \<Rightarrow> codeOf (AsError e) = CodeResourceNotFoundOrForbidden | Inr _ \<Rightarrow> False)"

text \<open>C23: a non-empty ref resolves to a SHA exactly in the order branch, tag, revision: the head of
  the branch of that name; or, when there is none, the commit of the first tag of that name that
  carries one; or, when there is none either and the ref is 7 to 40 hex digits, the commit Gogs
  finds for it. No source is asked before the ones in front of it have said the ref is
  not there, and the whole resolution sends at most nine requests, all of them reads.\<close>

theorem resolve_order:
  assumes "ref \<noteq> []" "ResolveCommitSHA w c owner repo ref st = (r, st')"
    and "branchHeadSHA w c owner repo ref st = (rb, s1)"
    and "ListTags w c owner repo s1 = (rt, s2)"
    and "GetCommit w c owner repo ref s2 = (rc, s3)"
  defines "tagged \<equiv> (\<lambda>sha ts. \<exists>pre t post. ts = pre @ t # post \<and> tagName t = ref \<and> tagCommitSHA t = sha
      \<and> sha \<noteq> [] \<and> (\<forall>u \<in> set pre. tagName u = ref \<longrightarrow> tagCommitSHA u = []))"
  shows "(\<forall>sha. r = Inr sha \<longleftrightarrow>
      rb = Inr sha \<or>
      (absent rb \<and> (\<exists>ts. rt = Inr ts \<and> (tagged sha ts \<or>
         ((\<nexists>s. tagged s ts) \<and> isHexRevision ref \<and> (\<exists>cm. rc = Inr cm \<and> cmSHA cm = sha))))))
    \<and> (\<exists>new. sent st' = sent st @ new \<and> length new \<le> 9 \<and> list_all (isRead c) new)"
proof
  define isTag where "isTag = (\<lambda>t :: Tag. tagName t = ref \<and> tagCommitSHA t \<noteq> [])"
  have found: "List.find isTag ts = Some t \<Longrightarrow> tagged sha ts \<longleftrightarrow> sha = tagCommitSHA t"
    and missing: "List.find isTag ts = None \<Longrightarrow> \<not> tagged sha ts" for ts t sha
  proof -
    have iff: "tagged s ts \<longleftrightarrow> (\<exists>u. List.find isTag ts = Some u \<and> s = tagCommitSHA u)" for s
      unfolding tagged_def find_split isTag_def by blast
    show "List.find isTag ts = Some t \<Longrightarrow> tagged sha ts \<longleftrightarrow> sha = tagCommitSHA t"
      "List.find isTag ts = None \<Longrightarrow> \<not> tagged sha ts" by (simp_all add: iff)
  qed
  have run: "(r, st') = (case rb of Inr sha \<Rightarrow> (Inr sha, s1)
      | Inl e \<Rightarrow> if \<not> absent rb then (Inl e, s1)
        else (case rt of Inl e \<Rightarrow> (Inl e, s2)
          | Inr ts \<Rightarrow> (case List.find isTag ts of Some t \<Rightarrow> (Inr (tagCommitSHA t), s2)
            | None \<Rightarrow> if isHexRevision ref then
                (case rc of Inr cm \<Rightarrow> (Inr (cmSHA cm), s3)
                 | Inl e \<Rightarrow> if \<not> absent rc then (Inl e, s3) else (Inl noSuchRef, s3))
              else (Inl noSuchRef, s2))))"
    using assms(1-5)
    by (auto simp: ResolveCommitSHA_def absent_def isTag_def onResult_def bindM_def
        split: sum.splits option.splits)
  show "\<forall>sha. r = Inr sha \<longleftrightarrow>
      rb = Inr sha \<or>
      (absent rb \<and> (\<exists>ts. rt = Inr ts \<and> (tagged sha ts \<or>
         ((\<nexists>s. tagged s ts) \<and> isHexRevision ref \<and> (\<exists>cm. rc = Inr cm \<and> cmSHA cm = sha)))))"
  proof (cases rb)
    case (Inr s)
    with run show ?thesis by (auto simp: absent_def)
  next
    case Inl_rb: (Inl e)
    show ?thesis
    proof (cases rt)
      case (Inl e')
      with run Inl_rb show ?thesis by (auto split: if_splits)
    next
      case (Inr ts)
      with run Inl_rb show ?thesis
        using found [of ts] missing [of ts]
        by (cases "List.find isTag ts"; cases rc) (auto split: if_splits)
    qed
  qed
next
  show "\<exists>new. sent st' = sent st @ new \<and> length new \<le> 9 \<and> list_all (isRead c) new"
    using sends_ResolveCommitSHA [of c w owner repo ref] assms(2)
    unfolding sends_def by (metis snd_conv)
qed

definition tagServer :: httpWorld where
  "tagServer = \<lparr>doRequest = (\<lambda>h rq. if rqPath rq = ''/api/v1/repos/o/r/tags''
       then Response 200 [] ''tags'' None None else Response 404 [] [] None None),
     waitCanceled = (\<lambda>_ _. None),
     parseJSON = (\<lambda>_. Some (JArr [JObj [(''name'', JStr ''v1''), (''commit'', JObj [(''id'', JStr ''abc'')])]]))\<rparr>"

theorem resolve_order_witness:
  "fst (ResolveCommitSHA tagServer someClient ''o'' ''r'' ''v1'' freshState) = Inr ''abc''
   \<and> \<not> (fst (branchHeadSHA tagServer someClient ''o'' ''r'' ''v1'' freshState) = Inr ''abc'')
   \<and> length (sent (snd (ResolveCommitSHA tagServer someClient ''o'' ''r'' ''v1'' freshState))) \<le> 9"
proof -
  let ?run = "ResolveCommitSHA tagServer someClient ''o'' ''r'' ''v1'' freshState"
  let ?b = "branchHeadSHA tagServer someClient ''o'' ''r'' ''v1'' freshState"
  let ?t = "ListTags tagServer someClient ''o'' ''r'' (snd ?b)"
  let ?g = "GetCommit tagServer someClient ''o'' ''r'' ''v1'' (snd ?t)"
  have "fst ?run = Inr ''abc''" by code_simp
  moreover have "fst ?b \<noteq> Inr ''abc''" by code_simp
  moreover have "\<exists>new. sent (snd ?run) = sent freshState @ new \<and> length new \<le> 9
      \<and> list_all (isRead someClient) new"
    by (rule conjunct2 [OF resolve_order [of "''v1''" tagServer someClient "''o''" "''r''" freshState
        "fst ?run" "snd ?run" "fst ?b" "snd ?b" "fst ?t" "snd ?t" "fst ?g" "snd ?g"]]) simp_all
  ultimately show ?thesis by (auto simp: freshState_def)
qed

section \<open>Where a validated name leads\<close>

lemma ValidateBranchName_plain:
  "ValidateBranchName branch = Inr () \<Longrightarrow> list_all plainSegment (splitOn slash branch)"
  by (auto simp: ValidateBranchName_def list_all_iff plainSegment_def split: if_splits)

lemma ValidateBranchName_Inl:
  "ValidateBranchName branch \<noteq> Inr () \<Longrightarrow> \<exists>e. ValidateBranchName branch = Inl e"
  by (cases "ValidateBranchName branch") simp_all

text \<open>looking up a branch whose name passes the validation sends one to three requests, every one
  to the path of the API root followed by repos, the owner, the repository, branches, and the
  slash-separated parts of the name, each escaped and none of them dropped or merged; a name that
  does not pass sends nothing.\<close>

theorem branch_request_path:
  assumes "isRooted (Path (apiRoot c))" "plainSegment owner" "plainSegment repo"
    and "GetBranch w c owner repo branch st = (r, st')"
  shows "if ValidateBranchName branch = Inr ()
    then \<exists>k \<in> {1..3}. map rqPath (sent st') = map rqPath (sent st) @
        replicate k (slash # joinWith [slash] (rootComps (Path (apiRoot c)) @
          [''repos'', pathEscape owner, pathEscape repo, ''branches''] @
          map pathEscape (splitOn slash branch)))
    else sent st' = sent st \<and> (\<exists>e. r = Inl e)"
proof (cases "ValidateBranchName branch = Inr ()")
  case True
  let ?ss = "branchPathSegments owner repo branch"
  have "list_all plainSegment ?ss"
    using ValidateBranchName_plain [OF True] assms(2,3)
    by (simp add: branchPathSegments_def) (simp add: plainSegment_def)
  then have url: "joinURL (apiRoot c) ?ss = slash # joinWith [slash]
      (rootComps (Path (apiRoot c)) @ map pathEscape ?ss)"
    using assms(1) by (intro joinURL_plain) (auto simp: branchPathSegments_def)
  have esc: "pathEscape ''repos'' = ''repos''" "pathEscape ''branches'' = ''branches''"
    by code_simp+
  have st': "st' = snd (getJSONWithHeaders w c decBranch [] ?ss st)"
    using assms(4) True
    by (auto simp: GetBranch_def getJSON_def getJSONWithQuery_def bindM_def
        split: sum.splits prod.splits)
  obtain k where "1 \<le> k" "k \<le> 3" "sent st' = sent st @ replicate k (mkRequest c ''GET'' [] JNull ?ss)"
    using getLoop_spec [of w c "mkRequest c ''GET'' [] JNull ?ss" decBranch 3 0 "[]" st
        "fst (getJSONWithHeaders w c decBranch [] ?ss st)"
        "snd (getJSONWithHeaders w c decBranch [] ?ss st)"]
    by (auto simp: getJSONWithHeaders_def st' Suc_le_eq)
  with True url esc show ?thesis
    by (auto simp: mkRequest_def branchPathSegments_def intro!: bexI [of _ k])
next
  case False
  with assms(4) ValidateBranchName_Inl [OF False] show ?thesis
    by (auto simp: GetBranch_def bindM_def)
qed

theorem branch_request_path_witness:
  "map rqPath (sent (snd (GetBranch tagServer someClient ''o'' ''r'' ''a b/c'' freshState)))
     = [''/api/v1/repos/o/r/branches/a%20b/c'']
   \<and> sent (snd (GetBranch tagServer someClient ''o'' ''r'' ''a/../b'' freshState)) = []"
proof -
  have "map rqPath (sent (snd (GetBranch tagServer someClient ''o'' ''r'' ''a b/c'' freshState)))
     = [''/api/v1/repos/o/r/branches/a%20b/c'']" by code_simp
  moreover have "\<not> ValidateBranchName ''a/../b'' = Inr ()" by code_simp
  ultimately show ?thesis
    using branch_request_path [of someClient "''o''" "''r''" tagServer "''a/../b''" freshState
        "fst (GetBranch tagServer someClient ''o'' ''r'' ''a/../b'' freshState)"
        "snd (GetBranch tagServer someClient ''o'' ''r'' ''a/../b'' freshState)"]
    by (simp add: freshState_def someClient_def plainSegment_def isRooted_def slash_def)
qed

lemma hex_plain: "isHexRevision sha \<Longrightarrow> plainSegment sha"
  by (auto simp: isHexRevision_def plainSegment_def split: if_splits)

text \<open>an archive is only requested for a full commit SHA, with one request that is never
  repeated, and the request's last path component is that SHA followed by ".tar.gz".\<close>

theorem archive_request_once:
  assumes "isRooted (Path (apiRoot c))" "plainSegment owner" "plainSegment repo"
  shows "map rqPath (sent (snd (DownloadArchive w c owner repo sha st))) =
    map rqPath (sent st) @
    (if length sha = 40 \<and> list_all isHexChar sha
     then [slash # joinWith [slash] (rootComps (Path (apiRoot c)) @
        [''repos'', pathEscape owner, pathEscape repo, ''archive'', sha @ ''.tar.gz''])]
     else [])"
proof (cases "length sha = 40 \<and> list_all isHexChar sha")
  case True
  have "list_all pathSafe sha"
    using True by (auto simp: list_all_iff isHexChar_def pathSafe_def Let_def)
  then have esc: "pathEscape (sha @ ''.tar.gz'') = sha @ ''.tar.gz''"
  proof (induction sha)
    case Nil
    show ?case by code_simp
  qed (simp add: pathEscape_Cons)
  have names: "pathEscape ''repos'' = ''repos''" "pathEscape ''archive'' = ''archive''"
    by code_simp+
  let ?ss = "[''repos'', owner, repo, ''archive'', sha @ ''.tar.gz'']"
  have "list_all plainSegment ?ss"
    using assms(2,3) True by (cases sha) (auto simp: plainSegment_def)
  then have "joinURL (apiRoot c) ?ss = slash # joinWith [slash]
      (rootComps (Path (apiRoot c)) @ map pathEscape ?ss)"
    using assms(1) by (intro joinURL_plain) auto
  moreover have "ValidateArchiveSHA sha = Inr ()"
    using True by (simp add: ValidateArchiveSHA_def isHexRevision_def)
  ultimately show ?thesis
    using True esc names
    by (auto simp: DownloadArchive_def bindM_def httpDo_def mkRequest_def Let_def
        split: httpOutcome.splits)
next
  case False
  then have "\<exists>e. ValidateArchiveSHA sha = Inl e"
    by (auto simp: ValidateArchiveSHA_def isHexRevision_def)
  with False show ?thesis by (auto simp: DownloadArchive_def bindM_def)
qed

theorem archive_request_once_witness:
  "sent (snd (DownloadArchive tagServer someClient ''o'' ''r'' ''main'' freshState)) = []"
  using archive_request_once [of someClient "''o''" "''r''" tagServer "''main''" freshState]
  by (simp add: freshState_def someClient_def plainSegment_def isRooted_def slash_def)

end
