(* ===== verification/HttpServer.thy ===== *)
theory HttpServer
  imports HttpUsers Config GitRefs
begin

text \<open>
  internal/httpserver: httpserver.go, auth.go, log.go and the token resolution of users.go. \<open>newServer\<close> checks
  the options, \<open>extractToken\<close> reads the credential header, and \<open>resolveStep\<close> is the concurrent resolution of
  tokens: each request goes through the phases of \<open>withAuthentication\<close>, \<open>resolve\<close> and \<open>buildUser\<close>, one locked
  section or channel operation at a time, interleaved with the others in any order. Gogs, the request
  contexts and the clock are free in the steps.
\<close>

section \<open>Server construction\<close>

record httpOptions =
  hoAddr :: string
  hoEndpoint :: string
  hoTokenHeader :: string
  hoUserCacheTTL :: int
  hoMaxUsers :: int
  hoJSONResponse :: bool
  hoBaseURL :: "baseURL option"
  hoCAFile :: string
  hoUserAgent :: string
  hoHTTPTimeout :: int
  hoCacheRoot :: string
  hoCacheTTL :: int
  hoCacheMaxBytes :: int
  hoSearchTimeout :: int
  hoSearchMaxFileBytes :: int
  hoWriteEnabled :: bool
  hoSnapshots :: bool
  hoLogDestination :: bool
  hoLogLevel :: string

record httpServer =
  hsOptions :: httpOptions
  hsApiRoot :: baseURL
  hsUsers :: userCache
  hsInvalid :: invalidTokens
  hsSlots :: nat

definition healthzEndpoint :: string where "healthzEndpoint = ''/healthz''"
definition minUserCacheTTL :: int where "minUserCacheTTL = second"
definition maxUserCacheTTL :: int where "maxUserCacheTTL = 3600 * second"
definition minMaxUsers :: int where "minMaxUsers = 1"
definition maxMaxUsers :: int where "maxMaxUsers = 1024"
definition resolveConcurrency :: nat where "resolveConcurrency = 8"
definition invalidTokenCacheCapacity :: int where "invalidTokenCacheCapacity = 4096"

definition newOptions :: "(string \<Rightarrow> goerr + unit) \<Rightarrow> httpOptions step" where
  "newOptions splitHostPort = applySteps
    [check (\<lambda>ho. hoAddr ho = []) ''the HTTP listen address is required'',
     (\<lambda>ho. bindE (wrapErr ''parse the HTTP listen address'' (splitHostPort (hoAddr ho))) (\<lambda>_. Inr ho)),
     (\<lambda>ho. setWhen (hoEndpoint ho = []) (\<lambda>ho. ho\<lparr>hoEndpoint := ''/mcp''\<rparr>) ho),
     check (\<lambda>ho. hoEndpoint ho = healthzEndpoint) ''the endpoint %q is reserved for the unauthenticated health probe'',
     (\<lambda>ho. setWhen (hoTokenHeader ho = []) (\<lambda>ho. ho\<lparr>hoTokenHeader := ''Authorization''\<rparr>) ho),
     (\<lambda>ho. setWhen (hoUserCacheTTL ho = 0) (\<lambda>ho. ho\<lparr>hoUserCacheTTL := 300 * second\<rparr>) ho),
     (\<lambda>ho. setWhen (hoMaxUsers ho = 0) (\<lambda>ho. ho\<lparr>hoMaxUsers := 128\<rparr>) ho),
     check (\<lambda>ho. hoUserCacheTTL ho < minUserCacheTTL \<or> hoUserCacheTTL ho > maxUserCacheTTL)
       ''the user cache TTL must be between %s and %s'',
     check (\<lambda>ho. hoMaxUsers ho < minMaxUsers \<or> hoMaxUsers ho > maxMaxUsers)
       ''the user cache capacity must be between %d and %d'',
     check (\<lambda>ho. hoBaseURL ho = None) ''the Gogs base URL is required'',
     check (\<lambda>ho. \<not> isRooted (hoCacheRoot ho)) ''the cache root must be an absolute path'',
     check (\<lambda>ho. \<not> hoSnapshots ho) ''the snapshot manager is required'',
     check (\<lambda>ho. \<not> hoLogDestination ho) ''the log destination is required'']"

definition serverAPIRoot :: "baseURL \<Rightarrow> baseURL" where
  "serverAPIRoot u =
     (let u = u\<lparr>RawQuery := [], Fragment := []\<rparr>;
          cleaned = trimSuffix (pathClean (slash # Path u)) [slash];
          cleaned = (if \<not> hasSuffix cleaned ''/api/v1'' then cleaned @ ''/api/v1'' else cleaned)
      in u\<lparr>Path := cleaned @ [slash]\<rparr>)"

definition newServer :: "(string \<Rightarrow> goerr + unit) \<Rightarrow> httpOptions \<Rightarrow> goerr + httpServer" where
  "newServer splitHostPort options =
     bindE (newOptions splitHostPort options) (\<lambda>options.
       Inr \<lparr>hsOptions = options, hsApiRoot = serverAPIRoot (the (hoBaseURL options)),
            hsUsers = newUserCache (hoMaxUsers options) (hoUserCacheTTL options),
            hsInvalid = newInvalidTokens invalidTokenCacheCapacity (hoUserCacheTTL options),
            hsSlots = 0\<rparr>)"

text \<open>The options \<open>runServeHTTP\<close> of internal/app builds from a loaded configuration.\<close>

definition serveOptions :: "Config \<Rightarrow> string \<Rightarrow> string \<Rightarrow> httpOptions" where
  "serveOptions c cacheRoot version =
     \<lparr>hoAddr = HTTPAddr c, hoEndpoint = HTTPEndpoint c, hoTokenHeader = HTTPTokenHeader c,
      hoUserCacheTTL = HTTPUserCacheTTL c, hoMaxUsers = HTTPMaxUsers c, hoJSONResponse = HTTPJSONResponse c,
      hoBaseURL = BaseURL c, hoCAFile = CAFile c, hoUserAgent = ''gogs-mcp/'' @ version,
      hoHTTPTimeout = HTTPTimeout c, hoCacheRoot = cacheRoot, hoCacheTTL = CacheTTL c,
      hoCacheMaxBytes = CacheMaxBytes c, hoSearchTimeout = SearchTimeout c,
      hoSearchMaxFileBytes = MaxFileBytes c, hoWriteEnabled = WriteEnabled c, hoSnapshots = True,
      hoLogDestination = True, hoLogLevel = LogLevel c\<rparr>"

text \<open>\<open>resolveCacheDir\<close> of internal/app; the user's cache directory comes from the system.\<close>

definition resolveCacheDir :: "goerr + string \<Rightarrow> Config \<Rightarrow> goerr + string" where
  "resolveCacheDir userCacheDir c =
     (if CacheDir c \<noteq> [] then Inr (CacheDir c)
      else bindE userCacheDir (\<lambda>userCache. Inr (pathJoin [userCache, ''gogs-mcp''])))"

lemma serverAPIRoot_path: "Path (serverAPIRoot u) = apiRootPath (Path u)"
  by (simp add: serverAPIRoot_def apiRootPath_def Let_def)

text \<open>What \<open>New\<close> accepts once the defaults are filled in.\<close>

lemma setWhen_then: "bindE (setWhen b f c) g = g (if b then f c else c)"
  by (simp add: setWhen_def)

lemma newServer_accepts:
  assumes "hoAddr ho \<noteq> []" "split (hoAddr ho) = Inr ()" "hoEndpoint ho \<notin> {[], healthzEndpoint}"
    "hoTokenHeader ho \<noteq> []" "second \<le> hoUserCacheTTL ho" "hoUserCacheTTL ho \<le> 3600 * second"
    "1 \<le> hoMaxUsers ho" "hoMaxUsers ho \<le> 1024" "hoBaseURL ho = Some u" "isRooted (hoCacheRoot ho)"
    "hoSnapshots ho" "hoLogDestination ho"
  shows "newServer split ho = Inr \<lparr>hsOptions = ho, hsApiRoot = serverAPIRoot u,
     hsUsers = newUserCache (hoMaxUsers ho) (hoUserCacheTTL ho),
     hsInvalid = newInvalidTokens invalidTokenCacheCapacity (hoUserCacheTTL ho), hsSlots = 0\<rparr>"
  using assms
  by (simp add: newServer_def newOptions_def check_def setWhen_def wrapErr_def minUserCacheTTL_def
      maxUserCacheTTL_def minMaxUsers_def maxMaxUsers_def second_def)

text \<open>A configuration that \<open>Load\<close> accepts for the http transport with a user-cache lifetime of at least one
  second makes a server: \<open>New\<close> accepts the options built from it, the server talks to the API root the
  other commands use, and both of its caches start within their bounds.\<close>

theorem loaded_config_serves:
  assumes "Load w path lookup = Inr c" "Transport c = ''http''" "second \<le> HTTPUserCacheTTL c"
    and "cwSplitHostPort w (HTTPAddr c) = Inr ()" "resolveCacheDir userCacheDir c = Inr root" "isRooted root"
  shows "\<exists>s. newServer (cwSplitHostPort w) (serveOptions c root version) = Inr s
    \<and> hsOptions s = serveOptions c root version
    \<and> hsApiRoot s = APIRoot c \<and> apiRootPath (Path (hsApiRoot s)) = Path (hsApiRoot s)
    \<and> cacheOk (hsUsers s) \<and> tokensOk (hsInvalid s)"
proof -
  have ok: "configOk True c" using assms(1) load_configOk by (simp add: Load_def)
  then obtain u where u: "BaseURL c = Some u" "RawQuery u = []" "Fragment u = []" "HTTPAddr c \<noteq> []"
    using assms(2) by (auto simp: configOk_def)
  from ok have h: "HTTPEndpoint c \<noteq> []" "HTTPEndpoint c \<noteq> healthzEndpoint" "HTTPTokenHeader c \<noteq> []"
    "HTTPUserCacheTTL c \<le> 3600 * second" "1 \<le> HTTPMaxUsers c" "HTTPMaxUsers c \<le> 1024"
    by (auto simp: configOk_def httpSettingsOk_def isRooted_def isValidHeaderName_def healthzEndpoint_def)
  let ?o = "serveOptions c root version"
  have "newServer (cwSplitHostPort w) ?o = Inr \<lparr>hsOptions = ?o, hsApiRoot = serverAPIRoot u,
     hsUsers = newUserCache (hoMaxUsers ?o) (hoUserCacheTTL ?o),
     hsInvalid = newInvalidTokens invalidTokenCacheCapacity (hoUserCacheTTL ?o), hsSlots = 0\<rparr>"
    by (rule newServer_accepts) (use assms u h in \<open>simp_all add: serveOptions_def\<close>)
  moreover have "serverAPIRoot u = APIRoot c"
    using u by (simp add: serverAPIRoot_def APIRoot_def apiRootPath_def Let_def)
  moreover have "apiRootPath (Path (APIRoot c)) = Path (APIRoot c)"
    by (simp add: APIRoot_def apiRootPath_idem)
  ultimately show ?thesis
    using h assms(3)
    by (simp add: cacheOk_new tokensOk_new serveOptions_def invalidTokenCacheCapacity_def second_def)
qed

definition httpEnv :: lookupEnv where
  "httpEnv = map_of [(''GOGS_BASE_URL'', ''host''), (''GOGS_MCP_TRANSPORT'', ''http''),
     (''GOGS_MCP_HTTP_ADDR'', '':80''), (''GOGS_MCP_CACHE_DIR'', ''/c'')]"

lemma http_loads:
  "map_sum id (\<lambda>c. (Transport c, HTTPUserCacheTTL c, CacheDir c)) (Load sampleConfigWorld [] httpEnv)
    = Inr (''http'', 300 * second, ''/c'')"
  by code_simp

theorem loaded_config_serves_witness:
  "case Load sampleConfigWorld [] httpEnv of
     Inr c \<Rightarrow> (case newServer (cwSplitHostPort sampleConfigWorld) (serveOptions c ''/c'' ''1'') of
       Inr s \<Rightarrow> hsApiRoot s = APIRoot c \<and> cacheOk (hsUsers s) | Inl _ \<Rightarrow> False)
   | Inl _ \<Rightarrow> False"
proof -
  from http_loads obtain c where c: "Load sampleConfigWorld [] httpEnv = Inr c"
    "Transport c = ''http''" "HTTPUserCacheTTL c = 300 * second" "CacheDir c = ''/c''"
    by (cases "Load sampleConfigWorld [] httpEnv") auto
  have "resolveCacheDir (Inl []) c = Inr ''/c''" "isRooted ''/c''" "second \<le> HTTPUserCacheTTL c"
    "cwSplitHostPort sampleConfigWorld (HTTPAddr c) = Inr ()"
    using c by (simp_all add: resolveCacheDir_def isRooted_def slash_def second_def sampleConfigWorld_def)
  with loaded_config_serves [OF c(1,2), of "Inl []" "''/c''" "''1''"] c(1) show ?thesis by auto
qed

text \<open>The configuration also accepts lifetimes below one second, which \<open>New\<close> refuses.\<close>

lemma short_lifetime_refused:
  assumes "hoAddr ho \<noteq> []" "split (hoAddr ho) = Inr ()" "hoEndpoint ho \<notin> {[], healthzEndpoint}"
    "hoTokenHeader ho \<noteq> []" "0 < hoUserCacheTTL ho" "hoUserCacheTTL ho < second" "hoMaxUsers ho \<noteq> 0"
  shows "newServer split ho = Inl [MsgErr ''the user cache TTL must be between %s and %s'']"
  using assms
  by (simp add: newServer_def newOptions_def check_def setWhen_def wrapErr_def minUserCacheTTL_def second_def)

section \<open>The credential header\<close>

definition maxTokenHeaderBytes :: nat where "maxTokenHeaderBytes = 4096"

definition extractToken :: "string \<Rightarrow> string option" where
  "extractToken header =
     (if header = [] \<or> length header > maxTokenHeaderBytes then None
      else
        (let whole = (let trimmed = trimSpace header in if trimmed = [] then None else Some trimmed) in
         case cut header '' '' of
           None \<Rightarrow> whole
         | Some (scheme, rest) \<Rightarrow>
             if toLower scheme = ''bearer'' \<or> toLower scheme = ''token'' then
               (let credential = trimSpace rest in if credential = [] then None else Some credential)
             else whole))"

lemma length_trimLeft: "length (trimLeft ws s) \<le> length s"
proof (induction ws s rule: trimLeft.induct)
  case (1 ws s)
  show ?case
  proof (cases "List.find (\<lambda>w. 0 < length w \<and> hasPrefix s w) ws")
    case None
    then show ?thesis by (simp add: trimLeft.simps [of ws s])
  next
    case (Some w)
    then have "length (trimLeft ws (drop (length w) s)) \<le> length (drop (length w) s)" using 1 by blast
    also have "\<dots> \<le> length s" by simp
    finally show ?thesis using Some by (simp add: trimLeft.simps [of ws s])
  qed
qed

lemma length_trimRight: "length (trimRight ws s) \<le> length s"
proof (induction ws s rule: trimRight.induct)
  case (1 ws s)
  show ?case
  proof (cases "List.find (\<lambda>w. 0 < length w \<and> hasSuffix s w) ws")
    case None
    then show ?thesis by (simp add: trimRight.simps [of ws s])
  next
    case (Some w)
    then have "length (trimRight ws (take (length s - length w) s)) \<le> length (take (length s - length w) s)"
      using 1 by blast
    also have "\<dots> \<le> length s" by simp
    finally show ?thesis using Some by (simp add: trimRight.simps [of ws s])
  qed
qed

lemma length_trimSpace: "length (trimSpace s) \<le> length s"
  unfolding trimSpace_def using length_trimLeft length_trimRight le_trans by blast

lemma extractToken_bounds:
  assumes "extractToken header = Some tok"
  shows "tok \<noteq> [] \<and> length tok \<le> 4096"
proof -
  have rest: "length rest \<le> length header" if "cut header '' '' = Some (scheme, rest)" for scheme rest
    using cut_Some [OF that] by simp
  show ?thesis
    using assms length_trimSpace [of header] rest length_trimSpace
    by (auto simp: extractToken_def Let_def maxTokenHeaderBytes_def split: if_splits option.splits)
      (meson le_trans linorder_not_le)+
qed

text \<open>\<open>buildUserEntry\<close>: the directories of the user, made and tightened from the cache root down, then the
  client and the tool server of the user.\<close>

definition userCacheRoot :: "string \<Rightarrow> int \<Rightarrow> string" where
  "userCacheRoot cacheRoot userID = pathJoin [cacheRoot, ''users'', formatInt userID]"

definition buildUserEntry :: "(string \<Rightarrow> goerr + unit) \<Rightarrow> (string \<Rightarrow> goerr + unit) \<Rightarrow> (string \<Rightarrow> goerr + int) \<Rightarrow>
    string \<Rightarrow> string \<Rightarrow> User \<Rightarrow> goerr + userEntry" where
  "buildUserEntry mkdirAll chmod newToolServer cacheRoot hash user =
     (let userRoot = userCacheRoot cacheRoot (uId user);
          usersRoot = pathJoin [cacheRoot, ''users'']
      in bindE (wrapErr ''create user cache root'' (mkdirAll userRoot)) (\<lambda>_.
         bindE (applySteps (map (\<lambda>p _. wrapErr ''tighten cache directory'' (chmod p)) [cacheRoot, usersRoot, userRoot]) ()) (\<lambda>_.
         bindE (newToolServer userRoot) (\<lambda>server.
           Inr \<lparr>ueHash = hash, ueUserID = uId user, ueUsername = uUsername user, ueServer = server, ueExpires = 0\<rparr>))))"

lemma buildUserEntry_user:
  "buildUserEntry mkdirAll chmod newToolServer cacheRoot hash user = Inr e \<Longrightarrow>
    ueHash e = hash \<and> ueUserID e = uId user \<and> ueUsername e = uUsername user"
  by (auto simp: buildUserEntry_def Let_def bindE_eq_Inr simp del: applySteps.simps)

text \<open>No two users share a cache directory.\<close>

lemma userCacheRoot_inj:
  assumes "cacheRoot \<noteq> []" "userCacheRoot cacheRoot i = userCacheRoot cacheRoot j"
  shows "i = j"
proof -
  have "normalComp (formatInt k)" for k
  proof -
    have no: "c \<noteq> slash" if "c \<in> set (natDigits n)" for c n
      using that by (metis natDigits_only_digits not_digit(3) slash_def)
    have digit: "natDigits n \<noteq> ''.''" "natDigits n \<noteq> ''..''" for n
      using natDigits_only_digits [of "CHR ''.''" n] by auto
    show ?thesis using no digit by (auto simp: normalComp_def formatInt_def slash_def)
  qed
  moreover have "normalComp ''users''" by (simp add: normalComp_def slash_def)
  ultimately have "[''users'', formatInt i] = [''users'', formatInt j]"
    using assms by (intro pathJoin_inj [of cacheRoot]) (simp_all add: userCacheRoot_def)
  then show ?thesis by (simp add: formatInt_inj)
qed

section \<open>Answers\<close>

record headerErrorBody =
  hbCode :: string
  hbMessage :: string

record httpAnswer =
  haStatus :: int
  haHeaders :: "(string \<times> string) list"
  haBody :: headerErrorBody

definition writeUnauthorized :: "string \<Rightarrow> httpAnswer" where
  "writeUnauthorized tokenHeader =
     \<lparr>haStatus = 401,
      haHeaders = [(''Content-Type'', ''application/json''),
        (''WWW-Authenticate'', ''Bearer realm='' @ [CHR 0x22] @ ''gogs-mcp'' @ [CHR 0x22]),
        (''Cache-Control'', ''no-store'')],
      haBody = \<lparr>hbCode = codeString CodeAuthenticationFailed,
        hbMessage = ''A valid Gogs personal access token is required in the '' @ tokenHeader @ '' header.''\<rparr>\<rparr>"

definition writeUnavailable :: "goerr \<Rightarrow> httpAnswer" where
  "writeUnavailable classified =
     \<lparr>haStatus = 503,
      haHeaders = [(''Content-Type'', ''application/json''), (''Retry-After'', ''5'')],
      haBody = \<lparr>hbCode = codeString (codeOf classified), hbMessage = Message (gogsOf classified)\<rparr>\<rparr>"

definition rejecting :: "goerr \<Rightarrow> bool" where
  "rejecting classified \<longleftrightarrow> codeOf classified \<in> {CodeAuthenticationFailed, CodePermissionDenied}"

text \<open>What \<open>withAuthentication\<close> does once the token is resolved: the request goes on with the user in its
  context, or it is answered with an error.\<close>

definition answerAuth :: "string \<Rightarrow> goerr + userEntry \<Rightarrow> httpAnswer + userEntry" where
  "answerAuth tokenHeader resolved =
     (case resolved of
        Inr entry \<Rightarrow> Inr entry
      | Inl err \<Rightarrow> (let classified = AsError err in
          if rejecting classified then Inl (writeUnauthorized tokenHeader)
          else Inl (writeUnavailable classified)))"

section \<open>The access log\<close>

text \<open>A request context is the identity stored in it, if any. A handler, given the context of its request,
  calls the writer; the recorder between them keeps the first status.\<close>

datatype writerCall = CallWriteHeader int | CallWrite string

record statusWriter =
  swStatus :: int
  swWritten :: bool
  swForwarded :: "writerCall list"

definition writeHeader :: "int \<Rightarrow> statusWriter \<Rightarrow> statusWriter" where
  "writeHeader status w =
     (if \<not> swWritten w then w\<lparr>swStatus := status, swWritten := True\<rparr> else w)
       \<lparr>swForwarded := swForwarded w @ [CallWriteHeader status]\<rparr>"

definition writeBody :: "string \<Rightarrow> statusWriter \<Rightarrow> statusWriter" where
  "writeBody d w =
     (if \<not> swWritten w then w\<lparr>swStatus := 200, swWritten := True\<rparr> else w)
       \<lparr>swForwarded := swForwarded w @ [CallWrite d]\<rparr>"

fun callWriter :: "writerCall \<Rightarrow> statusWriter \<Rightarrow> statusWriter" where
  "callWriter (CallWriteHeader status) w = writeHeader status w"
| "callWriter (CallWrite d) w = writeBody d w"

type_synonym handler = "userEntry option \<Rightarrow> writerCall list"

record accessLine =
  alStatus :: int
  alUser :: "(int \<times> string) option"

definition withAccessLog :: "handler \<Rightarrow> userEntry option \<Rightarrow> accessLine \<times> writerCall list" where
  "withAccessLog inner ctx =
     (let recorder = fold callWriter (inner ctx) \<lparr>swStatus = 200, swWritten = False, swForwarded = []\<rparr>
      in (\<lparr>alStatus = swStatus recorder, alUser = map_option (\<lambda>e. (ueUserID e, ueUsername e)) ctx\<rparr>,
          swForwarded recorder))"

definition answerCalls :: "httpAnswer \<Rightarrow> writerCall list" where
  "answerCalls a = [CallWriteHeader (haStatus a), CallWrite (hbMessage (haBody a))]"

definition withAuthentication :: "string \<Rightarrow> (string \<Rightarrow> goerr + userEntry) \<Rightarrow> string \<Rightarrow> handler \<Rightarrow> handler" where
  "withAuthentication tokenHeader resolve headerValue inner ctx =
     (case extractToken headerValue of
        None \<Rightarrow> answerCalls (writeUnauthorized tokenHeader)
      | Some tok \<Rightarrow> (case answerAuth tokenHeader (resolve tok) of
          Inl a \<Rightarrow> answerCalls a
        | Inr entry \<Rightarrow> inner (Some entry)))"

lemma recorder_spec:
  "fold callWriter calls w =
     w\<lparr>swStatus := (if swWritten w then swStatus w else
          case calls of [] \<Rightarrow> swStatus w | CallWriteHeader n # _ \<Rightarrow> n | CallWrite _ # _ \<Rightarrow> 200),
       swWritten := (swWritten w \<or> calls \<noteq> []), swForwarded := swForwarded w @ calls\<rparr>"
proof (induction calls arbitrary: w)
  case (Cons a calls)
  show ?case by (cases a) (simp_all add: Cons writeHeader_def writeBody_def split: list.split)
qed simp

text \<open>The recorder forwards every call and logs the status that reached the client. The user fields of the
  access log are those of the outer context, which has no identity: the authentication gives the user
  only to the request it passes on.\<close>

lemma access_log_status:
  "withAccessLog inner ctx = (line, calls) \<Longrightarrow> calls = inner ctx \<and>
     alStatus line = (case inner ctx of CallWriteHeader n # _ \<Rightarrow> n | _ \<Rightarrow> 200)"
  by (auto simp: withAccessLog_def recorder_spec Let_def split: list.split writerCall.split)

lemma access_log_anonymous:
  "alUser (fst (withAccessLog (withAuthentication tokenHeader resolve header inner) None)) = None"
  by (simp add: withAccessLog_def Let_def)

section \<open>Resolving tokens concurrently\<close>

text \<open>The phases of a request, named after what it does next. A leader holds the single-flight place of its
  hash from \<open>Queueing\<close> to \<open>Unclaiming\<close> and a build slot from \<open>Probing\<close> to \<open>Unslotting\<close>; the last three phases
  before the answer are the deferred calls of \<open>buildUser\<close> and \<open>resolve\<close>.\<close>

type_synonym resolution = "goerr + userEntry"

datatype phase =
    Arrived | Resolving | Checking | Claiming | Following nat | Queueing | Probing
  | Rejecting goerr | Storing userEntry
  | Unslotting resolution | Unclaiming resolution | Closing resolution | Answered resolution

text \<open>The shared state of the server, the state of each request, and two history variables: what Gogs
  confirmed (hash, user ID, user name) and which hashes it rejected.\<close>

record resolver =
  rvNow :: int
  rvUsers :: userCache
  rvInvalid :: invalidTokens
  rvBuilds :: "string \<Rightarrow> nat option"
  rvSlots :: nat
  rvDone :: "nat \<Rightarrow> resolution option"
  rvPhase :: "nat \<Rightarrow> phase"
  rvConfirmed :: "(string \<times> int \<times> string) set"
  rvRejected :: "string set"

definition rejectedError :: goerr where
  "rejectedError = gogsErr CodeAuthenticationFailed ''Gogs rejected the supplied credentials.''"

definition goTo :: "nat \<Rightarrow> phase \<Rightarrow> resolver \<Rightarrow> resolver" where
  "goTo t p s = s\<lparr>rvPhase := (rvPhase s)(t := p)\<rparr>"

definition contextError :: "goerr \<Rightarrow> bool" where
  "contextError e \<longleftrightarrow> e = [ContextCanceled] \<or> e = [ContextDeadlineExceeded]"

text \<open>An error that carries no \<open>*gogs.Error\<close>, as those of the file system and of \<open>NewClient\<close>.\<close>

definition plainError :: "goerr \<Rightarrow> bool" where
  "plainError e \<longleftrightarrow> list_all (\<lambda>l. \<not> isGogs l) e"

inductive resolveStep :: "(nat \<Rightarrow> string) \<Rightarrow> resolver \<Rightarrow> resolver \<Rightarrow> bool" for hash where
  tick: "rvNow s \<le> now \<Longrightarrow> resolveStep hash s (s\<lparr>rvNow := now\<rparr>)"
| authHit: "rvPhase s t \<in> {Arrived, Resolving} \<Longrightarrow> getUser (rvNow s) (hash t) (rvUsers s) = (Some e, us) \<Longrightarrow>
    resolveStep hash s (goTo t (Answered (Inr e)) (s\<lparr>rvUsers := us\<rparr>))"
| authMiss: "rvPhase s t = Arrived \<Longrightarrow> getUser (rvNow s) (hash t) (rvUsers s) = (None, us) \<Longrightarrow>
    resolveStep hash s (goTo t Resolving (s\<lparr>rvUsers := us\<rparr>))"
| cacheMiss: "rvPhase s t = Resolving \<Longrightarrow> getUser (rvNow s) (hash t) (rvUsers s) = (None, us) \<Longrightarrow>
    resolveStep hash s (goTo t Checking (s\<lparr>rvUsers := us\<rparr>))"
| negative: "rvPhase s t = Checking \<Longrightarrow> hasInvalid (rvNow s) (hash t) (rvInvalid s) = (True, iv) \<Longrightarrow>
    resolveStep hash s (goTo t (Answered (Inl rejectedError)) (s\<lparr>rvInvalid := iv\<rparr>))"
| notNegative: "rvPhase s t = Checking \<Longrightarrow> hasInvalid (rvNow s) (hash t) (rvInvalid s) = (False, iv) \<Longrightarrow>
    resolveStep hash s (goTo t Claiming (s\<lparr>rvInvalid := iv\<rparr>))"
| follow: "rvPhase s t = Claiming \<Longrightarrow> rvBuilds s (hash t) = Some c \<Longrightarrow>
    resolveStep hash s (goTo t (Following c) s)"
| lead: "rvPhase s t = Claiming \<Longrightarrow> rvBuilds s (hash t) = None \<Longrightarrow>
    resolveStep hash s (goTo t Queueing (s\<lparr>rvBuilds := (rvBuilds s)(hash t := Some t)\<rparr>))"
| joined: "rvPhase s t = Following c \<Longrightarrow> rvDone s c = Some r \<Longrightarrow>
    resolveStep hash s (goTo t (Answered r) s)"
| abandoned: "rvPhase s t = Following c \<Longrightarrow> contextError e \<Longrightarrow>
    resolveStep hash s (goTo t (Answered (Inl e)) s)"
| slot: "rvPhase s t = Queueing \<Longrightarrow> rvSlots s < resolveConcurrency \<Longrightarrow>
    resolveStep hash s (goTo t Probing (s\<lparr>rvSlots := Suc (rvSlots s)\<rparr>))"
| noSlot: "rvPhase s t = Queueing \<Longrightarrow> contextError e \<Longrightarrow>
    resolveStep hash s (goTo t (Unclaiming (Inl e)) s)"
| noClient: "rvPhase s t = Probing \<Longrightarrow> plainError e \<Longrightarrow>
    resolveStep hash s (goTo t (Unslotting (Inl e)) s)"
| refused: "rvPhase s t = Probing \<Longrightarrow> rejecting (AsError e) \<Longrightarrow>
    resolveStep hash s (goTo t (Rejecting (AsError e)) (s\<lparr>rvRejected := insert (hash t) (rvRejected s)\<rparr>))"
| unavailable: "rvPhase s t = Probing \<Longrightarrow> \<not> rejecting (AsError e) \<Longrightarrow>
    resolveStep hash s (goTo t (Unslotting (Inl (AsError e))) s)"
| remember: "rvPhase s t = Rejecting e \<Longrightarrow>
    resolveStep hash s (goTo t (Unslotting (Inl e)) (s\<lparr>rvInvalid := addInvalid (rvNow s) (hash t) (rvInvalid s)\<rparr>))"
| confirmed: "rvPhase s t = Probing \<Longrightarrow> ueHash e = hash t \<Longrightarrow>
    resolveStep hash s (goTo t (Storing e)
      (s\<lparr>rvConfirmed := insert (hash t, ueUserID e, ueUsername e) (rvConfirmed s)\<rparr>))"
| notBuilt: "rvPhase s t = Probing \<Longrightarrow> plainError e \<Longrightarrow>
    resolveStep hash s (goTo t (Unslotting (Inl e)) (s\<lparr>rvConfirmed := insert (hash t, uid, name) (rvConfirmed s)\<rparr>))"
| store: "rvPhase s t = Storing e \<Longrightarrow> putUser (rvNow s) e (rvUsers s) = ((kept, evicted), us) \<Longrightarrow>
    resolveStep hash s (goTo t (Unslotting (Inr kept)) (s\<lparr>rvUsers := us\<rparr>))"
| unslot: "rvPhase s t = Unslotting r \<Longrightarrow>
    resolveStep hash s (goTo t (Unclaiming r) (s\<lparr>rvSlots := rvSlots s - 1\<rparr>))"
| unclaim: "rvPhase s t = Unclaiming r \<Longrightarrow>
    resolveStep hash s (goTo t (Closing r) (s\<lparr>rvBuilds := (rvBuilds s)(hash t := None)\<rparr>))"
| close: "rvPhase s t = Closing r \<Longrightarrow>
    resolveStep hash s (goTo t (Answered r) (s\<lparr>rvDone := (rvDone s)(t := Some r)\<rparr>))"
| toolRejected: "resolveStep hash s (s\<lparr>rvUsers := invalidateUser h (rvUsers s), rvRejected := insert h (rvRejected s)\<rparr>)"
| toolRemember: "h \<in> rvRejected s \<Longrightarrow>
    resolveStep hash s (s\<lparr>rvInvalid := addInvalid (rvNow s) h (rvInvalid s)\<rparr>)"

definition startResolver :: "httpServer \<Rightarrow> int \<Rightarrow> resolver" where
  "startResolver server now =
     \<lparr>rvNow = now, rvUsers = hsUsers server, rvInvalid = hsInvalid server, rvBuilds = (\<lambda>_. None),
      rvSlots = hsSlots server, rvDone = (\<lambda>_. None), rvPhase = (\<lambda>_. Arrived), rvConfirmed = {}, rvRejected = {}\<rparr>"

definition reachable :: "httpServer \<Rightarrow> int \<Rightarrow> (nat \<Rightarrow> string) \<Rightarrow> resolver \<Rightarrow> bool" where
  "reachable server now hash s \<longleftrightarrow> (resolveStep hash)\<^sup>*\<^sup>* (startResolver server now) s"

subsection \<open>Invariants\<close>

fun leading :: "phase \<Rightarrow> bool" where
  "leading Queueing = True"
| "leading Probing = True"
| "leading (Rejecting _) = True"
| "leading (Storing _) = True"
| "leading (Unslotting _) = True"
| "leading (Unclaiming _) = True"
| "leading _ = False"

fun slotted :: "phase \<Rightarrow> bool" where
  "slotted Probing = True"
| "slotted (Rejecting _) = True"
| "slotted (Storing _) = True"
| "slotted (Unslotting _) = True"
| "slotted _ = False"

fun closing :: "phase \<Rightarrow> bool" where
  "closing (Closing _) = True"
| "closing _ = False"

text \<open>The place of a hash is held by exactly the request that leads it, slots are counted exactly, and whom a
  follower waits for is still at work or has published its result.\<close>

definition placesOk :: "(nat \<Rightarrow> string) \<Rightarrow> resolver \<Rightarrow> bool" where
  "placesOk hash s \<longleftrightarrow> (\<forall>h t. rvBuilds s h = Some t \<longleftrightarrow> leading (rvPhase s t) \<and> hash t = h)"

definition slotsOk :: "resolver \<Rightarrow> bool" where
  "slotsOk s \<longleftrightarrow> finite {t. slotted (rvPhase s t)} \<and> card {t. slotted (rvPhase s t)} = rvSlots s
     \<and> rvSlots s \<le> resolveConcurrency"

definition followersOk :: "(nat \<Rightarrow> string) \<Rightarrow> resolver \<Rightarrow> bool" where
  "followersOk hash s \<longleftrightarrow> (\<forall>t c. rvPhase s t = Following c \<longrightarrow> hash c = hash t
     \<and> (leading (rvPhase s c) \<or> closing (rvPhase s c) \<or> rvDone s c \<noteq> None))"

definition storesOk :: "resolver \<Rightarrow> bool" where
  "storesOk s \<longleftrightarrow> cacheOk (rvUsers s) \<and> tokensOk (rvInvalid s)"

inductive_cases resolveStepE: "resolveStep hash s s'"

lemma goTo_simps [simp]:
  "rvPhase (goTo t p s) = (rvPhase s)(t := p)" "rvUsers (goTo t p s) = rvUsers s"
  "rvInvalid (goTo t p s) = rvInvalid s" "rvBuilds (goTo t p s) = rvBuilds s" "rvSlots (goTo t p s) = rvSlots s"
  "rvDone (goTo t p s) = rvDone s" "rvNow (goTo t p s) = rvNow s" "rvConfirmed (goTo t p s) = rvConfirmed s"
  "rvRejected (goTo t p s) = rvRejected s"
  by (simp_all add: goTo_def)

lemma cacheOk_get': "cacheOk c \<Longrightarrow> getUser now h c = (r, us) \<Longrightarrow> cacheOk us"
  using cacheOk_get by (metis snd_conv)

lemma cacheOk_put': "cacheOk c \<Longrightarrow> putUser now e c = (r, us) \<Longrightarrow> cacheOk us"
  using cacheOk_put by (metis snd_conv)

lemma tokensOk_has': "tokensOk i \<Longrightarrow> hasInvalid now h i = (r, iv) \<Longrightarrow> tokensOk iv"
  using tokensOk_has by (metis snd_conv)

lemma storesOk_step: "resolveStep hash s s' \<Longrightarrow> storesOk s \<Longrightarrow> storesOk s'"
  by (erule resolveStep.cases)
    (auto simp: storesOk_def tokensOk_add cacheOk_invalidate dest: cacheOk_get' cacheOk_put' tokensOk_has')

lemma placesOk_step: "resolveStep hash s s' \<Longrightarrow> placesOk hash s \<Longrightarrow> placesOk hash s'"
  by (erule resolveStep.cases)
    (auto simp: placesOk_def, (metis option.discI option.inject leading.simps(6))+)

text \<open>Whom a follower waits for stays at work until its result is published.\<close>

definition working :: "resolver \<Rightarrow> nat \<Rightarrow> bool" where
  "working s c \<longleftrightarrow> leading (rvPhase s c) \<or> closing (rvPhase s c) \<or> rvDone s c \<noteq> None"

lemma working_step: "resolveStep hash s s' \<Longrightarrow> working s c \<Longrightarrow> working s' c"
  by (erule resolveStep.cases) (auto simp: working_def)

lemma following_step:
  "resolveStep hash s s' \<Longrightarrow> rvPhase s' t = Following c \<Longrightarrow> rvPhase s t = Following c \<or> rvBuilds s (hash t) = Some c"
  by (erule resolveStep.cases) (auto split: if_splits)

lemma followersOk_step:
  assumes step: "resolveStep hash s s'" and ok: "placesOk hash s" "followersOk hash s"
  shows "followersOk hash s'"
proof -
  have "hash c = hash t \<and> working s' c" if "rvPhase s' t = Following c" for t c
  proof (cases "rvPhase s t = Following c")
    case True
    with ok(2) working_step [OF step] show ?thesis by (auto simp: followersOk_def working_def)
  next
    case False
    with following_step [OF step that] ok(1) have "leading (rvPhase s c) \<and> hash c = hash t"
      by (auto simp: placesOk_def)
    with working_step [OF step] show ?thesis by (auto simp: working_def)
  qed
  then show ?thesis by (simp add: followersOk_def working_def)
qed

lemma slots_goTo:
  assumes "slotsOk s" "slotted (rvPhase s t) = slotted p" "rvSlots s' = rvSlots s" "rvPhase s' = rvPhase s"
  shows "slotsOk (goTo t p s')"
proof -
  have "{u. slotted (((rvPhase s)(t := p)) u)} = {u. slotted (rvPhase s u)}" using assms(2) by auto
  with assms show ?thesis by (simp add: slotsOk_def)
qed

lemma slots_take:
  assumes "slotsOk s" "\<not> slotted (rvPhase s t)" "slotted p" "rvSlots s < resolveConcurrency"
  shows "slotsOk (goTo t p (s\<lparr>rvSlots := Suc (rvSlots s)\<rparr>))"
proof -
  have "{u. slotted (((rvPhase s)(t := p)) u)} = insert t {u. slotted (rvPhase s u)}" using assms(3) by auto
  with assms show ?thesis by (simp add: slotsOk_def)
qed

lemma slots_give:
  assumes "slotsOk s" "slotted (rvPhase s t)" "\<not> slotted p"
  shows "slotsOk (goTo t p (s\<lparr>rvSlots := rvSlots s - 1\<rparr>))"
proof -
  have "{u. slotted (((rvPhase s)(t := p)) u)} = {u. slotted (rvPhase s u)} - {t}" using assms(3) by auto
  moreover have "rvSlots s - 1 \<le> resolveConcurrency" using assms(1) unfolding slotsOk_def by linarith
  ultimately show ?thesis using assms by (simp add: slotsOk_def)
qed

lemma slotsOk_step: "resolveStep hash s s' \<Longrightarrow> slotsOk s \<Longrightarrow> slotsOk s'"
proof (induction rule: resolveStep.induct)
  case (slot s t)
  then show ?case by (intro slots_take) simp_all
next
  case (unslot s t r)
  then show ?case by (intro slots_give) simp_all
qed (rule slots_goTo, (assumption | force)+ | simp add: slotsOk_def)+

subsection \<open>Whose requests reach the tools\<close>

text \<open>An entry belongs to a hash when it is filed under it and names a user Gogs confirmed for it. An error
  is honest when it only says that credentials are rejected if Gogs rejected them.\<close>

definition owns :: "resolver \<Rightarrow> string \<Rightarrow> userEntry \<Rightarrow> bool" where
  "owns s h e \<longleftrightarrow> ueHash e = h \<and> (h, ueUserID e, ueUsername e) \<in> rvConfirmed s"

definition honest :: "resolver \<Rightarrow> string \<Rightarrow> resolution \<Rightarrow> bool" where
  "honest s h r \<longleftrightarrow> (case r of Inr e \<Rightarrow> owns s h e | Inl e \<Rightarrow> rejecting (AsError e) \<longrightarrow> h \<in> rvRejected s)"

fun phaseHonest :: "resolver \<Rightarrow> string \<Rightarrow> phase \<Rightarrow> bool" where
  "phaseHonest s h (Rejecting e) \<longleftrightarrow> h \<in> rvRejected s"
| "phaseHonest s h (Storing e) = owns s h e"
| "phaseHonest s h (Unslotting r) = honest s h r"
| "phaseHonest s h (Unclaiming r) = honest s h r"
| "phaseHonest s h (Closing r) = honest s h r"
| "phaseHonest s h (Answered r) = honest s h r"
| "phaseHonest s h _ = True"

definition entriesOwned :: "resolver \<Rightarrow> bool" where
  "entriesOwned s \<longleftrightarrow> (\<forall>(h, e) \<in> set (ucEntries (rvUsers s)). owns s h e)"

definition tokensRejected :: "resolver \<Rightarrow> bool" where
  "tokensRejected s \<longleftrightarrow> fst ` set (itEntries (rvInvalid s)) \<subseteq> rvRejected s"

definition phasesHonest :: "(nat \<Rightarrow> string) \<Rightarrow> resolver \<Rightarrow> bool" where
  "phasesHonest hash s \<longleftrightarrow> (\<forall>t. phaseHonest s (hash t) (rvPhase s t))
     \<and> (\<forall>c r. rvDone s c = Some r \<longrightarrow> honest s (hash c) r)"

lemma plainError_not_rejecting: "plainError e \<Longrightarrow> \<not> rejecting (AsError e)"
proof -
  assume "plainError e"
  then have "dropWhile (\<lambda>l. \<not> isGogs l) e = []" by (simp add: plainError_def list_all_iff)
  then have "AsError e = (if errIs e ContextCanceled \<or> errIs e ContextDeadlineExceeded
      then classifyTransportError e else gogsErr CodeInternal ''An internal error occurred.'')"
    by (simp only: AsError_def list.case)
  then show ?thesis using classifyTransport_codes [of e] by (auto simp: rejecting_def split: if_splits)
qed

lemma contextError_not_rejecting: "contextError e \<Longrightarrow> \<not> rejecting (AsError e)"
  by (rule plainError_not_rejecting) (auto simp: contextError_def plainError_def)

lemma getUser_Some: "getUser now h c = (Some e, us) \<Longrightarrow> (h, e) \<in> set (ucEntries c)"
  by (auto simp: getUser_def split: option.splits if_splits dest: map_of_SomeD)

lemma getUser_entries: "set (ucEntries (snd (getUser now h c))) \<subseteq> set (ucEntries c)"
  by (auto simp: getUser_def removeEntry_def set_delete split: option.split)

lemma invalidateUser_entries: "set (ucEntries (invalidateUser h c)) \<subseteq> set (ucEntries c)"
  by (auto simp: invalidateUser_def removeEntry_def set_delete split: option.split)

lemma putUser_entries:
  assumes "cacheOk c"
  shows "set (ucEntries (snd (putUser now e c))) \<subseteq> insert (ueHash e, e\<lparr>ueExpires := now + ucTTL c\<rparr>) (set (ucEntries c))"
proof (cases "map_of (ucEntries c) (ueHash e)")
  case None
  then show ?thesis using putUser_new [OF assms None] by (auto simp: set_delete)
qed (auto simp: putUser_def)

lemma putUser_kept:
  assumes "cacheOk c"
  shows "fst (fst (putUser now e c)) = e\<lparr>ueExpires := now + ucTTL c\<rparr> \<or> (ueHash e, fst (fst (putUser now e c))) \<in> set (ucEntries c)"
proof (cases "map_of (ucEntries c) (ueHash e)")
  case None
  then show ?thesis using putUser_new [OF assms None] by simp
next
  case (Some x)
  then show ?thesis by (auto simp: putUser_def dest: map_of_SomeD)
qed

lemma owns_expiry [simp]: "owns s h (e\<lparr>ueExpires := x\<rparr>) = owns s h e"
  by (simp add: owns_def)

text \<open>The history only grows, so what was honest stays honest.\<close>

definition grows :: "resolver \<Rightarrow> resolver \<Rightarrow> bool" where
  "grows s s' \<longleftrightarrow> rvConfirmed s \<subseteq> rvConfirmed s' \<and> rvRejected s \<subseteq> rvRejected s'"

lemma step_grows: "resolveStep hash s s' \<Longrightarrow> grows s s'"
  by (erule resolveStep.cases) (auto simp: grows_def)

lemma owns_grows: "grows s s' \<Longrightarrow> owns s h e \<Longrightarrow> owns s' h e"
  by (auto simp: grows_def owns_def)

lemma honest_grows: "grows s s' \<Longrightarrow> honest s h r \<Longrightarrow> honest s' h r"
  by (cases r) (auto simp: honest_def owns_grows, auto simp: grows_def)

lemma phaseHonest_grows: "grows s s' \<Longrightarrow> phaseHonest s h p \<Longrightarrow> phaseHonest s' h p"
  by (cases p) (auto simp: honest_grows owns_grows, auto simp: grows_def)

lemma entries_step:
  "resolveStep hash s s' \<Longrightarrow>
    (\<exists>t e. rvPhase s t = Storing e \<and> rvUsers s' = snd (putUser (rvNow s) e (rvUsers s)))
    \<or> set (ucEntries (rvUsers s')) \<subseteq> set (ucEntries (rvUsers s))"
proof (erule resolveStep.cases)
  fix s0 t e kept evicted us
  assume "s = s0" "s' = goTo t (Unslotting (Inr kept)) (s0\<lparr>rvUsers := us\<rparr>)" "rvPhase s0 t = Storing e"
    "putUser (rvNow s0) e (rvUsers s0) = ((kept, evicted), us)"
  then show ?thesis by (intro disjI1 exI [of _ t] exI [of _ e]) simp
qed (simp_all, (metis getUser_entries invalidateUser_entries snd_conv)+)

lemma tokens_step:
  "resolveStep hash s s' \<Longrightarrow>
    fst ` set (itEntries (rvInvalid s')) \<subseteq> fst ` set (itEntries (rvInvalid s))
    \<or> (\<exists>h. fst ` set (itEntries (rvInvalid s')) \<subseteq> insert h (fst ` set (itEntries (rvInvalid s)))
        \<and> (h \<in> rvRejected s \<or> (\<exists>t e. rvPhase s t = Rejecting e \<and> h = hash t)))"
proof (erule resolveStep.cases)
  fix s0 t e
  assume "s = s0" "rvPhase s0 t = Rejecting e"
    "s' = goTo t (Unslotting (Inl e)) (s0\<lparr>rvInvalid := addInvalid (rvNow s0) (hash t) (rvInvalid s0)\<rparr>)"
  then show ?thesis
    using addInvalid_keys by (intro disjI2 exI [of _ "hash t"]) auto
next
  fix s0 h
  assume "s = s0" "h \<in> rvRejected s0" "s' = s0\<lparr>rvInvalid := addInvalid (rvNow s0) h (rvInvalid s0)\<rparr>"
  then show ?thesis using addInvalid_keys by (intro disjI2 exI [of _ h]) auto
qed (simp_all, (metis hasInvalid_keys snd_conv)+)

lemma entriesOwned_step:
  assumes step: "resolveStep hash s s'" and ok: "storesOk s" "entriesOwned s" "phasesHonest hash s"
  shows "entriesOwned s'"
proof -
  have "owns s h e" if "(h, e) \<in> set (ucEntries (rvUsers s'))" for h e
    using entries_step [OF step]
  proof (elim disjE exE conjE)
    fix t x
    assume x: "rvPhase s t = Storing x" "rvUsers s' = snd (putUser (rvNow s) x (rvUsers s))"
    then have "owns s (hash t) x" using ok(3) by (metis phasesHonest_def phaseHonest.simps(2))
    with x that ok putUser_entries [of "rvUsers s" "rvNow s" x] show ?thesis
      by (auto simp: storesOk_def entriesOwned_def owns_def)
  next
    assume "set (ucEntries (rvUsers s')) \<subseteq> set (ucEntries (rvUsers s))"
    with that ok(2) show ?thesis by (auto simp: entriesOwned_def)
  qed
  then show ?thesis using owns_grows [OF step_grows [OF step]] by (auto simp: entriesOwned_def)
qed

lemma tokensRejected_step:
  assumes step: "resolveStep hash s s'" and ok: "phasesHonest hash s" "tokensRejected s"
  shows "tokensRejected s'"
proof -
  define old new where "old = fst ` set (itEntries (rvInvalid s))" and "new = fst ` set (itEntries (rvInvalid s'))"
  have "hash t \<in> rvRejected s" if "rvPhase s t = Rejecting e" for t e
    using ok(1) that by (metis phasesHonest_def phaseHonest.simps(1))
  then have "new \<subseteq> old \<or> (\<exists>h. new \<subseteq> insert h old \<and> h \<in> rvRejected s)"
    using tokens_step [OF step] unfolding old_def [symmetric] new_def [symmetric] by metis
  moreover have "old \<subseteq> rvRejected s" using ok(2) by (simp add: tokensRejected_def old_def)
  ultimately have "new \<subseteq> rvRejected s" by auto
  with step_grows [OF step] show ?thesis by (auto simp: tokensRejected_def grows_def new_def)
qed

text \<open>What the phase of a request becomes in a step is honest when everything before was.\<close>

lemma honest_error [simp]: "\<not> rejecting (AsError e) \<Longrightarrow> honest s h (Inl e)"
  by (simp add: honest_def)

lemma honest_rejected [simp]: "h \<in> rvRejected s \<Longrightarrow> honest s h (Inl e)"
  by (simp add: honest_def)

lemma honest_entry [simp]: "honest s h (Inr e) = owns s h e"
  by (simp add: honest_def)

lemma phasesHonest_step:
  assumes step: "resolveStep hash s s'" and ok: "storesOk s" "entriesOwned s" "tokensRejected s"
    "followersOk hash s" "phasesHonest hash s"
  shows "phasesHonest hash s'"
proof -
  have old: "phaseHonest s' (hash t) (rvPhase s t)" "rvDone s t = Some r \<Longrightarrow> honest s' (hash t) r" for t r
    using ok(5) phaseHonest_grows [OF step_grows [OF step]] honest_grows [OF step_grows [OF step]]
    by (auto simp: phasesHonest_def)
  have move: "phasesHonest hash s'"
    if "rvPhase s' = (rvPhase s)(t := p)" "phaseHonest s' (hash t) p" "rvDone s' = rvDone s" for t p
    using that old by (auto simp: phasesHonest_def)
  show ?thesis
    using step
  proof cases
    case (authHit t e us)
    have "owns s (hash t) e" using ok(2) getUser_Some [OF authHit(3)] by (auto simp: entriesOwned_def)
    then have "owns s' (hash t) e" by (rule owns_grows [OF step_grows [OF step]])
    with authHit show ?thesis by (intro move [of t "Answered (Inr e)"]) simp_all
  next
    case (negative t iv)
    have "hash t \<in> rvRejected s"
      using hasInvalid_known [of "rvNow s" "hash t" "rvInvalid s"] negative(3) ok(3) by (auto simp: tokensRejected_def)
    with negative show ?thesis by (intro move [of t "Answered (Inl rejectedError)"]) simp_all
  next
    case (joined t c r)
    have "hash c = hash t" using ok(4) joined(2) by (simp add: followersOk_def)
    with old(2) [OF joined(3)] joined show ?thesis by (intro move [of t "Answered r"]) simp_all
  next
    case (store t e kept evicted us)
    have e: "owns s (hash t) e" using ok(5) store(2) by (metis phasesHonest_def phaseHonest.simps(2))
    have "owns s (hash t) kept"
      using putUser_kept [of "rvUsers s" "rvNow s" e] store(3) ok(1,2) e
      by (auto simp: storesOk_def entriesOwned_def owns_def)
    then have "owns s' (hash t) kept" by (rule owns_grows [OF step_grows [OF step]])
    with store show ?thesis by (intro move [of t "Unslotting (Inr kept)"]) simp_all
  next
    case (close t r)
    have "honest s' (hash t) r" using old(1) [of t] close(2) by simp
    with close old show ?thesis by (auto simp: phasesHonest_def)
  next
    case (noClient t e)
    then show ?thesis by (intro move [of t "Unslotting (Inl e)"]) (simp_all add: plainError_not_rejecting)
  next
    case (notBuilt t e uid name)
    then show ?thesis by (intro move [of t "Unslotting (Inl e)"]) (simp_all add: plainError_not_rejecting)
  next
    case (abandoned t c e)
    then show ?thesis by (intro move [of t "Answered (Inl e)"]) (simp_all add: contextError_not_rejecting)
  next
    case (noSlot t e)
    then show ?thesis by (intro move [of t "Unclaiming (Inl e)"]) (simp_all add: contextError_not_rejecting)
  next
    case (unavailable t e)
    then show ?thesis by (intro move [of t "Unslotting (Inl (AsError e))"]) (simp_all add: AsError_idem)
  next
    case (confirmed t e)
    then show ?thesis by (intro move [of t "Storing e"]) (simp_all add: owns_def)
  next
    case (remember t e)
    then show ?thesis using old(1) [of t] by (intro move [of t "Unslotting (Inl e)"]) simp_all
  next
    case (unslot t r)
    then show ?thesis using old(1) [of t] by (intro move [of t "Unclaiming r"]) simp_all
  next
    case (unclaim t r)
    then show ?thesis using old(1) [of t] by (intro move [of t "Closing r"]) simp_all
  next
    case (refused t e)
    then show ?thesis by (intro move [of t "Rejecting (AsError e)"]) simp_all
  qed (use old in \<open>auto simp: phasesHonest_def\<close>)
qed

subsection \<open>All reachable states\<close>

definition resolverOk :: "(nat \<Rightarrow> string) \<Rightarrow> resolver \<Rightarrow> bool" where
  "resolverOk hash s \<longleftrightarrow> storesOk s \<and> placesOk hash s \<and> followersOk hash s \<and> slotsOk s
     \<and> entriesOwned s \<and> tokensRejected s \<and> phasesHonest hash s"

lemma resolverOk_step: "resolveStep hash s s' \<Longrightarrow> resolverOk hash s \<Longrightarrow> resolverOk hash s'"
  unfolding resolverOk_def
  by (elim conjE, intro conjI)
    (simp_all add: storesOk_step placesOk_step followersOk_step slotsOk_step entriesOwned_step
      tokensRejected_step phasesHonest_step)

lemma resolverOk_start:
  assumes "newServer split options = Inr server"
  shows "resolverOk hash (startResolver server now)"
proof -
  obtain ho where ho: "newOptions split options = Inr ho"
    and server: "hsUsers server = newUserCache (hoMaxUsers ho) (hoUserCacheTTL ho)"
      "hsInvalid server = newInvalidTokens invalidTokenCacheCapacity (hoUserCacheTTL ho)" "hsSlots server = 0"
    using assms by (auto simp: newServer_def bindE_eq_Inr)
  have "1 \<le> hoMaxUsers ho \<and> second \<le> hoUserCacheTTL ho"
    using ho by (auto simp: newOptions_def bindE_eq_Inr setWhen_def minMaxUsers_def minUserCacheTTL_def)
  then have "storesOk (startResolver server now)"
    using server by (simp add: storesOk_def startResolver_def cacheOk_new tokensOk_new
        invalidTokenCacheCapacity_def second_def)
  then show ?thesis
    using server by (simp add: resolverOk_def startResolver_def placesOk_def followersOk_def slotsOk_def
        entriesOwned_def tokensRejected_def phasesHonest_def newUserCache_def newInvalidTokens_def)
qed

lemma reachable_ok:
  assumes "newServer split options = Inr server" "reachable server now hash s"
  shows "resolverOk hash s"
  using assms(2) unfolding reachable_def
  by (induction rule: rtranclp_induct) (auto intro: resolverOk_start [OF assms(1)] resolverOk_step)

lemma answerAuth_pass: "answerAuth header r = Inr e \<longleftrightarrow> r = Inr e"
  by (auto simp: answerAuth_def Let_def split: sum.split)

lemma answerAuth_401: "answerAuth header r = Inl a \<Longrightarrow> haStatus a = 401 \<Longrightarrow> \<exists>e. r = Inl e \<and> rejecting (AsError e)"
  by (auto simp: answerAuth_def Let_def writeUnavailable_def split: sum.splits if_splits)

text \<open>C29: However many requests run at once and in whatever order their steps interleave, a request reaches
  the tools only as a user that Gogs confirmed for the token of this very request, and it is refused with
  401 only when Gogs rejected this token; a request that Gogs could not decide is answered with 503.\<close>

theorem identity_from_gogs:
  assumes "newServer split options = Inr server" "reachable server now hash s"
    and "rvPhase s t = Answered r"
  shows "(case answerAuth header r of
       Inr e \<Rightarrow> ueHash e = hash t \<and> (hash t, ueUserID e, ueUsername e) \<in> rvConfirmed s
     | Inl a \<Rightarrow> (haStatus a = 401 \<and> hash t \<in> rvRejected s) \<or> haStatus a = 503)"
proof -
  have "phaseHonest s (hash t) (Answered r)"
    using reachable_ok [OF assms(1,2)] assms(3) by (metis resolverOk_def phasesHonest_def)
  then have "honest s (hash t) r" by simp
  then show ?thesis
    by (auto simp: honest_def owns_def answerAuth_def Let_def writeUnauthorized_def writeUnavailable_def
        split: sum.splits)
qed


subsection \<open>A run\<close>

text \<open>Two requests with one token: the second follows the first, and both are answered as the user.\<close>

definition sampleOptions :: httpOptions where
  "sampleOptions = \<lparr>hoAddr = '':80'', hoEndpoint = ''/mcp'', hoTokenHeader = ''X'', hoUserCacheTTL = second,
     hoMaxUsers = 1, hoJSONResponse = False,
     hoBaseURL = Some \<lparr>Scheme = ''https'', Host = ''h'', Path = [], urlUser = False, RawQuery = [], Fragment = []\<rparr>,
     hoCAFile = [], hoUserAgent = [], hoHTTPTimeout = 1, hoCacheRoot = ''/c'', hoCacheTTL = 1, hoCacheMaxBytes = 1,
     hoSearchTimeout = 1, hoSearchMaxFileBytes = 1, hoWriteEnabled = False, hoSnapshots = True,
     hoLogDestination = True, hoLogLevel = ''info''\<rparr>"

definition sampleServer :: httpServer where
  "sampleServer = \<lparr>hsOptions = sampleOptions, hsApiRoot = serverAPIRoot (the (hoBaseURL sampleOptions)),
     hsUsers = newUserCache 1 second, hsInvalid = newInvalidTokens 4096 second, hsSlots = 0\<rparr>"

lemma sample_server: "newServer (\<lambda>_. Inr ()) sampleOptions = Inr sampleServer"
  by (subst newServer_accepts)
    (simp_all add: sampleOptions_def sampleServer_def healthzEndpoint_def isRooted_def slash_def second_def
      invalidTokenCacheCapacity_def)

definition ann :: userEntry where
  "ann = \<lparr>ueHash = ''k'', ueUserID = 7, ueUsername = ''ann'', ueServer = 0, ueExpires = 0\<rparr>"

lemma advance: "resolveStep hash s s' \<Longrightarrow> (resolveStep hash)\<^sup>*\<^sup>* s' u \<Longrightarrow> (resolveStep hash)\<^sup>*\<^sup>* s u"
  by (rule converse_rtranclp_into_rtranclp)

lemmas runSimps = startResolver_def sampleServer_def getUser_def newUserCache_def hasInvalid_def newInvalidTokens_def
  resolveConcurrency_def putUser_def ann_def

lemma sample_flight:
  "\<exists>s. reachable sampleServer 0 (\<lambda>_. ''k'') s \<and> rvPhase s 0 = Probing \<and> rvPhase s 1 = Following 0"
  unfolding reachable_def
  apply (intro exI conjI)
    apply (rule advance, rule authMiss [where t = 0], simp add: runSimps, simp add: runSimps)
    apply (rule advance, rule authMiss [where t = 1], simp add: runSimps, simp add: runSimps)
    apply (rule advance, rule cacheMiss [where t = 0], simp, simp add: runSimps)
    apply (rule advance, rule cacheMiss [where t = 1], simp, simp add: runSimps)
    apply (rule advance, rule notNegative [where t = 0], simp, simp add: runSimps)
    apply (rule advance, rule notNegative [where t = 1], simp, simp add: runSimps)
    apply (rule advance, rule lead [where t = 0], simp, simp add: runSimps)
    apply (rule advance, rule follow [where t = 1], simp, simp)
    apply (rule advance, rule slot [where t = 0], simp, simp add: runSimps)
    apply (rule rtranclp.rtrancl_refl)
   apply simp_all
  done

lemma sample_answer:
  "\<exists>s e. reachable sampleServer 0 (\<lambda>_. ''k'') s \<and> rvPhase s 0 = Answered (Inr e) \<and> ueUserID e = 7"
  unfolding reachable_def
  apply (intro exI conjI)
    apply (rule advance, rule authMiss [where t = 0], simp add: runSimps, simp add: runSimps)
    apply (rule advance, rule cacheMiss [where t = 0], simp, simp add: runSimps)
    apply (rule advance, rule notNegative [where t = 0], simp, simp add: runSimps)
    apply (rule advance, rule lead [where t = 0], simp, simp add: runSimps)
    apply (rule advance, rule slot [where t = 0], simp, simp add: runSimps)
    apply (rule advance, rule confirmed [where t = 0 and e = ann], simp, simp add: ann_def)
    apply (rule advance, rule store [where t = 0], simp, simp add: runSimps Let_def)
    apply (rule advance, rule unslot [where t = 0], simp)
    apply (rule advance, rule unclaim [where t = 0], simp)
    apply (rule advance, rule close [where t = 0], simp)
    apply (rule rtranclp.rtrancl_refl)
   apply simp
  apply simp
  done

theorem identity_from_gogs_witness:
  "\<exists>s e. reachable sampleServer 0 (\<lambda>_. ''k'') s \<and> rvPhase s 0 = Answered (Inr e)
    \<and> (''k'', 7, ueUsername e) \<in> rvConfirmed s"
proof -
  obtain s e where s: "reachable sampleServer 0 (\<lambda>_. ''k'') s" "rvPhase s 0 = Answered (Inr e)" "ueUserID e = 7"
    using sample_answer by blast
  from identity_from_gogs [OF sample_server s(1,2), of "''X''"] s show ?thesis
    by (auto simp: answerAuth_def)
qed


end
