(* ===== verification/HttpRoutes.thy ===== *)
theory HttpRoutes
  imports HttpServer
begin

text \<open>
  internal/httpserver/httpserver.go, the part around the MCP endpoint: the routes of \<open>Handler\<close>, the health probe, and
  how \<open>Run\<close> ends. \<open>http.ServeMux\<close> is modelled for the two patterns the server registers and for requests other than
  CONNECT, whose escaped path it redirects to its clean form first. \<open>wild\<close> stands for its matching of a pattern with
  wildcards, \<open>None\<close> where it rejects one; the SDK handler is the parameter \<open>streamable\<close>.
\<close>

section \<open>Paths and patterns of the multiplexer\<close>

fun unhex :: "char \<Rightarrow> nat option" where
  "unhex c = (let n = of_char c :: nat in
     if 48 \<le> n \<and> n \<le> 57 then Some (n - 48)
     else if 97 \<le> n \<and> n \<le> 102 then Some (n - 87)
     else if 65 \<le> n \<and> n \<le> 70 then Some (n - 55) else None)"

fun percentDecode :: "string \<Rightarrow> string option" where
  "percentDecode [] = Some []"
| "percentDecode (c # cs) =
     (if c \<noteq> CHR ''%'' then map_option ((#) c) (percentDecode cs)
      else (case cs of
          a # b # rest \<Rightarrow>
            (case (unhex a, unhex b) of
               (Some m, Some n) \<Rightarrow> map_option ((#) (char_of (16 * m + n))) (percentDecode rest)
             | _ \<Rightarrow> None)
        | _ \<Rightarrow> None))"

text \<open>A segment that does not decode is compared as it stands.\<close>

definition pathUnescape :: "string \<Rightarrow> string" where
  "pathUnescape s = (case percentDecode s of None \<Rightarrow> s | Some t \<Rightarrow> t)"

definition muxSegments :: "string \<Rightarrow> string list" where
  "muxSegments p = map pathUnescape (splitOn slash p)"

definition tab :: char where "tab = CHR 0x09"

text \<open>A pattern with a blank has a method before it, a brace opens a wildcard, and a slash at the end matches a
  whole tree; the others match one path.\<close>

definition blankIn :: "string \<Rightarrow> bool" where
  "blankIn p \<longleftrightarrow> CHR '' '' \<in> set p \<or> tab \<in> set p"

definition plainPattern :: "string \<Rightarrow> bool" where
  "plainPattern p \<longleftrightarrow> isRooted p \<and> last p \<noteq> slash \<and> set p \<inter> {CHR ''{'', CHR ''}''} = {} \<and> \<not> blankIn p"

definition muxMatcher :: "(string \<Rightarrow> (string \<Rightarrow> bool) option) \<Rightarrow> string \<Rightarrow> (string \<Rightarrow> bool) option" where
  "muxMatcher wild p =
     (if isRooted p \<and> blankIn p then None
      else if plainPattern p then Some (\<lambda>requestPath. muxSegments requestPath = muxSegments p) else wild p)"

text \<open>\<open>cleanPath\<close> of the multiplexer keeps a slash at the end.\<close>

definition muxClean :: "string \<Rightarrow> string" where
  "muxClean p =
     (if p = [] then [slash]
      else (let p = (if hd p \<noteq> slash then slash # p else p); np = pathClean p in
        if last p = slash \<and> np \<noteq> [slash] then np @ [slash] else np))"

section \<open>The handlers\<close>

datatype route =
    Redirected string
  | Health "writerCall list"
  | NotFound
  | Endpoint accessLine "writerCall list"

definition handleHealthz :: "writerCall list" where
  "handleHealthz = [CallWriteHeader 200, CallWrite (''ok'' @ [CHR 0x0A])]"

text \<open>The tool server of the identity; without one the SDK answers by itself.\<close>

definition streamableServer :: "userEntry option \<Rightarrow> int option" where
  "streamableServer ctx = map_option ueServer ctx"

text \<open>The multiplexer with both patterns registered; the health probe is the more specific one wherever both
  match.\<close>

definition serveMux :: "(string \<Rightarrow> bool) \<Rightarrow> handler \<Rightarrow> string \<Rightarrow> route" where
  "serveMux matches mcp requestPath =
     (if muxClean requestPath \<noteq> requestPath then Redirected (muxClean requestPath)
      else if muxSegments requestPath = muxSegments healthzEndpoint then Health handleHealthz
      else if matches requestPath then (case withAccessLog mcp None of (line, calls) \<Rightarrow> Endpoint line calls)
      else NotFound)"

text \<open>Registering them panics (\<open>None\<close>) when the multiplexer rejects one or when they clash.\<close>

definition registered :: "(string \<Rightarrow> (string \<Rightarrow> bool) option) \<Rightarrow> string \<Rightarrow> (string \<Rightarrow> bool) option" where
  "registered wild endpoint =
     (if plainPattern endpoint \<and> muxSegments endpoint = muxSegments healthzEndpoint then None
      else muxMatcher wild endpoint)"

definition Handler :: "(string \<Rightarrow> (string \<Rightarrow> bool) option) \<Rightarrow> httpServer \<Rightarrow> (string \<Rightarrow> goerr + userEntry) \<Rightarrow>
    (int option \<Rightarrow> writerCall list) \<Rightarrow> (string \<Rightarrow> string \<Rightarrow> route) option" where
  "Handler wild server resolve streamable =
     map_option
       (\<lambda>matches requestPath header.
          serveMux matches
            (withAuthentication (hoTokenHeader (hsOptions server)) resolve header
               (\<lambda>ctx. streamable (streamableServer ctx)))
            requestPath)
       (registered wild (hoEndpoint (hsOptions server)))"

section \<open>The end of a run\<close>

text \<open>What happens to a started server: the context ends and \<open>Shutdown\<close> returns, or \<open>Serve\<close> returns first. A
  listener has its address and whether that is a loopback one.\<close>

datatype serverEnd = Cancelled "goerr option" | ServeReturned goerr

datatype runEnd = RunOK | ListenError string goerr | RunErr goerr | RunPanic

record listenWorld =
  swListen :: "string \<Rightarrow> goerr + string \<times> bool"
  swWild :: "string \<Rightarrow> (string \<Rightarrow> bool) option"
  swEnd :: "httpServer \<Rightarrow> serverEnd"
  swServerClosed :: "goerr \<Rightarrow> bool"

type_synonym logLine = "string \<times> string \<times> (string \<times> string) list"

definition serveEnds :: "listenWorld \<Rightarrow> httpServer \<Rightarrow> runEnd" where
  "serveEnds w server =
     (if registered (swWild w) (hoEndpoint (hsOptions server)) = None then RunPanic
      else (case swEnd w server of
        Cancelled None \<Rightarrow> RunOK
      | Cancelled (Some err) \<Rightarrow> RunErr (MsgErr ''shut down the HTTP transport'' # err)
      | ServeReturned err \<Rightarrow>
          if swServerClosed w err then RunOK else RunErr (MsgErr ''serve the HTTP transport'' # err)))"

definition runServer :: "listenWorld \<Rightarrow> httpServer \<Rightarrow> logLine list \<times> runEnd" where
  "runServer w server =
     (case swListen w (hoAddr (hsOptions server)) of
        Inl err \<Rightarrow> ([], ListenError (hoAddr (hsOptions server)) err)
      | Inr (address, loopback) \<Rightarrow>
          ((if loopback then []
            else [(''warn'', ''The HTTP transport serves plaintext traffic; terminate TLS with a reverse proxy.'', [])])
             @ [(''info'', ''The HTTP transport is listening.'',
                  [(''address'', address), (''endpoint'', hoEndpoint (hsOptions server))])],
           serveEnds w server))"

section \<open>What the routes promise\<close>

text \<open>The calls that reach the writer of an MCP request: only a resolved identity gets to the SDK.\<close>

lemma withAuthentication_calls:
  "withAuthentication tokenHeader resolve header inner ctx =
     (case extractToken header of
        None \<Rightarrow> answerCalls (writeUnauthorized tokenHeader)
      | Some tok \<Rightarrow> (case resolve tok of
          Inr entry \<Rightarrow> inner (Some entry)
        | Inl err \<Rightarrow> answerCalls (if rejecting (AsError err) then writeUnauthorized tokenHeader
            else writeUnavailable (AsError err))))"
  by (simp add: withAuthentication_def answerAuth_def Let_def split: option.split sum.split)

lemma muxClean_endpoint:
  assumes "isRooted p" "pathClean p = p" "last p \<noteq> slash"
  shows "muxClean p = p"
proof -
  have "p \<noteq> []" "hd p = slash" using assms(1) by (cases p; simp add: isRooted_def)+
  then show ?thesis using assms by (simp add: muxClean_def)
qed

lemma muxClean_healthz: "muxClean healthzEndpoint = healthzEndpoint"
  by code_simp

lemma Handler_plain:
  assumes "plainPattern (hoEndpoint (hsOptions s))"
    and "muxSegments (hoEndpoint (hsOptions s)) \<noteq> muxSegments healthzEndpoint"
  shows "Handler wild s resolve streamable = Some (\<lambda>requestPath header.
     serveMux (\<lambda>p. muxSegments p = muxSegments (hoEndpoint (hsOptions s)))
       (withAuthentication (hoTokenHeader (hsOptions s)) resolve header (\<lambda>ctx. streamable (streamableServer ctx)))
       requestPath)"
  using assms by (simp add: Handler_def registered_def muxMatcher_def plainPattern_def)

lemma serveMux_Endpoint:
  "serveMux matches mcp p = Endpoint line calls \<Longrightarrow> matches p \<and> calls = mcp None \<and>
     alStatus line = (case calls of CallWriteHeader n # _ \<Rightarrow> n | _ \<Rightarrow> 200)"
  using access_log_status [of mcp None line calls] by (auto simp: serveMux_def split: if_splits prod.splits)

lemma serveMux_reaches:
  "muxClean p = p \<Longrightarrow> muxSegments p \<noteq> muxSegments healthzEndpoint \<Longrightarrow> matches p \<Longrightarrow>
     \<exists>line calls. serveMux matches mcp p = Endpoint line calls"
  by (simp add: serveMux_def split: prod.split)

lemma serveMux_other:
  "muxSegments p \<noteq> muxSegments healthzEndpoint \<Longrightarrow> \<not> matches p \<Longrightarrow>
     serveMux matches mcp p \<noteq> NotFound \<Longrightarrow> serveMux matches mcp p = Redirected (muxClean p)"
  by (simp add: serveMux_def split: if_splits)

lemma serveMux_probe:
  "serveMux matches mcp healthzEndpoint = Health [CallWriteHeader 200, CallWrite (''ok'' @ [CHR 0x0A])]"
  by (simp add: serveMux_def muxClean_healthz handleHealthz_def)

text \<open>A path that New or Load accept can still stop the server at its start: one with a blank, or an escaped
  spelling of the health probe.\<close>

lemma blank_endpoint_panics:
  assumes "isRooted (hoEndpoint (hsOptions s))" "blankIn (hoEndpoint (hsOptions s))"
  shows "Handler wild s resolve streamable = None"
  using assms by (simp add: Handler_def registered_def muxMatcher_def)

lemma escaped_healthz_panics:
  "hoEndpoint (hsOptions s) = ''/health%7a'' \<Longrightarrow> Handler wild s resolve streamable = None"
proof -
  have "plainPattern ''/health%7a''" "muxSegments ''/health%7a'' = muxSegments healthzEndpoint" by code_simp+
  then show "hoEndpoint (hsOptions s) = ''/health%7a'' \<Longrightarrow> ?thesis"
    by (simp add: Handler_def registered_def muxMatcher_def plainPattern_def)
qed

lemma odd_endpoints_load:
  "\<forall>p \<in> {''/a b'', ''/health%7a'', ''/{x}''}. isRooted p \<and> p \<noteq> [slash] \<and> p \<noteq> ''/healthz'' \<and> pathClean p = p"
  by code_simp

text \<open>C33: A configuration that \<open>Load\<close> accepts for the http transport with a plain endpoint makes a server
  that guards its tools: the health probe answers anybody without a credential, the endpoint answers every request,
  and whatever an MCP request gets from the SDK comes from the tool server of the identity that its own
  token was resolved to. A request without a usable credential or with a rejected token is answered 401, one
  whose token could not be checked 503, and the access log has the status that was sent; any other path
  reaches neither.\<close>

theorem http_routing:
  assumes "Load w path lookup = Inr c" "Transport c = ''http''" "second \<le> HTTPUserCacheTTL c"
    and "cwSplitHostPort w (HTTPAddr c) = Inr ()" "resolveCacheDir userCacheDir c = Inr root" "isRooted root"
    and "plainPattern (HTTPEndpoint c)" "muxSegments (HTTPEndpoint c) \<noteq> muxSegments healthzEndpoint"
  shows "\<exists>s route. newServer (cwSplitHostPort w) (serveOptions c root version) = Inr s
    \<and> hsApiRoot s = APIRoot c \<and> Handler wild s resolve streamable = Some route
    \<and> (\<forall>header. route healthzEndpoint header = Health [CallWriteHeader 200, CallWrite (''ok'' @ [CHR 0x0A])])
    \<and> (\<forall>header. \<exists>line calls. route (HTTPEndpoint c) header = Endpoint line calls)
    \<and> (\<forall>p header line calls. route p header = Endpoint line calls \<longrightarrow>
         muxSegments p = muxSegments (HTTPEndpoint c)
         \<and> calls = (case extractToken header of
              None \<Rightarrow> answerCalls (writeUnauthorized (HTTPTokenHeader c))
            | Some tok \<Rightarrow> (case resolve tok of
                Inr entry \<Rightarrow> streamable (Some (ueServer entry))
              | Inl err \<Rightarrow> answerCalls (if rejecting (AsError err) then writeUnauthorized (HTTPTokenHeader c)
                  else writeUnavailable (AsError err))))
         \<and> alStatus line = (case calls of CallWriteHeader n # _ \<Rightarrow> n | _ \<Rightarrow> 200))
    \<and> (\<forall>p header. muxSegments p \<notin> {muxSegments (HTTPEndpoint c), muxSegments healthzEndpoint} \<longrightarrow>
         route p header \<in> {NotFound, Redirected (muxClean p)})"
proof -
  obtain s where s: "newServer (cwSplitHostPort w) (serveOptions c root version) = Inr s"
      "hsOptions s = serveOptions c root version" "hsApiRoot s = APIRoot c"
    using loaded_config_serves [OF assms(1-6)] by blast
  then have opts: "hoEndpoint (hsOptions s) = HTTPEndpoint c" "hoTokenHeader (hsOptions s) = HTTPTokenHeader c"
    by (simp_all add: serveOptions_def)
  have "isRooted (HTTPEndpoint c)" "pathClean (HTTPEndpoint c) = HTTPEndpoint c" "last (HTTPEndpoint c) \<noteq> slash"
    using load_configOk assms(1,7) by (auto simp: Load_def configOk_def httpSettingsOk_def plainPattern_def)
  then have clean: "muxClean (HTTPEndpoint c) = HTTPEndpoint c" by (rule muxClean_endpoint)
  let ?mcp = "\<lambda>header. withAuthentication (HTTPTokenHeader c) resolve header (\<lambda>ctx. streamable (streamableServer ctx))"
  let ?route = "\<lambda>p header. serveMux (\<lambda>p. muxSegments p = muxSegments (HTTPEndpoint c)) (?mcp header) p"
  have route: "Handler wild s resolve streamable = Some ?route"
    using Handler_plain [of s wild resolve streamable] assms(7,8) unfolding opts by blast
  have calls: "?mcp header None
      = (case extractToken header of
           None \<Rightarrow> answerCalls (writeUnauthorized (HTTPTokenHeader c))
         | Some tok \<Rightarrow> (case resolve tok of
             Inr entry \<Rightarrow> streamable (Some (ueServer entry))
           | Inl err \<Rightarrow> answerCalls (if rejecting (AsError err) then writeUnauthorized (HTTPTokenHeader c)
               else writeUnavailable (AsError err))))" for header
    by (simp only: withAuthentication_calls streamableServer_def option.map)
  show ?thesis
  proof (intro exI [of _ s] exI [of _ ?route] conjI allI impI)
    fix p header line calls
    assume "?route p header = Endpoint line calls"
    from serveMux_Endpoint [OF this] show "muxSegments p = muxSegments (HTTPEndpoint c)"
      "calls = (case extractToken header of
           None \<Rightarrow> answerCalls (writeUnauthorized (HTTPTokenHeader c))
         | Some tok \<Rightarrow> (case resolve tok of
             Inr entry \<Rightarrow> streamable (Some (ueServer entry))
           | Inl err \<Rightarrow> answerCalls (if rejecting (AsError err) then writeUnauthorized (HTTPTokenHeader c)
               else writeUnavailable (AsError err))))"
      "alStatus line = (case calls of CallWriteHeader n # _ \<Rightarrow> n | _ \<Rightarrow> 200)"
      unfolding calls by blast+
  qed (use s route clean assms(8) in \<open>auto intro!: serveMux_reaches serveMux_other simp: serveMux_probe\<close>)
qed

lemma http_loads_endpoint:
  "map_sum id (\<lambda>c. (Transport c, HTTPUserCacheTTL c, CacheDir c, HTTPEndpoint c)) (Load sampleConfigWorld [] httpEnv)
    = Inr (''http'', 300 * second, ''/c'', ''/mcp'')"
  by code_simp

theorem http_routing_witness:
  "case Load sampleConfigWorld [] httpEnv of
     Inr c \<Rightarrow> (\<exists>s route. newServer (cwSplitHostPort sampleConfigWorld) (serveOptions c ''/c'' ''1'') = Inr s
       \<and> Handler (\<lambda>p. None) s (\<lambda>tok. Inl []) (\<lambda>server. []) = Some route
       \<and> (\<forall>header. \<exists>line calls. route ''/mcp'' header = Endpoint line calls))
   | Inl _ \<Rightarrow> False"
proof -
  from http_loads_endpoint obtain c where c: "Load sampleConfigWorld [] httpEnv = Inr c"
    "Transport c = ''http''" "HTTPUserCacheTTL c = 300 * second" "CacheDir c = ''/c''" "HTTPEndpoint c = ''/mcp''"
    by (cases "Load sampleConfigWorld [] httpEnv") auto
  have h: "resolveCacheDir (Inl []) c = Inr ''/c''" "isRooted ''/c''" "second \<le> HTTPUserCacheTTL c"
    "cwSplitHostPort sampleConfigWorld (HTTPAddr c) = Inr ()"
    using c by (simp_all add: resolveCacheDir_def isRooted_def slash_def second_def sampleConfigWorld_def)
  have "plainPattern ''/mcp''" "muxSegments ''/mcp'' \<noteq> muxSegments healthzEndpoint" by code_simp+
  then have p: "plainPattern (HTTPEndpoint c)" "muxSegments (HTTPEndpoint c) \<noteq> muxSegments healthzEndpoint"
    using c by simp_all
  from http_routing [OF c(1,2) h(3,4,1,2) p, of "''1''" "\<lambda>p. None" "\<lambda>tok. Inl []" "\<lambda>server. []"] c(1,5)
  show ?thesis by fastforce
qed

end
