(* ===== verification/CommitGraph.thy ===== *)
theory CommitGraph
  imports GogsErrors
begin

text \<open>
  The commit graph part of internal/gogs/gitdiff.go: the bounded walk \<open>reachableCommits\<close>, the
  commits of a pull request (\<open>commitsSince\<close>) and its merge bases (\<open>boundedMergeBases\<close>). The object
  store of the Git library is a function from hashes to what reading them gives. The context is the
  function that says with which error, if any, the n-th check of \<open>ctx.Err()\<close> answers. A Go map
  from hashes to commits is the list of its entries in the order of their insertion.

  The walk is specified by the locale \<open>historyWalk\<close>, what a caller may rely on; the lemmas on commit
  lists and merge bases are proved from that contract and used through its interpretation.
\<close>

section \<open>Commits and the walk\<close>

record gcommit =
  gcHash :: string
  gcParents :: "string list"
  gcMessage :: string
  gcAuthor :: string
  gcDate :: string

datatype stored =
    Unreadable goerr
  | Undecodable int goerr
  | Stored int gcommit

type_synonym objectStore = "string \<Rightarrow> stored"

type_synonym goctx = "nat \<Rightarrow> goerr option"

definition maximumHistoryCommits :: int where
  "maximumHistoryCommits = 100000"

definition maximumCommitBytes :: int where
  "maximumCommitBytes = 1048576"

definition maximumHistoryBytes :: int where
  "maximumHistoryBytes = 67108864"

definition readCommit :: "objectStore \<Rightarrow> int \<Rightarrow> string \<Rightarrow> goerr + (int \<times> gcommit)" where
  "readCommit objects bytesRead hash =
     (case objects hash of
        Unreadable e \<Rightarrow> Inl (mkError CodeGogsError ''Could not read a history commit.'' False 0 e)
      | Undecodable sz e \<Rightarrow>
          if sz > maximumCommitBytes \<or> bytesRead + sz > maximumHistoryBytes then
            Inl (gogsErr CodeResponseTooLarge ''Git history exceeds 1 MiB per commit or 64 MiB of commit data.'')
          else Inl (mkError CodeGogsError ''Could not walk the pull request history.'' False 0 e)
      | Stored sz commit \<Rightarrow>
          if sz > maximumCommitBytes \<or> bytesRead + sz > maximumHistoryBytes then
            Inl (gogsErr CodeResponseTooLarge ''Git history exceeds 1 MiB per commit or 64 MiB of commit data.'')
          else Inr (sz, commit))"

text \<open>\<open>pending\<close> is the stack of the code with its top at the front: popping takes the head, and
  appending the parents pushes them in order, the last one on top.\<close>

function walkLoop :: "goctx \<Rightarrow> objectStore \<Rightarrow> (string \<times> gcommit) list \<Rightarrow> nat \<Rightarrow> int \<Rightarrow>
    (string \<times> gcommit) list \<Rightarrow> string list \<Rightarrow> goerr + (string \<times> gcommit) list" where
  "walkLoop ctx objects excluded tick bytesRead seen [] = Inr seen"
| "walkLoop ctx objects excluded tick bytesRead seen (hash # pending) =
     (case ctx tick of Some e \<Rightarrow> Inl (classifyTransportError e)
      | None \<Rightarrow>
        (if hash \<in> fst ` set seen \<or> hash \<in> fst ` set excluded then
           walkLoop ctx objects excluded (Suc tick) bytesRead seen pending
         else if int (length seen) \<ge> maximumHistoryCommits then
           Inl (gogsErr CodeResponseTooLarge ''The Git history exceeds the 100000-commit traversal limit.'')
         else (case readCommit objects bytesRead hash of
             Inl e \<Rightarrow> Inl e
           | Inr (sz, commit) \<Rightarrow>
               walkLoop ctx objects excluded (Suc tick) (bytesRead + sz) (seen @ [(hash, commit)])
                 (rev (gcParents commit) @ pending))))"
  by pat_completeness auto
termination
  by (relation "measures [\<lambda>(ctx, ob, ex, t, b, seen, pending). nat (maximumHistoryCommits - int (length seen)),
      \<lambda>(ctx, ob, ex, t, b, seen, pending). length pending]") auto

definition reachableCommits :: "goctx \<Rightarrow> objectStore \<Rightarrow> string \<Rightarrow> (string \<times> gcommit) list \<Rightarrow>
    goerr + (string \<times> gcommit) list" where
  "reachableCommits ctx objects head excluded = walkLoop ctx objects excluded 0 0 [] [head]"

record PullCommit =
  pcSHA :: string
  pcMessage :: string
  pcAuthor :: string
  pcDate :: string

definition pullCommitOf :: "gcommit \<Rightarrow> PullCommit" where
  "pullCommitOf commit =
     \<lparr>pcSHA = gcHash commit,
      pcMessage = (case cut (gcMessage commit) [CHR 0x0A] of None \<Rightarrow> gcMessage commit | Some (a, b) \<Rightarrow> a),
      pcAuthor = gcAuthor commit, pcDate = gcDate commit\<rparr>"

definition newerCommit :: "PullCommit \<Rightarrow> PullCommit \<Rightarrow> bool" where
  "newerCommit a b \<longleftrightarrow> (if pcDate a \<noteq> pcDate b then pcDate a > pcDate b else pcSHA a < pcSHA b)"

definition commitsSince :: "goctx \<Rightarrow> objectStore \<Rightarrow> string \<Rightarrow> string \<Rightarrow> goerr + PullCommit list" where
  "commitsSince ctx objects mergeBase head =
     (if mergeBase = head then Inr []
      else bindE (reachableCommits ctx objects mergeBase []) (\<lambda>excluded.
           bindE (reachableCommits ctx objects head excluded) (\<lambda>included.
           Inr (sortSlice newerCommit (map (pullCommitOf \<circ> snd) included)))))"

definition commonCommits :: "(string \<times> gcommit) list \<Rightarrow> (string \<times> gcommit) list \<Rightarrow>
    (string \<times> gcommit) list" where
  "commonCommits left right = filter (\<lambda>(hash, commit). hash \<in> fst ` set right) left"

definition basesOf :: "(string \<times> gcommit) list \<Rightarrow> gcommit list" where
  "basesOf common =
     (let ancestors = concat (map (\<lambda>(hash, commit). gcParents commit) common)
      in sortSlice (\<lambda>a b. gcHash a < gcHash b)
           (map snd (filter (\<lambda>(hash, commit). hash \<notin> set ancestors) common)))"

definition boundedMergeBases :: "goctx \<Rightarrow> objectStore \<Rightarrow> string \<Rightarrow> string \<Rightarrow> goerr + gcommit list" where
  "boundedMergeBases ctx objects head base =
     bindE (reachableCommits ctx objects head []) (\<lambda>left.
     bindE (reachableCommits ctx objects base []) (\<lambda>right.
       (let common = commonCommits left right in
        case List.find (\<lambda>n. ctx n \<noteq> None) [0..<length common] of
          Some n \<Rightarrow> Inl (classifyTransportError (the (ctx n)))
        | None \<Rightarrow> Inr (basesOf common))))"

section \<open>Ancestry\<close>

definition parentOf :: "objectStore \<Rightarrow> (string \<times> string) set" where
  "parentOf objects = {(h, p). \<exists>sz c. objects h = Stored sz c \<and> p \<in> set (gcParents c)}"

definition history :: "objectStore \<Rightarrow> string \<Rightarrow> string set" where
  "history objects h = (parentOf objects)\<^sup>* `` {h}"

definition ancestorClosed :: "objectStore \<Rightarrow> string set \<Rightarrow> bool" where
  "ancestorClosed objects S \<longleftrightarrow> (\<forall>h \<in> S. \<forall>p. (h, p) \<in> parentOf objects \<longrightarrow> p \<in> S)"

lemma history_self [simp]: "h \<in> history objects h"
  by (simp add: history_def)

lemma history_closed: "ancestorClosed objects (history objects h)"
  by (auto simp: ancestorClosed_def history_def intro: rtrancl_into_rtrancl)

lemma history_least:
  assumes "ancestorClosed objects S" "h \<in> S"
  shows "history objects h \<subseteq> S"
proof
  fix x assume "x \<in> history objects h"
  then have "(h, x) \<in> (parentOf objects)\<^sup>*" by (simp add: history_def)
  then show "x \<in> S"
    by (induction rule: rtrancl_induct) (use assms in \<open>auto simp: ancestorClosed_def\<close>)
qed

lemma readCommit_Inr:
  "readCommit objects b h = Inr (sz, c) \<longleftrightarrow>
     objects h = Stored sz c \<and> sz \<le> maximumCommitBytes \<and> b + sz \<le> maximumHistoryBytes"
  by (auto simp: readCommit_def split: stored.splits)

section \<open>What a finished walk has seen\<close>

definition parentsIn :: "string set \<Rightarrow> (string \<times> gcommit) list \<Rightarrow> bool" where
  "parentsIn A seen \<longleftrightarrow> (\<forall>(h, c) \<in> set seen. set (gcParents c) \<subseteq> A)"

lemma parentsIn_mono: "parentsIn A seen \<Longrightarrow> A \<subseteq> B \<Longrightarrow> parentsIn B seen"
  unfolding parentsIn_def by fast

lemma parentsIn_snoc: "parentsIn A (seen @ [(h, c)]) \<longleftrightarrow> parentsIn A seen \<and> set (gcParents c) \<subseteq> A"
  by (auto simp: parentsIn_def)

definition entriesOf :: "objectStore \<Rightarrow> (string \<times> gcommit) list \<Rightarrow> bool" where
  "entriesOf objects seen \<longleftrightarrow> (\<forall>(h, c) \<in> set seen. \<exists>sz. objects h = Stored sz c)"

lemma entriesOf_snoc: "entriesOf objects (seen @ [(h, c)]) \<longleftrightarrow>
    entriesOf objects seen \<and> (\<exists>sz. objects h = Stored sz c)"
  by (auto simp: entriesOf_def)

lemma walkLoop_sound:
  assumes "walkLoop ctx objects excluded tick b seen pending = Inr out"
    and "distinct (map fst seen)" "fst ` set seen \<inter> fst ` set excluded = {}"
    and "entriesOf objects seen"
    and "parentsIn (fst ` set seen \<union> fst ` set excluded \<union> set pending) seen"
    and "fst ` set seen \<union> set pending \<subseteq> S" "ancestorClosed objects S"
  shows "distinct (map fst out) \<and> fst ` set out \<inter> fst ` set excluded = {} \<and> entriesOf objects out
    \<and> parentsIn (fst ` set out \<union> fst ` set excluded) out
    \<and> fst ` set out \<subseteq> S \<and> set seen \<subseteq> set out
    \<and> set pending \<subseteq> fst ` set out \<union> fst ` set excluded"
  using assms
proof (induction ctx objects excluded tick b seen pending rule: walkLoop.induct)
  case (1 ctx objects excluded tick b seen)
  then show ?case by auto
next
  case (2 ctx objects excluded tick b seen hash pending)
  have no_cancel: "ctx tick = None" using "2.prems"(1) by (auto split: option.splits)
  show ?case
  proof (cases "hash \<in> fst ` set seen \<or> hash \<in> fst ` set excluded")
    case True
    have run: "walkLoop ctx objects excluded (Suc tick) b seen pending = Inr out"
      using "2.prems"(1) no_cancel True by simp
    have par: "parentsIn (fst ` set seen \<union> fst ` set excluded \<union> set pending) seen"
      using "2.prems"(5) by (rule parentsIn_mono) (use True in auto)
    have sub: "fst ` set seen \<union> set pending \<subseteq> S" using "2.prems"(6) by simp
    note ih = "2.IH"(1) [OF no_cancel True run "2.prems"(2,3,4) par sub "2.prems"(7)]
    then have "hash \<in> fst ` set out \<union> fst ` set excluded" using True by blast
    with ih show ?thesis by simp
  next
    case False
    have small: "\<not> int (length seen) \<ge> maximumHistoryCommits"
      by (rule notI) (use "2.prems"(1) no_cancel False in simp)
    have "\<not> isl (readCommit objects b hash)"
      using "2.prems"(1) no_cancel False small by (cases "readCommit objects b hash") simp_all
    then obtain sz c where rc: "readCommit objects b hash = Inr (sz, c)"
      by (metis isl_def sum.exhaust surj_pair)
    let ?seen = "seen @ [(hash, c)]" and ?pending = "rev (gcParents c) @ pending"
    have run: "walkLoop ctx objects excluded (Suc tick) (b + sz) ?seen ?pending = Inr out"
      using "2.prems"(1) no_cancel False rc small by simp
    have st: "objects hash = Stored sz c" using rc by (simp add: readCommit_Inr)
    have "set (gcParents c) \<subseteq> S"
      using "2.prems"(6,7) st by (auto simp: ancestorClosed_def parentOf_def)
    then have sub: "fst ` set ?seen \<union> set ?pending \<subseteq> S" using "2.prems"(6) by auto
    have par: "parentsIn (fst ` set ?seen \<union> fst ` set excluded \<union> set ?pending) ?seen"
      unfolding parentsIn_snoc by (intro conjI parentsIn_mono [OF "2.prems"(5)]) auto
    have "distinct (map fst ?seen)" "fst ` set ?seen \<inter> fst ` set excluded = {}"
      "entriesOf objects ?seen"
      using "2.prems"(2,3,4) False st by (auto simp: entriesOf_snoc)
    from "2.IH"(2) [OF no_cancel False small rc refl run this par sub "2.prems"(7)]
    show ?thesis by (auto intro: rev_image_eqI)
  qed
qed

lemma reachableCommits_keys:
  assumes "reachableCommits ctx objects head excluded = Inr out"
    and "ancestorClosed objects (fst ` set excluded)"
  shows "fst ` set out = history objects head - fst ` set excluded"
    and "distinct (map fst out)"
    and "entriesOf objects out"
proof -
  have fact: "distinct (map fst out) \<and> fst ` set out \<inter> fst ` set excluded = {} \<and> entriesOf objects out
    \<and> parentsIn (fst ` set out \<union> fst ` set excluded) out
    \<and> fst ` set out \<subseteq> history objects head \<and> set [] \<subseteq> set out
    \<and> set [head] \<subseteq> fst ` set out \<union> fst ` set excluded"
    using assms(1) unfolding reachableCommits_def
    by (rule walkLoop_sound) (auto simp: history_closed entriesOf_def parentsIn_def)
  have "p \<in> fst ` set out \<union> fst ` set excluded"
    if "h \<in> fst ` set out" "(h, p) \<in> parentOf objects" for h p
  proof -
    from that(1) obtain c where c: "(h, c) \<in> set out" by auto
    then have "p \<in> set (gcParents c)"
      using fact that(2) by (auto simp: entriesOf_def parentOf_def)
    with c fact show ?thesis by (auto simp: parentsIn_def)
  qed
  then have "ancestorClosed objects (fst ` set out \<union> fst ` set excluded)"
    using assms(2) by (auto simp: ancestorClosed_def)
  then have "history objects head \<subseteq> fst ` set out \<union> fst ` set excluded"
    using fact by (intro history_least) auto
  with fact show "fst ` set out = history objects head - fst ` set excluded" by auto
  show "distinct (map fst out)" using fact by simp
  show "entriesOf objects out" using fact by simp
qed

section \<open>A walk within the limits finishes\<close>

definition sizeOf :: "objectStore \<Rightarrow> string \<Rightarrow> int" where
  "sizeOf objects h = (case objects h of Stored sz c \<Rightarrow> sz | _ \<Rightarrow> 0)"

definition withinLimits :: "objectStore \<Rightarrow> string set \<Rightarrow> bool" where
  "withinLimits objects S \<longleftrightarrow> finite S \<and> int (card S) \<le> maximumHistoryCommits
     \<and> (\<forall>h \<in> S. \<exists>sz c. objects h = Stored sz c \<and> 0 \<le> sz \<and> sz \<le> maximumCommitBytes)
     \<and> (\<Sum>h \<in> S. sizeOf objects h) \<le> maximumHistoryBytes"

lemma walkLoop_complete:
  assumes "\<And>n. ctx n = None" "withinLimits objects S"
    and "\<forall>h \<in> S. \<forall>p. (h, p) \<in> parentOf objects \<longrightarrow> p \<in> S \<union> fst ` set excluded"
    and "distinct (map fst seen)" "fst ` set seen \<subseteq> S"
    and "b = (\<Sum>h \<in> fst ` set seen. sizeOf objects h)"
    and "set pending \<subseteq> S \<union> fst ` set excluded"
  shows "\<exists>out. walkLoop ctx objects excluded tick b seen pending = Inr out"
  using assms
proof (induction ctx objects excluded tick b seen pending rule: walkLoop.induct)
  case (1 ctx objects excluded tick b seen)
  then show ?case by simp
next
  case (2 ctx objects excluded tick b seen hash pending)
  have no_cancel: "ctx tick = None" using "2.prems"(1) .
  show ?case
  proof (cases "hash \<in> fst ` set seen \<or> hash \<in> fst ` set excluded")
    case True
    have "set pending \<subseteq> S \<union> fst ` set excluded" using "2.prems"(7) by simp
    from "2.IH"(1) [OF no_cancel True "2.prems"(1-6) this] no_cancel True show ?thesis by simp
  next
    case False
    have lim: "finite S" "int (card S) \<le> maximumHistoryCommits"
      "(\<Sum>h \<in> S. sizeOf objects h) \<le> maximumHistoryBytes"
      and nonneg: "\<And>h. h \<in> S \<Longrightarrow> 0 \<le> sizeOf objects h"
      using "2.prems"(2) by (auto simp: withinLimits_def sizeOf_def)
    have inS: "hash \<in> S" using "2.prems"(7) False by auto
    then obtain sz c where st: "objects hash = Stored sz c" "0 \<le> sz" "sz \<le> maximumCommitBytes"
      using "2.prems"(2) by (auto simp: withinLimits_def)
    have "insert hash (fst ` set seen) \<subseteq> S" using inS "2.prems"(5) by auto
    then have "card (insert hash (fst ` set seen)) \<le> card S"
      using lim(1) by (simp add: card_mono)
    moreover have "card (fst ` set seen) = length seen"
      using "2.prems"(4) by (metis distinct_card length_map list.set_map)
    ultimately have small: "\<not> int (length seen) \<ge> maximumHistoryCommits"
      using lim(2) False by simp
    have "(\<Sum>h \<in> insert hash (fst ` set seen). sizeOf objects h) \<le> (\<Sum>h \<in> S. sizeOf objects h)"
      using \<open>insert hash (fst ` set seen) \<subseteq> S\<close> lim(1) nonneg by (intro sum_mono2) auto
    then have sum': "b + sz = (\<Sum>h \<in> insert hash (fst ` set seen). sizeOf objects h)"
      "b + sz \<le> maximumHistoryBytes"
      using False lim(3) st(1) "2.prems"(6) by (auto simp: sizeOf_def)
    then have rc: "readCommit objects b hash = Inr (sz, c)"
      using st by (simp add: readCommit_Inr)
    let ?seen = "seen @ [(hash, c)]" and ?pending = "rev (gcParents c) @ pending"
    have new: "distinct (map fst ?seen)" "fst ` set ?seen \<subseteq> S"
      "b + sz = (\<Sum>h \<in> fst ` set ?seen. sizeOf objects h)"
      using "2.prems"(4,5) False inS sum'(1) by auto
    have "set (gcParents c) \<subseteq> S \<union> fst ` set excluded"
      using "2.prems"(3) inS st(1) by (auto simp: parentOf_def)
    then have "set ?pending \<subseteq> S \<union> fst ` set excluded" using "2.prems"(7) by auto
    from "2.IH"(2) [OF no_cancel False small rc refl "2.prems"(1-3) new this]
    show ?thesis using no_cancel False small rc by simp
  qed
qed

text \<open>C24: the walk of the commit graph is exact. When it answers, the commits it found are those
  reachable from the head through all parents and not among the excluded ones, each found once
  and as the store holds it; and it does answer whenever it is not cancelled, every one of these
  commits is readable, there are at most 100000 of them, none is over 1 MiB, and together they are at
  most 64 MiB.\<close>

theorem reachableCommits_exact:
  assumes "ancestorClosed objects (fst ` set excluded)"
  shows "(\<forall>out. reachableCommits ctx objects head excluded = Inr out \<longrightarrow>
      fst ` set out = history objects head - fst ` set excluded \<and> distinct (map fst out) \<and>
      (\<forall>(h, c) \<in> set out. \<exists>sz. objects h = Stored sz c))
    \<and> ((\<forall>n. ctx n = None) \<and> withinLimits objects (history objects head - fst ` set excluded) \<longrightarrow>
      (\<exists>out. reachableCommits ctx objects head excluded = Inr out))"
proof (intro conjI allI impI)
  fix out assume "reachableCommits ctx objects head excluded = Inr out"
  from reachableCommits_keys [OF this assms]
  show "fst ` set out = history objects head - fst ` set excluded" "distinct (map fst out)"
    "\<forall>(h, c) \<in> set out. \<exists>sz. objects h = Stored sz c"
    by (auto simp: entriesOf_def)
next
  assume fine: "(\<forall>n. ctx n = None) \<and> withinLimits objects (history objects head - fst ` set excluded)"
  let ?S = "history objects head - fst ` set excluded"
  have step: "\<forall>h \<in> ?S. \<forall>p. (h, p) \<in> parentOf objects \<longrightarrow> p \<in> ?S \<union> fst ` set excluded"
    using history_closed [of objects head] by (auto simp: ancestorClosed_def)
  show "\<exists>out. reachableCommits ctx objects head excluded = Inr out"
    unfolding reachableCommits_def
    by (rule walkLoop_complete [where S = "?S"]) (use fine step in auto)
qed

definition diamond :: objectStore where
  "diamond = (\<lambda>h.
     if h = ''d'' then Stored 10 \<lparr>gcHash = ''d'', gcParents = [''b'', ''c''], gcMessage = ''merge'', gcAuthor = ''a'', gcDate = ''4''\<rparr>
     else if h = ''c'' then Stored 10 \<lparr>gcHash = ''c'', gcParents = [''a''], gcMessage = ''side'', gcAuthor = ''a'', gcDate = ''2''\<rparr>
     else if h = ''b'' then Stored 10 \<lparr>gcHash = ''b'', gcParents = [''a''], gcMessage = ''main'', gcAuthor = ''a'', gcDate = ''3''\<rparr>
     else if h = ''a'' then Stored 10 \<lparr>gcHash = ''a'', gcParents = [], gcMessage = ''root'', gcAuthor = ''a'', gcDate = ''1''\<rparr>
     else Unreadable [])"

lemma diamond_walk:
  "map fst (projr (reachableCommits (\<lambda>_. None) diamond ''d'' [])) = [''d'', ''c'', ''a'', ''b'']"
  "isl (reachableCommits (\<lambda>_. None) diamond ''d'' []) = False"
  by code_simp+

theorem reachableCommits_exact_witness:
  "history diamond ''d'' = {''a'', ''b'', ''c'', ''d''}"
proof -
  obtain out where out: "reachableCommits (\<lambda>_. None) diamond ''d'' [] = Inr out"
    using diamond_walk(2) by (cases "reachableCommits (\<lambda>_. None) diamond ''d'' []") auto
  then have "map fst out = [''d'', ''c'', ''a'', ''b'']" using diamond_walk(1) by simp
  then have "set (map fst out) = {''a'', ''b'', ''c'', ''d''}" by auto
  moreover have "fst ` set out = history diamond ''d'' - fst ` set []"
    using reachableCommits_exact [of diamond "[]" "\<lambda>_. None" "''d''"] out
    by (simp add: ancestorClosed_def)
  ultimately show ?thesis by simp
qed

section \<open>The contract of the walk and what rests on it\<close>

definition contentAddressed :: "objectStore \<Rightarrow> bool" where
  "contentAddressed objects \<longleftrightarrow> (\<forall>h sz c. objects h = Stored sz c \<longrightarrow> gcHash c = h)"

locale historyWalk =
  fixes objects :: objectStore
    and walk :: "string \<Rightarrow> (string \<times> gcommit) list \<Rightarrow> goerr + (string \<times> gcommit) list"
  assumes walk_keys: "walk head excluded = Inr out \<Longrightarrow> ancestorClosed objects (fst ` set excluded) \<Longrightarrow>
      fst ` set out = history objects head - fst ` set excluded"
    and walk_distinct: "walk head excluded = Inr out \<Longrightarrow> ancestorClosed objects (fst ` set excluded) \<Longrightarrow>
      distinct (map fst out)"
    and walk_entries: "walk head excluded = Inr out \<Longrightarrow> ancestorClosed objects (fst ` set excluded) \<Longrightarrow>
      entriesOf objects out"
begin

lemma full_walk:
  assumes "walk head [] = Inr out"
  shows "fst ` set out = history objects head" "distinct (map fst out)" "entriesOf objects out"
  using walk_keys [OF assms] walk_distinct [OF assms] walk_entries [OF assms]
  by (simp_all add: ancestorClosed_def)

lemma since_keys:
  assumes "walk base [] = Inr excluded" "walk head excluded = Inr included"
  shows "fst ` set included = history objects head - history objects base"
    "distinct (map fst included)" "entriesOf objects included"
proof -
  have "ancestorClosed objects (fst ` set excluded)"
    by (simp add: full_walk(1) [OF assms(1)] history_closed)
  with walk_keys [OF assms(2)] walk_distinct [OF assms(2)] walk_entries [OF assms(2)]
  show "fst ` set included = history objects head - history objects base"
    "distinct (map fst included)" "entriesOf objects included"
    by (simp_all add: full_walk(1) [OF assms(1)])
qed

lemma common_keys:
  assumes "walk head [] = Inr left" "walk base [] = Inr right"
  shows "fst ` set (commonCommits left right) = history objects head \<inter> history objects base"
    "distinct (map fst (commonCommits left right))" "entriesOf objects (commonCommits left right)"
proof -
  have "map fst (commonCommits left right) = filter (\<lambda>h. h \<in> fst ` set right) (map fst left)"
    by (simp add: commonCommits_def filter_map o_def case_prod_unfold)
  then show "fst ` set (commonCommits left right) = history objects head \<inter> history objects base"
    "distinct (map fst (commonCommits left right))"
    using full_walk [OF assms(1)] full_walk(1) [OF assms(2)]
    by (auto simp flip: set_map list.set_map)
  show "entriesOf objects (commonCommits left right)"
    using full_walk(3) [OF assms(1)] by (auto simp: entriesOf_def commonCommits_def)
qed

text \<open>In an acyclic history the common commits that are no parent of a common commit are
  those that no other common commit has among its ancestors.\<close>

lemma bases_keys:
  assumes "walk head [] = Inr left" "walk base [] = Inr right" "acyclic (parentOf objects)"
  defines "both \<equiv> history objects head \<inter> history objects base"
  shows "fst ` set (filter (\<lambda>(hash, commit).
      hash \<notin> set (concat (map (\<lambda>(hash, commit). gcParents commit) (commonCommits left right))))
      (commonCommits left right))
    = {x \<in> both. \<forall>y \<in> both. (y, x) \<notin> (parentOf objects)\<^sup>+}"
proof -
  let ?common = "commonCommits left right"
  note ck = common_keys [OF assms(1,2)]
  have closed: "ancestorClosed objects both"
    using history_closed [of objects head] history_closed [of objects base]
    unfolding both_def ancestorClosed_def by blast
  have anc: "h \<in> set (concat (map (\<lambda>(hash, commit). gcParents commit) ?common)) \<longleftrightarrow>
      (\<exists>y \<in> both. (y, h) \<in> parentOf objects)" for h
  proof
    assume "h \<in> set (concat (map (\<lambda>(hash, commit). gcParents commit) ?common))"
    then obtain y c where yc: "(y, c) \<in> set ?common" "h \<in> set (gcParents c)" by auto
    then have "(y, h) \<in> parentOf objects" using ck(3) by (auto simp: entriesOf_def parentOf_def)
    moreover have "y \<in> both" using yc(1) ck(1) by (force simp: both_def)
    ultimately show "\<exists>y \<in> both. (y, h) \<in> parentOf objects" by blast
  next
    assume "\<exists>y \<in> both. (y, h) \<in> parentOf objects"
    then obtain y where y: "y \<in> both" "(y, h) \<in> parentOf objects" by blast
    then have "y \<in> fst ` set ?common" using ck(1) by (simp add: both_def)
    then obtain c where "(y, c) \<in> set ?common" by auto
    moreover from this have "h \<in> set (gcParents c)"
      using y(2) ck(3) by (auto simp: entriesOf_def parentOf_def)
    ultimately show "h \<in> set (concat (map (\<lambda>(hash, commit). gcParents commit) ?common))" by force
  qed
  have up: "(\<exists>y \<in> both. (y, h) \<in> (parentOf objects)\<^sup>+) \<longleftrightarrow> (\<exists>y \<in> both. (y, h) \<in> parentOf objects)" for h
  proof
    assume "\<exists>y \<in> both. (y, h) \<in> (parentOf objects)\<^sup>+"
    then obtain y z where "y \<in> both" "(y, z) \<in> (parentOf objects)\<^sup>*" "(z, h) \<in> parentOf objects"
      by (meson tranclD2)
    moreover from this(1,2) have "z \<in> both"
      using closed by (auto elim: rtrancl_induct simp: ancestorClosed_def)
    ultimately show "\<exists>y \<in> both. (y, h) \<in> parentOf objects" by blast
  qed blast
  define A where "A = set (concat (map (\<lambda>(hash, commit). gcParents commit) ?common))"
  have anc': "h \<in> A \<longleftrightarrow> (\<exists>y \<in> both. (y, h) \<in> (parentOf objects)\<^sup>+)" for h
    unfolding A_def anc up ..
  have "fst ` set (filter (\<lambda>(hash, commit). hash \<notin> A) ?common) = {x \<in> fst ` set ?common. x \<notin> A}"
    by force
  also have "\<dots> = {x \<in> both. \<forall>y \<in> both. (y, x) \<notin> (parentOf objects)\<^sup>+}"
    unfolding anc' using ck(1) by (auto simp: both_def)
  finally show ?thesis unfolding A_def .
qed

end

interpretation boundedWalk: historyWalk objects "reachableCommits ctx objects"
  for objects :: objectStore and ctx :: goctx
  by unfold_locales (rule reachableCommits_keys; assumption)+

section \<open>Commits of a pull request\<close>

lemma entries_hash:
  "contentAddressed objects \<Longrightarrow> entriesOf objects es \<Longrightarrow> map (gcHash \<circ> snd) es = map fst es"
  by (fastforce simp: contentAddressed_def entriesOf_def)

lemma newerCommit_order:
  "newerCommit a b \<Longrightarrow> \<not> newerCommit b a"
  "newerCommit a c \<Longrightarrow> newerCommit a b \<or> newerCommit b c"
  by (auto simp: newerCommit_def split: if_splits)

lemma newerCommit_total: "pcSHA a \<noteq> pcSHA b \<Longrightarrow> \<not> newerCommit b a \<Longrightarrow> newerCommit a b"
  by (auto simp: newerCommit_def split: if_splits)

lemma commits_spec:
  assumes "contentAddressed objects" "commitsSince ctx objects mergeBase head = Inr commits"
  shows "pcSHA ` set commits = history objects head - history objects mergeBase
    \<and> distinct (map pcSHA commits) \<and> sorted_wrt newerCommit commits"
proof (cases "mergeBase = head")
  case True
  with assms(2) show ?thesis by (simp add: commitsSince_def)
next
  case False
  with assms(2) obtain excluded included where
    walks: "reachableCommits ctx objects mergeBase [] = Inr excluded"
      "reachableCommits ctx objects head excluded = Inr included"
    and commits: "commits = sortSlice newerCommit (map (pullCommitOf \<circ> snd) included)"
    by (auto simp: commitsSince_def bindE_eq_Inr)
  note inc = boundedWalk.since_keys [OF walks]
  have "map (pcSHA \<circ> (pullCommitOf \<circ> snd)) included = map fst included"
    using entries_hash [OF assms(1) inc(3)] by (simp add: pullCommitOf_def o_def)
  then have shas: "map pcSHA (map (pullCommitOf \<circ> snd) included) = map fst included" by simp
  have "mset (map pcSHA commits) = mset (map fst included)"
    unfolding commits mset_map mset_sortSlice using shas by (metis mset_map)
  then have d: "distinct (map pcSHA commits)" "set (map pcSHA commits) = set (map fst included)"
    using inc(2) mset_eq_imp_distinct_iff mset_eq_setD by blast+
  have "sorted_wrt (\<lambda>a b. \<not> newerCommit b a) commits"
    unfolding commits by (rule sorted_sortSlice) (rule newerCommit_order; assumption)+
  then have "sorted_wrt newerCommit commits"
    using d(1) by (auto simp: sorted_wrt_iff_nth_less distinct_conv_nth intro!: newerCommit_total)
  with d inc(1) show ?thesis by auto
qed

text \<open>the commits listed for a pull request are exactly those of the head's history that are not in
  the history of the merge base, merge parents included, without repetition, newest first and
  by SHA within the same date.\<close>

theorem commitsSince_exact:
  assumes "contentAddressed objects" "commitsSince ctx objects mergeBase head = Inr commits"
  shows "pcSHA ` set commits = history objects head - history objects mergeBase
    \<and> distinct (map pcSHA commits) \<and> sorted_wrt newerCommit commits"
  using assms by (rule commits_spec)

theorem commitsSince_exact_witness:
  "commitsSince (\<lambda>_. None) diamond ''b'' ''d'' = Inr
     [\<lparr>pcSHA = ''d'', pcMessage = ''merge'', pcAuthor = ''a'', pcDate = ''4''\<rparr>,
      \<lparr>pcSHA = ''c'', pcMessage = ''side'', pcAuthor = ''a'', pcDate = ''2''\<rparr>]
   \<and> history diamond ''d'' - history diamond ''b'' = {''c'', ''d''}"
proof -
  let ?cs = "[\<lparr>pcSHA = ''d'', pcMessage = ''merge'', pcAuthor = ''a'', pcDate = ''4''\<rparr>,
      \<lparr>pcSHA = ''c'', pcMessage = ''side'', pcAuthor = ''a'', pcDate = ''2''\<rparr>]"
  have run: "commitsSince (\<lambda>_. None) diamond ''b'' ''d'' = Inr ?cs" by code_simp
  have "contentAddressed diamond" by (auto simp: contentAddressed_def diamond_def split: if_splits)
  from commitsSince_exact [OF this run] run show ?thesis by auto
qed

section \<open>Merge bases\<close>

lemma best_exists:
  assumes "acyclic r" "finite S" "S \<noteq> {}"
  shows "{x \<in> S. \<forall>y \<in> S. (y, x) \<notin> r\<^sup>+} \<noteq> {}"
proof -
  define R where "R = r\<^sup>+ \<inter> S \<times> S"
  have "acyclic (r\<^sup>+)" using assms(1) by (simp add: acyclic_def)
  then have "acyclic R" unfolding R_def by (rule acyclic_subset) simp
  moreover have "finite R" using assms(2) by (simp add: R_def)
  ultimately have "wf R" by (simp add: finite_acyclic_wf)
  then have min: "\<exists>x \<in> S. \<forall>y. (y, x) \<in> R \<longrightarrow> y \<notin> S" if "s \<in> S" for s
    unfolding wf_eq_minimal using that by (elim allE impE) assumption
  obtain s where "s \<in> S" using assms(3) by blast
  from min [OF this] obtain x where x: "x \<in> S" "\<forall>y. (y, x) \<in> R \<longrightarrow> y \<notin> S" by (elim bexE)
  have "(y, x) \<notin> r\<^sup>+" if "y \<in> S" for y
  proof
    assume "(y, x) \<in> r\<^sup>+"
    then have "(y, x) \<in> R" using that x(1) by (simp add: R_def)
    with x(2) that show False by simp
  qed
  with x(1) have "x \<in> {x \<in> S. \<forall>y \<in> S. (y, x) \<notin> r\<^sup>+}" by simp
  then show ?thesis by (metis empty_iff)
qed

lemma merge_bases_spec:
  assumes "contentAddressed objects" "acyclic (parentOf objects)"
    and "boundedMergeBases ctx objects head base = Inr bases"
  defines "both \<equiv> history objects head \<inter> history objects base"
  shows "gcHash ` set bases = {x \<in> both. \<forall>y \<in> both. (y, x) \<notin> (parentOf objects)\<^sup>+}
    \<and> sorted_wrt (<) (map gcHash bases) \<and> (bases = [] \<longleftrightarrow> both = {})"
proof -
  from assms(3) obtain left right where
    walks: "reachableCommits ctx objects head [] = Inr left"
      "reachableCommits ctx objects base [] = Inr right"
    and bases: "bases = basesOf (commonCommits left right)"
    by (auto simp: boundedMergeBases_def bindE_eq_Inr Let_def split: option.splits)
  let ?common = "commonCommits left right"
  note ck = boundedWalk.common_keys [OF walks]
  define kept where "kept = filter (\<lambda>(hash, commit).
      hash \<notin> set (concat (map (\<lambda>(hash, commit). gcParents commit) ?common))) ?common"
  have keys: "fst ` set kept = {x \<in> both. \<forall>y \<in> both. (y, x) \<notin> (parentOf objects)\<^sup>+}"
    unfolding kept_def both_def by (rule boundedWalk.bases_keys [OF walks assms(2)])
  have "entriesOf objects kept" using ck(3) by (auto simp: kept_def entriesOf_def)
  then have hashes: "map gcHash (map snd kept) = map fst kept"
    using entries_hash [OF assms(1)] by (simp add: o_def)
  have b: "bases = sortSlice (\<lambda>a b. gcHash a < gcHash b) (map snd kept)"
    by (simp add: bases basesOf_def kept_def)
  have ms: "mset (map gcHash bases) = mset (map fst kept)"
    unfolding b mset_map mset_sortSlice using hashes by (metis mset_map)
  have "distinct (map fst kept)"
    using ck(2) by (simp add: kept_def distinct_map_filter)
  then have d: "distinct (map gcHash bases)" "set (map gcHash bases) = set (map fst kept)"
    using ms mset_eq_imp_distinct_iff mset_eq_setD by blast+
  have set_eq: "gcHash ` set bases = {x \<in> both. \<forall>y \<in> both. (y, x) \<notin> (parentOf objects)\<^sup>+}"
    using d(2) keys by simp
  have "sorted_wrt (\<lambda>x y. \<not> gcHash y < gcHash x) bases"
    unfolding b by (rule sorted_sortSlice) auto
  then have "sorted (map gcHash bases)"
    by (simp add: sorted_wrt_map not_less)
  with d(1) have "sorted_wrt (<) (map gcHash bases)" by (simp add: strict_sorted_iff)
  moreover have "finite both" using ck(1) unfolding both_def by (metis List.finite_set finite_imageI)
  then have "both \<noteq> {} \<Longrightarrow> gcHash ` set bases \<noteq> {}"
    unfolding set_eq by (rule best_exists [OF assms(2)])
  then have "bases = [] \<longleftrightarrow> both = {}" using set_eq by force
  ultimately show ?thesis using set_eq by blast
qed

text \<open>C3: the merge bases of two commits are exactly the best common ancestors: the commits of
  both histories that are not an ancestor of another commit of both histories, each once, in
  ascending order of their hashes. There are none only when the histories are disjoint.\<close>

theorem merge_bases_exact:
  assumes "contentAddressed objects" "acyclic (parentOf objects)"
    and "boundedMergeBases ctx objects head base = Inr bases"
  defines "both \<equiv> history objects head \<inter> history objects base"
  shows "gcHash ` set bases = {x \<in> both. \<forall>y \<in> both. (y, x) \<notin> (parentOf objects)\<^sup>+}
    \<and> sorted_wrt (<) (map gcHash bases) \<and> (bases = [] \<longleftrightarrow> both = {})"
  unfolding both_def using assms(1-3) by (rule merge_bases_spec)

definition forked :: objectStore where
  "forked = (\<lambda>h. if h = ''x'' then Stored 10 \<lparr>gcHash = ''x'', gcParents = [''b''],
      gcMessage = ''base'', gcAuthor = ''a'', gcDate = ''5''\<rparr> else diamond h)"

lemma forked_acyclic: "acyclic (parentOf forked)"
proof -
  have "(parentOf forked)\<inverse> \<subseteq>
      measure (\<lambda>h. if h = ''d'' \<or> h = ''x'' then 2 else if h = ''a'' then 0 else 1)"
    by (auto simp: parentOf_def forked_def diamond_def split: if_splits)
  then have "acyclic ((parentOf forked)\<inverse>)" using wf_acyclic wf_measure acyclic_subset by blast
  then show ?thesis by (simp add: acyclic_converse)
qed

theorem merge_bases_exact_witness:
  "map gcHash (projr (boundedMergeBases (\<lambda>_. None) forked ''d'' ''x'')) = [''b'']
   \<and> (''b'' \<in> history forked ''d'' \<inter> history forked ''x'')"
proof -
  let ?r = "boundedMergeBases (\<lambda>_. None) forked ''d'' ''x''"
  have val: "map gcHash (projr ?r) = [''b'']" by code_simp
  have "\<not> isl ?r" by code_simp
  then obtain bs where bs: "?r = Inr bs" by (cases ?r) auto
  have "contentAddressed forked"
    by (auto simp: contentAddressed_def forked_def diamond_def split: if_splits)
  from merge_bases_exact [OF this forked_acyclic bs] val bs
  have "''b'' \<in> history forked ''d'' \<inter> history forked ''x''"
    by (auto simp: image_iff)
  with val show ?thesis by simp
qed

end
