(* ===== verification/DiffEngine.thy ===== *)
theory DiffEngine
  imports CommitGraph GogsClient
begin

text \<open>
  The rest of internal/gogs/gitdiff.go: pull refs, path filters, merge states, the bounded patch
  rendering, and the composition \<open>DiffPull\<close>. What the Git library computes (tree diffs, rename
  detection, patches, blob sizes) and what the cache on disk answers are the fields of the record
  \<open>pullWorld\<close>. The state of a call is what it does to its cache repository: whether the
  repository is still there, and how often it was touched.
\<close>

section \<open>Data\<close>

record PullRef =
  prNumber :: int
  prHeadSHA :: string

record DiffFileStat =
  dfPath :: string
  dfStatus :: string
  dfAdditions :: int
  dfDeletions :: int
  dfIsBinary :: bool

record PullDiff =
  pdMergeBase :: string
  pdDiff :: string
  pdFiles :: "DiffFileStat list"
  pdCommits :: "PullCommit list"
  pdTruncated :: bool
  pdMergeState :: string
  pdMergeConflictPaths :: "string list"
  pdBaseCommits :: int

record ChangeEntry =
  ceName :: string
  ceTree :: string
  ceMode :: int
  ceHash :: string

definition zeroEntry :: ChangeEntry where
  "zeroEntry = \<lparr>ceName = [], ceTree = [], ceMode = 0, ceHash = []\<rparr>"

record Change =
  chFrom :: ChangeEntry
  chTo :: ChangeEntry

datatype Operation = OpEqual | OpAdd | OpDelete

record FilePatch =
  fpChunks :: "(Operation \<times> string) list"
  fpIsBinary :: bool

text \<open>A patch of one change: its file patches, the pieces its encoder writes, and the failure the
  encoder ends with, if it has one of its own.\<close>

record Patch =
  paFilePatches :: "FilePatch list"
  paWrites :: "string list"
  paEncodeErr :: "goerr option"

section \<open>Pull refs\<close>

definition parsePullRef :: "string \<Rightarrow> int option" where
  "parsePullRef ref =
     (if \<not> hasPrefix ref ''refs/pull/'' \<or> \<not> hasSuffix ref ''/head'' then None
      else (case parseInt (trimSuffix (trimPrefix ref ''refs/pull/'') ''/head'') of
              None \<Rightarrow> None
            | Some number \<Rightarrow> if number \<le> 0 then None else Some number))"

section \<open>Error classification\<close>

definition classifyGitError :: "goerr \<Rightarrow> goerr" where
  "classifyGitError err =
     (if errIs err (SentinelErr ErrCapacity) then
        mkError CodeCacheCapacityExceeded ''The shared user cache is full.'' True 0 err
      else if codeOf (classifyTransportError err) = CodeTLSError
            \<or> codeOf (classifyTransportError err) = CodeCanceled then classifyTransportError err
      else if errIs err ContextDeadlineExceeded then
        mkError CodeTimeout ''The Gogs git request timed out.'' True 0 err
      else if timeoutOf err = Some True then
        mkError CodeTimeout ''The Gogs git request timed out.'' True 0 err
      else if errIs err (SentinelErr GitAuthenticationRequired)
            \<or> errIs err (SentinelErr GitAuthorizationFailed)
            \<or> errIs err (SentinelErr GitInvalidAuthMethod) then
        mkError CodeAuthenticationFailed
          ''Git authentication failed; check the configured token and its permissions.'' False 0 err
      else if errIs err (SentinelErr GitRepositoryNotFound) then
        mkError CodeResourceNotFoundOrForbidden
          ''The repository does not exist over the git protocol, or the token cannot see it.'' False 0 err
      else mkError CodeUnavailable ''Could not reach Gogs over the git protocol.'' False 0 err)"

text \<open>\<open>advertised\<close> is what listing the remote gives: the names and hashes of its refs.\<close>

definition ListPullRefs :: "goerr + (string \<times> string) list \<Rightarrow> goerr + PullRef list" where
  "ListPullRefs advertised =
     (case advertised of
        Inl err \<Rightarrow> if errIs err (SentinelErr GitEmptyRemote) then Inr [] else Inl (classifyGitError err)
      | Inr refs \<Rightarrow>
          Inr (sortSlice (\<lambda>a b. prNumber a < prNumber b)
            (List.map_filter (\<lambda>(name, hash). map_option (\<lambda>number.
               \<lparr>prNumber = number, prHeadSHA = hash\<rparr>) (parsePullRef name)) refs)))"

section \<open>Path filters\<close>

definition normalizePathFilters :: "string list \<Rightarrow> string list" where
  "normalizePathFilters paths =
     filter (\<lambda>path. path \<noteq> []) (map (\<lambda>path. trimSuffix (trimSpace path) [slash]) paths)"

definition matchAnyPath :: "string \<Rightarrow> string list \<Rightarrow> bool" where
  "matchAnyPath path filters \<longleftrightarrow>
     (if path = [] then False
      else list_ex (\<lambda>fltr. path = fltr \<or> hasPrefix path (fltr @ [slash])) filters)"

definition filterChanges :: "Change list \<Rightarrow> string list \<Rightarrow> Change list" where
  "filterChanges changes filters =
     filter (\<lambda>ch. matchAnyPath (ceName (chFrom ch)) filters \<or> matchAnyPath (ceName (chTo ch)) filters)
       changes"

definition renameCandidates :: "Change list \<Rightarrow> string list \<Rightarrow> Change list" where
  "renameCandidates changes filters =
     (let selected = filterChanges changes filters;
          needDeleted = list_ex (\<lambda>ch. ceName (chFrom ch) = []) selected;
          needAdded = list_ex (\<lambda>ch. ceName (chTo ch) = []) selected
      in filter (\<lambda>ch. matchAnyPath (ceName (chFrom ch)) filters
            \<or> matchAnyPath (ceName (chTo ch)) filters
            \<or> (needAdded \<and> ceName (chFrom ch) = []) \<or> (needDeleted \<and> ceName (chTo ch) = [])) changes)"

section \<open>Merge state\<close>

definition touchedPaths :: "Change list \<Rightarrow> string list" where
  "touchedPaths changes =
     remdups (concat (map (\<lambda>ch.
       (if ceName (chFrom ch) \<noteq> [] then [ceName (chFrom ch)] else [])
       @ (if ceName (chTo ch) \<noteq> [] then [ceName (chTo ch)] else [])) changes))"

definition mergeStateFor :: "goctx \<Rightarrow> objectStore \<Rightarrow> string \<Rightarrow> string \<Rightarrow> goerr + Change list \<Rightarrow>
    Change list \<Rightarrow> goerr + (string \<times> string list \<times> int)" where
  "mergeStateFor ctx objects mergeBase base baseDiff headChanges =
     bindE (commitsSince ctx objects mergeBase base) (\<lambda>baseCommits.
       if baseCommits = [] then Inr (''fast_forward'', [], 0)
       else (case baseDiff of
           Inl err \<Rightarrow> Inl (mkError CodeGogsError ''Could not diff the base ref tree.'' False 0 err)
         | Inr baseChanges \<Rightarrow>
             (let headPaths = touchedPaths headChanges;
                  conflicts = filter (\<lambda>path. path \<in> set headPaths) (touchedPaths baseChanges)
              in if conflicts \<noteq> []
                 then Inr (''conflicting'', sortSlice (\<lambda>a b. a < b) conflicts, int (length baseCommits))
                 else Inr (''diverged'', [], int (length baseCommits)))))"

section \<open>Bounded rendering\<close>

definition diffEntryPath :: "Change \<Rightarrow> string" where
  "diffEntryPath ch = (if chTo ch \<noteq> zeroEntry then ceName (chTo ch) else ceName (chFrom ch))"

definition diffChangeStatus :: "Change \<Rightarrow> string" where
  "diffChangeStatus ch =
     (if chFrom ch = zeroEntry then ''added''
      else if chTo ch = zeroEntry then ''deleted''
      else if ceName (chFrom ch) \<noteq> ceName (chTo ch) then ''renamed''
      else ''modified'')"

definition newline :: char where "newline = CHR 0x0A"

definition countLines :: "string \<Rightarrow> int" where
  "countLines content =
     int (length (filter (\<lambda>ch. ch = newline) content))
     + (if content \<noteq> [] \<and> \<not> hasSuffix content [newline] then 1 else 0)"

definition countChunkLines :: "FilePatch \<Rightarrow> Operation \<Rightarrow> int" where
  "countChunkLines filePatch kind =
     sum_list (map (\<lambda>(op, content). if op = kind then countLines content else 0) (fpChunks filePatch))"

record limitedDiffWriter =
  ldBuffer :: string
  ldMaximum :: int
  ldTruncated :: bool

text \<open>\<open>Write\<close>: the new writer, and whether the write succeeded (otherwise it is \<open>errDiffLimit\<close>).\<close>

definition ldWrite :: "limitedDiffWriter \<Rightarrow> string \<Rightarrow> limitedDiffWriter \<times> bool" where
  "ldWrite wr p =
     (if ldMaximum wr \<le> 0 then (wr\<lparr>ldBuffer := ldBuffer wr @ p\<rparr>, True)
      else (let remaining = ldMaximum wr - int (length (ldBuffer wr)) in
        if int (length p) \<le> remaining then (wr\<lparr>ldBuffer := ldBuffer wr @ p\<rparr>, True)
        else (wr\<lparr>ldBuffer := ldBuffer wr @ take (nat remaining) p, ldTruncated := True\<rparr>, False)))"

text \<open>\<open>patch.Encode\<close>: the pieces in order up to the first failing write; then the encoder's own failure.\<close>

fun encodeWrites :: "limitedDiffWriter \<Rightarrow> string list \<Rightarrow> goerr option \<Rightarrow> limitedDiffWriter \<times> goerr option" where
  "encodeWrites wr [] own = (wr, own)"
| "encodeWrites wr (p # ps) own =
     (case ldWrite wr p of (wr, ok) \<Rightarrow> if ok then encodeWrites wr ps own else (wr, None))"

definition truncateToLastLine :: "string \<Rightarrow> int \<Rightarrow> string" where
  "truncateToLastLine raw maxBytes =
     (let kept = (if int (length raw) > maxBytes then take (nat maxBytes) raw else raw)
      in rev (dropWhile (\<lambda>ch. ch \<noteq> newline) (rev kept)))"

definition fileStats :: "Change \<Rightarrow> Patch \<Rightarrow> DiffFileStat list" where
  "fileStats ch patch = map (\<lambda>file.
     \<lparr>dfPath = diffEntryPath ch, dfStatus = diffChangeStatus ch,
      dfAdditions = countChunkLines file OpAdd, dfDeletions = countChunkLines file OpDelete,
      dfIsBinary = fpIsBinary file\<rparr>) (paFilePatches patch)"

text \<open>The loop over the changes; \<open>tick\<close> numbers its context checks.\<close>

fun renderChanges :: "goctx \<Rightarrow> (Change \<Rightarrow> goerr + Patch) \<Rightarrow> nat \<Rightarrow> DiffFileStat list \<Rightarrow>
    limitedDiffWriter \<Rightarrow> Change list \<Rightarrow> goerr + (DiffFileStat list \<times> limitedDiffWriter)" where
  "renderChanges ctx patchOf tick files wr [] = Inr (files, wr)"
| "renderChanges ctx patchOf tick files wr (ch # changes) =
     (case ctx tick of Some e \<Rightarrow> Inl (classifyTransportError e)
      | None \<Rightarrow>
        (case patchOf ch of
           Inl err \<Rightarrow> Inl (classifyGitError err)
         | Inr patch \<Rightarrow>
             (let files = files @ fileStats ch patch in
              if \<not> ldTruncated wr then
                (case encodeWrites wr (paWrites patch) (paEncodeErr patch) of
                   (wr, Some err) \<Rightarrow> Inl (classifyGitError err)
                 | (wr, None) \<Rightarrow> renderChanges ctx patchOf (Suc tick) files wr changes)
              else renderChanges ctx patchOf (Suc tick) files wr changes)))"

definition buildBoundedPullDiff :: "goctx \<Rightarrow> (Change \<Rightarrow> goerr + Patch) \<Rightarrow> Change list \<Rightarrow>
    PullCommit list \<Rightarrow> string \<Rightarrow> int \<Rightarrow> goerr + PullDiff" where
  "buildBoundedPullDiff ctx patchOf changes commits base maxBytes =
     bindE (renderChanges ctx patchOf 0 [] \<lparr>ldBuffer = [], ldMaximum = maxBytes, ldTruncated = False\<rparr> changes)
       (\<lambda>(files, output).
         Inr \<lparr>pdMergeBase = base,
              pdDiff = (if ldTruncated output then truncateToLastLine (ldBuffer output) maxBytes
                        else ldBuffer output),
              pdFiles = files, pdCommits = commits, pdTruncated = ldTruncated output,
              pdMergeState = [], pdMergeConflictPaths = [], pdBaseCommits = 0\<rparr>)"

section \<open>Input limits\<close>

definition maxChangedFiles :: int where "maxChangedFiles = 2000"
definition maxBlobBytes :: int where "maxBlobBytes = 1048576"
definition maxInputBytes :: int where "maxInputBytes = 8388608"

definition diffInputsExceed :: goerr where
  "diffInputsExceed = gogsErr CodeResponseTooLarge
     ''Diff inputs exceed 1 MiB per blob or 8 MiB total; narrow paths or inspect file metadata.''"

text \<open>The loop over the sides of one change that have a file.\<close>

fun addSizes :: "int \<Rightarrow> int option list \<Rightarrow> goerr + int" where
  "addSizes acc [] = Inr acc"
| "addSizes acc (None # files) = addSizes acc files"
| "addSizes acc (Some sz # files) =
     (if sz > maxBlobBytes \<or> acc + sz > maxInputBytes then Inl diffInputsExceed
      else addSizes (acc + sz) files)"

fun patchWork :: "goctx \<Rightarrow> (Change \<Rightarrow> goerr + int option \<times> int option) \<Rightarrow> nat \<Rightarrow> int \<Rightarrow> Change list \<Rightarrow>
    goerr + unit" where
  "patchWork ctx filesOf tick acc [] = Inr ()"
| "patchWork ctx filesOf tick acc (ch # changes) =
     (case ctx tick of Some e \<Rightarrow> Inl (classifyTransportError e)
      | None \<Rightarrow>
        (case filesOf ch of
           Inl err \<Rightarrow> Inl (classifyGitError err)
         | Inr (from, to) \<Rightarrow> bindE (addSizes acc [from, to])
             (\<lambda>acc. patchWork ctx filesOf (Suc tick) acc changes)))"

definition validatePatchWork :: "goctx \<Rightarrow> (Change \<Rightarrow> goerr + int option \<times> int option) \<Rightarrow> Change list \<Rightarrow>
    goerr + unit" where
  "validatePatchWork ctx filesOf changes =
     (if int (length changes) > maxChangedFiles then
        Inl (gogsErr CodeResponseTooLarge ''The diff exceeds 2000 changed files; narrow paths.'')
      else patchWork ctx filesOf 0 0 changes)"

section \<open>The pull engine\<close>

record PullEngineOptions =
  poCacheDir :: string
  poUsername :: string
  poToken :: string
  poTimeout :: int
  poCacheTTL :: int
  poCacheMaxBytes :: int

record PullEngine =
  peCacheDir :: string
  peUsername :: string
  peToken :: string
  peTimeout :: int
  peCacheTTL :: int
  peCacheMaxBytes :: int

text \<open>Durations count nanoseconds.\<close>

definition second :: int where "second = 1000000000"
definition defaultPullCacheTTL :: int where "defaultPullCacheTTL = 24 * 3600 * second"
definition defaultPullCacheMaxBytes :: int where "defaultPullCacheMaxBytes = 2147483648"

definition NewPullEngine :: "PullEngineOptions \<Rightarrow> goerr + PullEngine" where
  "NewPullEngine opts =
     (if poCacheDir opts = [] then Inl [MsgErr ''cache directory is required'']
      else Inr \<lparr>peCacheDir = poCacheDir opts, peUsername = poUsername opts, peToken = poToken opts,
        peTimeout = (if poTimeout opts \<le> 0 then 30 * second else poTimeout opts),
        peCacheTTL = (if poCacheTTL opts \<le> 0 then defaultPullCacheTTL else poCacheTTL opts),
        peCacheMaxBytes = (if poCacheMaxBytes opts \<le> 0 then defaultPullCacheMaxBytes
                           else poCacheMaxBytes opts)\<rparr>)"

text \<open>The credentials a Git request carries: the user name and token, only over HTTP.\<close>

definition authFor :: "PullEngine \<Rightarrow> url \<Rightarrow> (string \<times> string) option" where
  "authFor e cloneURL =
     (if Scheme cloneURL \<noteq> ''http'' \<and> Scheme cloneURL \<noteq> ''https'' then None
      else if peUsername e = [] \<or> peToken e = [] then None
      else Some (peUsername e, peToken e))"

definition pullCacheRoot :: "PullEngine \<Rightarrow> string" where
  "pullCacheRoot e = pathJoin [peCacheDir e, ''.pull'']"

text \<open>\<open>digest\<close> is the hexadecimal form of the first eight bytes of the SHA-256 of the clone URL.\<close>

definition repoPathFor :: "PullEngine \<Rightarrow> string \<Rightarrow> string" where
  "repoPathFor e digest = pathJoin [pullCacheRoot e, digest @ ''.git'']"

record pullDisk =
  pkPresent :: bool
  pkPrivate :: bool
  pkTouches :: nat

record pullWorld =
  pwAcquireWriter :: "goerr option"
  pwAcquireEntry :: "goerr option"
  pwMakeRoomBefore :: "goerr option"
  pwMakeRoomAfter :: "goerr option"
  pwOpen :: "goerr option"
  pwChmod :: "goerr option"
  pwRemoveAll :: "goerr option"
  pwMkdirAll :: "goerr option"
  pwInit :: "goerr option"
  pwRemote :: "goerr option"
  pwCreateRemote :: "goerr option"
  pwFetch :: "string list \<Rightarrow> goerr option"
  pwResolve :: "string \<Rightarrow> goerr + string"
  pwCtx :: "nat \<Rightarrow> goctx"
  pwObjects :: objectStore
  pwTree :: "string \<Rightarrow> goerr + string"
  pwDiffTree :: "bool \<Rightarrow> string \<Rightarrow> string \<Rightarrow> goerr + Change list"
  pwDetectRenames :: "Change list \<Rightarrow> goerr + Change list"
  pwPatch :: "Change \<Rightarrow> goerr + Patch"
  pwFiles :: "Change \<Rightarrow> goerr + int option \<times> int option"
  pwQuote :: "string \<Rightarrow> string"

type_synonym 'a pullIO = "(pullDisk, goerr, 'a) io"

definition check :: "goerr option \<Rightarrow> (goerr \<Rightarrow> goerr) \<Rightarrow> unit pullIO" where
  "check e f = (case e of None \<Rightarrow> ret () | Some e \<Rightarrow> fail (f e))"

definition touchCache :: "unit pullIO" where
  "touchCache d = (Inr (), d\<lparr>pkTouches := pkTouches d + 1\<rparr>)"

definition removeRepo :: "unit pullIO" where
  "removeRepo d = (Inr (), d\<lparr>pkPresent := False\<rparr>)"

definition cachedRepo :: "pullWorld \<Rightarrow> unit pullIO" where
  "cachedRepo w =
     (if pwOpen w = None \<and> pwChmod w = None then (\<lambda>d. (Inr (), d\<lparr>pkPresent := True, pkPrivate := True\<rparr>))
      else
        bindM (check (pwRemoveAll w)
          (mkError CodeInternal ''Could not reset the pull cache repository.'' False 0)) (\<lambda>_.
        bindM removeRepo (\<lambda>_.
        bindM (check (pwMkdirAll w)
          (mkError CodeInternal ''Could not create the pull cache directory.'' False 0)) (\<lambda>_.
        bindM (\<lambda>d. (Inr (), d\<lparr>pkPresent := True, pkPrivate := True\<rparr>)) (\<lambda>_.
        check (pwInit w) classifyGitError)))))"

definition pullHeadRef :: "int \<Rightarrow> string" where
  "pullHeadRef number = ''refs/gogs-mcp/pull/'' @ formatInt number @ ''/head''"

definition baseMirror :: string where
  "baseMirror = ''refs/gogs-mcp/base''"

definition fetchRefs :: "pullWorld \<Rightarrow> int \<Rightarrow> string \<Rightarrow> unit pullIO" where
  "fetchRefs w number baseRef =
     bindM (if pwRemote w = None then ret ()
            else check (pwCreateRemote w)
              (mkError CodeInternal ''Could not configure the pull cache remote.'' False 0)) (\<lambda>_.
       (case pwFetch w
            [''+refs/pull/'' @ formatInt number @ ''/head:'' @ pullHeadRef number,
             ''+refs/heads/'' @ baseRef @ '':'' @ baseMirror] of
          None \<Rightarrow> ret ()
        | Some err \<Rightarrow>
            if errIs err (SentinelErr GitAlreadyUpToDate) then ret ()
            else if errIs err (SentinelErr GitNoMatchingRefSpec)
                  \<or> errIs err (SentinelErr GitReferenceNotFound) then
              fail (mkError CodeInvalidArgument
                (''Could not fetch the pull request refs; the base ref '' @ pwQuote w baseRef
                  @ '' may not exist.'') False 0 err)
            else fail (classifyGitError err)))"

definition resolveCachedRef :: "pullWorld \<Rightarrow> string \<Rightarrow> goerr + string" where
  "resolveCachedRef w ref =
     (case pwResolve w ref of
        Inl err \<Rightarrow> Inl (mkError CodeGogsError
          (''Could not resolve the ref '' @ pwQuote w ref @ '' in the pull cache.'') False 0 err)
      | Inr hash \<Rightarrow> Inr hash)"

definition commitObject :: "pullWorld \<Rightarrow> string \<Rightarrow> goerr + gcommit" where
  "commitObject w hash = (case pwObjects w hash of
     Stored _ c \<Rightarrow> Inr c | Undecodable _ e \<Rightarrow> Inl e | Unreadable e \<Rightarrow> Inl e)"

definition orElse :: "goerr + 'a \<Rightarrow> string \<Rightarrow> goerr + 'a" where
  "orElse r message = (case r of Inl e \<Rightarrow> Inl (mkError CodeGogsError message False 0 e) | Inr x \<Rightarrow> Inr x)"

text \<open>On a capacity failure the cache repository is dropped.\<close>

definition dropOnCapacity :: "unit pullIO \<Rightarrow> unit pullIO" where
  "dropOnCapacity m = onResult m (\<lambda>r. case r of Inr _ \<Rightarrow> ret ()
     | Inl err \<Rightarrow> if errIs err (SentinelErr ErrCapacity) then bindM removeRepo (\<lambda>_. fail err)
                 else fail err)"

text \<open>The computation on the fetched objects; \<open>touchCache\<close> between filtering and rendering is the
  effect in the middle of it.\<close>

definition diffChanges :: "pullWorld \<Rightarrow> string \<Rightarrow> string \<Rightarrow> string list \<Rightarrow>
    goerr + (string \<times> PullCommit list \<times> (string \<times> string list \<times> int) \<times> Change list)" where
  "diffChanges w baseRef number filters =
     bindE (resolveCachedRef w number) (\<lambda>headHash.
     bindE (resolveCachedRef w baseMirror) (\<lambda>baseHash.
     bindE (boundedMergeBases (pwCtx w 0) (pwObjects w) headHash baseHash) (\<lambda>mergeBases.
     bindE (orElse (commitObject w headHash) ''Could not read the pull request head commit.'') (\<lambda>headCommit.
     bindE (orElse (commitObject w baseHash) ''Could not read the base ref commit.'') (\<lambda>baseCommit.
     (case mergeBases of
        [] \<Rightarrow> Inl (gogsErr CodeInvalidArgument
            (''The pull request head has no common history with '' @ pwQuote w baseRef @ ''.''))
      | mergeBase # _ \<Rightarrow>
        bindE (commitsSince (pwCtx w 1) (pwObjects w) (gcHash mergeBase) headHash) (\<lambda>commits.
        bindE (orElse (pwTree w (gcHash mergeBase)) ''Could not read the merge base tree.'') (\<lambda>mergeBaseTree.
        bindE (orElse (pwTree w headHash) ''Could not read the pull request head tree.'') (\<lambda>headTree.
        bindE (orElse (pwTree w baseHash) ''Could not read the base ref tree.'') (\<lambda>baseTree.
        bindE (orElse (pwDiffTree w False mergeBaseTree headTree)
            ''Could not diff the pull request trees.'') (\<lambda>headChanges.
        bindE (mergeStateFor (pwCtx w 2) (pwObjects w) (gcHash mergeBase) baseHash
            (pwDiffTree w True mergeBaseTree baseTree) headChanges) (\<lambda>state.
          (let headChanges = (if filters \<noteq> [] then renameCandidates headChanges filters else headChanges) in
           bindE (validatePatchWork (pwCtx w 3) (pwFiles w) headChanges) (\<lambda>_.
           bindE (case pwDetectRenames w headChanges of Inl e \<Rightarrow> Inl (classifyGitError e) | Inr x \<Rightarrow> Inr x)
             (\<lambda>headChanges.
               Inr (gcHash mergeBase, commits, state,
                 if filters \<noteq> [] then filterChanges headChanges filters else headChanges))))))))))))))))"

definition DiffPull :: "pullWorld \<Rightarrow> int \<Rightarrow> string \<Rightarrow> string list \<Rightarrow> int \<Rightarrow> PullDiff pullIO" where
  "DiffPull w number baseRef paths maxBytes =
     (if number \<le> 0 then
        fail (gogsErr CodeInvalidArgument ''The pull request number must be positive.'')
      else if baseRef = [] then fail (gogsErr CodeInvalidArgument ''The base ref is required.'')
      else
        bindM (check (pwAcquireWriter w) classifyTransportError) (\<lambda>_.
        bindM (check (pwAcquireEntry w) classifyTransportError) (\<lambda>_.
        bindM (check (pwMakeRoomBefore w) classifyGitError) (\<lambda>_.
        bindM (dropOnCapacity (cachedRepo w)) (\<lambda>_.
        bindM (dropOnCapacity (fetchRefs w number baseRef)) (\<lambda>_.
        bindM touchCache (\<lambda>_.
        bindM (case pwMakeRoomAfter w of None \<Rightarrow> ret ()
               | Some err \<Rightarrow> bindM removeRepo (\<lambda>_. fail (classifyGitError err))) (\<lambda>_.
        bindM (liftE (diffChanges w baseRef (pullHeadRef number) (normalizePathFilters paths)))
          (\<lambda>(mergeBase, commits, (mergeState, conflictPaths, baseCommits), headChanges).
        bindM touchCache (\<lambda>_.
        bindM (liftE (buildBoundedPullDiff (pwCtx w 4) (pwPatch w) headChanges commits mergeBase maxBytes))
          (\<lambda>diff.
        ret (diff\<lparr>pdMergeState := mergeState, pdMergeConflictPaths := conflictPaths,
                  pdBaseCommits := baseCommits\<rparr>))))))))))))"

section \<open>The bounded diff text\<close>

lemma encodeWrites_unlimited:
  "ldMaximum wr \<le> 0 \<Longrightarrow>
     encodeWrites wr ps own = (wr\<lparr>ldBuffer := ldBuffer wr @ concat ps\<rparr>, own)"
  by (induction ps arbitrary: wr) (auto simp: ldWrite_def)

lemma encodeWrites_limited:
  assumes "0 < ldMaximum wr" "int (length (ldBuffer wr)) \<le> ldMaximum wr" "\<not> ldTruncated wr"
  shows "encodeWrites wr ps own =
    (if int (length (ldBuffer wr @ concat ps)) \<le> ldMaximum wr
     then (wr\<lparr>ldBuffer := ldBuffer wr @ concat ps\<rparr>, own)
     else (wr\<lparr>ldBuffer := take (nat (ldMaximum wr)) (ldBuffer wr @ concat ps), ldTruncated := True\<rparr>, None))"
  using assms
proof (induction ps arbitrary: wr)
  case Nil
  then show ?case by simp
next
  case (Cons p ps)
  show ?case
  proof (cases "int (length p) \<le> ldMaximum wr - int (length (ldBuffer wr))")
    case True
    with Cons.prems have w: "ldWrite wr p = (wr\<lparr>ldBuffer := ldBuffer wr @ p\<rparr>, True)"
      by (simp add: ldWrite_def Let_def)
    have "encodeWrites (wr\<lparr>ldBuffer := ldBuffer wr @ p\<rparr>) ps own =
        (if int (length ((ldBuffer wr @ p) @ concat ps)) \<le> ldMaximum wr
         then (wr\<lparr>ldBuffer := (ldBuffer wr @ p) @ concat ps\<rparr>, own)
         else (wr\<lparr>ldBuffer := take (nat (ldMaximum wr)) ((ldBuffer wr @ p) @ concat ps),
                  ldTruncated := True\<rparr>, None))"
      using Cons.IH [of "wr\<lparr>ldBuffer := ldBuffer wr @ p\<rparr>"] Cons.prems True by simp
    with w show ?thesis by simp
  next
    case False
    then have big: "\<not> int (length (ldBuffer wr @ concat (p # ps))) \<le> ldMaximum wr" by simp
    have "take (nat (ldMaximum wr)) (ldBuffer wr @ p @ concat ps) =
        ldBuffer wr @ take (nat (ldMaximum wr - int (length (ldBuffer wr)))) p"
      using Cons.prems(2) False by (simp add: nat_diff_distrib)
    with False big Cons.prems(1) show ?thesis by (simp add: ldWrite_def Let_def)
  qed
qed

text \<open>What the loop over the changes does when every patch is there and encodes without an error of
  its own: all file statistics, and the writer cut at its limit.\<close>

definition allText :: "Patch list \<Rightarrow> string" where
  "allText patches = concat (map (\<lambda>p. concat (paWrites p)) patches)"

definition cutAt :: "limitedDiffWriter \<Rightarrow> string \<Rightarrow> limitedDiffWriter" where
  "cutAt wr text =
     (if ldMaximum wr \<le> 0 \<or> int (length text) \<le> ldMaximum wr then wr\<lparr>ldBuffer := text\<rparr>
      else wr\<lparr>ldBuffer := take (nat (ldMaximum wr)) text, ldTruncated := True\<rparr>)"

lemma renderChanges_sum:
  assumes "renderChanges ctx patchOf tick files wr changes = Inr (files', wr')"
    and "\<And>ch p. ch \<in> set changes \<Longrightarrow> patchOf ch = Inr p \<Longrightarrow> paEncodeErr p = None"
    and "wr = cutAt (wr0\<lparr>ldTruncated := False\<rparr>) before"
  shows "\<exists>patches. map patchOf changes = map Inr patches
    \<and> files' = files @ concat (map2 fileStats changes patches)
    \<and> wr' = cutAt (wr0\<lparr>ldTruncated := False\<rparr>) (before @ allText patches)"
  using assms
proof (induction ctx patchOf tick files wr changes arbitrary: before rule: renderChanges.induct)
  case (1 ctx patchOf tick files wr)
  then show ?case by (auto simp: allText_def)
next
  case (2 ctx patchOf tick files wr ch changes)
  have ctx: "ctx tick = None" using "2.prems"(1) by (auto split: option.splits)
  obtain patch where patch: "patchOf ch = Inr patch"
    using "2.prems"(1) ctx by (auto split: sum.splits)
  then have own: "paEncodeErr patch = None" using "2.prems"(2) [OF _ patch] by simp
  have err': "\<And>c p. c \<in> set changes \<Longrightarrow> patchOf c = Inr p \<Longrightarrow> paEncodeErr p = None"
    by (rule "2.prems"(2)) auto
  let ?base = "wr0\<lparr>ldTruncated := False\<rparr>"
  let ?next = "cutAt ?base (before @ concat (paWrites patch))"
  have step: "\<exists>patches. map patchOf changes = map Inr patches
      \<and> files' = (files @ fileStats ch patch) @ concat (map2 fileStats changes patches)
      \<and> wr' = cutAt ?base ((before @ concat (paWrites patch)) @ allText patches)"
  proof (cases "ldTruncated wr")
    case True
    then have over: "\<not> (ldMaximum wr0 \<le> 0 \<or> int (length before) \<le> ldMaximum wr0)"
      using "2.prems"(3) by (auto simp: cutAt_def split: if_splits)
    then have "wr = ?next"
      using "2.prems"(3) by (auto simp: cutAt_def)
    moreover have "renderChanges ctx patchOf (Suc tick) (files @ fileStats ch patch) wr changes
        = Inr (files', wr')"
      using "2.prems"(1) ctx patch True by simp
    ultimately show ?thesis using "2.IH"(2) [OF ctx patch refl] True err' by blast
  next
    case False
    then have fit: "ldMaximum wr0 \<le> 0 \<or> int (length before) \<le> ldMaximum wr0"
      and wr: "wr = ?base\<lparr>ldBuffer := before\<rparr>"
      using "2.prems"(3) by (auto simp: cutAt_def split: if_splits)
    have enc: "encodeWrites wr (paWrites patch) None = (?next, None)"
    proof (cases "ldMaximum wr0 \<le> 0")
      case True
      then show ?thesis by (simp add: encodeWrites_unlimited wr cutAt_def)
    next
      case False
      with fit have "0 < ldMaximum wr" "int (length (ldBuffer wr)) \<le> ldMaximum wr" "\<not> ldTruncated wr"
        by (simp_all add: wr)
      from encodeWrites_limited [OF this] False show ?thesis by (simp add: wr cutAt_def)
    qed
    have "renderChanges ctx patchOf (Suc tick) (files @ fileStats ch patch) ?next changes
        = Inr (files', wr')"
      using "2.prems"(1) ctx patch False enc own by simp
    from "2.IH"(1) [OF ctx patch refl False _ _ this err' refl] enc own show ?thesis by simp
  qed
  then obtain patches where ps: "map patchOf changes = map Inr patches"
      "files' = (files @ fileStats ch patch) @ concat (map2 fileStats changes patches)"
      "wr' = cutAt ?base ((before @ concat (paWrites patch)) @ allText patches)"
    by blast
  then show ?case
    using patch by (intro exI [of _ "patch # patches"]) (simp add: allText_def)
qed

lemma truncateToLastLine_spec:
  fixes raw :: string and maxBytes :: int
  defines "out \<equiv> truncateToLastLine raw maxBytes"
  assumes "0 \<le> maxBytes"
  shows "\<exists>rest. raw = out @ rest" "int (length out) \<le> maxBytes" "out = [] \<or> last out = newline"
    "\<And>a b. raw = a @ newline # b \<Longrightarrow> int (length a) < maxBytes \<Longrightarrow> length a < length out"
proof -
  define kept where "kept = (if int (length raw) > maxBytes then take (nat maxBytes) raw else raw)"
  define tl' where "tl' = rev (takeWhile (\<lambda>ch. ch \<noteq> newline) (rev kept))"
  have out: "out = rev (dropWhile (\<lambda>ch. ch \<noteq> newline) (rev kept))"
    by (simp add: out_def truncateToLastLine_def kept_def)
  have kept: "kept = out @ tl'"
    unfolding out tl'_def by (metis rev_append rev_rev_ident takeWhile_dropWhile_id)
  have no_nl: "newline \<notin> set tl'"
    unfolding tl'_def by (auto dest: set_takeWhileD)
  obtain r where raw: "raw = kept @ r"
    unfolding kept_def by (metis append_Nil2 append_take_drop_id)
  show "\<exists>rest. raw = out @ rest" using raw kept by auto
  have len: "int (length kept) \<le> maxBytes"
    using assms(2) by (auto simp: kept_def)
  then show "int (length out) \<le> maxBytes" using kept by simp
  show "out = [] \<or> last out = newline"
  proof (cases "dropWhile (\<lambda>ch. ch \<noteq> newline) (rev kept)")
    case Nil
    then show ?thesis by (simp add: out)
  next
    case (Cons x xs)
    then have "x = newline" by (metis (mono_tags) dropWhile_eq_Cons_conv)
    with Cons show ?thesis by (simp add: out)
  qed
  fix a b assume ab: "raw = a @ newline # b" "int (length a) < maxBytes"
  show "length a < length out"
  proof (rule ccontr)
    assume not_less: "\<not> length a < length out"
    have in_kept: "length a < length kept"
      using ab by (auto simp: kept_def)
    have "raw ! length a = newline" using ab(1) by simp
    then have "kept ! length a = newline" using in_kept raw by (simp add: nth_append)
    then have "tl' ! (length a - length out) = newline" using kept not_less by (simp add: nth_append)
    moreover have "length a - length out < length tl'" using in_kept kept not_less by simp
    ultimately show False using no_nl nth_mem by metis
  qed
qed

lemma bounded_diff_spec:
  assumes "buildBoundedPullDiff ctx patchOf changes commits base maxBytes = Inr d"
    and "\<And>ch p. ch \<in> set changes \<Longrightarrow> patchOf ch = Inr p \<Longrightarrow> paEncodeErr p = None"
  shows "\<exists>patches. map patchOf changes = map Inr patches
    \<and> pdFiles d = concat (map2 fileStats changes patches)
    \<and> (pdTruncated d \<longleftrightarrow> 0 < maxBytes \<and> maxBytes < int (length (allText patches)))
    \<and> (\<not> pdTruncated d \<longrightarrow> pdDiff d = allText patches)
    \<and> (pdTruncated d \<longrightarrow>
        (\<exists>rest. allText patches = pdDiff d @ rest) \<and> int (length (pdDiff d)) \<le> maxBytes
        \<and> (pdDiff d = [] \<or> last (pdDiff d) = newline)
        \<and> (\<forall>a b. allText patches = a @ newline # b \<and> int (length a) < maxBytes \<longrightarrow>
             length a < length (pdDiff d)))"
proof -
  let ?wr = "\<lparr>ldBuffer = [], ldMaximum = maxBytes, ldTruncated = False\<rparr>"
  from assms(1) obtain files out where
    loop: "renderChanges ctx patchOf 0 [] ?wr changes = Inr (files, out)"
    and d: "pdFiles d = files" "pdTruncated d = ldTruncated out"
      "pdDiff d = (if ldTruncated out then truncateToLastLine (ldBuffer out) maxBytes else ldBuffer out)"
    by (auto simp: buildBoundedPullDiff_def bindE_eq_Inr)
  have wr: "?wr = cutAt (?wr\<lparr>ldTruncated := False\<rparr>) []" by (auto simp: cutAt_def)
  have "\<exists>patches. map patchOf changes = map Inr patches
    \<and> files = [] @ concat (map2 fileStats changes patches)
    \<and> out = cutAt (?wr\<lparr>ldTruncated := False\<rparr>) ([] @ allText patches)"
    by (rule renderChanges_sum [OF loop _ wr]) (rule assms(2))
  then obtain patches where
    ps: "map patchOf changes = map Inr patches" "files = concat (map2 fileStats changes patches)"
    and out: "out = cutAt ?wr (allText patches)" by auto
  let ?full = "allText patches"
  show ?thesis
  proof (cases "0 < maxBytes \<and> maxBytes < int (length ?full)")
    case False
    then show ?thesis
      using ps d by (intro exI [of _ patches]) (auto simp: out cutAt_def)
  next
    case True
    then have t: "ldTruncated out" "ldBuffer out = take (nat maxBytes) ?full"
      by (auto simp: out cutAt_def)
    have tt: "truncateToLastLine (take (nat maxBytes) ?full) maxBytes = truncateToLastLine ?full maxBytes"
      by (auto simp: truncateToLastLine_def)
    from True have "0 \<le> maxBytes" by simp
    note spec = truncateToLastLine_spec [OF this, of ?full]
    have pd: "pdDiff d = truncateToLastLine ?full maxBytes" using d(3) t tt by simp
    show ?thesis
      unfolding pd using ps d(1,2) t(1) True spec by (intro exI [of _ patches]) simp
  qed
qed

text \<open>C4: the rendered diff of a pull request. Every file of every change gets its statistics,
  however small the byte limit. The diff text is the whole patch text when it fits, and it is marked as
  truncated exactly when it does not; then it is the longest run of whole lines of the patch text
  that stays within the limit.\<close>

theorem bounded_diff:
  assumes "buildBoundedPullDiff ctx patchOf changes commits base maxBytes = Inr d"
    and "\<And>ch p. ch \<in> set changes \<Longrightarrow> patchOf ch = Inr p \<Longrightarrow> paEncodeErr p = None"
  shows "\<exists>patches. map patchOf changes = map Inr patches
    \<and> pdFiles d = concat (map2 fileStats changes patches)
    \<and> (pdTruncated d \<longleftrightarrow> 0 < maxBytes \<and> maxBytes < int (length (allText patches)))
    \<and> (\<not> pdTruncated d \<longrightarrow> pdDiff d = allText patches)
    \<and> (pdTruncated d \<longrightarrow>
        (\<exists>rest. allText patches = pdDiff d @ rest) \<and> int (length (pdDiff d)) \<le> maxBytes
        \<and> (pdDiff d = [] \<or> last (pdDiff d) = newline)
        \<and> (\<forall>a b. allText patches = a @ newline # b \<and> int (length a) < maxBytes \<longrightarrow>
             length a < length (pdDiff d)))"
  by (rule bounded_diff_spec [OF assms])

lemma bounded_diff_length:
  assumes "buildBoundedPullDiff ctx patchOf changes commits base maxBytes = Inr d"
    and "\<And>ch p. patchOf ch = Inr p \<Longrightarrow> paEncodeErr p = None" and "0 < maxBytes"
  shows "int (length (pdDiff d)) \<le> maxBytes"
  by (rule exE [OF bounded_diff_spec [OF assms(1)]], rule assms(2), assumption)
    (use assms(3) in auto)

definition addPatch :: "Change \<Rightarrow> goerr + Patch" where
  "addPatch ch = Inr \<lparr>paFilePatches = [\<lparr>fpChunks = [(OpAdd, [CHR ''x'', newline, CHR ''y'', newline])], fpIsBinary = False\<rparr>],
     paWrites = [[CHR ''x'', newline, CHR ''y'', newline]], paEncodeErr = None\<rparr>"

definition addedFile :: Change where
  "addedFile = \<lparr>chFrom = zeroEntry, chTo = \<lparr>ceName = ''f'', ceTree = ''t'', ceMode = 1, ceHash = ''h''\<rparr>\<rparr>"

theorem bounded_diff_witness:
  "\<exists>d. buildBoundedPullDiff (\<lambda>_. None) addPatch [addedFile, addedFile] [] ''b'' 5 = Inr d
     \<and> pdTruncated d \<and> length (pdFiles d) = 2 \<and> pdDiff d = [CHR ''x'', newline, CHR ''y'', newline]"
proof -
  let ?r = "buildBoundedPullDiff (\<lambda>_. None) addPatch [addedFile, addedFile] [] ''b'' 5"
  have "\<not> isl ?r" "pdDiff (projr ?r) = [CHR ''x'', newline, CHR ''y'', newline]" by code_simp+
  then obtain d where d: "?r = Inr d" "pdDiff d = [CHR ''x'', newline, CHR ''y'', newline]"
    by (cases ?r) auto
  have "\<exists>patches. map addPatch [addedFile, addedFile] = map Inr patches
      \<and> pdFiles d = concat (map2 fileStats [addedFile, addedFile] patches)
      \<and> (pdTruncated d \<longleftrightarrow> 0 < (5::int) \<and> 5 < int (length (allText patches)))"
    using bounded_diff [OF d(1)] by (fastforce simp: addPatch_def)
  then have "pdTruncated d" "length (pdFiles d) = 2"
    by (auto simp: addPatch_def allText_def fileStats_def)
  with d show ?thesis by blast
qed

section \<open>Input limits hold\<close>

fun theSizes :: "int option list \<Rightarrow> int list" where
  "theSizes [] = []"
| "theSizes (None # fs) = theSizes fs"
| "theSizes (Some sz # fs) = sz # theSizes fs"

definition fileSizes :: "int option \<times> int option \<Rightarrow> int list" where
  "fileSizes p = theSizes [fst p, snd p]"

lemma addSizes_Inr:
  assumes "\<And>sz. sz \<in> set (theSizes fs) \<Longrightarrow> 0 \<le> sz" "acc \<le> maxInputBytes"
  shows "addSizes acc fs = Inr out \<longleftrightarrow>
    out = acc + sum_list (theSizes fs) \<and> (\<forall>sz \<in> set (theSizes fs). sz \<le> maxBlobBytes)
    \<and> out \<le> maxInputBytes"
  using assms
proof (induction acc fs rule: addSizes.induct)
  case (1 acc)
  then show ?case by auto
next
  case (2 acc fs)
  then show ?case by simp
next
  case (3 acc sz fs)
  have nn: "0 \<le> sum_list (theSizes fs)"
    using "3.prems" by (intro sum_list_nonneg) auto
  show ?case
  proof (cases "sz > maxBlobBytes \<or> acc + sz > maxInputBytes")
    case True
    with nn show ?thesis by auto
  next
    case False
    then show ?thesis using "3.IH" "3.prems" by (auto simp: add.assoc)
  qed
qed

lemma addSizes_sides:
  assumes "\<And>sz. sz \<in> set (fileSizes (a, b)) \<Longrightarrow> 0 \<le> sz" "acc \<le> maxInputBytes"
  shows "addSizes acc [a, b] = Inr out \<longleftrightarrow>
    out = acc + sum_list (fileSizes (a, b)) \<and> (\<forall>sz \<in> set (fileSizes (a, b)). sz \<le> maxBlobBytes)
    \<and> out \<le> maxInputBytes"
  using addSizes_Inr [of "[a, b]" acc out] assms by (simp add: fileSizes_def)

lemma patchWork_Inr:
  assumes "\<And>n. ctx n = None" "acc \<le> maxInputBytes"
    and "\<And>ch p sz. ch \<in> set changes \<Longrightarrow> filesOf ch = Inr p \<Longrightarrow> sz \<in> set (fileSizes p) \<Longrightarrow> 0 \<le> sz"
  shows "patchWork ctx filesOf tick acc changes = Inr () \<longleftrightarrow>
    (\<exists>ps. map filesOf changes = map Inr ps \<and>
       (\<forall>sz \<in> set (concat (map fileSizes ps)). sz \<le> maxBlobBytes) \<and>
       acc + sum_list (concat (map fileSizes ps)) \<le> maxInputBytes)"
  using assms
proof (induction changes arbitrary: tick acc)
  case Nil
  then show ?case by simp
next
  case (Cons ch changes)
  show ?case
  proof (cases "filesOf ch")
    case (Inl e)
    with Cons.prems(1) show ?thesis by auto
  next
    case (Inr p)
    obtain a b where p: "p = (a, b)" by (cases p)
    have nn: "\<And>sz. sz \<in> set (fileSizes (a, b)) \<Longrightarrow> 0 \<le> sz"
      using Cons.prems(3) [of ch p] Inr p by auto
    note sides = addSizes_sides [OF nn Cons.prems(2), simplified]
    let ?acc = "acc + sum_list (fileSizes (a, b))"
    have nn': "0 \<le> sz" if "c \<in> set changes" "filesOf c = Inr q" "sz \<in> set (fileSizes q)" for c q sz
      by (rule Cons.prems(3) [OF _ that(2,3)]) (use that(1) in simp)
    have ih: "?acc \<le> maxInputBytes \<Longrightarrow> patchWork ctx filesOf (Suc tick) ?acc changes = Inr () \<longleftrightarrow>
        (\<exists>ps. map filesOf changes = map Inr ps \<and>
          (\<forall>sz \<in> set (concat (map fileSizes ps)). sz \<le> maxBlobBytes) \<and>
          ?acc + sum_list (concat (map fileSizes ps)) \<le> maxInputBytes)"
      by (rule Cons.IH [OF Cons.prems(1)]) (use nn' in auto)
    have "patchWork ctx filesOf tick acc (ch # changes) = Inr () \<longleftrightarrow>
        (\<forall>sz \<in> set (fileSizes (a, b)). sz \<le> maxBlobBytes) \<and> ?acc \<le> maxInputBytes \<and>
        patchWork ctx filesOf (Suc tick) ?acc changes = Inr ()"
      using Inr p Cons.prems(1) by (auto simp: bindE_eq_Inr sides)
    also have "\<dots> \<longleftrightarrow> (\<forall>sz \<in> set (fileSizes (a, b)). sz \<le> maxBlobBytes) \<and> ?acc \<le> maxInputBytes \<and>
        (\<exists>ps. map filesOf changes = map Inr ps \<and>
          (\<forall>sz \<in> set (concat (map fileSizes ps)). sz \<le> maxBlobBytes) \<and>
          ?acc + sum_list (concat (map fileSizes ps)) \<le> maxInputBytes)"
      using ih by auto
    also have "\<dots> \<longleftrightarrow> (\<exists>ps. map filesOf (ch # changes) = map Inr ps \<and>
          (\<forall>sz \<in> set (concat (map fileSizes ps)). sz \<le> maxBlobBytes) \<and>
          acc + sum_list (concat (map fileSizes ps)) \<le> maxInputBytes)" (is "?A \<longleftrightarrow> ?B")
    proof
      assume ?A
      then obtain ps where "map filesOf changes = map Inr ps"
        "\<forall>sz \<in> set (concat (map fileSizes ps)). sz \<le> maxBlobBytes"
        "?acc + sum_list (concat (map fileSizes ps)) \<le> maxInputBytes"
        "\<forall>sz \<in> set (fileSizes (a, b)). sz \<le> maxBlobBytes" by blast
      then show ?B using Inr p by (intro exI [of _ "(a, b) # ps"]) auto
    next
      assume ?B
      then obtain qs where qs: "map filesOf (ch # changes) = map Inr qs"
        "\<forall>sz \<in> set (concat (map fileSizes qs)). sz \<le> maxBlobBytes"
        "acc + sum_list (concat (map fileSizes qs)) \<le> maxInputBytes" by blast
      then obtain ps where ps: "qs = (a, b) # ps" "map filesOf changes = map Inr ps"
        using Inr p by (cases qs) auto
      have "0 \<le> sum_list (concat (map fileSizes ps))"
      proof (rule sum_list_nonneg)
        fix sz assume "sz \<in> set (concat (map fileSizes ps))"
        then obtain q where q: "q \<in> set ps" "sz \<in> set (fileSizes q)" by auto
        then have "Inr q \<in> set (map filesOf changes)" using ps(2) by auto
        then obtain ch' where "ch' \<in> set changes" "filesOf ch' = Inr q" by auto
        with q(2) Cons.prems(3) [of ch' q sz] show "0 \<le> sz" by simp
      qed
      with qs ps show ?A by auto
    qed
    finally show ?thesis .
  qed
qed

text \<open>the input check of a diff accepts exactly the change lists of at most 2000 entries whose
  blobs can all be sized, are at most 1 MiB each and at most 8 MiB together.\<close>

theorem patch_work_limits:
  assumes "\<And>n. ctx n = None"
    and "\<And>ch p sz. ch \<in> set changes \<Longrightarrow> filesOf ch = Inr p \<Longrightarrow> sz \<in> set (fileSizes p) \<Longrightarrow> 0 \<le> sz"
  shows "validatePatchWork ctx filesOf changes = Inr () \<longleftrightarrow>
    int (length changes) \<le> 2000 \<and>
    (\<exists>ps. map filesOf changes = map Inr ps \<and>
       (\<forall>sz \<in> set (concat (map fileSizes ps)). sz \<le> 1048576) \<and>
       sum_list (concat (map fileSizes ps)) \<le> 8388608)"
  using patchWork_Inr [of ctx 0 changes filesOf 0, OF assms(1) _ assms(2)]
  by (auto simp: validatePatchWork_def maxChangedFiles_def maxInputBytes_def maxBlobBytes_def)

theorem patch_work_limits_witness:
  "validatePatchWork (\<lambda>_. None) (\<lambda>_. Inr (None, Some 1048576)) (replicate 8 addedFile) = Inr ()
   \<and> validatePatchWork (\<lambda>_. None) (\<lambda>_. Inr (None, Some 1048576)) (replicate 9 addedFile) \<noteq> Inr ()"
proof -
  have map_eq: "replicate n (Inr x :: goerr + _) = map Inr ps \<longleftrightarrow> ps = replicate n x" for n x
    and ps :: "(int option \<times> int option) list"
  proof
    assume "replicate n (Inr x :: goerr + _) = map Inr ps"
    then have "map Inr ps = (map Inr (replicate n x) :: (goerr + _) list)" by simp
    then show "ps = replicate n x" by (metis inj_map_eq_map inj_onI sum.inject(2))
  qed simp
  have lim: "validatePatchWork (\<lambda>_. None) (\<lambda>_. Inr (None, Some 1048576)) (replicate n addedFile) = Inr ()
      \<longleftrightarrow> int n \<le> 8" for n
  proof -
    have sizes: "fileSizes (None, Some x) = [x]" for x by (simp add: fileSizes_def)
    have all: "concat (map fileSizes (replicate n (None, Some x))) = replicate n x" for x
      by (induction n) (auto simp: sizes)
    show ?thesis
      using patch_work_limits [of "\<lambda>_. None" "replicate n addedFile" "\<lambda>_. Inr (None, Some 1048576)"]
      by (simp add: sizes map_replicate_const map_eq all sum_list_replicate del: map_concat)
         (auto simp: sizes map_eq)
  qed
  show ?thesis using lim [of 8] lim [of 9] by simp
qed

section \<open>Merge states and the whole diff\<close>

definition touches :: "Change list \<Rightarrow> string \<Rightarrow> bool" where
  "touches changes p \<longleftrightarrow> p \<noteq> [] \<and> (\<exists>ch \<in> set changes. ceName (chFrom ch) = p \<or> ceName (chTo ch) = p)"

lemma set_touchedPaths: "set (touchedPaths changes) = {p. touches changes p}"
  by (auto simp: touchedPaths_def touches_def split: if_splits)

lemma distinct_touchedPaths: "distinct (touchedPaths changes)"
  by (simp add: touchedPaths_def)

text \<open>C25: the merge state. It is fast_forward exactly when the base has no commit outside the merge
  base's history, conflicting exactly when it has and both sides touched some path, diverged otherwise.
  The conflict paths are, in ascending order and without repetition, the paths both sides
  touched, and the commit count is the number of commits the base has beyond the merge base.\<close>

theorem merge_state_exact:
  assumes "contentAddressed objects"
    and "mergeStateFor ctx objects mergeBase base (Inr baseChanges) headChanges = Inr (state, paths, n)"
  defines "ahead \<equiv> history objects base - history objects mergeBase"
  defines "common \<equiv> {p. touches baseChanges p \<and> touches headChanges p}"
  shows "finite ahead \<and> n = int (card ahead)
    \<and> state = (if ahead = {} then ''fast_forward''
               else if common \<noteq> {} then ''conflicting'' else ''diverged'')
    \<and> sorted_wrt (<) paths \<and> set paths = (if ahead = {} then {} else common)"
proof -
  obtain cs where cs: "commitsSince ctx objects mergeBase base = Inr cs"
    using assms(2) by (cases "commitsSince ctx objects mergeBase base") (simp_all add: mergeStateFor_def)
  with assms(2) have res: "(if cs = [] then Inr (''fast_forward'', [], 0)
      else (let conflicts = filter (\<lambda>path. path \<in> set (touchedPaths headChanges)) (touchedPaths baseChanges)
        in if conflicts \<noteq> []
           then Inr (''conflicting'', sortSlice (\<lambda>a b. a < b) conflicts, int (length cs))
           else Inr (''diverged'', [], int (length cs)))) = (Inr (state, paths, n) :: goerr + _)"
    by (auto simp: mergeStateFor_def Let_def split: if_splits)
  from commits_spec [OF assms(1) cs]
  have ahead: "pcSHA ` set cs = ahead" "distinct (map pcSHA cs)" by (simp_all add: ahead_def)
  have card: "finite ahead" "card ahead = length cs"
    using ahead by (metis List.finite_set finite_imageI) (metis ahead distinct_card length_map set_map)
  have empty: "cs = [] \<longleftrightarrow> ahead = {}" using ahead(1) by auto
  define conflicts where
    "conflicts = filter (\<lambda>path. path \<in> set (touchedPaths headChanges)) (touchedPaths baseChanges)"
  have conf: "set conflicts = common" "distinct conflicts"
    by (auto simp: conflicts_def set_touchedPaths common_def distinct_touchedPaths)
  have sorted: "sorted_wrt (<) (sortSlice (\<lambda>a b. a < b) conflicts)"
  proof -
    have "sorted_wrt (\<lambda>a b. \<not> b < a) (sortSlice (\<lambda>a b. a < b) conflicts)"
      by (rule sorted_sortSlice) auto
    then have "sorted (sortSlice (\<lambda>a b. a < b) conflicts)" by (simp add: not_less)
    then show ?thesis using conf(2) by (simp add: strict_sorted_iff)
  qed
  show ?thesis
  proof (cases "cs = []")
    case True
    with res empty card show ?thesis by auto
  next
    case False
    have conf_empty: "conflicts = [] \<longleftrightarrow> common = {}" using conf(1) by auto
    show ?thesis
    proof (cases "conflicts = []")
      case True
      with False res conf_empty empty card show ?thesis by (auto simp: conflicts_def [symmetric])
    next
      case no: False
      with False res have "state = ''conflicting''" "paths = sortSlice (\<lambda>a b. a < b) conflicts"
        "n = int (length cs)" by (auto simp: conflicts_def [symmetric])
      with no False conf_empty conf(1) sorted empty card show ?thesis by simp
    qed
  qed
qed

definition edit :: "string \<Rightarrow> Change" where
  "edit name = \<lparr>chFrom = \<lparr>ceName = name, ceTree = ''s'', ceMode = 1, ceHash = ''g''\<rparr>,
     chTo = \<lparr>ceName = name, ceTree = ''t'', ceMode = 1, ceHash = ''h''\<rparr>\<rparr>"

theorem merge_state_exact_witness:
  "mergeStateFor (\<lambda>_. None) forked ''b'' ''x'' (Inr [edit ''f'', edit ''g'']) [edit ''g'']
     = Inr (''conflicting'', [''g''], 1)
   \<and> card (history forked ''x'' - history forked ''b'') = 1"
proof -
  have run: "mergeStateFor (\<lambda>_. None) forked ''b'' ''x'' (Inr [edit ''f'', edit ''g'']) [edit ''g'']
     = Inr (''conflicting'', [''g''], 1)" by code_simp
  have "contentAddressed forked"
    by (auto simp: contentAddressed_def forked_def diamond_def split: if_splits)
  from merge_state_exact [OF this run] run show ?thesis by simp
qed

lemma diffChanges_Inr:
  assumes "diffChanges w baseRef headRef filters = Inr (mb, commits, (state, paths, n), changes)"
  obtains head base bases mbc baseDiff headChanges where
    "pwResolve w headRef = Inr head" "pwResolve w baseMirror = Inr base"
    "boundedMergeBases (pwCtx w 0) (pwObjects w) head base = Inr (mbc # bases)" "gcHash mbc = mb"
    "commitsSince (pwCtx w 1) (pwObjects w) mb head = Inr commits"
    "mergeStateFor (pwCtx w 2) (pwObjects w) mb base baseDiff headChanges = Inr (state, paths, n)"
proof -
  from assms obtain head base where refs: "pwResolve w headRef = Inr head" "pwResolve w baseMirror = Inr base"
    by (auto simp: diffChanges_def bindE_eq_Inr resolveCachedRef_def split: sum.splits)
  obtain bs where bs: "boundedMergeBases (pwCtx w 0) (pwObjects w) head base = Inr bs"
    using assms refs
    by (cases "boundedMergeBases (pwCtx w 0) (pwObjects w) head base")
      (simp_all add: diffChanges_def resolveCachedRef_def)
  have "bs \<noteq> []"
    using assms refs bs by (auto simp: diffChanges_def resolveCachedRef_def bindE_eq_Inr)
  then obtain mbc bases where cons: "bs = mbc # bases" by (cases bs) auto
  from assms refs bs cons obtain baseDiff headChanges where
    "gcHash mbc = mb" "commitsSince (pwCtx w 1) (pwObjects w) mb head = Inr commits"
    "mergeStateFor (pwCtx w 2) (pwObjects w) mb base baseDiff headChanges = Inr (state, paths, n)"
    by (auto simp: diffChanges_def resolveCachedRef_def Let_def bindE_eq_Inr)
  with refs bs cons that show thesis by blast
qed

lemma mergeStateFor_count:
  assumes "contentAddressed objects"
    and "mergeStateFor ctx objects mergeBase base baseDiff headChanges = Inr (state, paths, n)"
  shows "n = int (card (history objects base - history objects mergeBase))"
    and "state = ''fast_forward'' \<longleftrightarrow> history objects base \<subseteq> history objects mergeBase"
proof -
  obtain cs where cs: "commitsSince ctx objects mergeBase base = Inr cs"
    using assms(2) by (cases "commitsSince ctx objects mergeBase base") (simp_all add: mergeStateFor_def)
  let ?ahead = "history objects base - history objects mergeBase"
  from commits_spec [OF assms(1) cs]
  have ahead: "set (map pcSHA cs) = ?ahead" "distinct (map pcSHA cs)" by simp_all
  then have card: "card ?ahead = length cs" by (metis distinct_card length_map)
  have "cs = [] \<longleftrightarrow> ?ahead = {}" using ahead(1) by (metis list.map_disc_iff set_empty)
  with card show "n = int (card ?ahead)" "state = ''fast_forward'' \<longleftrightarrow>
      history objects base \<subseteq> history objects mergeBase"
    using assms(2) cs
    by (auto simp: mergeStateFor_def Let_def split: sum.splits if_splits)
qed

lemma DiffPull_Inr:
  assumes "DiffPull w number baseRef paths maxBytes d = (Inr diff, d')"
  obtains mb commits state confl n changes diff0 where
    "diffChanges w baseRef (pullHeadRef number) (normalizePathFilters paths)
       = Inr (mb, commits, (state, confl, n), changes)"
    "buildBoundedPullDiff (pwCtx w 4) (pwPatch w) changes commits mb maxBytes = Inr diff0"
    "diff = diff0\<lparr>pdMergeState := state, pdMergeConflictPaths := confl, pdBaseCommits := n\<rparr>"
proof -
  from assms have pos: "\<not> number \<le> 0" "baseRef \<noteq> []" by (auto simp: DiffPull_def split: if_splits)
  then show thesis
    using assms that
    unfolding DiffPull_def
    by (simp add: bindM_eq_Inr) (auto simp: bindM_eq_Inr)
qed

text \<open>C17: a successful diff of a pull request describes the fetched commits. Its merge base is a best
  common ancestor of the head and the base, its commits are those of the head outside the merge
  base's history, its base count is the number of commits of the base outside that history, and with a
  positive limit its text never exceeds it.\<close>

theorem DiffPull_describes:
  assumes "contentAddressed (pwObjects w)" "acyclic (parentOf (pwObjects w))"
    and "DiffPull w number baseRef paths maxBytes d = (Inr diff, d')"
    and "\<And>ch p. pwPatch w ch = Inr p \<Longrightarrow> paEncodeErr p = None"
  shows "\<exists>head base. pwResolve w (pullHeadRef number) = Inr head \<and> pwResolve w baseMirror = Inr base \<and>
    (let H = history (pwObjects w) head; B = history (pwObjects w) base;
         M = history (pwObjects w) (pdMergeBase diff)
     in pdMergeBase diff \<in> H \<inter> B
      \<and> (\<forall>y \<in> H \<inter> B. (y, pdMergeBase diff) \<notin> (parentOf (pwObjects w))\<^sup>+)
      \<and> pcSHA ` set (pdCommits diff) = H - M \<and> sorted_wrt newerCommit (pdCommits diff)
      \<and> pdBaseCommits diff = int (card (B - M))
      \<and> (pdMergeState diff = ''fast_forward'' \<longleftrightarrow> B \<subseteq> M)
      \<and> (0 < maxBytes \<longrightarrow> int (length (pdDiff diff)) \<le> maxBytes))"
proof -
  from DiffPull_Inr [OF assms(3)] obtain mb commits state confl n changes diff0 where
    dc: "diffChanges w baseRef (pullHeadRef number) (normalizePathFilters paths)
       = Inr (mb, commits, (state, confl, n), changes)"
    and bd: "buildBoundedPullDiff (pwCtx w 4) (pwPatch w) changes commits mb maxBytes = Inr diff0"
    and diff: "diff = diff0\<lparr>pdMergeState := state, pdMergeConflictPaths := confl, pdBaseCommits := n\<rparr>"
    by metis
  from diffChanges_Inr [OF dc] obtain head base bases mbc baseDiff headChanges where
    refs: "pwResolve w (pullHeadRef number) = Inr head" "pwResolve w baseMirror = Inr base"
    and bs: "boundedMergeBases (pwCtx w 0) (pwObjects w) head base = Inr (mbc # bases)" "gcHash mbc = mb"
    and cs: "commitsSince (pwCtx w 1) (pwObjects w) mb head = Inr commits"
    and ms: "mergeStateFor (pwCtx w 2) (pwObjects w) mb base baseDiff headChanges = Inr (state, confl, n)"
    by metis
  have fields: "pdMergeBase diff = mb" "pdCommits diff = commits" "pdBaseCommits diff = n"
    "pdMergeState diff = state" "pdDiff diff = pdDiff diff0"
    using bd by (auto simp: diff buildBoundedPullDiff_def bindE_eq_Inr)
  have "mb \<in> gcHash ` set (mbc # bases)" using bs(2) by auto
  moreover note merge_bases_spec [OF assms(1,2) bs(1), THEN conjunct1]
  ultimately have best: "mb \<in> {x \<in> history (pwObjects w) head \<inter> history (pwObjects w) base.
      \<forall>y \<in> history (pwObjects w) head \<inter> history (pwObjects w) base. (y, x) \<notin> (parentOf (pwObjects w))\<^sup>+}"
    by (simp only:)
  note commits = commits_spec [OF assms(1) cs]
  note state = mergeStateFor_count [OF assms(1) ms]
  have bound: "int (length (pdDiff diff0)) \<le> maxBytes" if "0 < maxBytes"
    by (rule bounded_diff_length [OF bd _ that]) (use assms(4) in blast)
  show ?thesis
    using refs best commits state bound unfolding fields Let_def by blast
qed

definition sampleWorld :: pullWorld where
  "sampleWorld = \<lparr>pwAcquireWriter = None, pwAcquireEntry = None, pwMakeRoomBefore = None,
     pwMakeRoomAfter = None, pwOpen = None, pwChmod = None, pwRemoveAll = None, pwMkdirAll = None,
     pwInit = None, pwRemote = None, pwCreateRemote = None, pwFetch = (\<lambda>_. None),
     pwResolve = (\<lambda>ref. if ref = baseMirror then Inr ''x'' else Inr ''d''),
     pwCtx = (\<lambda>_ _. None), pwObjects = forked, pwTree = Inr,
     pwDiffTree = (\<lambda>_ _ _. Inr [edit ''f'']), pwDetectRenames = Inr, pwPatch = addPatch,
     pwFiles = (\<lambda>_. Inr (Some 4, Some 4)), pwQuote = id\<rparr>"

theorem DiffPull_describes_witness:
  "\<exists>diff d'. DiffPull sampleWorld 1 ''main'' [] 3 \<lparr>pkPresent = True, pkPrivate = True, pkTouches = 0\<rparr>
       = (Inr diff, d')
     \<and> pdMergeBase diff = ''b'' \<and> pdDiff diff = [CHR ''x'', newline]
     \<and> card (history forked ''x'' - history forked ''b'') = 1"
proof -
  let ?run = "DiffPull sampleWorld 1 ''main'' [] 3 \<lparr>pkPresent = True, pkPrivate = True, pkTouches = 0\<rparr>"
  have val: "\<not> isl (fst ?run)" "pdMergeBase (projr (fst ?run)) = ''b''"
    "pdDiff (projr (fst ?run)) = [CHR ''x'', newline]" "pdBaseCommits (projr (fst ?run)) = 1"
    by code_simp+
  then obtain diff d' where run: "?run = (Inr diff, d')" by (cases ?run; cases "fst ?run") auto
  have "contentAddressed (pwObjects sampleWorld)" "acyclic (parentOf (pwObjects sampleWorld))"
    using forked_acyclic
    by (auto simp: sampleWorld_def contentAddressed_def forked_def diamond_def split: if_splits)
  from DiffPull_describes [OF this run] val run
  have "int (card (history forked ''x'' - history forked ''b'')) = 1"
    by (auto simp: Let_def sampleWorld_def addPatch_def pullHeadRef_def baseMirror_def)
  with val run show ?thesis by auto
qed

end
