(* ===== verification/GogsIssues.thy ===== *)
theory GogsIssues
  imports GitRefs
begin

text \<open>
  internal/gogs/issue.go: issues, labels, milestones and comments. Each response struct is a
  record with its decoder; \<open>mapIssue\<close> and its companions give the values the tools see.
  A write builds its JSON payload as the struct tags say: an \<open>omitempty\<close> field is left
  out when it holds its zero value, a pointer field when it is nil.
\<close>

section \<open>Data\<close>

record IssueLabel =
  ilName :: string
  ilColor :: string

record IssueMilestone =
  imTitle :: string
  imState :: string

record Issue =
  isNumber :: int
  isTitle :: string
  isBody :: string
  isState :: string
  isUser :: User
  isAssignee :: "User option"
  isLabels :: "IssueLabel list"
  isMilestone :: "IssueMilestone option"
  isNumComments :: int
  isCreatedAt :: string
  isUpdatedAt :: string
  isWebURL :: string

record IssueSummary =
  smNumber :: int
  smTitle :: string
  smState :: string
  smUser :: User
  smLabels :: "IssueLabel list"
  smNumComments :: int
  smCreatedAt :: string
  smUpdatedAt :: string

record IssueComment =
  icID :: int
  icUser :: User
  icBody :: string
  icCreatedAt :: string
  icUpdatedAt :: string

record RepositoryLabel =
  rlID :: int
  rlName :: string
  rlColor :: string

record RepositoryMilestone =
  rmID :: int
  rmTitle :: string
  rmState :: string

record CreateIssueOptions =
  coTitle :: string
  coBody :: string
  coAssignee :: string
  coLabelIDs :: "int list"
  coMilestoneID :: int

record UpdateIssueOptions =
  uoTitle :: string
  uoBody :: "string option"
  uoAssignee :: "string option"
  uoMilestone :: "int option"
  uoState :: "string option"

record issueResponse =
  irNumber :: int
  irUser :: "userResponse option"
  irTitle :: string
  irBody :: string
  irLabels :: "IssueLabel list"
  irMilestone :: "RepositoryMilestone option"
  irAssignee :: "userResponse option"
  irState :: string
  irComments :: int
  irCreatedAt :: string
  irUpdatedAt :: string

record issueCommentResponse =
  icrID :: int
  icrUser :: "userResponse option"
  icrBody :: string
  icrCreatedAt :: string
  icrUpdatedAt :: string

definition decIssueLabel :: "json \<Rightarrow> IssueLabel option" where
  "decIssueLabel j = decObj j (\<lambda>j. do {
     n \<leftarrow> decStr (jfield j ''name'');
     co \<leftarrow> decStr (jfield j ''color'');
     Some \<lparr>ilName = n, ilColor = co\<rparr> })"

definition decLabel :: "json \<Rightarrow> RepositoryLabel option" where
  "decLabel j = decObj j (\<lambda>j. do {
     i \<leftarrow> decInt (jfield j ''id'');
     n \<leftarrow> decStr (jfield j ''name'');
     co \<leftarrow> decStr (jfield j ''color'');
     Some \<lparr>rlID = i, rlName = n, rlColor = co\<rparr> })"

definition decMilestone :: "json \<Rightarrow> RepositoryMilestone option" where
  "decMilestone j = decObj j (\<lambda>j. do {
     i \<leftarrow> decInt (jfield j ''id'');
     n \<leftarrow> decStr (jfield j ''title'');
     s \<leftarrow> decStr (jfield j ''state'');
     Some \<lparr>rmID = i, rmTitle = n, rmState = s\<rparr> })"

definition decIssue :: "json \<Rightarrow> issueResponse option" where
  "decIssue j = decObj j (\<lambda>j. do {
     _ \<leftarrow> decInt (jfield j ''id'');
     n \<leftarrow> decInt (jfield j ''number'');
     u \<leftarrow> decPtr decUser (jfield j ''user'');
     t \<leftarrow> decStr (jfield j ''title'');
     b \<leftarrow> decStr (jfield j ''body'');
     ls \<leftarrow> decList decIssueLabel (jfield j ''labels'');
     m \<leftarrow> decPtr decMilestone (jfield j ''milestone'');
     a \<leftarrow> decPtr decUser (jfield j ''assignee'');
     s \<leftarrow> decStr (jfield j ''state'');
     k \<leftarrow> decInt (jfield j ''comments'');
     ca \<leftarrow> decStr (jfield j ''created_at'');
     ua \<leftarrow> decStr (jfield j ''updated_at'');
     Some \<lparr>irNumber = n, irUser = u, irTitle = t, irBody = b, irLabels = ls, irMilestone = m,
           irAssignee = a, irState = s, irComments = k, irCreatedAt = ca, irUpdatedAt = ua\<rparr> })"

definition decIssueComment :: "json \<Rightarrow> issueCommentResponse option" where
  "decIssueComment j = decObj j (\<lambda>j. do {
     i \<leftarrow> decInt (jfield j ''id'');
     u \<leftarrow> decPtr decUser (jfield j ''user'');
     b \<leftarrow> decStr (jfield j ''body'');
     ca \<leftarrow> decStr (jfield j ''created_at'');
     ua \<leftarrow> decStr (jfield j ''updated_at'');
     Some \<lparr>icrID = i, icrUser = u, icrBody = b, icrCreatedAt = ca, icrUpdatedAt = ua\<rparr> })"

section \<open>Mapping\<close>

definition derefIssueUser :: "userResponse option \<Rightarrow> userResponse" where
  "derefIssueUser r = (case r of
     None \<Rightarrow> \<lparr>urId = 0, urUsername = [], urLogin = [], urFullName = [], urEmail = []\<rparr>
   | Some u \<Rightarrow> u)"

definition mapIssueUser :: "userResponse \<Rightarrow> User" where
  "mapIssueUser r =
     \<lparr>uId = urId r, uUsername = (if urUsername r = [] then urLogin r else urUsername r),
      uFullName = urFullName r, uEmail = urEmail r\<rparr>"

definition mapIssueUserPointer :: "userResponse option \<Rightarrow> User option" where
  "mapIssueUserPointer r = map_option mapIssueUser r"

definition mapIssueMilestone :: "RepositoryMilestone option \<Rightarrow> IssueMilestone option" where
  "mapIssueMilestone r = map_option (\<lambda>m. \<lparr>imTitle = rmTitle m, imState = rmState m\<rparr>) r"

definition mapIssueSummary :: "issueResponse \<Rightarrow> IssueSummary" where
  "mapIssueSummary r =
     \<lparr>smNumber = irNumber r, smTitle = irTitle r, smState = irState r,
      smUser = mapIssueUser (derefIssueUser (irUser r)), smLabels = irLabels r,
      smNumComments = irComments r, smCreatedAt = irCreatedAt r, smUpdatedAt = irUpdatedAt r\<rparr>"

definition mapIssue :: "issueResponse \<Rightarrow> Issue" where
  "mapIssue r =
     \<lparr>isNumber = irNumber r, isTitle = irTitle r, isBody = irBody r, isState = irState r,
      isUser = mapIssueUser (derefIssueUser (irUser r)),
      isAssignee = mapIssueUserPointer (irAssignee r), isLabels = irLabels r,
      isMilestone = mapIssueMilestone (irMilestone r), isNumComments = irComments r,
      isCreatedAt = irCreatedAt r, isUpdatedAt = irUpdatedAt r, isWebURL = []\<rparr>"

definition mapIssueComment :: "issueCommentResponse \<Rightarrow> IssueComment" where
  "mapIssueComment r =
     \<lparr>icID = icrID r, icUser = mapIssueUser (derefIssueUser (icrUser r)), icBody = icrBody r,
      icCreatedAt = icrCreatedAt r, icUpdatedAt = icrUpdatedAt r\<rparr>"

text \<open>The browser URL of an issue. \<open>rootString u\<close> is \<open>u.String()\<close>, for an absolute URL whose
  path needs no escaping.\<close>

definition rootString :: "url \<Rightarrow> string" where
  "rootString u = Scheme u @ ''://'' @ Host u @ Path u"

definition withWebURL :: "Client \<Rightarrow> string \<Rightarrow> string \<Rightarrow> Issue \<Rightarrow> Issue" where
  "withWebURL c owner repo issue =
     (let root = (apiRoot c)\<lparr>Path := trimSuffix (Path (apiRoot c)) ''api/v1/''\<rparr>
      in issue\<lparr>isWebURL := trimSuffix (rootString root) [slash] @ [slash] @ pathEscape owner @ [slash]
           @ pathEscape repo @ ''/issues/'' @ formatInt (isNumber issue)\<rparr>)"

section \<open>Pagination\<close>

text \<open>The match of the \<open>rel="next"\<close> link pattern at the head of a string, and the first match.
  The target ends at the first \<open>>\<close>; its trailing digits follow \<open>?page=\<close> or \<open>&page=\<close>.\<close>

definition linkAt :: "string \<Rightarrow> string option" where
  "linkAt s = (case s of [] \<Rightarrow> None | ch # t \<Rightarrow>
     if ch \<noteq> CHR ''<'' then None
     else (let target = takeWhile (\<lambda>x. x \<noteq> CHR ''>'') t;
               rest = dropWhile (\<lambda>x. x \<noteq> CHR ''>'') t;
               digits = rev (takeWhile isDigit (rev target));
               before = take (length target - length digits) target
           in if rest \<noteq> [] \<and> digits \<noteq> []
                 \<and> (hasSuffix before ''?page='' \<or> hasSuffix before ''&page='')
                 \<and> hasPrefix rest ''>;''
                 \<and> hasPrefix (dropWhile (\<lambda>x. x \<in> {CHR 0x20, CHR 0x09, CHR 0x0A, CHR 0x0C, CHR 0x0D})
                       (drop 2 rest)) ''rel=\"next\"''
              then Some digits else None))"

fun firstLink :: "string \<Rightarrow> string option" where
  "firstLink [] = None"
| "firstLink (ch # s) = (case linkAt (ch # s) of Some d \<Rightarrow> Some d | None \<Rightarrow> firstLink s)"

definition nextPageFromLinkHeader :: "string \<Rightarrow> int" where
  "nextPageFromLinkHeader link =
     (case firstLink link of None \<Rightarrow> 0
      | Some digits \<Rightarrow> (case parseInt digits of None \<Rightarrow> 0 | Some page \<Rightarrow> page))"

section \<open>Operations\<close>

definition ListIssues :: "httpWorld \<Rightarrow> Client \<Rightarrow> string \<Rightarrow> string \<Rightarrow> string \<Rightarrow> int \<Rightarrow>
    (IssueSummary list \<times> int) clientIO" where
  "ListIssues w c owner repo state page =
     bindM (getJSONWithHeaders w c (decList decIssue)
         [(''state'', state), (''page'', formatInt page)] [''repos'', owner, repo, ''issues''])
       (\<lambda>(link, rs). ret (map mapIssueSummary rs, nextPageFromLinkHeader link))"

definition GetIssue :: "httpWorld \<Rightarrow> Client \<Rightarrow> string \<Rightarrow> string \<Rightarrow> int \<Rightarrow> Issue clientIO" where
  "GetIssue w c owner repo number =
     onResult (getJSON w c decIssue [''repos'', owner, repo, ''issues'', formatInt number]) (\<lambda>r. case r of
       Inl err \<Rightarrow> fail (rewordNotFound
         ''The issue does not exist or the current user cannot access it.'' err)
     | Inr response \<Rightarrow> ret (withWebURL c owner repo (mapIssue response)))"

definition createPayload :: "CreateIssueOptions \<Rightarrow> json" where
  "createPayload opts = JObj
     ([(''title'', JStr (coTitle opts)), (''body'', JStr (coBody opts))]
      @ (if coAssignee opts = [] then [] else [(''assignee'', JStr (coAssignee opts))])
      @ (if coMilestoneID opts = 0 then [] else [(''milestone'', JNum (coMilestoneID opts))])
      @ (if coLabelIDs opts = [] then [] else [(''labels'', JArr (map JNum (coLabelIDs opts)))]))"

definition CreateIssue :: "httpWorld \<Rightarrow> Client \<Rightarrow> string \<Rightarrow> string \<Rightarrow> CreateIssueOptions \<Rightarrow> Issue clientIO" where
  "CreateIssue w c owner repo opts =
     bindM (postJSON w c decIssue (createPayload opts) [''repos'', owner, repo, ''issues''])
       (\<lambda>r. ret (withWebURL c owner repo (mapIssue r)))"

definition optField :: "string \<Rightarrow> ('a \<Rightarrow> json) \<Rightarrow> 'a option \<Rightarrow> (string \<times> json) list" where
  "optField key enc v = (case v of None \<Rightarrow> [] | Some x \<Rightarrow> [(key, enc x)])"

definition updatePayload :: "UpdateIssueOptions \<Rightarrow> json" where
  "updatePayload opts = JObj
     ((if uoTitle opts = [] then [] else [(''title'', JStr (uoTitle opts))])
      @ optField ''body'' JStr (uoBody opts) @ optField ''assignee'' JStr (uoAssignee opts)
      @ optField ''milestone'' JNum (uoMilestone opts) @ optField ''state'' JStr (uoState opts))"

definition UpdateIssue :: "httpWorld \<Rightarrow> Client \<Rightarrow> string \<Rightarrow> string \<Rightarrow> int \<Rightarrow> UpdateIssueOptions \<Rightarrow>
    Issue clientIO" where
  "UpdateIssue w c owner repo number opts =
     bindM (patchJSON w c decIssue (updatePayload opts)
         [''repos'', owner, repo, ''issues'', formatInt number])
       (\<lambda>r. ret (withWebURL c owner repo (mapIssue r)))"

definition CreateIssueComment :: "httpWorld \<Rightarrow> Client \<Rightarrow> string \<Rightarrow> string \<Rightarrow> int \<Rightarrow> string \<Rightarrow>
    IssueComment clientIO" where
  "CreateIssueComment w c owner repo number body =
     bindM (postJSON w c decIssueComment (JObj [(''body'', JStr body)])
         [''repos'', owner, repo, ''issues'', formatInt number, ''comments''])
       (\<lambda>r. ret (mapIssueComment r))"

definition ListRepositoryLabels :: "httpWorld \<Rightarrow> Client \<Rightarrow> string \<Rightarrow> string \<Rightarrow> RepositoryLabel list clientIO" where
  "ListRepositoryLabels w c owner repo =
     getJSON w c (decList decLabel) [''repos'', owner, repo, ''labels'']"

definition ListRepositoryMilestones :: "httpWorld \<Rightarrow> Client \<Rightarrow> string \<Rightarrow> string \<Rightarrow>
    RepositoryMilestone list clientIO" where
  "ListRepositoryMilestones w c owner repo =
     getJSON w c (decList decMilestone) [''repos'', owner, repo, ''milestones'']"

definition UserExists :: "httpWorld \<Rightarrow> Client \<Rightarrow> string \<Rightarrow> bool clientIO" where
  "UserExists w c username =
     onResult (getJSON w c (decList decRepository) [''users'', username, ''repos'']) (\<lambda>r. case r of
       Inl err \<Rightarrow> if codeOf (AsError err) = CodeResourceNotFoundOrForbidden then ret False else fail err
     | Inr _ \<Rightarrow> ret True)"

definition ListIssueComments :: "httpWorld \<Rightarrow> Client \<Rightarrow> string \<Rightarrow> string \<Rightarrow> int \<Rightarrow> string \<Rightarrow>
    IssueComment list clientIO" where
  "ListIssueComments w c owner repo number since =
     bindM (getJSONWithQuery w c (decList decIssueComment)
         (if since = [] then [] else [(''since'', since)])
         [''repos'', owner, repo, ''issues'', formatInt number, ''comments''])
       (\<lambda>rs. ret (map mapIssueComment rs))"

section \<open>Lemmas\<close>

lemma takeWhile_digits_app:
  "d \<noteq> [] \<Longrightarrow> list_all isDigit d \<Longrightarrow> \<not> isDigit x \<Longrightarrow>
     rev (takeWhile isDigit (rev (a @ x # d))) = d"
  by (simp add: takeWhile_append list_all_iff)

lemma linkAt_Some:
  assumes "\<forall>x \<in> set target. x \<noteq> CHR ''>''" "target = before @ digits"
    and "rev (takeWhile isDigit (rev target)) = digits" "digits \<noteq> []"
    and "hasSuffix before ''?page='' \<or> hasSuffix before ''&page=''"
    and "hasPrefix rest ''>;''"
    and "hasPrefix (dropWhile (\<lambda>x. x \<in> {CHR 0x20, CHR 0x09, CHR 0x0A, CHR 0x0C, CHR 0x0D})
      (drop 2 rest)) ''rel=\"next\"''"
  shows "linkAt (CHR ''<'' # target @ rest) = Some digits"
proof -
  obtain r where r: "rest = CHR ''>'' # r" using assms(6) by (auto simp: hasPrefix_iff)
  have tw: "takeWhile isDigit (rev target) = rev digits" using assms(3) by (metis rev_rev_ident)
  have "takeWhile (\<lambda>x. x \<noteq> CHR ''>'') (target @ rest) = target"
    "dropWhile (\<lambda>x. x \<noteq> CHR ''>'') (target @ rest) = rest"
    using assms(1) r by (simp_all add: takeWhile_append dropWhile_append)
  moreover have "take (length target - length digits) target = before" using assms(2) by simp
  ultimately show ?thesis
    using assms(4-7) r by (simp add: linkAt_def Let_def tw)
qed

lemma formatInt_digits:
  "0 \<le> n \<Longrightarrow> list_all isDigit (formatInt n) \<and> formatInt n \<noteq> []"
  by (simp add: formatInt_def natDigits_digits)

text \<open>the next page is read back from a Link header of the form Gogs emits, whatever the URL in
  front of the page number and whatever links follow.\<close>

theorem next_page_roundtrip:
  assumes "0 \<le> n" "n \<le> maxInt64" "CHR ''>'' \<notin> set target" "sep \<in> {CHR ''?'', CHR ''&''}"
  shows "nextPageFromLinkHeader
    (''<'' @ target @ sep # ''page='' @ formatInt n @ ''>; rel=\"next\"'' @ others) = n"
proof -
  let ?d = "formatInt n"
  let ?t = "target @ sep # ''page='' @ ?d"
  have d: "list_all isDigit ?d" "?d \<noteq> []" using formatInt_digits assms(1) by auto
  have gt: "\<forall>x \<in> set ?t. x \<noteq> CHR ''>''"
    using d(1) assms(3,4) by (auto simp: list_all_iff isDigit_def)
  have digits: "rev (takeWhile isDigit (rev ?t)) = ?d"
    using takeWhile_digits_app [OF d(2,1), of "CHR ''=''" "target @ sep # ''page''"]
    by (simp add: isDigit_def)
  have "hasSuffix (target @ sep # ''page='') ''?page='' \<or> hasSuffix (target @ sep # ''page='') ''&page=''"
    using assms(4) by (auto simp: hasSuffix_iff)
  then have "linkAt (CHR ''<'' # ?t @ ''>; rel=\"next\"'' @ others) = Some ?d"
    using gt digits d(2) by (intro linkAt_Some) (simp_all add: hasPrefix_def)
  then show ?thesis
    using assms parse_format [of n]
    by (simp add: nextPageFromLinkHeader_def minInt64_def)
qed

theorem next_page_roundtrip_witness:
  "nextPageFromLinkHeader ''<https://gogs/api/v1/repos/o/r/issues?page=12>; rel=\"next\"'' = 12"
proof -
  have "formatInt 12 = ''12''" by code_simp
  then show ?thesis
    using next_page_roundtrip [of 12 "''https://gogs/api/v1/repos/o/r/issues''" "CHR ''?''" "[]"]
    by (simp add: maxInt64_def)
qed

end
