(* ===== verification/Pulls.thy ===== *)
theory Pulls
  imports DiffEngine GogsIssues
begin

text \<open>
  internal/gogs/pull.go: pull request listings, single pull requests and their diffs. A call works
  on the client's state and on the lazily built pull engine; \<open>pullsWorld\<close> holds, beside the HTTP
  world, the remote's ref advertisement, the Git world of each diff, the context and the root of the
  user's cache. The client's cache directory, time limits and HTTP timeout are its options.
\<close>

section \<open>Data\<close>

definition defaultPullLimit :: int where "defaultPullLimit = 30"
definition maximumPullLimit :: int where "maximumPullLimit = 100"
definition defaultDiffMaxBytes :: int where "defaultDiffMaxBytes = 262144"
definition maximumDiffPaths :: int where "maximumDiffPaths = 100"

record PullRequestSummary =
  psNumber :: int
  psTitle :: string
  psState :: string
  psUser :: User
  psNumComments :: int
  psCreatedAt :: string
  psUpdatedAt :: string
  psHeadSHA :: string

record PullRequest =
  pqNumber :: int
  pqTitle :: string
  pqBody :: string
  pqState :: string
  pqUser :: User
  pqLabels :: "IssueLabel list"
  pqNumComments :: int
  pqCreatedAt :: string
  pqUpdatedAt :: string
  pqWebURL :: string
  pqHeadSHA :: string
  pqBaseRef :: string
  pqBaseRefAssumed :: bool

record PullRequestDiff =
  pxNumber :: int
  pxBaseRef :: string
  pxBaseRefAssumed :: bool
  pxDiff :: PullDiff

record pullsWorld =
  plHTTP :: httpWorld
  plCtx :: goctx
  plAdvertised :: "string \<Rightarrow> goerr + (string \<times> string) list"
  plGit :: "string \<Rightarrow> pullWorld"
  plUserRoot :: "(int \<Rightarrow> goerr + string) option"
  plCacheDir :: string
  plTimeout :: int
  plCacheTTL :: int
  plCacheMaxBytes :: int
  plDisk :: "string \<Rightarrow> pullDisk"

record pullsState =
  plClient :: clientState
  plEngine :: "PullEngine option"

type_synonym 'a pullsIO = "(pullsState, goerr, 'a) io"

definition onClient :: "'a clientIO \<Rightarrow> 'a pullsIO" where
  "onClient m s = (case m (plClient s) of (r, st) \<Rightarrow> (r, s\<lparr>plClient := st\<rparr>))"

section \<open>Listing\<close>

definition summaryOf :: "PullRef \<Rightarrow> Issue \<Rightarrow> PullRequestSummary" where
  "summaryOf ref issue =
     \<lparr>psNumber = isNumber issue, psTitle = isTitle issue, psState = isState issue,
      psUser = isUser issue, psNumComments = isNumComments issue, psCreatedAt = isCreatedAt issue,
      psUpdatedAt = isUpdatedAt issue, psHeadSHA = prHeadSHA ref\<rparr>"

text \<open>The loop of \<open>scanPullRefs\<close> over the refs from the last to the first; the context is checked
  once per examined ref, so its n-th check comes when n refs have been examined.\<close>

fun scanLoop :: "httpWorld \<Rightarrow> goctx \<Rightarrow> Client \<Rightarrow> string \<Rightarrow> string \<Rightarrow> string \<Rightarrow> int \<Rightarrow> int \<Rightarrow> nat \<Rightarrow> int \<Rightarrow>
    PullRequestSummary list \<Rightarrow> PullRef list \<Rightarrow> (PullRequestSummary list \<times> int) clientIO" where
  "scanLoop w ctx c owner repo state limit before scanned nxt summaries [] = ret (summaries, 0)"
| "scanLoop w ctx c owner repo state limit before scanned nxt summaries (ref # refs) =
     (if before > 0 \<and> prNumber ref \<ge> before then
        scanLoop w ctx c owner repo state limit before scanned nxt summaries refs
      else if int scanned \<ge> 100 \<or> int (length summaries) \<ge> limit then ret (summaries, nxt)
      else (case ctx scanned of Some e \<Rightarrow> fail (classifyTransportError e)
        | None \<Rightarrow>
          onResult (GetIssue w c owner repo (prNumber ref)) (\<lambda>r. case r of
            Inl err \<Rightarrow>
              if codeOf (AsError err) = CodeResourceNotFoundOrForbidden then
                scanLoop w ctx c owner repo state limit before (Suc scanned) (prNumber ref) summaries refs
              else fail err
          | Inr issue \<Rightarrow>
              if state \<noteq> ''all'' \<and> isState issue \<noteq> state then
                scanLoop w ctx c owner repo state limit before (Suc scanned) (prNumber ref) summaries refs
              else
                scanLoop w ctx c owner repo state limit before (Suc scanned) (prNumber ref)
                  (summaries @ [summaryOf ref issue]) refs)))"

definition scanPullRefs :: "httpWorld \<Rightarrow> goctx \<Rightarrow> Client \<Rightarrow> string \<Rightarrow> string \<Rightarrow> string \<Rightarrow> int \<Rightarrow> int \<Rightarrow>
    PullRef list \<Rightarrow> (PullRequestSummary list \<times> int \<times> int) clientIO" where
  "scanPullRefs w ctx c owner repo state limit before refs =
     bindM (scanLoop w ctx c owner repo state limit before 0 0 [] (rev refs))
       (\<lambda>(summaries, nxt). ret (summaries, int (length refs), nxt))"

definition gitCloneURL :: "Client \<Rightarrow> string \<Rightarrow> string \<Rightarrow> string" where
  "gitCloneURL c owner repo =
     (let root = trimSuffix (trimRight [[slash]] (Path (apiRoot c))) ''/api/v1''
      in Scheme (apiRoot c) @ ''://'' @ Host (apiRoot c)
         @ pathJoin [if root = [] then [slash] else root, owner, repo @ ''.git''])"

definition pullEngine :: "pullsWorld \<Rightarrow> Client \<Rightarrow> PullEngine pullsIO" where
  "pullEngine w c s =
     (case plEngine s of Some e \<Rightarrow> (Inr e, s)
      | None \<Rightarrow>
        if plCacheDir w = [] then
          (Inl (gogsErr CodeInvalidArgument
             ''Pull request tools require a cache directory; set GOGS_MCP_CACHE_DIR.''), s)
        else
          bindM (onClient (GetAuthenticatedUser (plHTTP w) c)) (\<lambda>user.
          bindM (liftE (case plUserRoot w of None \<Rightarrow> Inr (plCacheDir w) | Some f \<Rightarrow> f (uId user)))
            (\<lambda>cacheDir.
          bindM (liftE (case NewPullEngine \<lparr>poCacheDir = cacheDir, poUsername = uUsername user,
                    poToken = token c, poTimeout = plTimeout w, poCacheTTL = plCacheTTL w,
                    poCacheMaxBytes = plCacheMaxBytes w\<rparr> of
              Inl err \<Rightarrow> Inl (mkError CodeInternal
                ''Could not initialize the pull request engine.'' False 0 err)
            | Inr e \<Rightarrow> Inr e)) (\<lambda>e s.
          (Inr e, s\<lparr>plEngine := Some e\<rparr>)))) s)"

definition invalidateOn :: "Client \<Rightarrow> (goerr + 'a) \<Rightarrow> 'a pullsIO" where
  "invalidateOn c r s =
     (r, s\<lparr>plClient := invalidateAuthentication c (case r of Inl e \<Rightarrow> Some e | Inr _ \<Rightarrow> None)
        (plClient s)\<rparr>)"

definition listPullRefs :: "pullsWorld \<Rightarrow> Client \<Rightarrow> string \<Rightarrow> string \<Rightarrow> PullRef list pullsIO" where
  "listPullRefs w c owner repo =
     bindM (pullEngine w c) (\<lambda>engine.
       invalidateOn c (ListPullRefs (plAdvertised w (gitCloneURL c owner repo))))"

definition ListPullRequests :: "pullsWorld \<Rightarrow> Client \<Rightarrow> string \<Rightarrow> string \<Rightarrow> string \<Rightarrow> int \<Rightarrow> int \<Rightarrow>
    (PullRequestSummary list \<times> int \<times> int) pullsIO" where
  "ListPullRequests w c owner repo state limit before =
     (if state \<noteq> ''open'' \<and> state \<noteq> ''closed'' \<and> state \<noteq> ''all'' then
        fail (gogsErr CodeInvalidArgument ''The state must be open, closed, or all.'')
      else if before < 0 then
        fail (gogsErr CodeInvalidArgument ''before must be a positive PR number.'')
      else
        (let limit = min (if limit \<le> 0 then defaultPullLimit else limit) maximumPullLimit in
         bindM (listPullRefs w c owner repo) (\<lambda>refs.
           onClient (scanPullRefs (plHTTP w) (plCtx w) c owner repo state limit before refs))))"

section \<open>One pull request\<close>

definition pullHeadRefOf :: "pullsWorld \<Rightarrow> Client \<Rightarrow> string \<Rightarrow> string \<Rightarrow> int \<Rightarrow> PullRef pullsIO" where
  "pullHeadRefOf w c owner repo number =
     (if number \<le> 0 then
        fail (gogsErr CodeInvalidArgument ''The pull request number must be positive.'')
      else
        bindM (listPullRefs w c owner repo) (\<lambda>refs.
          case List.find (\<lambda>ref. prNumber ref = number) refs of
            None \<Rightarrow> fail (gogsErr CodeInvalidArgument (''Number '' @ formatInt number
              @ '' has no pull request head ref and is not a pull request.''))
          | Some ref \<Rightarrow> ret ref))"

definition GetPullRequest :: "pullsWorld \<Rightarrow> Client \<Rightarrow> string \<Rightarrow> string \<Rightarrow> int \<Rightarrow> PullRequest pullsIO" where
  "GetPullRequest w c owner repo number =
     bindM (pullHeadRefOf w c owner repo number) (\<lambda>ref.
     bindM (onClient (GetIssue (plHTTP w) c owner repo number)) (\<lambda>issue.
     bindM (onClient (GetRepository (plHTTP w) c owner repo)) (\<lambda>repository.
     ret \<lparr>pqNumber = isNumber issue, pqTitle = isTitle issue, pqBody = isBody issue,
          pqState = isState issue, pqUser = isUser issue, pqLabels = isLabels issue,
          pqNumComments = isNumComments issue, pqCreatedAt = isCreatedAt issue,
          pqUpdatedAt = isUpdatedAt issue, pqWebURL = isWebURL issue, pqHeadSHA = prHeadSHA ref,
          pqBaseRef = repoDefaultBranch repository, pqBaseRefAssumed = True\<rparr>)))"

definition GetPullRequestDiff :: "pullsWorld \<Rightarrow> Client \<Rightarrow> string \<Rightarrow> string \<Rightarrow> int \<Rightarrow> string \<Rightarrow> string list \<Rightarrow>
    int \<Rightarrow> PullRequestDiff pullsIO" where
  "GetPullRequestDiff w c owner repo number baseRef paths maxBytes =
     (if int (length paths) > maximumDiffPaths then
        fail (gogsErr CodeInvalidArgument (''The path filter accepts at most ''
          @ formatInt maximumDiffPaths @ '' paths.''))
      else
        bindM (pullHeadRefOf w c owner repo number) (\<lambda>_.
        bindM
          (if baseRef \<noteq> [] then ret (baseRef, False)
           else bindM (onClient (GetRepository (plHTTP w) c owner repo)) (\<lambda>repository.
             if repoDefaultBranch repository = [] then
               fail (gogsErr CodeInvalidArgument
                 ''The repository has no default branch; pass base_ref explicitly.'')
             else ret (repoDefaultBranch repository, True)))
          (\<lambda>(base, assumed).
        bindM (pullEngine w c) (\<lambda>engine.
        bindM (invalidateOn c (fst (DiffPull (plGit w (gitCloneURL c owner repo)) number base paths
            (if maxBytes \<le> 0 then defaultDiffMaxBytes else maxBytes)
            (plDisk w (gitCloneURL c owner repo))))) (\<lambda>diff.
        ret \<lparr>pxNumber = number, pxBaseRef = base, pxBaseRefAssumed = assumed, pxDiff = diff\<rparr>)))))"

section \<open>Scans resume where they stopped\<close>

definition candidates :: "int \<Rightarrow> PullRef list \<Rightarrow> PullRef list" where
  "candidates before refs = filter (\<lambda>ref. \<not> (before > 0 \<and> prNumber ref \<ge> before)) refs"

text \<open>What an examined ref with the answer for its issue adds to the listing.\<close>

definition entryOf :: "string \<Rightarrow> PullRef \<Rightarrow> goerr + Issue \<Rightarrow> PullRequestSummary list" where
  "entryOf state ref answer = (case answer of
     Inl _ \<Rightarrow> []
   | Inr issue \<Rightarrow> if state = ''all'' \<or> isState issue = state then [summaryOf ref issue] else [])"

definition answered :: "httpWorld \<Rightarrow> Client \<Rightarrow> string \<Rightarrow> string \<Rightarrow> PullRef \<Rightarrow> goerr + Issue \<Rightarrow> bool" where
  "answered w c owner repo ref answer \<longleftrightarrow>
     (\<exists>s s'. GetIssue w c owner repo (prNumber ref) s = (answer, s'))
     \<and> (\<forall>e. answer = Inl e \<longrightarrow> codeOf (AsError e) = CodeResourceNotFoundOrForbidden)"

lemma scanLoop_spec:
  assumes "scanLoop w ctx c owner repo state limit before scanned nxt summaries refs st
      = (Inr (out, next'), st')"
    and "int scanned \<le> 100" "int (length summaries) \<le> limit"
  shows "\<exists>examined rest answers. candidates before refs = examined @ rest
    \<and> list_all2 (answered w c owner repo) examined answers
    \<and> out = summaries @ concat (map2 (entryOf state) examined answers)
    \<and> int (scanned + length examined) \<le> 100 \<and> int (length out) \<le> limit
    \<and> (rest = [] \<longrightarrow> next' = 0)
    \<and> (rest \<noteq> [] \<longrightarrow> (int (scanned + length examined) = 100 \<or> int (length out) = limit)
         \<and> next' = (if examined = [] then nxt else prNumber (last examined)))"
  using assms
proof (induction refs arbitrary: scanned nxt summaries st)
  case Nil
  then show ?case
    by (intro exI [of _ "[]"]) (simp add: candidates_def)
next
  case (Cons ref refs)
  show ?case
  proof (cases "before > 0 \<and> prNumber ref \<ge> before")
    case True
    with Cons show ?thesis by (simp add: candidates_def)
  next
    case cand: False
    then have cons: "candidates before (ref # refs) = ref # candidates before refs"
      by (auto simp: candidates_def)
    show ?thesis
    proof (cases "int scanned \<ge> 100 \<or> int (length summaries) \<ge> limit")
      case True
      with Cons.prems cand have "out = summaries" "next' = nxt" by auto
      with True Cons.prems(2,3) cons show ?thesis
        by (intro exI [of _ "[]"] exI [of _ "ref # candidates before refs"]) auto
    next
      case False
      from Cons.prems(1) cand False have ctx: "ctx scanned = None"
        by (auto split: option.splits)
      obtain answer s1 where get: "GetIssue w c owner repo (prNumber ref) st = (answer, s1)"
        by (cases "GetIssue w c owner repo (prNumber ref) st")
      define more where "more = entryOf state ref answer"
      have run: "scanLoop w ctx c owner repo state limit before (Suc scanned) (prNumber ref)
          (summaries @ more) refs s1 = (Inr (out, next'), st')"
        and ok: "answered w c owner repo ref answer"
        using Cons.prems(1) cand False ctx get
        by (auto simp: more_def entryOf_def answered_def split: sum.splits if_splits)
      have "length more \<le> 1" by (simp add: more_def entryOf_def split: sum.split)
      then have le: "int (Suc scanned) \<le> 100" "int (length (summaries @ more)) \<le> limit"
        using False by auto
      from Cons.IH [OF run le] obtain examined rest answers where
        ih: "candidates before refs = examined @ rest"
          "list_all2 (answered w c owner repo) examined answers"
          "out = (summaries @ more) @ concat (map2 (entryOf state) examined answers)"
          "int (Suc scanned + length examined) \<le> 100" "int (length out) \<le> limit"
          "rest = [] \<longrightarrow> next' = 0"
          "rest \<noteq> [] \<longrightarrow> (int (Suc scanned + length examined) = 100 \<or> int (length out) = limit)
             \<and> next' = (if examined = [] then prNumber ref else prNumber (last examined))"
        by blast
      then show ?thesis
        using cons ok
        by (intro exI [of _ "ref # examined"] exI [of _ rest] exI [of _ "answer # answers"])
          (auto simp: more_def)
    qed
  qed
qed

text \<open>a pull request listing examines the advertised refs below the cursor from the highest number
  down. It looks up at most 100 of them, returns at most \<open>limit\<close> entries, one for each examined pull
  request in the asked state and in order, and skips those whose issue is not found. The returned
  cursor is 0 when nothing is left to examine; otherwise the scan stopped at one of its two
  limits, and the refs below the cursor are exactly those not yet examined, so a scan from
  the cursor neither repeats nor misses a pull request.\<close>

theorem scan_resumes:
  assumes "scanPullRefs w ctx c owner repo state limit before refs st = (Inr (out, total_refs, cursor), st')"
    and "sorted_wrt (<) (map prNumber refs)" "\<forall>ref \<in> set refs. 0 < prNumber ref" "1 \<le> limit"
  shows "\<exists>examined rest answers. candidates before (rev refs) = examined @ rest
    \<and> list_all2 (answered w c owner repo) examined answers
    \<and> out = concat (map2 (entryOf state) examined answers)
    \<and> length examined \<le> 100 \<and> int (length out) \<le> limit \<and> total_refs = int (length refs)
    \<and> (cursor = 0 \<longleftrightarrow> rest = [])
    \<and> (rest \<noteq> [] \<longrightarrow> (length examined = 100 \<or> int (length out) = limit)
         \<and> candidates cursor (rev refs) = rest)"
proof -
  from assms(1) have run: "scanLoop w ctx c owner repo state limit before 0 0 [] (rev refs) st
      = (Inr (out, cursor), st')" and total: "total_refs = int (length refs)"
    by (auto simp: scanPullRefs_def bindM_eq_Inr)
  from scanLoop_spec [OF run] assms(4) obtain examined rest answers where
    ex: "candidates before (rev refs) = examined @ rest"
      "list_all2 (answered w c owner repo) examined answers"
      "out = concat (map2 (entryOf state) examined answers)"
      "int (length examined) \<le> 100" "int (length out) \<le> limit" "rest = [] \<longrightarrow> cursor = 0"
      "rest \<noteq> [] \<longrightarrow> (int (length examined) = 100 \<or> int (length out) = limit)
         \<and> cursor = (if examined = [] then 0 else prNumber (last examined))"
    by auto
  have ex_ne: "examined \<noteq> []" if "rest \<noteq> []"
    using ex(3,7) that assms(4) by (cases examined) auto
  have resume: "cursor \<noteq> 0 \<and> candidates cursor (rev refs) = rest" if r: "rest \<noteq> []"
  proof -
    from ex_ne [OF r] obtain pre l where l: "examined = pre @ [l]" by (cases examined rule: rev_cases) auto
    with ex(7) r have cur: "cursor = prNumber l" by simp
    have "l \<in> set (candidates before (rev refs))" using ex(1) l by simp
    then have pos: "0 < prNumber l" and below: "before > 0 \<longrightarrow> prNumber l < before"
      using assms(3) by (auto simp: candidates_def)
    have desc: "sorted_wrt (\<lambda>a b. prNumber b < prNumber a) (candidates before (rev refs))"
      using assms(2) unfolding candidates_def
      by (intro sorted_wrt_filter) (simp add: sorted_wrt_rev sorted_wrt_map)
    have split: "filter (\<lambda>ref. prNumber ref < prNumber l) (candidates before (rev refs)) = rest"
    proof -
      have "\<forall>x \<in> set pre. prNumber l < prNumber x" "\<forall>x \<in> set rest. prNumber x < prNumber l"
        using desc unfolding ex(1) l by (auto simp: sorted_wrt_append)
      then show ?thesis unfolding ex(1) l by (auto simp: filter_empty_conv filter_id_conv)
    qed
    have "candidates cursor (rev refs) = filter (\<lambda>ref. prNumber ref < prNumber l) (candidates before (rev refs))"
      using pos below by (auto simp: candidates_def cur intro!: filter_cong)
    with split pos cur show ?thesis by simp
  qed
  show ?thesis
  proof (intro exI conjI)
    show "candidates before (rev refs) = examined @ rest" by (rule ex(1))
    show "list_all2 (answered w c owner repo) examined answers" by (rule ex(2))
    show "out = concat (map2 (entryOf state) examined answers)" by (rule ex(3))
    show "length examined \<le> 100" "int (length out) \<le> limit" using ex(4,5) by simp_all
    show "total_refs = int (length refs)" by (rule total)
    show "cursor = 0 \<longleftrightarrow> rest = []" using ex(6) resume by blast
    show "rest \<noteq> [] \<longrightarrow> (length examined = 100 \<or> int (length out) = limit)
         \<and> candidates cursor (rev refs) = rest" using ex(7) resume by auto
  qed
qed

definition issueServer :: httpWorld where
  "issueServer = \<lparr>doRequest = (\<lambda>h rq. if rqPath rq = ''/api/v1/repos/o/r/issues/4''
       then Response 404 [] [] None None else Response 200 [] (rqPath rq) None None),
     waitCanceled = (\<lambda>_ _. None),
     parseJSON = (\<lambda>s. Some (JObj [(''number'', JNum 7), (''state'', JStr ''open'')]))\<rparr>"

definition someRefs :: "PullRef list" where
  "someRefs = map (\<lambda>n. \<lparr>prNumber = n, prHeadSHA = ''h''\<rparr>) [2, 3, 4, 5]"

theorem scan_resumes_witness:
  "candidates 3 (rev someRefs) = [\<lparr>prNumber = 2, prHeadSHA = ''h''\<rparr>]
   \<and> snd (snd (projr (fst (scanPullRefs issueServer (\<lambda>_. None) someClient ''o'' ''r'' ''open'' 2 0 someRefs
       freshState)))) = 3"
proof -
  let ?run = "scanPullRefs issueServer (\<lambda>_. None) someClient ''o'' ''r'' ''open'' 2 0 someRefs freshState"
  have val: "\<not> isl (fst ?run)" "length (fst (projr (fst ?run))) = 2" "snd (snd (projr (fst ?run))) = 3"
    by code_simp+
  then obtain out n st' where run: "?run = (Inr (out, n, 3), st')" "length out = 2"
    by (cases ?run; cases "fst ?run") auto
  have "sorted_wrt (<) (map prNumber someRefs)" "\<forall>ref \<in> set someRefs. 0 < prNumber ref"
    by (simp_all add: someRefs_def)
  from scan_resumes [OF run(1) this] obtain examined rest where
    "candidates 0 (rev someRefs) = examined @ rest" "rest \<noteq> []" "candidates 3 (rev someRefs) = rest"
    by auto
  moreover have "candidates 3 (rev someRefs) = [\<lparr>prNumber = 2, prHeadSHA = ''h''\<rparr>]"
    by (simp add: candidates_def someRefs_def)
  ultimately show ?thesis using val by simp
qed

end
