(* ===== verification/Contents.thy ===== *)
theory Contents
  imports GitRefs
begin

text \<open>
  internal/gogs/content.go: validated repository paths, the walk through tree objects to a
  directory, paged directory listings and file contents. The streaming decoder that reads the
  first 64 KiB of a content response is given by its tokens: \<open>None\<close> when the input does not
  start an object, otherwise the key and value reads in order.
\<close>

section \<open>Data\<close>

record ContentEntry =
  ctName :: string
  ctPath :: string
  ctType :: string
  ctSize :: int
  ctSHA :: string
  ctTarget :: string
  ctSubmoduleURL :: string

record FileContent =
  fcPath :: string
  fcType :: string
  fcSize :: int
  fcSHA :: string
  fcRef :: string
  fcTarget :: string
  fcSubmoduleURL :: string
  fcData :: string

record contentMetadataResponse =
  cmrType :: string
  cmrTarget :: string
  cmrSubmoduleGitURL :: string
  cmrSize :: int
  cmrName :: string
  cmrPath :: string
  cmrSHA :: string

record contentResponse =
  crsMeta :: contentMetadataResponse
  crsEncoding :: string
  crsContent :: string

record treeEntry =
  tePath :: string
  teType :: string
  teSize :: int
  teSHA :: string

definition decTreeEntry :: "json \<Rightarrow> treeEntry option" where
  "decTreeEntry j = decObj j (\<lambda>j. do {
     p \<leftarrow> decStr (jfield j ''path'');
     t \<leftarrow> decStr (jfield j ''type'');
     s \<leftarrow> decInt (jfield j ''size'');
     h \<leftarrow> decStr (jfield j ''sha'');
     Some \<lparr>tePath = p, teType = t, teSize = s, teSHA = h\<rparr> })"

definition decTree :: "json \<Rightarrow> treeEntry list option" where
  "decTree j = decObj j (\<lambda>j. decList decTreeEntry (jfield j ''tree''))"

definition decContentMetadata :: "json \<Rightarrow> contentMetadataResponse option" where
  "decContentMetadata j = decObj j (\<lambda>j. do {
     t \<leftarrow> decStr (jfield j ''type'');
     g \<leftarrow> decStr (jfield j ''target'');
     u \<leftarrow> decStr (jfield j ''submodule_git_url'');
     s \<leftarrow> decInt (jfield j ''size'');
     n \<leftarrow> decStr (jfield j ''name'');
     p \<leftarrow> decStr (jfield j ''path'');
     h \<leftarrow> decStr (jfield j ''sha'');
     Some \<lparr>cmrType = t, cmrTarget = g, cmrSubmoduleGitURL = u, cmrSize = s, cmrName = n,
           cmrPath = p, cmrSHA = h\<rparr> })"

definition decContent :: "json \<Rightarrow> contentResponse option" where
  "decContent j = decObj j (\<lambda>j. do {
     m \<leftarrow> decContentMetadata j;
     e \<leftarrow> decStr (jfield j ''encoding'');
     b \<leftarrow> decStr (jfield j ''content'');
     Some \<lparr>crsMeta = m, crsEncoding = e, crsContent = b\<rparr> })"

section \<open>Validation\<close>

definition validationError :: "string \<Rightarrow> goerr" where
  "validationError message = gogsErr CodeValidationFailed message"

definition invalidJSONError :: goerr where
  "invalidJSONError = mkError CodeGogsError ''Gogs returned invalid JSON.'' False 0
     [MsgErr ''decode Gogs content response'']"

definition ValidateRepositoryPath :: "string \<Rightarrow> bool \<Rightarrow> goerr + unit" where
  "ValidateRepositoryPath repositoryPath allowEmpty =
     (if repositoryPath = [] then
        (if allowEmpty then Inr () else Inl (validationError ''The repository path is required.''))
      else if CHR 0x00 \<in> set repositoryPath \<or> CHR 0x5C \<in> set repositoryPath
          \<or> hasPrefix repositoryPath [slash] then
        Inl (validationError ''The repository path is invalid.'')
      else if \<exists>segment \<in> set (splitOn slash repositoryPath).
          segment = [] \<or> segment = ''.'' \<or> segment = ''..'' then
        Inl (validationError ''The repository path is invalid.'')
      else Inr ())"

definition resolveContentRef :: "httpWorld \<Rightarrow> Client \<Rightarrow> string \<Rightarrow> string \<Rightarrow> string \<Rightarrow> string clientIO" where
  "resolveContentRef w c owner repo ref =
     (if ref \<noteq> [] then ret ref
      else bindM (GetRepository w c owner repo) (\<lambda>repository.
        if repoDefaultBranch repository = [] then
          fail (gogsErr CodeGogsError ''Gogs returned a repository without a default branch.'')
        else ret (repoDefaultBranch repository)))"

section \<open>Trees\<close>

text \<open>The loop of \<open>directoryTree\<close>, over the path parts that are still to be descended.\<close>

fun treeAt :: "httpWorld \<Rightarrow> Client \<Rightarrow> string \<Rightarrow> string \<Rightarrow> string list \<Rightarrow> string \<Rightarrow> treeEntry list clientIO" where
  "treeAt w c owner repo [] sha =
     getJSON w c decTree [''repos'', owner, repo, ''git'', ''trees'', sha]"
| "treeAt w c owner repo (part # parts) sha =
     bindM (getJSON w c decTree [''repos'', owner, repo, ''git'', ''trees'', sha]) (\<lambda>tree.
       case List.find (\<lambda>entry. tePath entry = part) tree of
         None \<Rightarrow> fail (gogsErr CodeResourceNotFoundOrForbidden
           ''The directory does not exist or is not accessible.'')
       | Some entry \<Rightarrow>
           if teType entry \<noteq> ''tree'' then
             fail (validationError ''The repository path does not identify a directory.'')
           else treeAt w c owner repo parts (teSHA entry))"

definition pathParts :: "string \<Rightarrow> string list" where
  "pathParts directory = (if directory = [] then [] else splitOn slash directory)"

definition directoryTree :: "httpWorld \<Rightarrow> Client \<Rightarrow> string \<Rightarrow> string \<Rightarrow> string \<Rightarrow> string \<Rightarrow>
    treeEntry list clientIO" where
  "directoryTree w c owner repo directory sha = treeAt w c owner repo (pathParts directory) sha"

section \<open>Content metadata\<close>

datatype metaToken = KeyError | KeyNotString | Field string "json option"

type_synonym metaTokens = "string \<Rightarrow> metaToken list option"

fun metaFields :: "metaToken list \<Rightarrow> (string \<times> json) list \<Rightarrow> goerr + (string \<times> json) list" where
  "metaFields [] acc = Inr acc"
| "metaFields (KeyError # ts) acc = Inl invalidJSONError"
| "metaFields (KeyNotString # ts) acc = Inl (validationError ''Invalid metadata key.'')"
| "metaFields (Field name value # ts) acc =
     (if name = ''content'' then Inr acc
      else (case value of None \<Rightarrow> Inl invalidJSONError
            | Some v \<Rightarrow> metaFields ts (acc @ [(name, v)])))"

definition contentPrefix :: "httpWorld \<Rightarrow> metaTokens \<Rightarrow> Client \<Rightarrow> string \<Rightarrow> string \<Rightarrow> string \<Rightarrow> string \<Rightarrow>
    contentMetadataResponse clientIO" where
  "contentPrefix w tokens c owner repo repositoryPath sha st =
     (case httpDo w (mkRequest c ''GET'' [(''ref'', sha)] JNull
          ([''repos'', owner, repo, ''contents''] @ splitOn slash repositoryPath)) st of
        (DoError e, st) \<Rightarrow> (Inl (classifyTransportError e), st)
      | (Response status link body readErr closeErr, st) \<Rightarrow>
          if status < 200 \<or> status \<ge> 300 then
            (let classified = classifyStatus status
             in (Inl classified, logRequest c status (Some (codeOf classified)) st))
          else
            (case tokens (limitRead 65536 body) of
               None \<Rightarrow> (Inl (gogsErr CodeGogsError ''Invalid content metadata.''), st)
             | Some ts \<Rightarrow>
                 (case metaFields ts [] of
                    Inl e \<Rightarrow> (Inl e, st)
                  | Inr acc \<Rightarrow>
                      (case decContentMetadata (JObj acc) of
                         None \<Rightarrow> (Inl invalidJSONError, st)
                       | Some result \<Rightarrow>
                           if cmrType result = [] then
                             (Inl (gogsErr CodeGogsError
                               ''Gogs did not provide the content type before its payload.''), st)
                           else (Inr result, logRequest c status None st)))))"

section \<open>Directory listings\<close>

definition directoryPage :: "int \<Rightarrow> int \<Rightarrow> treeEntry list \<Rightarrow> treeEntry list" where
  "directoryPage page perPage tree =
     (let n = int (length tree) in
      if page > 0 \<and> perPage > 0 then
        (let tree = sortSlice (\<lambda>a b. tePath a < tePath b) tree;
             start = (if page \<le> (n + perPage - 1) div perPage then (page - 1) * perPage else n)
         in goSlice (nat start) (nat (min (start + perPage) n)) tree)
      else tree)"

fun contentEntries :: "httpWorld \<Rightarrow> metaTokens \<Rightarrow> Client \<Rightarrow> string \<Rightarrow> string \<Rightarrow> string \<Rightarrow> string \<Rightarrow>
    treeEntry list \<Rightarrow> ContentEntry list clientIO" where
  "contentEntries w tokens c owner repo repositoryPath sha [] = ret []"
| "contentEntries w tokens c owner repo repositoryPath sha (entry # tree) =
     (let item = \<lparr>ctName = tePath entry, ctPath = pathJoin [repositoryPath, tePath entry],
            ctType = [], ctSize = teSize entry, ctSHA = teSHA entry, ctTarget = [],
            ctSubmoduleURL = []\<rparr>
      in bindM
          (if teType entry = ''tree'' then ret (item\<lparr>ctType := ''dir''\<rparr>)
           else if teType entry = ''blob'' \<or> teType entry = ''commit'' then
             bindM (contentPrefix w tokens c owner repo (ctPath item) sha) (\<lambda>metadata.
               ret (item\<lparr>ctType := cmrType metadata, ctTarget := cmrTarget metadata,
                         ctSubmoduleURL := cmrSubmoduleGitURL metadata\<rparr>))
           else fail (gogsErr CodeGogsError ''Gogs returned an unknown Git tree entry type.''))
          (\<lambda>item. bindM (contentEntries w tokens c owner repo repositoryPath sha tree) (\<lambda>items.
             ret (item # items))))"

definition ListDirectoryPage :: "httpWorld \<Rightarrow> metaTokens \<Rightarrow> Client \<Rightarrow> string \<Rightarrow> string \<Rightarrow> string \<Rightarrow> string \<Rightarrow>
    int \<Rightarrow> int \<Rightarrow> (ContentEntry list \<times> string \<times> int) clientIO" where
  "ListDirectoryPage w tokens c owner repo repositoryPath ref page perPage =
     bindM (liftE (ValidateRepositoryPath repositoryPath True)) (\<lambda>_.
     bindM (resolveContentRef w c owner repo ref) (\<lambda>usedRef.
     bindM (ResolveCommitSHA w c owner repo usedRef) (\<lambda>sha.
     bindM (directoryTree w c owner repo repositoryPath sha) (\<lambda>tree.
     bindM (contentEntries w tokens c owner repo repositoryPath sha (directoryPage page perPage tree))
       (\<lambda>entries.
     ret (entries, usedRef, int (length tree)))))))"

definition ListDirectory :: "httpWorld \<Rightarrow> metaTokens \<Rightarrow> Client \<Rightarrow> string \<Rightarrow> string \<Rightarrow> string \<Rightarrow> string \<Rightarrow>
    (ContentEntry list \<times> string) clientIO" where
  "ListDirectory w tokens c owner repo repositoryPath ref =
     bindM (ListDirectoryPage w tokens c owner repo repositoryPath ref 0 0)
       (\<lambda>(entries, usedRef, acc). ret (entries, usedRef))"

section \<open>Files\<close>

text \<open>\<open>base64.StdEncoding.DecodeString\<close>: line breaks are skipped, the length must be a multiple of four,
  padding may only end the text.\<close>

definition base64Value :: "char \<Rightarrow> nat option" where
  "base64Value ch = (let x = byte ch in
     if 65 \<le> x \<and> x \<le> 90 then Some (x - 65)
     else if 97 \<le> x \<and> x \<le> 122 then Some (x - 71)
     else if 48 \<le> x \<and> x \<le> 57 then Some (x + 4)
     else if x = 43 then Some 62 else if x = 47 then Some 63 else None)"

fun base64Groups :: "string \<Rightarrow> string option" where
  "base64Groups [] = Some []"
| "base64Groups (a # b # g # d # rest) = do {
     x \<leftarrow> base64Value a;
     y \<leftarrow> base64Value b;
     (if g = CHR ''='' then
        (if d = CHR ''='' \<and> rest = [] then Some [char_of (4 * x + y div 16)] else None)
      else do {
        z \<leftarrow> base64Value g;
        (if d = CHR ''='' then
           (if rest = [] then Some [char_of (4 * x + y div 16), char_of (16 * (y mod 16) + z div 4)]
            else None)
         else do {
           v \<leftarrow> base64Value d;
           more \<leftarrow> base64Groups rest;
           Some (char_of (4 * x + y div 16) # char_of (16 * (y mod 16) + z div 4)
             # char_of (64 * (z mod 4) + v) # more) }) }) }"
| "base64Groups _ = None"

definition base64Decode :: "string \<Rightarrow> string option" where
  "base64Decode s = base64Groups (filter (\<lambda>ch. ch \<noteq> CHR 0x0A \<and> ch \<noteq> CHR 0x0D) s)"

definition getContent :: "httpWorld \<Rightarrow> Client \<Rightarrow> string \<Rightarrow> string \<Rightarrow> string \<Rightarrow> string \<Rightarrow> json clientIO" where
  "getContent w c owner repo repositoryPath ref =
     getJSONWithQuery w c Some [(''ref'', ref)]
       ([''repos'', owner, repo, ''contents'']
        @ (if repositoryPath = [] then [] else splitOn slash repositoryPath))"

definition isObject :: "json \<Rightarrow> bool" where
  "isObject j \<longleftrightarrow> (case j of JObj _ \<Rightarrow> True | _ \<Rightarrow> False)"

definition fileOfResponse :: "string \<Rightarrow> contentResponse \<Rightarrow> goerr + FileContent" where
  "fileOfResponse usedRef response =
     (let m = crsMeta response;
          content = \<lparr>fcPath = cmrPath m, fcType = cmrType m, fcSize = cmrSize m, fcSHA = cmrSHA m,
            fcRef = usedRef, fcTarget = cmrTarget m, fcSubmoduleURL = cmrSubmoduleGitURL m,
            fcData = []\<rparr>
      in if cmrType m \<noteq> ''file'' then Inr content
         else if crsEncoding response \<noteq> ''base64'' then
           Inl (gogsErr CodeGogsError ''Gogs returned an unsupported file encoding.'')
         else (case base64Decode (crsContent response) of
             None \<Rightarrow> Inl (gogsErr CodeGogsError ''Gogs returned invalid base64 file content.'')
           | Some decoded \<Rightarrow> Inr (content\<lparr>fcData := decoded\<rparr>)))"

definition maxInlineFile :: int where "maxInlineFile = 1048576"

definition GetFile :: "httpWorld \<Rightarrow> metaTokens \<Rightarrow> Client \<Rightarrow> string \<Rightarrow> string \<Rightarrow> string \<Rightarrow> string \<Rightarrow>
    FileContent clientIO" where
  "GetFile w tokens c owner repo repositoryPath ref =
     bindM (liftE (ValidateRepositoryPath repositoryPath False)) (\<lambda>_.
     bindM (resolveContentRef w c owner repo ref) (\<lambda>usedRef.
     bindM (ResolveCommitSHA w c owner repo usedRef) (\<lambda>sha.
     bindM (directoryTree w c owner repo
         (if pathDir repositoryPath = ''.'' then [] else pathDir repositoryPath) sha) (\<lambda>entries.
     (case List.find (\<lambda>entry. tePath entry = pathBase repositoryPath) entries of
        None \<Rightarrow> fail (gogsErr CodeResourceNotFoundOrForbidden
          ''The file does not exist or is not accessible.'')
      | Some metadata \<Rightarrow>
          if teType metadata = ''tree'' then
            fail (validationError ''The repository path does not identify a file.'')
          else if teSize metadata > maxInlineFile then
            bindM (contentPrefix w tokens c owner repo repositoryPath sha) (\<lambda>prefix.
              ret \<lparr>fcPath = repositoryPath, fcType = cmrType prefix, fcSize = teSize metadata,
                   fcSHA = teSHA metadata, fcRef = usedRef, fcTarget = cmrTarget prefix,
                   fcSubmoduleURL = cmrSubmoduleGitURL prefix, fcData = []\<rparr>)
          else
            bindM (getContent w c owner repo repositoryPath sha) (\<lambda>raw.
              if \<not> isObject raw then
                fail (validationError ''The repository path does not identify a file.'')
              else (case decContent raw of
                  None \<Rightarrow> fail invalidJSONError
                | Some response \<Rightarrow> liftE (fileOfResponse usedRef response))))))))"

section \<open>Pages of a directory\<close>

definition byPath :: "treeEntry list \<Rightarrow> treeEntry list" where
  "byPath tree = sortSlice (\<lambda>a b. tePath a < tePath b) tree"

interpretation directoryPages: paginator directoryPage byPath
proof
  fix page perPage :: int and xs :: "treeEntry list"
  assume pos: "1 \<le> page" "1 \<le> perPage"
  have "directoryPage page perPage xs = cutPage page perPage (byPath xs)"
    using pos by (simp add: directoryPage_def byPath_def cutPage_def pageStart_def pageEnd_def Let_def)
  then show "directoryPage page perPage xs = take (nat perPage) (drop (nat ((page - 1) * perPage)) (byPath xs))"
    using cutPage_slice [OF pos] by simp
qed (simp add: byPath_def)

text \<open>the pages of a directory listing cut its entries, sorted by path, into consecutive stretches of
  at most the page size: put together they are the whole listing, every entry once, and a page past the
  last one is empty.\<close>

theorem directory_pages:
  assumes "1 \<le> perPage" "(int (length tree) + perPage - 1) div perPage \<le> int n"
  shows "concat (map (\<lambda>k. directoryPage (int k + 1) perPage tree) [0..<n]) = byPath tree
    \<and> mset (byPath tree) = mset tree \<and> sorted (map tePath (byPath tree))
    \<and> (\<forall>page \<ge> 1. int (length (directoryPage page perPage tree)) \<le> perPage)
    \<and> (\<forall>page > int n. directoryPage page perPage tree = [])"
proof -
  have "sorted_wrt (\<lambda>a b. \<not> tePath b < tePath a) (byPath tree)"
    unfolding byPath_def by (rule sorted_sortSlice) auto
  then have "sorted (map tePath (byPath tree))" by (simp add: sorted_wrt_map not_less)
  moreover have "directoryPage page perPage tree = []" if "int n < page" for page
    by (rule directoryPages.page_beyond) (use assms that in \<open>simp_all add: pageCount_def\<close>)
  ultimately show ?thesis
    using directoryPages.pages_all [of perPage tree n] directoryPages.page_length assms
    by (simp add: pageCount_def) (simp add: byPath_def)
qed

theorem directory_pages_witness:
  "concat (map (\<lambda>k. directoryPage (int k + 1) 2
       [\<lparr>tePath = ''c'', teType = ''blob'', teSize = 1, teSHA = ''x''\<rparr>,
        \<lparr>tePath = ''a'', teType = ''tree'', teSize = 0, teSHA = ''y''\<rparr>,
        \<lparr>tePath = ''b'', teType = ''blob'', teSize = 1, teSHA = ''z''\<rparr>]) [0..<2])
   = [\<lparr>tePath = ''a'', teType = ''tree'', teSize = 0, teSHA = ''y''\<rparr>,
      \<lparr>tePath = ''b'', teType = ''blob'', teSize = 1, teSHA = ''z''\<rparr>,
      \<lparr>tePath = ''c'', teType = ''blob'', teSize = 1, teSHA = ''x''\<rparr>]"
proof -
  let ?t = "[\<lparr>tePath = ''c'', teType = ''blob'', teSize = 1, teSHA = ''x''\<rparr>,
        \<lparr>tePath = ''a'', teType = ''tree'', teSize = 0, teSHA = ''y''\<rparr>,
        \<lparr>tePath = ''b'', teType = ''blob'', teSize = 1, teSHA = ''z''\<rparr>]"
  have "byPath ?t = [\<lparr>tePath = ''a'', teType = ''tree'', teSize = 0, teSHA = ''y''\<rparr>,
      \<lparr>tePath = ''b'', teType = ''blob'', teSize = 1, teSHA = ''z''\<rparr>,
      \<lparr>tePath = ''c'', teType = ''blob'', teSize = 1, teSHA = ''x''\<rparr>]" by code_simp
  then show ?thesis using directory_pages [of 2 ?t 2] by simp
qed

section \<open>What the content operations send\<close>

lemma sends_treeAt: "sends (isRead c) (3 * (length parts + 1)) (treeAt w c owner repo parts sha)"
proof (induction parts arbitrary: sha)
  case Nil
  show ?case by (simp, intro sends_getJSON isRead_get)
next
  case (Cons part parts)
  have "sends (isRead c) (3 + 3 * (length parts + 1)) (treeAt w c owner repo (part # parts) sha)"
    unfolding treeAt.simps
    by (intro sends_bindM sends_getJSON isRead_get) (use Cons in \<open>auto split: option.split\<close>)
  then show ?case by (rule sends_mono) simp
qed

lemma sends_resolveContentRef: "sends (isRead c) 3 (resolveContentRef w c owner repo ref)"
proof -
  have "sends (isRead c) (3 + 0) (bindM (GetRepository w c owner repo) f)"
    if "\<And>r. sends (isRead c) 0 (f r)" for f :: "Repository \<Rightarrow> string clientIO"
    by (intro sends_bindM sends_GetRepository isRead_get that)
  then show ?thesis by (simp add: resolveContentRef_def)
qed

lemma sends_contentPrefix: "sends (isRead c) 1 (contentPrefix w tokens c owner repo p sha)"
  unfolding sends_def
proof
  fix st
  let ?rq = "mkRequest c ''GET'' [(''ref'', sha)] JNull ([''repos'', owner, repo, ''contents''] @ splitOn slash p)"
  have "sent (snd (contentPrefix w tokens c owner repo p sha st)) = sent st @ [?rq]"
    by (auto simp: contentPrefix_def httpDo_def Let_def split: httpOutcome.splits option.splits sum.splits)
  then show "\<exists>new. sent (snd (contentPrefix w tokens c owner repo p sha st)) = sent st @ new
      \<and> list_all (isRead c) new \<and> length new \<le> 1"
    by (intro exI [of _ "[?rq]"]) simp
qed

lemma sends_contentEntries:
  "sends (isRead c) (length tree) (contentEntries w tokens c owner repo p sha tree)"
proof (induction tree)
  case Nil
  show ?case unfolding contentEntries.simps by (rule sends_pure)
next
  case (Cons entry tree)
  have prefix: "sends (isRead c) (1 + 0) (bindM (contentPrefix w tokens c owner repo q sha) f)"
    if "\<And>r. sends (isRead c) 0 (f r)" for q and f :: "contentMetadataResponse \<Rightarrow> ContentEntry clientIO"
    by (intro sends_bindM sends_contentPrefix that)
  have rest: "sends (isRead c) (length tree + 0)
      (bindM (contentEntries w tokens c owner repo p sha tree) f)"
    if "\<And>r. sends (isRead c) 0 (f r)" for f :: "ContentEntry list \<Rightarrow> ContentEntry list clientIO"
    by (intro sends_bindM Cons.IH that)
  have "sends (isRead c) (1 + length tree) (contentEntries w tokens c owner repo p sha (entry # tree))"
    unfolding contentEntries.simps Let_def
    by (intro sends_bindM) (use prefix rest in auto)
  then show ?case by simp
qed

lemma length_directoryPage: "1 \<le> page \<Longrightarrow> 1 \<le> perPage \<Longrightarrow> length (directoryPage page perPage tree) \<le> nat perPage"
  using directoryPages.page_length [of page perPage tree] by linarith

text \<open>one page of a directory listing costs a bounded number of requests, whatever the size of the
  repository: at most fifteen plus three per directory level plus one per listed entry, all of
  them reads. A path that is not valid costs none.\<close>

theorem list_directory_requests:
  assumes "1 \<le> page" "1 \<le> perPage"
  shows "\<exists>new. sent (snd (ListDirectoryPage w tokens c owner repo p ref page perPage st)) = sent st @ new
    \<and> list_all (isRead c) new
    \<and> length new \<le> (if ValidateRepositoryPath p True = Inr ()
        then 15 + 3 * length (pathParts p) + nat perPage else 0)"
proof (cases "ValidateRepositoryPath p True = Inr ()")
  case True
  have entries: "sends (isRead c) (nat perPage + 0)
      (bindM (contentEntries w tokens c owner repo p sha (directoryPage page perPage tree)) f)"
    if "\<And>r. sends (isRead c) 0 (f r)"
    for sha tree and f :: "ContentEntry list \<Rightarrow> (ContentEntry list \<times> string \<times> int) clientIO"
    by (intro sends_bindM sends_mono [OF sends_contentEntries] length_directoryPage assms that)
  have "sends (isRead c) (0 + (3 + (9 + (3 * (length (pathParts p) + 1) + nat perPage))))
      (ListDirectoryPage w tokens c owner repo p ref page perPage)"
    unfolding ListDirectoryPage_def directoryTree_def
    by (intro sends_bindM sends_pure sends_resolveContentRef sends_ResolveCommitSHA sends_treeAt)
      (use entries in auto)
  then show ?thesis using True unfolding sends_def by (auto elim!: allE [of _ st])
next
  case False
  then obtain e where "ValidateRepositoryPath p True = Inl e"
    by (cases "ValidateRepositoryPath p True") simp_all
  with False show ?thesis by (simp add: ListDirectoryPage_def bindM_def)
qed

theorem list_directory_requests_witness:
  "length (sent (snd (ListDirectoryPage tagServer (\<lambda>_. None) someClient ''o'' ''r'' ''a/b'' ''v1'' 1 10
     freshState))) \<le> 31"
  using list_directory_requests [of 1 10 tagServer "\<lambda>_. None" someClient "''o''" "''r''" "''a/b''" "''v1''"
      freshState]
  by (auto simp: freshState_def pathParts_def slash_def split: if_splits)

end
