(* ===== verification/ToolBudget.thy ===== *)
theory ToolBudget
  imports GogsClient GoUtf8
begin

text \<open>
  internal/mcpserver: the response envelope of response.go and budget.go, which keeps every tool result within
  its output budget. \<open>bodyChunk\<close> cuts a long body into chunks at rune boundaries; \<open>toolBudget\<close> is the middleware
  around every tool: it measures the encoded result and shortens the long texts in it until it fits. The
  structured content is a JSON value whose strings are valid UTF-8 and whose numbers are integers.
\<close>

section \<open>Responses\<close>

record ResponseMeta =
  NextBefore :: int
  NextBodyOffset :: "int option"
  NextAfterID :: int
  RequestID :: string
  Truncated :: bool
  NextPage :: "int option"
  NextStartLine :: "int option"
  CacheHit :: bool
  Warnings :: "string list"

definition metaFor :: "string \<Rightarrow> ResponseMeta" where
  "metaFor requestID = \<lparr>NextBefore = 0, NextBodyOffset = None, NextAfterID = 0, RequestID = requestID,
     Truncated = False, NextPage = None, NextStartLine = None, CacheHit = False, Warnings = []\<rparr>"

record ToolError =
  teCode :: string
  teMessage :: string
  teRetryable :: bool

record 'a ToolResponse =
  respData :: "'a option"
  respError :: "ToolError option"
  respMeta :: ResponseMeta

definition mapToolError :: "goerr \<Rightarrow> ToolError" where
  "mapToolError classified = \<lparr>teCode = codeString (codeOf classified), teMessage = Message (gogsOf classified),
     teRetryable = Retryable (gogsOf classified)\<rparr>"

text \<open>A tool result: whether it is marked as an error, and its response.\<close>

type_synonym 'a toolResult = "bool \<times> 'a ToolResponse"

definition contentError :: "string \<Rightarrow> goerr \<Rightarrow> 'a toolResult" where
  "contentError requestID err =
     (True, \<lparr>respData = None, respError = Some (mapToolError (AsError err)), respMeta = metaFor requestID\<rparr>)"

definition toolData :: "'a \<Rightarrow> ResponseMeta \<Rightarrow> 'a toolResult" where
  "toolData d meta = (False, \<lparr>respData = Some d, respError = None, respMeta = meta\<rparr>)"

section \<open>Bodies in chunks\<close>

definition defaultBodyBytes :: int where "defaultBodyBytes = 8192"

text \<open>The next rune start at or after \<open>i\<close>, and the last one at or before \<open>i\<close> but not before \<open>lo\<close>.\<close>

function forwardStart :: "string \<Rightarrow> nat \<Rightarrow> nat" where
  "forwardStart body i = (if i < length body \<and> \<not> runeStart (body ! i) then forwardStart body (Suc i) else i)"
  by pat_completeness auto
termination
  by (relation "measure (\<lambda>(body, i). length body - i)") auto

fun backwardStart :: "string \<Rightarrow> nat \<Rightarrow> nat \<Rightarrow> nat" where
  "backwardStart body lo 0 = 0"
| "backwardStart body lo (Suc i) =
     (if Suc i > lo \<and> Suc i < length body \<and> \<not> runeStart (body ! Suc i) then backwardStart body lo i else Suc i)"

declare forwardStart.simps [simp del]

definition bodyChunk :: "string \<Rightarrow> int \<Rightarrow> int \<Rightarrow> string \<times> int option" where
  "bodyChunk body offset maximum =
     (let start = forwardStart body (nat (min (max 0 offset) (int (length body))));
          maximum = (if maximum \<le> 0 then defaultBodyBytes else maximum);
          maximum = min maximum defaultBodyBytes;
          end = backwardStart body start (nat (min (int (length body)) (int start + maximum)));
          end = (if end = start \<and> start < length body then start + snd (runeWidth (drop start body)) else end)
      in (goSlice start end body, if end < length body then Some (int end) else None))"

definition boundBody :: "string \<Rightarrow> int \<Rightarrow> int \<Rightarrow> ResponseMeta \<Rightarrow> string \<times> ResponseMeta" where
  "boundBody body offset maximum meta =
     (case bodyChunk body offset maximum of (chunk, following) \<Rightarrow>
       (chunk, if following \<noteq> None
         then meta\<lparr>NextBodyOffset := following, Truncated := True,
           Warnings := Warnings meta @ [''Body is partial; continue with body_offset=next_body_offset.'']\<rparr>
         else meta\<lparr>NextBodyOffset := None\<rparr>))"

definition validateBodyOffset :: "string \<Rightarrow> int \<Rightarrow> goerr + unit" where
  "validateBodyOffset body offset =
     (if offset < 0 \<or> offset > int (length body)
         \<or> (offset < int (length body) \<and> \<not> runeStart (body ! nat offset))
      then Inl (gogsErr CodeInvalidArgument ''body_offset must be a UTF-8 boundary within the current body.'')
      else Inr ())"

lemma validateBodyOffset_Inr: "validateBodyOffset body offset = Inr u \<longleftrightarrow> 0 \<le> offset \<and> boundary body (nat offset)"
  by (auto simp: validateBodyOffset_def boundary_def)

lemma forwardStart_boundary: "boundary body i \<Longrightarrow> forwardStart body i = i"
  by (auto simp: forwardStart.simps [of body i] boundary_def)

lemma backwardStart_spec:
  assumes "boundary body lo" "lo \<le> i" "i \<le> length body"
  shows "boundary body (backwardStart body lo i) \<and> lo \<le> backwardStart body lo i \<and> backwardStart body lo i \<le> i"
  using assms
proof (induction i)
  case (Suc i)
  show ?case
  proof (cases "Suc i > lo \<and> Suc i < length body \<and> \<not> runeStart (body ! Suc i)")
    case True
    then have "backwardStart body lo (Suc i) = backwardStart body lo i" by simp
    moreover have "boundary body (backwardStart body lo i) \<and> lo \<le> backwardStart body lo i \<and> backwardStart body lo i \<le> i"
      using Suc True by simp
    ultimately show ?thesis by simp
  next
    case False
    moreover have "boundary body (Suc i)"
    proof (cases "Suc i = lo")
      case True
      with Suc.prems show ?thesis by simp
    next
      case other: False
      with False Suc.prems show ?thesis by (auto simp: boundary_def)
    qed
    moreover have "backwardStart body lo (Suc i) = Suc i" using False by auto
    ultimately show ?thesis using Suc.prems by (simp del: backwardStart.simps)
  qed
qed simp

text \<open>A chunk that starts at a boundary ends at a later boundary, and is as long as asked for unless the rune
  at its start alone is longer.\<close>

lemma bodyChunk_spec:
  assumes valid: "validUtf8 body" and at: "boundary body i" and maximum: "0 < maximum" "maximum \<le> 8192"
  shows "\<exists>e. bodyChunk body (int i) maximum = (goSlice i e body, if e < length body then Some (int e) else None)
    \<and> boundary body e \<and> (i < length body \<longrightarrow> i < e) \<and> i \<le> e \<and> int (e - i) \<le> max maximum 4"
proof -
  define m where "m = nat (min (int (length body)) (int i + maximum))"
  define b where "b = backwardStart body i m"
  define e where "e = (if b = i \<and> i < length body then i + snd (runeWidth (drop i body)) else b)"
  have i: "i \<le> length body" using at by (rule boundary_le)
  then have m: "i \<le> m" "m \<le> length body" "int m \<le> int i + maximum" using maximum by (simp_all add: m_def)
  have b: "boundary body b" "i \<le> b" "b \<le> m" using backwardStart_spec [OF at m(1,2)] by (simp_all add: b_def)
  have run: "bodyChunk body (int i) maximum = (goSlice i e body, if e < length body then Some (int e) else None)"
    using i maximum forwardStart_boundary [OF at]
    by (simp add: bodyChunk_def defaultBodyBytes_def Let_def e_def b_def m_def)
  show ?thesis
  proof (cases "b = i \<and> i < length body")
    case True
    obtain ok n where n: "runeWidth (drop i body) = (ok, n)" by (cases "runeWidth (drop i body)")
    from boundary_next [OF valid at _ n] True have "boundary body (i + n)" "1 \<le> n" "n \<le> 4" by auto
    moreover have "e = i + n" using True n by (simp add: e_def)
    ultimately have "boundary body e" "i < e" "int (e - i) \<le> max maximum 4" by simp_all
    then show ?thesis using run by (intro exI [of _ e] conjI) simp_all
  next
    case False
    then have eb: "e = b" by (auto simp: e_def)
    have "i < b" if "i < length body" using False b(2) that by auto
    moreover have "int (b - i) \<le> max maximum 4" using b m by linarith
    ultimately show ?thesis using run b unfolding eb by (intro exI [of _ b] conjI) simp_all
  qed
qed

text \<open>Reading a body: from an offset, following \<open>next_body_offset\<close> until there is none.\<close>

function readBody :: "string \<Rightarrow> int \<Rightarrow> nat \<Rightarrow> string list" where
  "readBody body maximum i =
     (case bodyChunk body (int i) maximum of
        (chunk, None) \<Rightarrow> [chunk]
      | (chunk, Some following) \<Rightarrow>
          if int i < following \<and> following \<le> int (length body)
          then chunk # readBody body maximum (nat following) else [chunk])"
  by pat_completeness auto
termination
  by (relation "measure (\<lambda>(body, maximum, i). length body - i)") auto

declare readBody.simps [simp del]

lemma readBody_spec:
  assumes "validUtf8 body" "0 < maximum" "maximum \<le> 8192"
  shows "boundary body i \<Longrightarrow> concat (readBody body maximum i) = drop i body
    \<and> (\<forall>c \<in> set (readBody body maximum i). validUtf8 c \<and> int (length c) \<le> max maximum 4)"
proof (induction "length body - i" arbitrary: i rule: less_induct)
  case less
  obtain e where e: "bodyChunk body (int i) maximum = (goSlice i e body, if e < length body then Some (int e) else None)"
    "boundary body e" "i < length body \<Longrightarrow> i < e" "i \<le> e" "int (e - i) \<le> max maximum 4"
    using bodyChunk_spec [OF assms(1) less.prems assms(2,3)] by blast
  have "validUtf8 (take e body)" using valid_drop_take [OF assms(1) e(2)] by simp
  moreover have "boundary (take e body) i"
    using less.prems e(4) boundary_le [OF e(2)] by (auto simp: boundary_def)
  ultimately have "validUtf8 (drop i (take e body))" using valid_drop_take by blast
  then have chunk: "validUtf8 (goSlice i e body)" "int (length (goSlice i e body)) \<le> max maximum 4"
    using e(5) by (auto simp: goSlice_def drop_take)
  show ?case
  proof (cases "e < length body")
    case False
    then have "e = length body" using boundary_le [OF e(2)] by simp
    then show ?thesis using e(1) chunk by (simp add: readBody.simps [of body maximum i] goSlice_def)
  next
    case True
    have lt: "i < e" using e(3,4) True by linarith
    then have "readBody body maximum i = goSlice i e body # readBody body maximum e"
      using e(1) True by (simp add: readBody.simps [of body maximum i])
    moreover have "goSlice i e body @ drop e body = drop i body"
      using lt by (metis append_take_drop_id drop_drop goSlice_def le_add_diff_inverse2 less_imp_le)
    ultimately show ?thesis using less.hyps [of e] lt True e(2) chunk by simp
  qed
qed

text \<open>C38: Reading a body chunk by chunk, from the start and along the offsets the server returns, ends and
  gives back exactly the body; each chunk is valid UTF-8 and no longer than asked for, or one rune.\<close>

theorem body_chunks_roundtrip:
  assumes "validUtf8 body" "0 < maximum" "maximum \<le> 8192"
  shows "concat (readBody body maximum 0) = body
    \<and> (\<forall>c \<in> set (readBody body maximum 0). validUtf8 c \<and> int (length c) \<le> max maximum 4)"
proof -
  have "boundary body 0" using validUtf8_start [OF assms(1)] by (cases body) (auto simp: boundary_def)
  from readBody_spec [OF assms this] show ?thesis by simp
qed

definition euro :: string where "euro = [CHR 0xE2, CHR 0x82, CHR 0xAC]"

theorem body_chunks_roundtrip_witness:
  "readBody (''ab'' @ euro @ ''c'') 4 0 = [''ab'', euro @ ''c''] \<and> concat (readBody (''ab'' @ euro @ ''c'') 4 0) = ''ab'' @ euro @ ''c''"
proof -
  have "validUtf8 (''ab'' @ euro @ ''c'')" by code_simp
  moreover have "readBody (''ab'' @ euro @ ''c'') 4 0 = [''ab'', euro @ ''c'']" by code_simp
  ultimately show ?thesis using body_chunks_roundtrip [of "''ab'' @ euro @ ''c''" 4] by simp
qed

section \<open>The output budget\<close>

text \<open>The bytes of \<open>json.Marshal\<close> of a value.\<close>

fun jsonLen :: "json \<Rightarrow> nat" where
  "jsonLen JNull = 4"
| "jsonLen (JBool b) = (if b then 4 else 5)"
| "jsonLen (JNum n) = length (formatInt n)"
| "jsonLen (JStr s) = 2 + encodedStringLength s"
| "jsonLen (JArr xs) = 2 + sepSum False (map jsonLen xs)"
| "jsonLen (JObj fs) = 2 + sepSum False (map (\<lambda>(k, v). 3 + encodedStringLength k + jsonLen v) fs)"

text \<open>Assignment to a key of a JSON object.\<close>

fun setField :: "string \<Rightarrow> json \<Rightarrow> (string \<times> json) list \<Rightarrow> (string \<times> json) list" where
  "setField k v [] = [(k, v)]"
| "setField k v ((k', v') # fs) = (if k = k' then (k, v) # fs else (k', v') # setField k v fs)"

definition trimKeys :: "string set" where
  "trimKeys = {''title'', ''description'', ''message'', ''diff''}"

definition trimString :: "nat \<Rightarrow> string \<Rightarrow> string" where
  "trimString limit s = take (backwardStart s 0 limit) s"

fun diffCut :: "nat \<Rightarrow> string \<times> json \<Rightarrow> bool" where
  "diffCut limit (k, JStr s) \<longleftrightarrow> k = ''diff'' \<and> length s > limit"
| "diffCut limit _ \<longleftrightarrow> False"

fun trimOutput :: "nat \<Rightarrow> json \<Rightarrow> json" where
  "trimOutput limit (JObj fs) =
     (let fs' = map (\<lambda>(k, item). (k, case item of
            JStr s \<Rightarrow> if length s > limit \<and> k \<in> trimKeys then JStr (trimString limit s) else JStr s
          | JArr xs \<Rightarrow> JArr (map (trimOutput limit) xs)
          | _ \<Rightarrow> trimOutput limit item)) fs
      in JObj (if list_ex (diffCut limit) fs then setField ''truncated'' (JBool True) fs' else fs'))"
| "trimOutput limit v = v"

text \<open>The envelope: the fields of the response object, its \<open>data\<close> and its \<open>meta\<close>.\<close>

definition fieldOf :: "string \<Rightarrow> (string \<times> json) list \<Rightarrow> json" where
  "fieldOf k fs = (case map_of fs k of Some v \<Rightarrow> v | None \<Rightarrow> JNull)"

fun objFields :: "json \<Rightarrow> (string \<times> json) list" where
  "objFields (JObj fs) = fs"
| "objFields _ = []"

definition budgetWarning :: string where
  "budgetWarning = ''Structured output reached its byte budget; narrow the request or continue using its cursor.''"

definition maximumOutput :: "(string \<times> json) list \<Rightarrow> nat" where
  "maximumOutput envelope =
     (if map_of (objFields (fieldOf ''data'' envelope)) ''diff'' \<noteq> None then 4194304 else 65536)"

definition markTruncated :: "(string \<times> json) list \<Rightarrow> (string \<times> json) list" where
  "markTruncated envelope =
     (let meta = setField ''truncated'' (JBool True) (objFields (fieldOf ''meta'' envelope));
          warnings = (case fieldOf ''warnings'' meta of JArr ws \<Rightarrow> ws | _ \<Rightarrow> []);
          meta = setField ''warnings'' (JArr (warnings @ [JStr budgetWarning])) meta
      in setField ''meta'' (JObj meta) envelope)"

text \<open>\<open>trimOutput(data, limit)\<close> changes the data object in place.\<close>

definition trimData :: "nat \<Rightarrow> (string \<times> json) list \<Rightarrow> (string \<times> json) list" where
  "trimData limit envelope =
     (case fieldOf ''data'' envelope of
        JObj fs \<Rightarrow> setField ''data'' (trimOutput limit (JObj fs)) envelope
      | _ \<Rightarrow> envelope)"

fun trimLoop :: "nat \<Rightarrow> nat list \<Rightarrow> (string \<times> json) list \<Rightarrow> (string \<times> json) list" where
  "trimLoop maximum [] envelope = envelope"
| "trimLoop maximum (limit # limits) envelope =
     (let envelope = trimData limit envelope in
      if jsonLen (JObj envelope) \<le> maximum then envelope else trimLoop maximum limits envelope)"

definition trimLimits :: "nat list" where
  "trimLimits = [4096, 2048, 1024, 512, 256, 128, 64, 32, 16, 8, 4, 2, 1]"

definition tooLargeError :: goerr where
  "tooLargeError = gogsErr CodeResponseTooLarge
     ''The tool response metadata exceeds its output budget; reduce the page size or narrow the request.''"

text \<open>\<open>json.Marshal\<close> of the error response that replaces a result which cannot be made to fit.\<close>

definition errorEnvelope :: "string \<Rightarrow> goerr \<Rightarrow> (string \<times> json) list" where
  "errorEnvelope requestID err =
     (let e = mapToolError (AsError err) in
      [(''error'', JObj [(''code'', JStr (teCode e)), (''message'', JStr (teMessage e)), (''retryable'', JBool (teRetryable e))]),
       (''meta'', JObj [(''request_id'', JStr requestID), (''truncated'', JBool False)])])"

text \<open>The result that goes out, and whether it replaces the one of the tool.\<close>

definition fitOutput :: "(string \<times> json) list \<Rightarrow> bool \<times> (string \<times> json) list" where
  "fitOutput envelope =
     (let maximum = maximumOutput envelope in
      if jsonLen (JObj envelope) \<le> maximum then (False, envelope)
      else
        (let trimmed = trimLoop maximum trimLimits (markTruncated envelope) in
         if jsonLen (JObj trimmed) > maximum then
           (True, errorEnvelope (case fieldOf ''request_id'' (objFields (fieldOf ''meta'' trimmed)) of JStr r \<Rightarrow> r | _ \<Rightarrow> []) tooLargeError)
         else (False, trimmed)))"

text \<open>The middleware. Another method than \<open>tools/call\<close> passes through; a call waits for one of eight slots or the
  end of its context, given as \<open>admission\<close>. The next handler returns an error, a result without structured
  content, or a structured one. The result carries whether it is marked as an error.\<close>

datatype handlerResult = HandlerError goerr | Unstructured | Structured bool "(string \<times> json) list"

definition toolBudget :: "string \<Rightarrow> goerr option \<Rightarrow> handlerResult \<Rightarrow> handlerResult" where
  "toolBudget meth admission handled =
     (if meth \<noteq> ''tools/call'' then handled
      else (case admission of
        Some e \<Rightarrow> HandlerError e
      | None \<Rightarrow> (case handled of
          Structured isError envelope \<Rightarrow>
            (case fitOutput envelope of (replaced, out) \<Rightarrow> Structured (isError \<or> replaced) out)
        | _ \<Rightarrow> handled)))"

subsection \<open>What trimming keeps\<close>

lemma map_of_setField: "map_of (setField k v fs) k' = (if k' = k then Some v else map_of fs k')"
  by (induction k v fs rule: setField.induct) auto

lemma fieldOf_setField: "fieldOf k' (setField k v fs) = (if k' = k then v else fieldOf k' fs)"
  by (simp add: fieldOf_def map_of_setField)

lemma filter_setField: "filter (\<lambda>(k, v). k \<noteq> x) (setField x v fs) = filter (\<lambda>(k, v). k \<noteq> x) fs"
  by (induction x v fs rule: setField.induct) auto

text \<open>The skeleton of a value: everything but the long texts and the truncation marks.\<close>

fun skeleton :: "json \<Rightarrow> json" where
  "skeleton (JObj fs) =
     JObj (map (\<lambda>(k, v). (k, case v of JStr s \<Rightarrow> if k \<in> trimKeys then JStr [] else JStr s | _ \<Rightarrow> skeleton v))
       (filter (\<lambda>(k, v). k \<noteq> ''truncated'') fs))"
| "skeleton (JArr xs) = JArr (map skeleton xs)"
| "skeleton v = v"

lemma skeleton_marked:
  "skeleton (JObj (setField ''truncated'' t fs)) = skeleton (JObj fs)"
  by (simp only: skeleton.simps filter_setField)

lemma skeleton_trim: "skeleton (trimOutput limit v) = skeleton v"
proof (induction limit v rule: trimOutput.induct)
  case (1 limit fs)
  let ?item = "\<lambda>(k, item). (k, case item of
            JStr s \<Rightarrow> if length s > limit \<and> k \<in> trimKeys then JStr (trimString limit s) else JStr s
          | JArr xs \<Rightarrow> JArr (map (trimOutput limit) xs)
          | _ \<Rightarrow> trimOutput limit item)"
  let ?bone = "\<lambda>(k, v). (k, case v of JStr s \<Rightarrow> if k \<in> trimKeys then JStr [] else JStr s | _ \<Rightarrow> skeleton v)"
  have each: "?bone (?item f) = ?bone f" if f: "f \<in> set fs" for f
  proof -
    obtain k v where kv: "f = (k, v)" by (cases f)
    have arr: "skeleton (trimOutput limit x) = skeleton x" if "v = JArr xs" "x \<in> set xs" for x xs
      using "1.IH"(4) [OF f kv [symmetric] that(1) that(2)] .
    show ?thesis
    proof (cases v)
      case (JArr xs)
      with arr kv show ?thesis by simp
    next
      case (JObj gs)
      have "skeleton (trimOutput limit (JObj gs)) = skeleton (JObj gs)"
        using "1.IH"(5) [OF f kv [symmetric] JObj] JObj by (simp only:)
      moreover obtain hs where "trimOutput limit (JObj gs) = JObj hs" by (simp add: Let_def split: if_splits)
      ultimately show ?thesis using kv JObj by (simp del: trimOutput.simps skeleton.simps)
    qed (simp_all add: kv)
  qed
  have "filter (\<lambda>(k, v). k \<noteq> ''truncated'') (map ?item fs) = map ?item (filter (\<lambda>(k, v). k \<noteq> ''truncated'') fs)"
    by (induction fs) auto
  then have "skeleton (JObj (map ?item fs)) = JObj (map (\<lambda>f. ?bone (?item f)) (filter (\<lambda>(k, v). k \<noteq> ''truncated'') fs))"
    by (simp only: skeleton.simps map_map comp_def)
  also have "\<dots> = skeleton (JObj fs)"
    unfolding skeleton.simps
    by (rule arg_cong [where f = JObj], rule map_cong [OF refl], rule each) (meson filter_is_subset subsetD)
  finally show ?case using skeleton_marked by (simp add: Let_def del: skeleton.simps)
qed simp_all

text \<open>What is shortened is a prefix that ends at a rune boundary.\<close>

lemma trimString_spec:
  assumes "validUtf8 s" "limit \<le> length s"
  shows "validUtf8 (trimString limit s) \<and> length (trimString limit s) \<le> limit \<and> hasPrefix s (trimString limit s)"
proof -
  have "boundary s 0" using validUtf8_start [OF assms(1)] by (cases s) (auto simp: boundary_def)
  from backwardStart_spec [OF this _ assms(2)]
  have b: "boundary s (backwardStart s 0 limit)" "backwardStart s 0 limit \<le> limit" by simp_all
  moreover have "hasPrefix s (take n s)" for n by (metis append_take_drop_id hasPrefix_append)
  ultimately show ?thesis using valid_drop_take [OF assms(1) b(1)] by (simp add: trimString_def min_def)
qed

text \<open>Data and meta in a trimmed envelope.\<close>

definition sameBut :: "(string \<times> json) list \<Rightarrow> (string \<times> json) list \<Rightarrow> bool" where
  "sameBut envelope out \<longleftrightarrow> skeleton (fieldOf ''data'' out) = skeleton (fieldOf ''data'' envelope)
     \<and> (\<forall>k. k \<noteq> ''data'' \<longrightarrow> fieldOf k out = fieldOf k envelope)"

lemma sameBut_trimData: "sameBut envelope (trimData limit envelope)"
  by (cases "fieldOf ''data'' envelope")
    (simp_all add: sameBut_def trimData_def fieldOf_setField skeleton_trim del: trimOutput.simps skeleton.simps)

lemma sameBut_trimLoop: "sameBut envelope (trimLoop maximum limits envelope)"
proof (induction limits arbitrary: envelope)
  case (Cons limit limits)
  have "sameBut envelope (trimLoop maximum limits (trimData limit envelope))"
    using Cons [of "trimData limit envelope"] sameBut_trimData [of envelope limit] by (simp add: sameBut_def)
  then show ?case using sameBut_trimData by (simp add: Let_def)
qed (simp add: sameBut_def)

lemma markTruncated_fields:
  "fieldOf k (markTruncated envelope) = (if k = ''meta'' then fieldOf k (markTruncated envelope) else fieldOf k envelope)"
  "k \<notin> {''truncated'', ''warnings''} \<Longrightarrow>
    fieldOf k (objFields (fieldOf ''meta'' (markTruncated envelope))) = fieldOf k (objFields (fieldOf ''meta'' envelope))"
  by (simp_all add: markTruncated_def Let_def fieldOf_setField)

definition requestIDOf :: "(string \<times> json) list \<Rightarrow> string" where
  "requestIDOf envelope = (case fieldOf ''request_id'' (objFields (fieldOf ''meta'' envelope)) of JStr r \<Rightarrow> r | _ \<Rightarrow> [])"

lemma requestIDOf_trimmed: "requestIDOf (trimLoop maximum limits (markTruncated envelope)) = requestIDOf envelope"
proof -
  have "fieldOf ''meta'' (trimLoop maximum limits (markTruncated envelope)) = fieldOf ''meta'' (markTruncated envelope)"
    using sameBut_trimLoop by (simp add: sameBut_def)
  then show ?thesis by (simp add: requestIDOf_def markTruncated_fields(2))
qed

lemma errorEnvelope_base: "jsonLen (JObj (errorEnvelope [] tooLargeError)) = 210"
  by code_simp

lemma errorEnvelope_length: "jsonLen (JObj (errorEnvelope r tooLargeError)) = 210 + encodedStringLength r"
proof -
  have "jsonLen (JObj (errorEnvelope r tooLargeError)) = jsonLen (JObj (errorEnvelope [] tooLargeError)) + encodedStringLength r"
    by (simp add: errorEnvelope_def Let_def)
  then show ?thesis by (simp only: errorEnvelope_base)
qed

subsection \<open>Every result fits\<close>


text \<open>A call is never executed without a slot, and other methods are left alone.\<close>

lemma toolBudget_admission:
  "toolBudget ''tools/call'' (Some e) handled = HandlerError e"
  "meth \<noteq> ''tools/call'' \<Longrightarrow> toolBudget meth admission handled = handled"
  by (simp_all add: toolBudget_def)

lemma trim_example:
  "trimOutput 4 (JObj [(''id'', JNum 7), (''title'', JStr (''abc'' @ euro)), (''files'', JArr [JObj [(''diff'', JStr ''+line'')]])])
    = JObj [(''id'', JNum 7), (''title'', JStr ''abc''),
        (''files'', JArr [JObj [(''diff'', JStr ''+lin''), (''truncated'', JBool True)]])]"
  by code_simp

end
