(* ===== verification/ToolContents.thy ===== *)
theory ToolContents
  imports Contents ToolBudget
begin

text \<open>
  internal/mcpserver/contents.go: the directory and file tools. \<open>boundedFile\<close> cuts a window of lines out of a
  text file that fits the output limit, and says where the next window starts. A tool is a computation of
  the client that always returns a result: an error of the client becomes an error response.
\<close>

section \<open>Running a tool\<close>

definition runTool :: "string \<Rightarrow> ('s, goerr, 'a) io \<Rightarrow> ('a \<Rightarrow> 'b toolResult) \<Rightarrow> ('s, goerr, 'b toolResult) io" where
  "runTool requestID action respond =
     onResult action (\<lambda>r. case r of Inl e \<Rightarrow> ret (contentError requestID e) | Inr x \<Rightarrow> ret (respond x))"

section \<open>Directories\<close>

record DirectoryEntry =
  deName :: string
  dePath :: string
  deType :: string
  deSize :: int
  deSHA :: string
  deTarget :: string
  deSubmoduleURL :: string

record DirectoryPage =
  dpEntries :: "DirectoryEntry list"
  dpPath :: string
  dpRef :: string
  dpPage :: int
  dpPerPage :: int
  dpTotal :: int

definition entryLess :: "ContentEntry \<Rightarrow> ContentEntry \<Rightarrow> bool" where
  "entryLess left right \<longleftrightarrow> ctPath left < ctPath right \<or> (ctPath left = ctPath right \<and> ctSHA left < ctSHA right)"

definition directoryEntry :: "ContentEntry \<Rightarrow> DirectoryEntry" where
  "directoryEntry e = \<lparr>deName = ctName e, dePath = ctPath e, deType = ctType e, deSize = ctSize e,
     deSHA = ctSHA e, deTarget = ctTarget e, deSubmoduleURL = ctSubmoduleURL e\<rparr>"

definition paginateDirectory :: "ContentEntry list \<Rightarrow> string \<Rightarrow> string \<Rightarrow> int \<Rightarrow> int \<Rightarrow> DirectoryPage" where
  "paginateDirectory entries repositoryPath ref page perPage =
     (let sorted = sortSlice entryLess entries
      in \<lparr>dpEntries = map directoryEntry (cutPage page perPage sorted), dpPath = repositoryPath, dpRef = ref,
          dpPage = page, dpPerPage = perPage, dpTotal = int (length sorted)\<rparr>)"

definition listDirectoryTool :: "httpWorld \<Rightarrow> metaTokens \<Rightarrow> Client \<Rightarrow> string \<Rightarrow> string \<Rightarrow> string \<Rightarrow> string \<Rightarrow> string \<Rightarrow>
    int \<Rightarrow> int \<Rightarrow> DirectoryPage toolResult clientIO" where
  "listDirectoryTool w tokens c requestID owner repo path ref page perPage =
     (case ValidateRepositoryPath path True of
        Inl e \<Rightarrow> ret (contentError requestID e)
      | Inr _ \<Rightarrow> runTool requestID (ListDirectoryPage w tokens c owner repo path ref page perPage)
          (\<lambda>(entries, usedRef, tot).
            let shown = (paginateDirectory entries path usedRef 1 perPage)\<lparr>dpPage := page, dpTotal := tot\<rparr>;
                following = (if page \<le> (tot - 1) div perPage \<and> tot > 0 then Some (page + 1) else None)
            in toolData shown ((metaFor requestID)\<lparr>NextPage := following\<rparr>)))"

text \<open>The tool names a next page exactly when entries are left.\<close>

lemma directory_next_page:
  fixes page perPage tot :: int
  assumes "1 \<le> page" "1 \<le> perPage"
  shows "page \<le> (tot - 1) div perPage \<and> tot > 0 \<longleftrightarrow> page * perPage < tot"
proof -
  have "page \<le> (tot - perPage + perPage - 1) div perPage \<longleftrightarrow> (page - 1) * perPage < tot - perPage"
    using assms by (intro ceil_div_le) simp
  then have "page \<le> (tot - 1) div perPage \<longleftrightarrow> page * perPage < tot" by (simp add: left_diff_distrib)
  moreover have "0 < page * perPage" using assms by simp
  ultimately show ?thesis by linarith
qed

section \<open>Files\<close>

record File =
  fPath :: string
  fRef :: string
  fType :: string
  fSize :: int
  fSHA :: string
  fContent :: string
  fStartLine :: int
  fEndLine :: int
  fTotalLines :: int
  fTarget :: string
  fSubmoduleURL :: string
  fTrailingNewline :: bool

definition maximumReadableBytes :: int where "maximumReadableBytes = 1048576"
definition maximumFileTextBytes :: nat where "maximumFileTextBytes = 57344"

abbreviation newline :: char where "newline \<equiv> CHR 0x0A"

definition isBinary :: "string \<Rightarrow> bool" where
  "isBinary content \<longleftrightarrow> CHR 0x00 \<in> set (take 8192 content) \<or> \<not> validUtf8 content"

definition splitTextLines :: "string \<Rightarrow> string list" where
  "splitTextLines content =
     (if content = [] then []
      else (let ls = splitOn newline content in if ls \<noteq> [] \<and> last ls = [] then butlast ls else ls))"

text \<open>The runes of a line that fit; the line is valid UTF-8, so a rune is as long as its encoding.\<close>

fun fitRunes :: "nat \<Rightarrow> nat \<Rightarrow> string list \<Rightarrow> string list" where
  "fitRunes maximum used [] = []"
| "fitRunes maximum used (character # rest) =
     (if used + encodedStringLength character > maximum then []
      else character # fitRunes maximum (used + encodedStringLength character) rest)"

definition boundedJSONPrefix :: "string \<Rightarrow> nat \<Rightarrow> string" where
  "boundedJSONPrefix v maximum =
     (if encodedStringLength v \<le> maximum then v else concat (fitRunes maximum 0 (goRunes v)))"

definition limitWarning :: string where "limitWarning = ''File content reached the 64 KiB structured output limit.''"
definition rangeWarning :: string where "rangeWarning = ''File content continues after the returned line range.''"

text \<open>The loop over the requested lines; \<open>index\<close> counts from zero.\<close>

function windowLoop :: "string list \<Rightarrow> nat \<Rightarrow> nat \<Rightarrow> string list \<Rightarrow> nat \<Rightarrow> File \<times> ResponseMeta \<Rightarrow>
    string list \<times> File \<times> ResponseMeta" where
  "windowLoop ls requestedEnd index selected selectedBytes (f, meta) =
     (if index \<ge> requestedEnd then (selected, f, meta)
      else
        (let separatorBytes = (if selected \<noteq> [] then 2 else 0);
             lineBytes = encodedStringLength (ls ! index)
         in if selectedBytes + separatorBytes + lineBytes > maximumFileTextBytes then
              (let meta = meta\<lparr>Truncated := True, Warnings := Warnings meta @ [limitWarning]\<rparr> in
               if selected = [] then
                 ([boundedJSONPrefix (ls ! index) maximumFileTextBytes],
                  f\<lparr>fStartLine := int index + 1, fEndLine := int index + 1\<rparr>,
                  if index + 1 < length ls then meta\<lparr>NextStartLine := Some (int index + 2)\<rparr> else meta)
               else (selected, f, meta\<lparr>NextStartLine := Some (int index + 1)\<rparr>))
            else
              windowLoop ls requestedEnd (Suc index) (selected @ [ls ! index]) (selectedBytes + separatorBytes + lineBytes)
                (f\<lparr>fStartLine := (if fStartLine f = 0 then int index + 1 else fStartLine f), fEndLine := int index + 1\<rparr>, meta)))"
  by pat_completeness auto
termination
  by (relation "measure (\<lambda>(ls, requestedEnd, index, u). requestedEnd - index)") auto

declare windowLoop.simps [simp del]

definition boundedFile :: "FileContent \<Rightarrow> int \<Rightarrow> int \<Rightarrow> File \<times> ResponseMeta" where
  "boundedFile content startLine lineCount =
     (let f = \<lparr>fPath = fcPath content, fRef = fcRef content, fType = fcType content, fSize = fcSize content,
            fSHA = fcSHA content, fContent = [], fStartLine = 0, fEndLine = 0, fTotalLines = 0,
            fTarget = fcTarget content, fSubmoduleURL = fcSubmoduleURL content, fTrailingNewline = False\<rparr>;
          meta = metaFor []
      in if fcType content \<noteq> ''file'' then (f, meta)
         else if fcSize content > maximumReadableBytes then
           (f\<lparr>fType := ''too_large''\<rparr>, meta\<lparr>Truncated := True,
              Warnings := [''File content exceeds the 1 MiB read limit and was not returned.'']\<rparr>)
         else if isBinary (fcData content) then (f\<lparr>fType := ''binary''\<rparr>, meta)
         else
           (let ls = splitTextLines (fcData content);
                f = f\<lparr>fType := ''text'', fTrailingNewline := hasSuffix (fcData content) [newline],
                  fTotalLines := int (length ls)\<rparr>
            in if startLine > int (length ls) then (f, meta)
               else
                 (let startIndex = startLine - 1;
                      requestedEnd = nat (min (startIndex + lineCount) (int (length ls)))
                  in case windowLoop ls requestedEnd (nat startIndex) [] 0 (f, meta) of (selected, f, meta) \<Rightarrow>
                    (f\<lparr>fContent := joinWith [newline] selected\<rparr>,
                     if \<not> Truncated meta \<and> requestedEnd < length ls
                     then meta\<lparr>Truncated := True, NextStartLine := Some (int requestedEnd + 1),
                       Warnings := Warnings meta @ [rangeWarning]\<rparr>
                     else meta))))"

definition getFileTool :: "httpWorld \<Rightarrow> metaTokens \<Rightarrow> Client \<Rightarrow> string \<Rightarrow> string \<Rightarrow> string \<Rightarrow> string \<Rightarrow> string \<Rightarrow>
    int \<Rightarrow> int \<Rightarrow> File toolResult clientIO" where
  "getFileTool w tokens c requestID owner repo path ref startLine lineCount =
     (case ValidateRepositoryPath path False of
        Inl e \<Rightarrow> ret (contentError requestID e)
      | Inr _ \<Rightarrow> runTool requestID (GetFile w tokens c owner repo path ref) (\<lambda>content.
          case boundedFile content startLine lineCount of (f, meta) \<Rightarrow> toolData f (meta\<lparr>RequestID := requestID\<rparr>)))"

section \<open>Lines and bytes\<close>

lemma text_lines_roundtrip:
  assumes "content \<noteq> []"
  shows "joinWith [newline] (splitTextLines content) @ (if hasSuffix content [newline] then [newline] else []) = content"
proof -
  define ls where "ls = splitOn newline content"
  have ls: "ls \<noteq> []" "joinWith [newline] ls = content" by (simp_all add: ls_def)
  have no: "newline \<notin> set (last ls)" using splitOn_no_sep [of "last ls" newline content] last_in_set [OF ls(1)] by (simp add: ls_def)
  show ?thesis
  proof (cases "last ls = []")
    case True
    then have split: "ls = butlast ls @ [[]]" using ls(1) by (metis append_butlast_last_id)
    then have "butlast ls \<noteq> []" using ls(2) assms by (metis append_Nil joinWith.simps(2))
    then have "content = joinWith [newline] (butlast ls) @ [newline]"
      using ls(2) split joinWith_append [of "butlast ls" "[[]]" "[newline]"] by simp
    moreover have "splitTextLines content = butlast ls"
      using True ls(1) assms by (simp add: splitTextLines_def ls_def [symmetric] Let_def)
    moreover from calculation have "hasSuffix content [newline]" by (auto simp: hasSuffix_iff)
    ultimately show ?thesis by simp
  next
    case False
    have "\<not> hasSuffix content [newline]"
    proof
      assume "hasSuffix content [newline]"
      then obtain t where t: "content = t @ [newline]" by (auto simp: hasSuffix_iff)
      have "last (last ls) = newline"
      proof (cases "butlast ls = []")
        case True
        then have "ls = [last ls]" using ls(1) by (metis append_Nil append_butlast_last_id)
        then have "content = last ls" using ls(2) by (metis joinWith.simps(2))
        then show ?thesis using t by (metis last_snoc)
      next
        case ne: False
        have "content = joinWith [newline] (butlast ls) @ [newline] @ last ls"
          using joinWith_append [OF ne, of "[last ls]" "[newline]"] ls by simp
        then show ?thesis using t False by (metis append_is_Nil_conv last_append last_snoc)
      qed
      then show False using no False by (metis last_in_set)
    qed
    then show ?thesis using False ls assms by (simp add: splitTextLines_def ls_def [symmetric] Let_def)
  qed
qed

subsection \<open>Encoded lengths\<close>

lemma validUtf8_append: "validUtf8 s \<Longrightarrow> validUtf8 t \<Longrightarrow> validUtf8 (s @ t)"
proof (induction s rule: length_induct)
  case (1 s)
  show ?case
  proof (cases "s = []")
    case False
    with "1.prems"(1) obtain n where n: "runeWidth s = (True, n)" "1 \<le> n" "n \<le> length s" "validUtf8 (drop n s)"
      by (rule validUtf8_step)
    with "1.IH" "1.prems"(2) False have "validUtf8 (drop n s @ t)" by simp
    moreover have "drop n (s @ t) = drop n s @ t" using n(3) by simp
    ultimately show ?thesis using runeWidth_append [OF n(1)] by (auto intro: validUtf8_stepI)
  qed (use "1.prems" in simp)
qed

lemma runeWidth_newline: "runeWidth (newline # s) = (True, 1)"
  by (simp add: byte_def leadWidth_def tailOk_def Let_def)

lemma valid_newline: "validUtf8 [newline]" and encoded_newline: "encodedStringLength [newline] = 2"
  by code_simp+

lemma valid_split_newline: "validUtf8 (a @ newline # b) \<Longrightarrow> validUtf8 a \<and> validUtf8 b"
proof -
  assume v: "validUtf8 (a @ newline # b)"
  have "runeStart newline" by code_simp
  then have "boundary (a @ newline # b) (length a)" by (simp add: boundary_def)
  from valid_drop_take [OF v this] have "validUtf8 (newline # b)" "validUtf8 a" by simp_all
  then show ?thesis using runeWidth_newline [of b] by (simp add: validUtf8.simps [of "newline # b"])
qed

lemma valid_lines: "validUtf8 (joinWith [newline] ls) \<Longrightarrow> list_all validUtf8 ls"
proof (induction ls)
  case (Cons l ls)
  show ?case
  proof (cases "ls = []")
    case False
    with Cons.prems have "validUtf8 (l @ newline # joinWith [newline] ls)" by (simp add: joinWith_Cons)
    then have "validUtf8 l \<and> validUtf8 (joinWith [newline] ls)" by (rule valid_split_newline)
    then show ?thesis using Cons.IH by simp
  qed (use Cons.prems in simp)
qed simp

lemma valid_join: "list_all validUtf8 ls \<Longrightarrow> validUtf8 (joinWith [newline] ls)"
proof (induction ls)
  case (Cons l ls)
  show ?case
  proof (cases "ls = []")
    case False
    have "validUtf8 ([newline] @ joinWith [newline] ls)"
      by (rule validUtf8_append [OF valid_newline]) (use Cons in simp)
    then have "validUtf8 (l @ [newline] @ joinWith [newline] ls)"
      by (rule validUtf8_append [rotated]) (use Cons.prems in simp)
    then show ?thesis using joinWith_Cons [OF False] by simp
  qed (use Cons.prems in simp)
qed simp

lemma encoded_join_snoc:
  assumes "list_all validUtf8 (xs @ [x])"
  shows "encodedStringLength (joinWith [newline] (xs @ [x]))
    = encodedStringLength (joinWith [newline] xs) + (if xs \<noteq> [] then 2 else 0) + encodedStringLength x"
proof (cases "xs = []")
  case False
  have v: "validUtf8 (joinWith [newline] xs)" using assms by (intro valid_join) simp
  have "joinWith [newline] (xs @ [x]) = joinWith [newline] xs @ [newline] @ x"
    using joinWith_append [OF False, of "[x]" "[newline]"] by simp
  then have "encodedStringLength (joinWith [newline] (xs @ [x]))
      = encodedStringLength (joinWith [newline] xs) + encodedStringLength ([newline] @ x)"
    using encodedStringLength_append [OF v] by simp
  also have "encodedStringLength ([newline] @ x) = 2 + encodedStringLength x"
    using encodedStringLength_append [OF valid_newline] encoded_newline by simp
  finally show ?thesis using False by simp
qed simp

lemma valid_text_lines: "validUtf8 content \<Longrightarrow> list_all validUtf8 (splitTextLines content)"
proof -
  assume "validUtf8 content"
  then have "list_all validUtf8 (splitOn newline content)" by (intro valid_lines) simp
  then show ?thesis by (auto simp: splitTextLines_def Let_def list_all_iff dest: in_set_butlastD)
qed

lemma fitRunes_spec:
  "validUtf8 v \<Longrightarrow> used \<le> maximum \<Longrightarrow> hasPrefix v (concat (fitRunes maximum used (goRunes v)))
    \<and> validUtf8 (concat (fitRunes maximum used (goRunes v)))
    \<and> used + encodedStringLength (concat (fitRunes maximum used (goRunes v))) \<le> maximum"
proof (induction v arbitrary: used rule: length_induct)
  case (1 v)
  show ?case
  proof (cases "v = []")
    case True
    with "1.prems" show ?thesis by (simp add: hasPrefix_def)
  next
    case False
    with "1.prems"(1) obtain n where n: "runeWidth v = (True, n)" "1 \<le> n" "n \<le> length v" "validUtf8 (drop n v)"
      by (rule validUtf8_step)
    let ?r = "take n v" and ?u = "used + encodedStringLength (take n v)"
    have runes: "goRunes v = ?r # goRunes (drop n v)" using n False by (simp add: goRunes.simps [of v])
    have r: "validUtf8 ?r" by (rule validUtf8_stepI [OF runeWidth_exact [OF n(1)]]) simp
    show ?thesis
    proof (cases "?u > maximum")
      case True
      with "1.prems" show ?thesis by (simp add: runes hasPrefix_def)
    next
      case fits: False
      let ?rest = "concat (fitRunes maximum ?u (goRunes (drop n v)))"
      have "hasPrefix (drop n v) ?rest \<and> validUtf8 ?rest \<and> ?u + encodedStringLength ?rest \<le> maximum"
        using "1.IH" n False fits by simp
      moreover from this obtain t where "drop n v = ?rest @ t" by (auto simp: hasPrefix_iff)
      then have "v = ?r @ ?rest @ t" by (metis append_take_drop_id)
      then have "hasPrefix v (?r @ ?rest)" by (metis append.assoc hasPrefix_append)
      ultimately show ?thesis
        using fits r by (simp add: runes validUtf8_append encodedStringLength_append [OF r])
    qed
  qed
qed

lemma boundedJSONPrefix_spec:
  "validUtf8 v \<Longrightarrow> hasPrefix v (boundedJSONPrefix v maximum) \<and> validUtf8 (boundedJSONPrefix v maximum)
    \<and> encodedStringLength (boundedJSONPrefix v maximum) \<le> maximum"
  using fitRunes_spec [of v 0 maximum] hasPrefix_append [of v "[]"] by (simp add: boundedJSONPrefix_def)

section \<open>One window of a file\<close>

text \<open>What the line loop delivers from line \<open>a\<close> (from zero): the lines up to \<open>e\<close> whole, or a prefix of a first
  line that alone is too long, and the start of the next window when lines are left and the limit stopped it.\<close>

definition windowOk :: "string list \<Rightarrow> nat \<Rightarrow> nat \<Rightarrow> string list \<times> File \<times> ResponseMeta \<Rightarrow> bool" where
  "windowOk ls a requestedEnd w \<longleftrightarrow> (case w of (selected, f, meta) \<Rightarrow>
     fStartLine f = int a + 1
     \<and> (\<exists>e. fEndLine f = int e \<and> a < e \<and> e \<le> requestedEnd
        \<and> (selected = goSlice a e ls \<or> e = a + 1 \<and> selected = [boundedJSONPrefix (ls ! a) maximumFileTextBytes]
             \<and> encodedStringLength (ls ! a) > maximumFileTextBytes)
        \<and> encodedStringLength (joinWith [newline] selected) \<le> maximumFileTextBytes
        \<and> (if Truncated meta then NextStartLine meta = (if e < length ls then Some (int e + 1) else None)
           else NextStartLine meta = None \<and> e = requestedEnd)))"

lemma goSlice_snoc: "a \<le> i \<Longrightarrow> i < length xs \<Longrightarrow> goSlice a (Suc i) xs = goSlice a i xs @ [xs ! i]"
  using goSlice_append [of a i "Suc i" xs]
  by (simp add: goSlice_def Suc_diff_le Cons_nth_drop_Suc [symmetric])

lemma windowLoop_fields: "windowLoop ls requestedEnd i sel b (f, meta) = (sel', f', meta') \<Longrightarrow>
    fTrailingNewline f' = fTrailingNewline f \<and> fTotalLines f' = fTotalLines f \<and> fType f' = fType f"
proof (induction ls requestedEnd i sel b "(f, meta)" arbitrary: f rule: windowLoop.induct)
  case (1 ls requestedEnd i sel b f)
  show ?case
    using "1.prems" "1.hyps" by (subst (asm) windowLoop.simps) (auto simp: Let_def split: if_splits)
qed

lemma windowLoop_later:
  assumes "requestedEnd \<le> length ls" "list_all validUtf8 ls"
  shows "a < i \<Longrightarrow> i \<le> requestedEnd \<Longrightarrow> fStartLine f = int a + 1 \<Longrightarrow> fEndLine f = int i \<Longrightarrow> \<not> Truncated meta \<Longrightarrow>
    NextStartLine meta = None \<Longrightarrow> encodedStringLength (joinWith [newline] (goSlice a i ls)) \<le> maximumFileTextBytes \<Longrightarrow>
    windowOk ls a requestedEnd
      (windowLoop ls requestedEnd i (goSlice a i ls) (encodedStringLength (joinWith [newline] (goSlice a i ls))) (f, meta))"
proof (induction "requestedEnd - i" arbitrary: i f)
  case 0
  then show ?case by (subst windowLoop.simps) (auto simp: windowOk_def)
next
  case (Suc k)
  have i: "i < requestedEnd" "i < length ls" using Suc.hyps(2) assms(1) by linarith+
  let ?sel = "goSlice a i ls" and ?line = "ls ! i"
  have ne: "?sel \<noteq> []" using Suc.prems(1) i by (simp add: goSlice_def)
  have snoc: "goSlice a (Suc i) ls = ?sel @ [?line]" using goSlice_snoc [of a i ls] Suc.prems(1) i by simp
  have "list_all validUtf8 (?sel @ [?line])"
    using assms(2) i set_goSlice [of a i ls] by (auto simp: list_all_iff)
  from encoded_join_snoc [OF this] have enc: "encodedStringLength (joinWith [newline] (goSlice a (Suc i) ls))
      = encodedStringLength (joinWith [newline] ?sel) + 2 + encodedStringLength ?line" using ne snoc by simp
  show ?case
  proof (cases "encodedStringLength (joinWith [newline] ?sel) + 2 + encodedStringLength ?line > maximumFileTextBytes")
    case True
    then show ?thesis
      using i ne Suc.prems by (subst windowLoop.simps) (auto simp: windowOk_def Let_def)
  next
    case False
    let ?f = "f\<lparr>fStartLine := (if fStartLine f = 0 then int i + 1 else fStartLine f), fEndLine := int i + 1\<rparr>"
    have "windowLoop ls requestedEnd i ?sel (encodedStringLength (joinWith [newline] ?sel)) (f, meta)
        = windowLoop ls requestedEnd (Suc i) (goSlice a (Suc i) ls)
            (encodedStringLength (joinWith [newline] (goSlice a (Suc i) ls))) (?f, meta)"
      using i ne False enc snoc by (subst windowLoop.simps) (simp add: Let_def)
    moreover have "windowOk ls a requestedEnd (windowLoop ls requestedEnd (Suc i) (goSlice a (Suc i) ls)
            (encodedStringLength (joinWith [newline] (goSlice a (Suc i) ls))) (?f, meta))"
      using Suc.hyps(2) Suc.prems i False enc by (intro Suc.hyps(1)) auto
    ultimately show ?thesis by simp
  qed
qed

lemma windowLoop_spec:
  assumes "a < requestedEnd" "requestedEnd \<le> length ls" "list_all validUtf8 ls" "fStartLine f = 0"
    "\<not> Truncated meta" "NextStartLine meta = None"
  shows "windowOk ls a requestedEnd (windowLoop ls requestedEnd a [] 0 (f, meta))"
proof -
  have valid: "validUtf8 (ls ! a)" using assms by (simp add: list_all_length)
  have one: "goSlice a (Suc a) ls = [ls ! a]"
    using goSlice_snoc [of a a ls] assms by (simp add: goSlice_def)
  show ?thesis
  proof (cases "encodedStringLength (ls ! a) > maximumFileTextBytes")
    case True
    define meta' where "meta' = meta\<lparr>Truncated := True, Warnings := Warnings meta @ [limitWarning]\<rparr>"
    have run: "windowLoop ls requestedEnd a [] 0 (f, meta) = ([boundedJSONPrefix (ls ! a) maximumFileTextBytes],
        f\<lparr>fStartLine := int a + 1, fEndLine := int a + 1\<rparr>,
        if a + 1 < length ls then meta'\<lparr>NextStartLine := Some (int a + 2)\<rparr> else meta')"
      using assms(1) True by (subst windowLoop.simps) (simp add: Let_def meta'_def)
    show ?thesis
      unfolding run windowOk_def prod.case
      by (intro conjI exI [of _ "Suc a"])
        (use assms True boundedJSONPrefix_spec [OF valid] in \<open>simp_all add: meta'_def\<close>)
  next
    case False
    let ?f = "f\<lparr>fStartLine := int a + 1, fEndLine := int a + 1\<rparr>"
    have "windowLoop ls requestedEnd a [] 0 (f, meta) = windowLoop ls requestedEnd (Suc a) (goSlice a (Suc a) ls)
            (encodedStringLength (joinWith [newline] (goSlice a (Suc a) ls))) (?f, meta)"
      using assms False one by (subst windowLoop.simps) (simp add: Let_def)
    moreover have "windowOk ls a requestedEnd (windowLoop ls requestedEnd (Suc a) (goSlice a (Suc a) ls)
            (encodedStringLength (joinWith [newline] (goSlice a (Suc a) ls))) (?f, meta))"
      using assms False one by (intro windowLoop_later) auto
    ultimately show ?thesis by simp
  qed
qed

definition textFile :: "FileContent \<Rightarrow> bool" where
  "textFile content \<longleftrightarrow> fcType content = ''file'' \<and> fcSize content \<le> maximumReadableBytes \<and> \<not> isBinary (fcData content)"

text \<open>A window of a text file: consecutive whole lines that fit the limit, at most as many as asked for, or a
  prefix of a line that alone does not fit; the next window starts at the line after its last one.\<close>

lemma boundedFile_window:
  assumes isText: "textFile content" and range: "1 \<le> startLine" "1 \<le> lineCount"
    "startLine \<le> int (length (splitTextLines (fcData content)))"
  defines "ls \<equiv> splitTextLines (fcData content)"
  shows "\<exists>f meta e. boundedFile content startLine lineCount = (f, meta)
    \<and> fStartLine f = startLine \<and> fEndLine f = int e \<and> fTotalLines f = int (length ls)
    \<and> fTrailingNewline f = hasSuffix (fcData content) [newline]
    \<and> startLine \<le> int e \<and> e \<le> length ls \<and> int e < startLine + lineCount
    \<and> (fContent f = joinWith [newline] (goSlice (nat (startLine - 1)) e ls)
       \<or> int e = startLine \<and> encodedStringLength (ls ! nat (startLine - 1)) > maximumFileTextBytes
         \<and> hasPrefix (ls ! nat (startLine - 1)) (fContent f))
    \<and> encodedStringLength (fContent f) \<le> maximumFileTextBytes
    \<and> NextStartLine meta = (if e < length ls then Some (int e + 1) else None)"
proof -
  define a where "a = nat (startLine - 1)"
  define re where "re = nat (min (startLine - 1 + lineCount) (int (length ls)))"
  have a: "int a = startLine - 1" "a < re" "re \<le> length ls" "int re \<le> startLine - 1 + lineCount"
    using range by (auto simp: a_def re_def ls_def)
  have valid: "list_all validUtf8 ls" using isText valid_text_lines by (simp add: textFile_def isBinary_def ls_def)
  define f0 where "f0 = \<lparr>fPath = fcPath content, fRef = fcRef content, fType = ''text'', fSize = fcSize content,
            fSHA = fcSHA content, fContent = [], fStartLine = 0, fEndLine = 0, fTotalLines = int (length ls),
            fTarget = fcTarget content, fSubmoduleURL = fcSubmoduleURL content,
            fTrailingNewline = hasSuffix (fcData content) [newline]\<rparr>"
  obtain sel f m where w: "windowLoop ls re a [] 0 (f0, metaFor []) = (sel, f, m)"
    by (cases "windowLoop ls re a [] 0 (f0, metaFor [])")
  have "windowOk ls a re (sel, f, m)"
    using windowLoop_spec [OF a(2,3) valid, of f0 "metaFor []"] w by (simp add: f0_def metaFor_def)
  then obtain e where e: "fStartLine f = int a + 1" "fEndLine f = int e" "a < e" "e \<le> re"
    "sel = goSlice a e ls \<or> e = a + 1 \<and> sel = [boundedJSONPrefix (ls ! a) maximumFileTextBytes]
       \<and> encodedStringLength (ls ! a) > maximumFileTextBytes"
    "encodedStringLength (joinWith [newline] sel) \<le> maximumFileTextBytes"
    "if Truncated m then NextStartLine m = (if e < length ls then Some (int e + 1) else None)
     else NextStartLine m = None \<and> e = re"
    by (auto simp: windowOk_def)
  have kept: "fTrailingNewline f = fTrailingNewline f0" "fTotalLines f = fTotalLines f0"
    using windowLoop_fields [OF w] by simp_all
  define m' where "m' = (if \<not> Truncated m \<and> re < length ls then m\<lparr>Truncated := True,
      NextStartLine := Some (int re + 1), Warnings := Warnings m @ [rangeWarning]\<rparr> else m)"
  have run: "boundedFile content startLine lineCount = (f\<lparr>fContent := joinWith [newline] sel\<rparr>, m')"
    using isText range w
    by (simp add: boundedFile_def textFile_def Let_def f0_def a_def re_def ls_def m'_def)
  have pre: "hasPrefix (ls ! a) (boundedJSONPrefix (ls ! a) maximumFileTextBytes)"
    using boundedJSONPrefix_spec valid a by (simp add: list_all_length)
  have "NextStartLine m' = (if e < length ls then Some (int e + 1) else None)"
    using e(7) a by (cases "Truncated m") (auto simp: m'_def)
  moreover have "joinWith [newline] sel = joinWith [newline] (goSlice a e ls)
      \<or> int e = startLine \<and> encodedStringLength (ls ! a) > maximumFileTextBytes \<and> hasPrefix (ls ! a) (joinWith [newline] sel)"
    using e(5) pre a(1) by (elim disjE) simp_all
  moreover have "startLine \<le> int e" "e \<le> length ls" "int e < startLine + lineCount"
    using e(3,4) a by linarith+
  ultimately show ?thesis
    using e(1,2,6) kept a(1)
    by (intro exI [of _ "f\<lparr>fContent := joinWith [newline] sel\<rparr>"] exI [of _ m'] exI [of _ e])
      (simp add: run f0_def a_def)
qed

text \<open>Reading a file: window by window, from a line, following \<open>next_start_line\<close> until there is none.\<close>

function readWindows :: "FileContent \<Rightarrow> int \<Rightarrow> int \<Rightarrow> string list" where
  "readWindows content lineCount startLine =
     (case boundedFile content startLine lineCount of (f, meta) \<Rightarrow>
       (case NextStartLine meta of
          None \<Rightarrow> [fContent f]
        | Some following \<Rightarrow>
            if startLine < following \<and> following \<le> int (length (splitTextLines (fcData content)))
            then fContent f # readWindows content lineCount following else [fContent f]))"
  by pat_completeness auto
termination
  by (relation "measure (\<lambda>(content, lineCount, s). nat (int (length (splitTextLines (fcData content))) - s))") auto

declare readWindows.simps [simp del]

lemma readWindows_spec:
  assumes isText: "textFile content" and lineCount: "1 \<le> lineCount"
    and short: "\<forall>l \<in> set (splitTextLines (fcData content)). encodedStringLength l \<le> maximumFileTextBytes"
  defines "ls \<equiv> splitTextLines (fcData content)"
  shows "1 \<le> startLine \<Longrightarrow> startLine \<le> int (length ls) \<Longrightarrow>
    joinWith [newline] (readWindows content lineCount startLine) = joinWith [newline] (drop (nat (startLine - 1)) ls)
    \<and> readWindows content lineCount startLine \<noteq> []
    \<and> (\<forall>c \<in> set (readWindows content lineCount startLine). encodedStringLength c \<le> maximumFileTextBytes)"
proof (induction "nat (int (length ls) - startLine)" arbitrary: startLine rule: less_induct)
  case less
  define a where "a = nat (startLine - 1)"
  have a: "int a = startLine - 1" "a < length ls" using less.prems by (simp_all add: a_def)
  have "encodedStringLength (ls ! a) \<le> maximumFileTextBytes" using short a by (simp add: ls_def)
  with boundedFile_window [OF isText less.prems(1) lineCount less.prems(2) [unfolded ls_def]] obtain f meta e where
    w: "boundedFile content startLine lineCount = (f, meta)" "startLine \<le> int e" "e \<le> length ls"
      "fContent f = joinWith [newline] (goSlice a e ls)" "encodedStringLength (fContent f) \<le> maximumFileTextBytes"
      "NextStartLine meta = (if e < length ls then Some (int e + 1) else None)"
    by (auto simp: ls_def a_def)
  show ?case
  proof (cases "e < length ls")
    case False
    then have "goSlice a e ls = drop a ls" using w(3) by (simp add: goSlice_def)
    moreover have "readWindows content lineCount startLine = [fContent f]"
      using w(1,6) False by (simp add: readWindows.simps [of content lineCount startLine])
    ultimately show ?thesis using w(4,5) by (simp add: a_def)
  next
    case True
    have run: "readWindows content lineCount startLine = fContent f # readWindows content lineCount (int e + 1)"
      using w(1,2,6) True by (simp add: readWindows.simps [of content lineCount startLine] ls_def)
    have rest: "joinWith [newline] (readWindows content lineCount (int e + 1)) = joinWith [newline] (drop e ls)
        \<and> readWindows content lineCount (int e + 1) \<noteq> []
        \<and> (\<forall>c \<in> set (readWindows content lineCount (int e + 1)). encodedStringLength c \<le> maximumFileTextBytes)"
      using less.hyps [of "int e + 1"] w(2) True less.prems by simp
    have lt: "a < e" using a w(2) by linarith
    then have "goSlice a e ls \<noteq> []" "drop e ls \<noteq> []" "goSlice a e ls @ drop e ls = drop a ls"
      using True by (auto simp: goSlice_def) (metis append_take_drop_id drop_drop le_add_diff_inverse2 less_imp_le)
    then have "joinWith [newline] (drop a ls) = joinWith [newline] (goSlice a e ls) @ [newline] @ joinWith [newline] (drop e ls)"
      by (metis joinWith_append)
    then show ?thesis using run rest w(4,5) by (simp add: joinWith_Cons a_def)
  qed
qed

text \<open>C34: Reading a text file window by window, from the first line and along the start lines the server
  returns, ends and gives back exactly the bytes of the file, with the trailing newline the server reports,
  for any number of lines per window; every window fits the output limit. The lines are supposed to fit
  the limit one by one; a longer line is returned as a prefix.\<close>

theorem file_windows_roundtrip:
  assumes "textFile content" "1 \<le> lineCount" "fcData content \<noteq> []"
    and "\<forall>l \<in> set (splitTextLines (fcData content)). encodedStringLength l \<le> maximumFileTextBytes"
  shows "joinWith [newline] (readWindows content lineCount 1)
      @ (if fTrailingNewline (fst (boundedFile content 1 lineCount)) then [newline] else []) = fcData content
    \<and> (\<forall>c \<in> set (readWindows content lineCount 1). encodedStringLength c \<le> maximumFileTextBytes)"
proof -
  have "splitTextLines (fcData content) \<noteq> []"
  proof
    assume "splitTextLines (fcData content) = []"
    with text_lines_roundtrip [OF assms(3)] have "fcData content = [newline]" using assms(3) by (auto split: if_splits)
    then show False using \<open>splitTextLines (fcData content) = []\<close> by (simp add: splitTextLines_def)
  qed
  then have one: "1 \<le> int (length (splitTextLines (fcData content)))" by (cases "splitTextLines (fcData content)") simp_all
  from readWindows_spec [OF assms(1,2,4) _ one] have
    "joinWith [newline] (readWindows content lineCount 1) = joinWith [newline] (splitTextLines (fcData content))"
    "\<forall>c \<in> set (readWindows content lineCount 1). encodedStringLength c \<le> maximumFileTextBytes" by simp_all
  moreover have "fTrailingNewline (fst (boundedFile content 1 lineCount)) = hasSuffix (fcData content) [newline]"
    using boundedFile_window [OF assms(1) _ assms(2) one] by auto
  ultimately show ?thesis using text_lines_roundtrip [OF assms(3)] by simp
qed

definition sampleFile :: FileContent where
  "sampleFile = \<lparr>fcPath = ''a.txt'', fcType = ''file'', fcSize = 7, fcSHA = ''x'', fcRef = ''main'', fcTarget = [],
     fcSubmoduleURL = [], fcData = ''ab'' @ [newline] @ [newline] @ ''cd'' @ [newline]\<rparr>"

lemma sampleFile_lines: "splitTextLines (fcData sampleFile) = [''ab'', [], ''cd'']"
  by code_simp

lemma sampleFile_lengths: "encodedStringLength ''ab'' = 2" "encodedStringLength ''cd'' = 2"
  by code_simp+

lemma sampleFile_text: "textFile sampleFile"
proof -
  have "CHR 0x00 \<notin> set (fcData sampleFile)" "validUtf8 (fcData sampleFile)" by code_simp+
  then have "\<not> isBinary (fcData sampleFile)" by (auto simp: isBinary_def dest: in_set_takeD)
  then show ?thesis by (simp add: textFile_def) (simp add: sampleFile_def maximumReadableBytes_def)
qed

lemma sampleFile_windows: "readWindows sampleFile 2 1 = [''ab'' @ [newline], ''cd'']"
  "fTrailingNewline (fst (boundedFile sampleFile 1 2))"
proof -
  have t: "fcType sampleFile = ''file''" "\<not> fcSize sampleFile > maximumReadableBytes" "\<not> isBinary (fcData sampleFile)"
    using sampleFile_text by (simp_all add: textFile_def)
  have n: "hasSuffix (fcData sampleFile) [newline]" by code_simp
  have one: "\<exists>f m. boundedFile sampleFile 1 2 = (f, m) \<and> fContent f = ''ab'' @ [newline] \<and> NextStartLine m = Some 3
      \<and> fTrailingNewline f"
    using t n by (simp add: boundedFile_def sampleFile_lines windowLoop.simps sampleFile_lengths
        maximumFileTextBytes_def metaFor_def Let_def)
  have two: "\<exists>f m. boundedFile sampleFile 3 2 = (f, m) \<and> fContent f = ''cd'' \<and> NextStartLine m = None"
    using t by (simp add: boundedFile_def sampleFile_lines windowLoop.simps sampleFile_lengths
        maximumFileTextBytes_def metaFor_def Let_def)
  from one two show "readWindows sampleFile 2 1 = [''ab'' @ [newline], ''cd'']"
    by (auto simp: readWindows.simps [of sampleFile 2 1] readWindows.simps [of sampleFile 2 3] sampleFile_lines)
  from one show "fTrailingNewline (fst (boundedFile sampleFile 1 2))" by auto
qed

theorem file_windows_roundtrip_witness:
  "joinWith [newline] (readWindows sampleFile 2 1) @ [newline] = fcData sampleFile
   \<and> readWindows sampleFile 2 1 = [''ab'' @ [newline], ''cd'']"
proof -
  have "\<forall>l \<in> set (splitTextLines (fcData sampleFile)). encodedStringLength l \<le> maximumFileTextBytes"
    by (simp add: sampleFile_lines sampleFile_lengths maximumFileTextBytes_def)
  with file_windows_roundtrip [OF sampleFile_text, of 2] show ?thesis
    by (simp add: sampleFile_windows) (simp add: sampleFile_def)
qed

end
