(* ===== verification/ToolGit.thy ===== *)
theory ToolGit
  imports ToolContents
begin

text \<open>
  internal/mcpserver/repositories.go, git.go and the user tool of server.go: the tools over repositories,
  branches and commits. An output struct that has the fields of a struct of the client is the record of the
  client here; \<open>toolRepository\<close> and the like copy it field by field. Lower-casing is a parameter of the
  repository search.
\<close>

section \<open>Repositories\<close>

definition toolUser :: "User \<Rightarrow> User" where
  "toolUser user = \<lparr>uId = uId user, uUsername = uUsername user, uFullName = uFullName user, uEmail = uEmail user\<rparr>"

definition getAuthenticatedUserTool :: "httpWorld \<Rightarrow> Client \<Rightarrow> string \<Rightarrow> User toolResult clientIO" where
  "getAuthenticatedUserTool w c requestID =
     runTool requestID (GetAuthenticatedUser w c) (\<lambda>user. toolData (toolUser user) (metaFor requestID))"

record RepositoryPage =
  rpRepositories :: "Repository list"
  rpPage :: int
  rpPerPage :: int
  rpTotal :: int

definition toolRepository :: "Repository \<Rightarrow> Repository" where
  "toolRepository r =
     \<lparr>repoId = repoId r, repoName = repoName r, repoFullName = repoFullName r, repoOwner = repoOwner r,
      repoDescription = repoDescription r, repoDefaultBranch = repoDefaultBranch r, repoPrivate = repoPrivate r,
      repoCloneURL = repoCloneURL r, repoWebURL = repoWebURL r,
      repoPermissions = \<lparr>permPull = permPull (repoPermissions r), permPush = permPush (repoPermissions r),
        permAdmin = permAdmin (repoPermissions r)\<rparr>\<rparr>"

definition repositoryLess :: "Repository \<Rightarrow> Repository \<Rightarrow> bool" where
  "repositoryLess left right \<longleftrightarrow> repoFullName left < repoFullName right
     \<or> (repoFullName left = repoFullName right \<and> repoId left < repoId right)"

definition paginateRepositories :: "Repository list \<Rightarrow> int \<Rightarrow> int \<Rightarrow> RepositoryPage \<times> int option" where
  "paginateRepositories repositories page perPage =
     (let sorted = sortSlice repositoryLess repositories; n = int (length sorted)
      in (\<lparr>rpRepositories = map toolRepository (cutPage page perPage sorted), rpPage = page, rpPerPage = perPage,
           rpTotal = n\<rparr>, nextPageOf page perPage n))"

definition listRepositoriesTool :: "httpWorld \<Rightarrow> Client \<Rightarrow> string \<Rightarrow> int \<Rightarrow> int \<Rightarrow> RepositoryPage toolResult clientIO" where
  "listRepositoriesTool w c requestID page perPage =
     runTool requestID (ListRepositories w c) (\<lambda>repositories.
       case paginateRepositories repositories page perPage of (shown, following) \<Rightarrow>
         toolData shown ((metaFor requestID)\<lparr>NextPage := following\<rparr>))"

definition matchesQuery :: "(string \<Rightarrow> string) \<Rightarrow> string \<Rightarrow> Repository \<Rightarrow> bool" where
  "matchesQuery lower query r \<longleftrightarrow>
     contains (lower (repoName r)) (lower query) \<or> contains (lower (repoFullName r)) (lower query)
     \<or> contains (lower (repoDescription r)) (lower query)"

definition searchRepositoriesTool :: "(string \<Rightarrow> string) \<Rightarrow> httpWorld \<Rightarrow> Client \<Rightarrow> string \<Rightarrow> string \<Rightarrow> int \<Rightarrow> int \<Rightarrow>
    RepositoryPage toolResult clientIO" where
  "searchRepositoriesTool lower w c requestID query page perPage =
     runTool requestID (ListRepositories w c) (\<lambda>repositories.
       case paginateRepositories (filter (matchesQuery lower query) repositories) page perPage of (shown, following) \<Rightarrow>
         toolData shown ((metaFor requestID)\<lparr>NextPage := following\<rparr>))"

definition getRepositoryTool :: "httpWorld \<Rightarrow> Client \<Rightarrow> string \<Rightarrow> string \<Rightarrow> string \<Rightarrow> Repository toolResult clientIO" where
  "getRepositoryTool w c requestID owner repo =
     runTool requestID (GetRepository w c owner repo) (\<lambda>repository. toolData (toolRepository repository) (metaFor requestID))"

section \<open>Branches and commits\<close>

record BranchPage =
  bpBranches :: "Branch list"
  bpPage :: int
  bpPerPage :: int
  bpTotal :: int

definition toolBranch :: "Branch \<Rightarrow> Branch" where
  "toolBranch b = \<lparr>brName = brName b, brHeadSHA = brHeadSHA b\<rparr>"

definition branchLess :: "Branch \<Rightarrow> Branch \<Rightarrow> bool" where
  "branchLess left right \<longleftrightarrow> brName left < brName right \<or> (brName left = brName right \<and> brHeadSHA left < brHeadSHA right)"

definition paginateBranches :: "Branch list \<Rightarrow> int \<Rightarrow> int \<Rightarrow> BranchPage \<times> int option" where
  "paginateBranches branches page perPage =
     (let sorted = sortSlice branchLess branches; n = int (length sorted)
      in (\<lparr>bpBranches = map toolBranch (cutPage page perPage sorted), bpPage = page, bpPerPage = perPage, bpTotal = n\<rparr>,
          nextPageOf page perPage n))"

definition listBranchesTool :: "httpWorld \<Rightarrow> Client \<Rightarrow> string \<Rightarrow> string \<Rightarrow> string \<Rightarrow> int \<Rightarrow> int \<Rightarrow> BranchPage toolResult clientIO" where
  "listBranchesTool w c requestID owner repo page perPage =
     runTool requestID (ListBranches w c owner repo) (\<lambda>branches.
       case paginateBranches branches page perPage of (shown, following) \<Rightarrow>
         toolData shown ((metaFor requestID)\<lparr>NextPage := following\<rparr>))"

definition getBranchTool :: "httpWorld \<Rightarrow> Client \<Rightarrow> string \<Rightarrow> string \<Rightarrow> string \<Rightarrow> string \<Rightarrow> Branch toolResult clientIO" where
  "getBranchTool w c requestID owner repo branch =
     (case ValidateBranchName branch of
        Inl e \<Rightarrow> ret (contentError requestID e)
      | Inr _ \<Rightarrow> runTool requestID (GetBranch w c owner repo branch) (\<lambda>b. toolData (toolBranch b) (metaFor requestID)))"

record CommitSummary =
  csSHA :: string
  csMessage :: string
  csAuthorName :: string
  csAuthorDate :: string

record CommitPage =
  cgCommits :: "CommitSummary list"
  cgLimit :: int

definition maximumCommitSummaryRunes :: nat where "maximumCommitSummaryRunes = 200"

definition truncateRunes :: "string \<Rightarrow> nat \<Rightarrow> string \<times> bool" where
  "truncateRunes v maximum =
     (let runes = goRunes v in if length runes \<le> maximum then (v, False) else (concat (take maximum runes), True))"

definition shortenedWarning :: string where
  "shortenedWarning = ''Commit messages longer than 200 characters were shortened. Gogs v0.14.2 only exposes the first line of a commit message; get_commit returns that line untruncated.''"

definition commitSummary :: "Commit \<Rightarrow> CommitSummary" where
  "commitSummary commit =
     \<lparr>csSHA = cmSHA commit, csMessage = fst (truncateRunes (cmMessage commit) maximumCommitSummaryRunes),
      csAuthorName = cpName (cmAuthor commit), csAuthorDate = cpDate (cmAuthor commit)\<rparr>"

definition summarizeCommits :: "Commit list \<Rightarrow> int \<Rightarrow> CommitPage \<times> ResponseMeta" where
  "summarizeCommits commits limit =
     (let shortened = list_ex (\<lambda>commit. snd (truncateRunes (cmMessage commit) maximumCommitSummaryRunes)) commits;
          meta = metaFor []
      in (\<lparr>cgCommits = map commitSummary commits, cgLimit = limit\<rparr>,
          if shortened then meta\<lparr>Truncated := True, Warnings := Warnings meta @ [shortenedWarning]\<rparr> else meta))"

definition listCommitsTool :: "httpWorld \<Rightarrow> Client \<Rightarrow> string \<Rightarrow> string \<Rightarrow> string \<Rightarrow> int \<Rightarrow> CommitPage toolResult clientIO" where
  "listCommitsTool w c requestID owner repo limit =
     runTool requestID (ListCommits w c owner repo limit) (\<lambda>commits.
       case summarizeCommits commits limit of (shown, meta) \<Rightarrow> toolData shown (meta\<lparr>RequestID := requestID\<rparr>))"

definition toolCommit :: "Commit \<Rightarrow> Commit" where
  "toolCommit commit =
     \<lparr>cmSHA = cmSHA commit, cmMessage = cmMessage commit, cmWebURL = cmWebURL commit, cmAuthor = cmAuthor commit,
      cmCommitter = cmCommitter commit, cmParentSHAs = cmParentSHAs commit\<rparr>"

definition getCommitTool :: "httpWorld \<Rightarrow> Client \<Rightarrow> string \<Rightarrow> string \<Rightarrow> string \<Rightarrow> string \<Rightarrow> Commit toolResult clientIO" where
  "getCommitTool w c requestID owner repo sha =
     (case ValidateCommitRevision sha of
        Inl e \<Rightarrow> ret (contentError requestID e)
      | Inr _ \<Rightarrow> runTool requestID (GetCommit w c owner repo sha) (\<lambda>commit. toolData (toolCommit commit) (metaFor requestID)))"

section \<open>Pages\<close>

lemma copies [simp]: "toolRepository r = r" "toolBranch b = b" "toolCommit commit = commit" "toolUser u = u"
  by (simp_all add: toolRepository_def toolBranch_def toolCommit_def toolUser_def)

lemma map_copies [simp]: "map toolRepository rs = rs" "map toolBranch bs = bs"
  by (simp_all add: map_idI)

text \<open>A page cutter that also says which page follows: walking along gives the whole arrangement.\<close>

fun followPages :: "(int \<Rightarrow> 'a list \<times> int option) \<Rightarrow> nat \<Rightarrow> int \<Rightarrow> 'a list option" where
  "followPages f 0 page = None"
| "followPages f (Suc n) page =
     (case f page of (items, None) \<Rightarrow> Some items
      | (items, Some following) \<Rightarrow> map_option ((@) items) (followPages f n following))"

locale linkedPages = paginator pageOf view
  for pageOf :: "int \<Rightarrow> int \<Rightarrow> 'a list \<Rightarrow> 'a list" and view :: "'a list \<Rightarrow> 'a list" +
  fixes nextOf :: "int \<Rightarrow> int \<Rightarrow> 'a list \<Rightarrow> int option"
  assumes next_exact: "1 \<le> page \<Longrightarrow> 1 \<le> perPage \<Longrightarrow>
    nextOf page perPage xs = (if page * perPage < int (length xs) then Some (page + 1) else None)"
begin

lemma walk_from:
  assumes "1 \<le> perPage"
  shows "length xs \<le> (k + fuel) * nat perPage \<Longrightarrow> 1 \<le> fuel \<Longrightarrow>
    followPages (\<lambda>p. (pageOf p perPage xs, nextOf p perPage xs)) fuel (int k + 1) = Some (drop (k * nat perPage) (view xs))"
proof (induction fuel arbitrary: k)
  case 0
  then show ?case by simp
next
  case (Suc fuel)
  have page: "pageOf (int k + 1) perPage xs = take (nat perPage) (drop (k * nat perPage) (view xs))"
    using page_slice [of "int k + 1" perPage xs] assms by (simp add: nat_mult_distrib mult.commute)
  have more: "(int k + 1) * perPage < int (length xs) \<longleftrightarrow> Suc k * nat perPage < length xs"
    using assms by (metis add.commute int_ops(4) nat_int_comparison(2) nat_0_le of_nat_mult zero_le_one order_trans)
  show ?case
  proof (cases "Suc k * nat perPage < length xs")
    case False
    then have "drop (k * nat perPage) (view xs) = take (nat perPage) (drop (k * nat perPage) (view xs))"
      using view_length [of xs] by simp
    then show ?thesis using page more False next_exact [of "int k + 1" perPage xs] assms by simp
  next
    case True
    then have "1 \<le> fuel" using Suc.prems(1) by (cases fuel) auto
    then have "followPages (\<lambda>p. (pageOf p perPage xs, nextOf p perPage xs)) fuel (int (Suc k) + 1)
        = Some (drop (Suc k * nat perPage) (view xs))"
      using Suc.prems(1) by (intro Suc.IH) simp_all
    moreover have "take (nat perPage) (drop (k * nat perPage) (view xs)) @ drop (Suc k * nat perPage) (view xs)
        = drop (k * nat perPage) (view xs)"
      by (metis append_take_drop_id drop_drop mult_Suc)
    ultimately show ?thesis
      using page more True next_exact [of "int k + 1" perPage xs] assms by (simp add: add.commute)
  qed
qed

lemma walk_all:
  assumes "1 \<le> perPage" "length xs \<le> fuel" "1 \<le> fuel"
  shows "followPages (\<lambda>p. (pageOf p perPage xs, nextOf p perPage xs)) fuel 1 = Some (view xs)"
proof -
  have "1 \<le> nat perPage" using assms(1) by simp
  then have "fuel \<le> fuel * nat perPage" by (metis mult.right_neutral mult_le_mono2)
  from le_trans [OF assms(2) this] have "length xs \<le> (0 + fuel) * nat perPage" by simp
  from walk_from [OF assms(1) this assms(3)] show ?thesis by simp
qed

end

interpretation repositoryPages: linkedPages "\<lambda>page perPage rs. rpRepositories (fst (paginateRepositories rs page perPage))"
  "sortSlice repositoryLess" "\<lambda>page perPage rs. snd (paginateRepositories rs page perPage)"
  by unfold_locales (simp_all add: paginateRepositories_def Let_def cutPage_slice nextPageOf_iff)

interpretation branchPages: linkedPages "\<lambda>page perPage bs. bpBranches (fst (paginateBranches bs page perPage))"
  "sortSlice branchLess" "\<lambda>page perPage bs. snd (paginateBranches bs page perPage)"
  by unfold_locales (simp_all add: paginateBranches_def Let_def cutPage_slice nextPageOf_iff)

text \<open>The page of a tool answer and the page it names next; an error answer has none.\<close>

definition pageAnswer :: "('p \<Rightarrow> 'a list) \<Rightarrow> (goerr + 'p toolResult) \<times> clientState \<Rightarrow> 'a list \<times> int option" where
  "pageAnswer entries answer =
     (case fst answer of
        Inr (_, response) \<Rightarrow> (case respData response of Some p \<Rightarrow> (entries p, NextPage (respMeta response)) | None \<Rightarrow> ([], None))
      | Inl _ \<Rightarrow> ([], None))"

lemma runTool_ok: "action st = (Inr x, st') \<Longrightarrow> runTool requestID action respond st = (Inr (respond x), st')"
  by (simp add: runTool_def)

lemma runTool_error: "action st = (Inl e, st') \<Longrightarrow> runTool requestID action respond st = (Inr (contentError requestID e), st')"
  by (simp add: runTool_def)

lemma branch_pages_complete:
  assumes "ListBranches w c owner repo st = (Inr bs, st')" "1 \<le> perPage"
  shows "followPages (\<lambda>page. pageAnswer bpBranches (listBranchesTool w c requestID owner repo page perPage st))
      (Suc (length bs)) 1 = Some (sortSlice branchLess bs)"
proof -
  have "(\<lambda>page. pageAnswer bpBranches (listBranchesTool w c requestID owner repo page perPage st))
      = (\<lambda>p. (bpBranches (fst (paginateBranches bs p perPage)), snd (paginateBranches bs p perPage)))"
    using assms(1) by (intro ext) (simp add: listBranchesTool_def runTool_ok pageAnswer_def toolData_def split: prod.split)
  then show ?thesis using branchPages.walk_all [OF assms(2), of bs "Suc (length bs)"] by simp
qed

text \<open>While the repositories of the user stay the same, walking the pages of a repository search along
  \<open>next_page\<close>, from the first and with any page size, ends and gives exactly the repositories whose name,
  full name or description contains the query in any case, each once and ordered by full name and
  identifier; no page is longer than asked for.\<close>

theorem search_pages_complete:
  assumes "ListRepositories w c st = (Inr repositories, st')" "1 \<le> perPage"
  shows "followPages (\<lambda>page. pageAnswer rpRepositories (searchRepositoriesTool lower w c requestID query page perPage st))
      (Suc (length repositories)) 1 = Some (sortSlice repositoryLess (filter (matchesQuery lower query) repositories))
    \<and> sorted_wrt (\<lambda>a b. \<not> repositoryLess b a) (sortSlice repositoryLess (filter (matchesQuery lower query) repositories))
    \<and> mset (sortSlice repositoryLess (filter (matchesQuery lower query) repositories))
       = filter_mset (matchesQuery lower query) (mset repositories)
    \<and> (page < 1 \<or> int (length (fst (pageAnswer rpRepositories
         (searchRepositoriesTool lower w c requestID query page perPage st)))) \<le> perPage)"
proof (intro conjI)
  let ?rs = "filter (matchesQuery lower query) repositories"
  have f: "(\<lambda>page. pageAnswer rpRepositories (searchRepositoriesTool lower w c requestID query page perPage st))
      = (\<lambda>p. (rpRepositories (fst (paginateRepositories ?rs p perPage)), snd (paginateRepositories ?rs p perPage)))"
    using assms(1) by (intro ext) (simp add: searchRepositoriesTool_def runTool_ok pageAnswer_def toolData_def split: prod.split)
  have "length ?rs \<le> Suc (length repositories)" by (simp add: le_SucI)
  from repositoryPages.walk_all [OF assms(2) this]
  show "followPages (\<lambda>page. pageAnswer rpRepositories (searchRepositoriesTool lower w c requestID query page perPage st))
      (Suc (length repositories)) 1 = Some (sortSlice repositoryLess ?rs)" unfolding f by simp
  show "sorted_wrt (\<lambda>a b. \<not> repositoryLess b a) (sortSlice repositoryLess ?rs)"
    by (rule sorted_sortSlice) (auto simp: repositoryLess_def)
  show "mset (sortSlice repositoryLess ?rs) = filter_mset (matchesQuery lower query) (mset repositories)" by simp
  show "page < 1 \<or> int (length (fst (pageAnswer rpRepositories
         (searchRepositoriesTool lower w c requestID query page perPage st)))) \<le> perPage"
    using repositoryPages.page_length [of page perPage ?rs] assms(2) fun_cong [OF f, of page] by fastforce
qed

definition repoServer :: httpWorld where
  "repoServer = \<lparr>doRequest = (\<lambda>h rq. Response 200 [] [] None None), waitCanceled = (\<lambda>_ _. None),
     parseJSON = (\<lambda>s. Some (JArr [
       JObj [(''id'', JNum 2), (''name'', JStr ''Web''), (''full_name'', JStr ''o/Web'')],
       JObj [(''id'', JNum 3), (''name'', JStr ''docs''), (''full_name'', JStr ''o/docs'')],
       JObj [(''id'', JNum 1), (''name'', JStr ''api''), (''full_name'', JStr ''a/api''), (''description'', JStr ''the WEB api'')]]))\<rparr>"

theorem search_pages_complete_witness:
  "map_option (map repoId) (followPages (\<lambda>page. pageAnswer rpRepositories
      (searchRepositoriesTool toLower repoServer someClient ''id'' ''weB'' page 1 freshState)) 4 1) = Some [1, 2]"
proof -
  let ?answer = "ListRepositories repoServer someClient freshState"
  have "\<exists>rs st. ?answer = (Inr rs, st) \<and> length rs = 3
      \<and> map repoId (sortSlice repositoryLess (filter (matchesQuery toLower ''weB'') rs)) = [1, 2]"
    by (intro exI [of _ "projr (fst ?answer)"] exI [of _ "snd ?answer"] conjI) code_simp+
  then obtain rs st where a: "?answer = (Inr rs, st)" "length rs = 3"
    "map repoId (sortSlice repositoryLess (filter (matchesQuery toLower ''weB'') rs)) = [1, 2]" by (elim exE conjE)
  show ?thesis
    using search_pages_complete [OF a(1), of 1 toLower "''id''" "''weB''" 1] a(2,3) by simp
qed

section \<open>Commit summaries\<close>

lemma goRunes_take: "validUtf8 v \<Longrightarrow> goRunes (concat (take n (goRunes v))) = take n (goRunes v)"
proof (induction v arbitrary: n rule: length_induct)
  case (1 v)
  show ?case
  proof (cases "v = [] \<or> n = 0")
    case False
    then have "v \<noteq> []" by simp
    with 1(2) obtain k where k: "runeWidth v = (True, k)" "1 \<le> k" "k \<le> length v" "validUtf8 (drop k v)"
      by (rule validUtf8_step)
    obtain m where m: "n = Suc m" using False by (cases n) auto
    let ?rest = "concat (take m (goRunes (drop k v)))"
    have v: "goRunes v = take k v # goRunes (drop k v)" using k False by (simp add: goRunes.simps [of v])
    have "length (drop k v) < length v" using k False by simp
    with 1(1) k(4) have rest: "goRunes ?rest = take m (goRunes (drop k v))" by blast
    have "runeWidth (take k v @ ?rest) = (True, k)" using runeWidth_append [OF runeWidth_exact [OF k(1)]] .
    moreover have "take k v @ ?rest \<noteq> []" using k False by (cases v) auto
    moreover have "length (take k v) = k" using k(3) by simp
    ultimately have "goRunes (take k v @ ?rest) = take k v # goRunes ?rest"
      by (simp add: goRunes.simps [of "take k v @ ?rest"])
    then show ?thesis using v m rest by simp
  qed auto
qed

lemma truncateRunes_spec:
  assumes "validUtf8 v"
  shows "hasPrefix v (fst (truncateRunes v n))" "length (goRunes (fst (truncateRunes v n))) \<le> n"
    "snd (truncateRunes v n) \<longleftrightarrow> fst (truncateRunes v n) \<noteq> v"
proof -
  let ?cut = "concat (take n (goRunes v))"
  have "v = ?cut @ concat (drop n (goRunes v))" using assms
    by (metis append_take_drop_id concat_append concat_goRunes)
  then show "hasPrefix v (fst (truncateRunes v n))" by (auto simp: truncateRunes_def Let_def hasPrefix_iff)
  show "length (goRunes (fst (truncateRunes v n))) \<le> n"
    using goRunes_take [OF assms, of n] by (simp add: truncateRunes_def Let_def)
  have "?cut \<noteq> v" if "n < length (goRunes v)"
  proof
    assume "?cut = v"
    then have "goRunes v = take n (goRunes v)" using goRunes_take [OF assms, of n] by simp
    then show False using that by (metis length_take min_less_iff_conj nat_less_le)
  qed
  then show "snd (truncateRunes v n) \<longleftrightarrow> fst (truncateRunes v n) \<noteq> v"
    by (auto simp: truncateRunes_def Let_def)
qed

text \<open>A commit listing says that it is partial exactly when a message was shortened.\<close>

lemma summarizeCommits_spec:
  assumes "\<forall>commit \<in> set commits. validUtf8 (cmMessage commit)"
  shows "list_all2 (\<lambda>commit summary. csSHA summary = cmSHA commit \<and> hasPrefix (cmMessage commit) (csMessage summary)
        \<and> length (goRunes (csMessage summary)) \<le> 200) commits (cgCommits (fst (summarizeCommits commits limit)))"
    "Truncated (snd (summarizeCommits commits limit)) \<longleftrightarrow>
      map cmMessage commits \<noteq> map csMessage (cgCommits (fst (summarizeCommits commits limit)))"
proof -
  have cut: "fst (summarizeCommits commits limit) = \<lparr>cgCommits = map commitSummary commits, cgLimit = limit\<rparr>"
    by (simp add: summarizeCommits_def Let_def)
  show "list_all2 (\<lambda>commit summary. csSHA summary = cmSHA commit \<and> hasPrefix (cmMessage commit) (csMessage summary)
        \<and> length (goRunes (csMessage summary)) \<le> 200) commits (cgCommits (fst (summarizeCommits commits limit)))"
    using assms truncateRunes_spec [of _ 200]
    by (simp add: cut list_all2_conv_all_nth commitSummary_def maximumCommitSummaryRunes_def)
  have "map cmMessage commits \<noteq> map csMessage (map commitSummary commits)
      \<longleftrightarrow> (\<exists>commit \<in> set commits. fst (truncateRunes (cmMessage commit) 200) \<noteq> cmMessage commit)"
    by (auto simp: commitSummary_def maximumCommitSummaryRunes_def eq_commute [of "cmMessage _"])
  moreover have "\<dots> \<longleftrightarrow> (\<exists>commit \<in> set commits. snd (truncateRunes (cmMessage commit) 200))"
    using assms truncateRunes_spec(3) by blast
  ultimately show "Truncated (snd (summarizeCommits commits limit)) \<longleftrightarrow>
      map cmMessage commits \<noteq> map csMessage (cgCommits (fst (summarizeCommits commits limit)))"
    by (simp add: cut) (simp add: summarizeCommits_def Let_def metaFor_def list_ex_iff maximumCommitSummaryRunes_def)
qed

end
