(* ===== verification/ToolJSON.thy ===== *)
theory ToolJSON
  imports ToolGit
begin

text \<open>
  internal/mcpserver/response.go: the JSON form of the tool responses, as the struct tags give it. An
  \<open>omitempty\<close> field is left out when it holds its zero value, a pointer field when it is nil. The envelope of a
  tool result is what the output budget measures and trims; \<open>served\<close> puts the two together.
\<close>

section \<open>Fields\<close>

abbreviation strField :: "string \<Rightarrow> string \<Rightarrow> (string \<times> json) list" where
  "strField k s \<equiv> [(k, JStr s)]"

abbreviation numField :: "string \<Rightarrow> int \<Rightarrow> (string \<times> json) list" where
  "numField k n \<equiv> [(k, JNum n)]"

abbreviation boolField :: "string \<Rightarrow> bool \<Rightarrow> (string \<times> json) list" where
  "boolField k b \<equiv> [(k, JBool b)]"

definition omitStr :: "string \<Rightarrow> string \<Rightarrow> (string \<times> json) list" where
  "omitStr k s = (if s = [] then [] else [(k, JStr s)])"

definition omitNum :: "string \<Rightarrow> int \<Rightarrow> (string \<times> json) list" where
  "omitNum k n = (if n = 0 then [] else [(k, JNum n)])"

definition omitBool :: "string \<Rightarrow> bool \<Rightarrow> (string \<times> json) list" where
  "omitBool k b = (if b then [(k, JBool True)] else [])"

definition omitList :: "string \<Rightarrow> json list \<Rightarrow> (string \<times> json) list" where
  "omitList k xs = (if xs = [] then [] else [(k, JArr xs)])"

definition omitNil :: "string \<Rightarrow> ('a \<Rightarrow> json) \<Rightarrow> 'a option \<Rightarrow> (string \<times> json) list" where
  "omitNil k enc x = (case x of None \<Rightarrow> [] | Some v \<Rightarrow> [(k, enc v)])"

lemmas omit_defs = omitStr_def omitNum_def omitBool_def omitList_def omitNil_def

lemma fieldOf_Cons: "fieldOf k ((k', v) # fs) = (if k = k' then v else fieldOf k fs)" "fieldOf k [] = JNull"
  by (simp_all add: fieldOf_def)

lemma fieldOf_omit [simp]:
  "k \<noteq> k' \<Longrightarrow> fieldOf k (omitStr k' s @ fs) = fieldOf k fs" "k \<noteq> k' \<Longrightarrow> fieldOf k (omitNum k' n @ fs) = fieldOf k fs"
  "k \<noteq> k' \<Longrightarrow> fieldOf k (omitBool k' b @ fs) = fieldOf k fs" "k \<noteq> k' \<Longrightarrow> fieldOf k (omitList k' xs @ fs) = fieldOf k fs"
  "k \<noteq> k' \<Longrightarrow> fieldOf k (omitNil k' enc x @ fs) = fieldOf k fs"
  by (auto simp: omit_defs fieldOf_def split: option.split)

section \<open>The envelope\<close>

definition encMeta :: "ResponseMeta \<Rightarrow> json" where
  "encMeta m = JObj
     (omitNum ''next_before'' (NextBefore m) @ omitNil ''next_body_offset'' JNum (NextBodyOffset m)
      @ omitNum ''next_after_id'' (NextAfterID m) @ strField ''request_id'' (RequestID m)
      @ boolField ''truncated'' (Truncated m) @ omitNil ''next_page'' JNum (NextPage m)
      @ omitNil ''next_start_line'' JNum (NextStartLine m) @ omitBool ''cache_hit'' (CacheHit m)
      @ omitList ''warnings'' (map JStr (Warnings m)))"

definition encError :: "ToolError \<Rightarrow> json" where
  "encError e = JObj (strField ''code'' (teCode e) @ strField ''message'' (teMessage e) @ boolField ''retryable'' (teRetryable e))"

definition encResponse :: "('a \<Rightarrow> json) \<Rightarrow> 'a ToolResponse \<Rightarrow> (string \<times> json) list" where
  "encResponse enc r =
     omitNil ''data'' enc (respData r) @ omitNil ''error'' encError (respError r) @ [(''meta'', encMeta (respMeta r))]"

section \<open>Data\<close>

definition encUser :: "User \<Rightarrow> json" where
  "encUser u = JObj (numField ''id'' (uId u) @ strField ''username'' (uUsername u) @ strField ''full_name'' (uFullName u)
     @ strField ''email'' (uEmail u))"

definition encPermissions :: "RepositoryPermissions \<Rightarrow> json" where
  "encPermissions p = JObj (boolField ''pull'' (permPull p) @ boolField ''push'' (permPush p) @ boolField ''admin'' (permAdmin p))"

definition encRepository :: "Repository \<Rightarrow> json" where
  "encRepository r = JObj
     (numField ''id'' (repoId r) @ strField ''name'' (repoName r) @ strField ''full_name'' (repoFullName r)
      @ strField ''owner'' (repoOwner r) @ strField ''description'' (repoDescription r)
      @ strField ''default_branch'' (repoDefaultBranch r) @ boolField ''private'' (repoPrivate r)
      @ strField ''clone_url'' (repoCloneURL r) @ strField ''web_url'' (repoWebURL r)
      @ [(''permissions'', encPermissions (repoPermissions r))])"

definition encRepositoryPage :: "RepositoryPage \<Rightarrow> json" where
  "encRepositoryPage p = JObj
     ([(''repositories'', JArr (map encRepository (rpRepositories p)))] @ numField ''page'' (rpPage p)
      @ numField ''per_page'' (rpPerPage p) @ numField ''total'' (rpTotal p))"

definition encDirectoryEntry :: "DirectoryEntry \<Rightarrow> json" where
  "encDirectoryEntry e = JObj
     (strField ''name'' (deName e) @ strField ''path'' (dePath e) @ strField ''type'' (deType e) @ numField ''size'' (deSize e)
      @ strField ''sha'' (deSHA e) @ omitStr ''target'' (deTarget e) @ omitStr ''submodule_url'' (deSubmoduleURL e))"

definition encDirectoryPage :: "DirectoryPage \<Rightarrow> json" where
  "encDirectoryPage p = JObj
     ([(''entries'', JArr (map encDirectoryEntry (dpEntries p)))] @ strField ''path'' (dpPath p) @ strField ''ref'' (dpRef p)
      @ numField ''page'' (dpPage p) @ numField ''per_page'' (dpPerPage p) @ numField ''total'' (dpTotal p))"

definition encFile :: "File \<Rightarrow> json" where
  "encFile f = JObj
     (strField ''path'' (fPath f) @ strField ''ref'' (fRef f) @ strField ''type'' (fType f) @ numField ''size'' (fSize f)
      @ strField ''sha'' (fSHA f) @ omitStr ''content'' (fContent f) @ omitNum ''start_line'' (fStartLine f)
      @ omitNum ''end_line'' (fEndLine f) @ omitNum ''total_lines'' (fTotalLines f) @ omitStr ''target'' (fTarget f)
      @ omitStr ''submodule_url'' (fSubmoduleURL f) @ omitBool ''trailing_newline'' (fTrailingNewline f))"

definition encBranch :: "Branch \<Rightarrow> json" where
  "encBranch b = JObj (strField ''name'' (brName b) @ strField ''head_sha'' (brHeadSHA b))"

definition encBranchPage :: "BranchPage \<Rightarrow> json" where
  "encBranchPage p = JObj
     ([(''branches'', JArr (map encBranch (bpBranches p)))] @ numField ''page'' (bpPage p)
      @ numField ''per_page'' (bpPerPage p) @ numField ''total'' (bpTotal p))"

definition encCommitSummary :: "CommitSummary \<Rightarrow> json" where
  "encCommitSummary s = JObj
     (strField ''sha'' (csSHA s) @ strField ''message'' (csMessage s) @ strField ''author_name'' (csAuthorName s)
      @ strField ''author_date'' (csAuthorDate s))"

definition encCommitPage :: "CommitPage \<Rightarrow> json" where
  "encCommitPage p = JObj ([(''commits'', JArr (map encCommitSummary (cgCommits p)))] @ numField ''limit'' (cgLimit p))"

definition encCommitPerson :: "CommitPerson \<Rightarrow> json" where
  "encCommitPerson p = JObj (strField ''name'' (cpName p) @ strField ''email'' (cpEmail p) @ strField ''date'' (cpDate p))"

definition encCommit :: "Commit \<Rightarrow> json" where
  "encCommit x = JObj
     (strField ''sha'' (cmSHA x) @ strField ''message'' (cmMessage x) @ strField ''web_url'' (cmWebURL x)
      @ [(''author'', encCommitPerson (cmAuthor x)), (''committer'', encCommitPerson (cmCommitter x))]
      @ omitList ''parent_shas'' (map JStr (cmParentSHAs x)))"

section \<open>What is served\<close>

text \<open>A tool call as the client of the server sees it: the handler, whose result never is an error of the
  protocol, under the middleware.\<close>

definition served :: "goerr option \<Rightarrow> ('a \<Rightarrow> json) \<Rightarrow> (goerr + 'a toolResult) \<Rightarrow> handlerResult" where
  "served admission enc result =
     toolBudget ''tools/call'' admission
       (case result of Inl e \<Rightarrow> HandlerError e | Inr (isError, response) \<Rightarrow> Structured isError (encResponse enc response))"

lemma errorEnvelope_enc:
  "encResponse enc (snd (contentError requestID err)) = errorEnvelope requestID err"
  by (simp add: encResponse_def contentError_def errorEnvelope_def Let_def omit_defs encError_def encMeta_def metaFor_def)

lemma fieldOf_enc:
  "fieldOf ''meta'' (encResponse enc r) = encMeta (respMeta r)"
  "fieldOf ''error'' (encResponse enc r) = (case respError r of None \<Rightarrow> JNull | Some e \<Rightarrow> encError e)"
  "fieldOf ''data'' (encResponse enc r) = (case respData r of None \<Rightarrow> JNull | Some d \<Rightarrow> enc d)"
proof -
  show "fieldOf ''meta'' (encResponse enc r) = encMeta (respMeta r)" by (simp add: encResponse_def fieldOf_Cons)
  show "fieldOf ''error'' (encResponse enc r) = (case respError r of None \<Rightarrow> JNull | Some e \<Rightarrow> encError e)"
    by (cases "respError r") (simp_all add: encResponse_def fieldOf_Cons, simp_all add: omitNil_def fieldOf_Cons)
  show "fieldOf ''data'' (encResponse enc r) = (case respData r of None \<Rightarrow> JNull | Some d \<Rightarrow> enc d)"
    by (cases "respData r") (simp_all add: encResponse_def fieldOf_Cons, simp_all add: omitNil_def fieldOf_Cons split: option.split)
qed

lemma requestIDOf_enc [simp]: "requestIDOf (encResponse enc r) = RequestID (respMeta r)"
  by (simp add: requestIDOf_def fieldOf_enc encMeta_def fieldOf_Cons)

section \<open>Messages\<close>

text \<open>\<open>strconv.Quote\<close>, as \<open>%q\<close> prints it; a rune beyond ASCII is supposed to be printable.\<close>

definition hexDigit :: "nat \<Rightarrow> char" where
  "hexDigit n = (if n < 10 then char_of (48 + n) else char_of (87 + n))"

definition quoteByte :: "char \<Rightarrow> string" where
  "quoteByte ch =
     (let x = byte ch in
      if ch = CHR 0x22 \<or> ch = CHR 0x5C then [CHR 0x5C, ch]
      else if x = 7 then [CHR 0x5C, CHR ''a''] else if x = 8 then [CHR 0x5C, CHR ''b'']
      else if x = 12 then [CHR 0x5C, CHR ''f''] else if x = 10 then [CHR 0x5C, CHR ''n'']
      else if x = 13 then [CHR 0x5C, CHR ''r''] else if x = 9 then [CHR 0x5C, CHR ''t'']
      else if x = 11 then [CHR 0x5C, CHR ''v'']
      else if x < 32 \<or> x = 127 then [CHR 0x5C, CHR ''x'', hexDigit (x div 16), hexDigit (x mod 16)]
      else [ch])"

definition goQuote :: "string \<Rightarrow> string" where
  "goQuote s = [CHR 0x22] @ concat (map quoteByte s) @ [CHR 0x22]"

end
