(* ===== verification/ToolIssues.thy ===== *)
theory ToolIssues
  imports GogsIssues ToolJSON
begin

text \<open>
  internal/mcpserver/issues.go: the issue tools. The reading tools bound bodies and comment lists; the
  writing tools check their input, and the permissions and references it needs, before the write is sent.
  \<open>validSince\<close> tells whether \<open>time.Parse\<close> accepts an RFC3339 timestamp.
\<close>

section \<open>What the tools show\<close>

record IssueUser =
  iuUsername :: string
  iuFullName :: string

record IssueSummaryView =
  ivNumber :: int
  ivTitle :: string
  ivState :: string
  ivUser :: IssueUser
  ivLabels :: "IssueLabel list"
  ivNumComments :: int
  ivCreatedAt :: string
  ivUpdatedAt :: string

record IssueView =
  ivwNumber :: int
  ivwTitle :: string
  ivwBody :: string
  ivwState :: string
  ivwUser :: IssueUser
  ivwAssignee :: "IssueUser option"
  ivwLabels :: "IssueLabel list"
  ivwMilestone :: "IssueMilestone option"
  ivwNumComments :: int
  ivwCreatedAt :: string
  ivwUpdatedAt :: string
  ivwWebURL :: string

record IssuePage =
  ipIssues :: "IssueSummaryView list"
  ipState :: string
  ipPage :: int

record IssueCommentView =
  cvNextBodyOffset :: "int option"
  cvID :: int
  cvUser :: IssueUser
  cvBody :: string
  cvCreatedAt :: string
  cvUpdatedAt :: string

record IssueCommentPage =
  kpComments :: "IssueCommentView list"
  kpSince :: string
  kpMax :: int

definition toolIssueUser :: "User \<Rightarrow> IssueUser" where
  "toolIssueUser user = \<lparr>iuUsername = uUsername user, iuFullName = uFullName user\<rparr>"

definition toolIssueLabels :: "IssueLabel list \<Rightarrow> IssueLabel list" where
  "toolIssueLabels labels = map (\<lambda>label. \<lparr>ilName = ilName label, ilColor = ilColor label\<rparr>) labels"

definition toolIssueSummaries :: "IssueSummary list \<Rightarrow> IssueSummaryView list" where
  "toolIssueSummaries issues = map (\<lambda>issue.
     \<lparr>ivNumber = smNumber issue, ivTitle = smTitle issue, ivState = smState issue, ivUser = toolIssueUser (smUser issue),
      ivLabels = toolIssueLabels (smLabels issue), ivNumComments = smNumComments issue,
      ivCreatedAt = smCreatedAt issue, ivUpdatedAt = smUpdatedAt issue\<rparr>) issues"

definition toolIssue :: "Issue \<Rightarrow> IssueView" where
  "toolIssue issue =
     \<lparr>ivwNumber = isNumber issue, ivwTitle = isTitle issue, ivwBody = isBody issue, ivwState = isState issue,
      ivwUser = toolIssueUser (isUser issue), ivwAssignee = map_option toolIssueUser (isAssignee issue),
      ivwLabels = toolIssueLabels (isLabels issue),
      ivwMilestone = map_option (\<lambda>m. \<lparr>imTitle = imTitle m, imState = imState m\<rparr>) (isMilestone issue),
      ivwNumComments = isNumComments issue, ivwCreatedAt = isCreatedAt issue, ivwUpdatedAt = isUpdatedAt issue,
      ivwWebURL = isWebURL issue\<rparr>"

definition toolIssueComment :: "IssueComment \<Rightarrow> IssueCommentView" where
  "toolIssueComment comment =
     \<lparr>cvNextBodyOffset = None, cvID = icID comment, cvUser = toolIssueUser (icUser comment), cvBody = icBody comment,
      cvCreatedAt = icCreatedAt comment, cvUpdatedAt = icUpdatedAt comment\<rparr>"

definition encIssueUser :: "IssueUser \<Rightarrow> json" where
  "encIssueUser u = JObj (strField ''username'' (iuUsername u) @ strField ''full_name'' (iuFullName u))"

definition encIssueLabel :: "IssueLabel \<Rightarrow> json" where
  "encIssueLabel l = JObj (strField ''name'' (ilName l) @ strField ''color'' (ilColor l))"

definition encIssueMilestone :: "IssueMilestone \<Rightarrow> json" where
  "encIssueMilestone m = JObj (strField ''title'' (imTitle m) @ strField ''state'' (imState m))"

definition encIssueSummary :: "IssueSummaryView \<Rightarrow> json" where
  "encIssueSummary i = JObj
     (numField ''number'' (ivNumber i) @ strField ''title'' (ivTitle i) @ strField ''state'' (ivState i)
      @ [(''user'', encIssueUser (ivUser i)), (''labels'', JArr (map encIssueLabel (ivLabels i)))]
      @ numField ''num_comments'' (ivNumComments i) @ strField ''created_at'' (ivCreatedAt i)
      @ strField ''updated_at'' (ivUpdatedAt i))"

definition encIssuePage :: "IssuePage \<Rightarrow> json" where
  "encIssuePage p = JObj
     ([(''issues'', JArr (map encIssueSummary (ipIssues p)))] @ strField ''state'' (ipState p) @ numField ''page'' (ipPage p))"

definition encIssue :: "IssueView \<Rightarrow> json" where
  "encIssue i = JObj
     (numField ''number'' (ivwNumber i) @ strField ''title'' (ivwTitle i) @ strField ''body'' (ivwBody i)
      @ strField ''state'' (ivwState i) @ [(''user'', encIssueUser (ivwUser i))]
      @ omitNil ''assignee'' encIssueUser (ivwAssignee i) @ [(''labels'', JArr (map encIssueLabel (ivwLabels i)))]
      @ omitNil ''milestone'' encIssueMilestone (ivwMilestone i) @ numField ''num_comments'' (ivwNumComments i)
      @ strField ''created_at'' (ivwCreatedAt i) @ strField ''updated_at'' (ivwUpdatedAt i)
      @ strField ''web_url'' (ivwWebURL i))"

definition encIssueComment :: "IssueCommentView \<Rightarrow> json" where
  "encIssueComment k = JObj
     (omitNil ''next_body_offset'' JNum (cvNextBodyOffset k) @ numField ''id'' (cvID k)
      @ [(''user'', encIssueUser (cvUser k))] @ strField ''body'' (cvBody k)
      @ strField ''created_at'' (cvCreatedAt k) @ strField ''updated_at'' (cvUpdatedAt k))"

definition encIssueCommentPage :: "IssueCommentPage \<Rightarrow> json" where
  "encIssueCommentPage p = JObj
     ([(''comments'', JArr (map encIssueComment (kpComments p)))] @ omitStr ''since'' (kpSince p)
      @ numField ''max_comments'' (kpMax p))"

section \<open>Reading issues\<close>

definition listIssuesTool :: "httpWorld \<Rightarrow> Client \<Rightarrow> string \<Rightarrow> string \<Rightarrow> string \<Rightarrow> string \<Rightarrow> int \<Rightarrow> IssuePage toolResult clientIO" where
  "listIssuesTool w c requestID owner repo inputState inputPage =
     (let state = (if inputState = [] then ''open'' else inputState);
          page = (if inputPage = 0 then 1 else inputPage)
      in runTool requestID (ListIssues w c owner repo state page) (\<lambda>(issues, nextPage).
           toolData \<lparr>ipIssues = toolIssueSummaries issues, ipState = state, ipPage = page\<rparr>
             ((metaFor requestID)\<lparr>NextPage := (if nextPage > 0 then Some nextPage else None)\<rparr>)))"

text \<open>The issue with a chunk of its body.\<close>

definition showIssue :: "string \<Rightarrow> Issue \<Rightarrow> int \<Rightarrow> int \<Rightarrow> IssueView toolResult" where
  "showIssue requestID issue bodyOffset bodyMaxBytes =
     (case boundBody (isBody issue) bodyOffset bodyMaxBytes (metaFor requestID) of (chunk, meta) \<Rightarrow>
       toolData ((toolIssue issue)\<lparr>ivwBody := chunk\<rparr>) meta)"

definition getIssueTool :: "httpWorld \<Rightarrow> Client \<Rightarrow> string \<Rightarrow> string \<Rightarrow> string \<Rightarrow> int \<Rightarrow> int \<Rightarrow> int \<Rightarrow> IssueView toolResult clientIO" where
  "getIssueTool w c requestID owner repo number bodyOffset bodyMaxBytes =
     runTool requestID (GetIssue w c owner repo number) (\<lambda>issue.
       case validateBodyOffset (isBody issue) bodyOffset of
         Inl err \<Rightarrow> contentError requestID err
       | Inr _ \<Rightarrow> showIssue requestID issue bodyOffset bodyMaxBytes)"

section \<open>Reading comments\<close>

record listIssueCommentsInput =
  lcAfterID :: int
  lcCommentID :: int
  lcBodyOffset :: int
  lcBodyMaxBytes :: int
  lcOwner :: string
  lcRepo :: string
  lcNumber :: int
  lcSince :: string
  lcMaxComments :: int

definition defaultMaxComments :: int where "defaultMaxComments = 100"
definition maximumMaxComments :: int where "maximumMaxComments = 500"

definition resolveIssueCommentsInput :: "(string \<Rightarrow> bool) \<Rightarrow> listIssueCommentsInput \<Rightarrow> goerr + int" where
  "resolveIssueCommentsInput validSince input =
     (if lcSince input \<noteq> [] \<and> \<not> validSince (lcSince input) then
        Inl (gogsErr CodeInvalidArgument ''since must be an RFC3339 timestamp'')
      else
        (let maxComments = (if lcMaxComments input \<noteq> 0 then lcMaxComments input else defaultMaxComments) in
         if maxComments < 1 \<or> maxComments > maximumMaxComments then
           Inl (gogsErr CodeInvalidArgument (''max_comments must be between 1 and '' @ formatInt maximumMaxComments))
         else Inr maxComments))"

definition wantedComment :: "listIssueCommentsInput \<Rightarrow> IssueComment \<Rightarrow> bool" where
  "wantedComment input comment \<longleftrightarrow>
     icID comment > lcAfterID input \<and> (lcCommentID input = 0 \<or> icID comment = lcCommentID input)"

text \<open>The bodies, cut in place: 256 bytes of each, or the chunk asked for of a single comment.\<close>

fun boundComments :: "listIssueCommentsInput \<Rightarrow> IssueCommentView list \<Rightarrow> goerr + IssueCommentView list" where
  "boundComments input [] = Inr []"
| "boundComments input (k # ks) =
     bindE (if lcCommentID input > 0 then validateBodyOffset (cvBody k) (lcBodyOffset input) else Inr ()) (\<lambda>_.
       case bodyChunk (cvBody k) (if lcCommentID input > 0 then lcBodyOffset input else 0)
              (if lcCommentID input > 0 then lcBodyMaxBytes input else 256) of (chunk, following) \<Rightarrow>
         bindE (boundComments input ks) (\<lambda>rest. Inr (k\<lparr>cvBody := chunk, cvNextBodyOffset := following\<rparr> # rest)))"

definition commentsWithin :: "IssueCommentView list \<Rightarrow> nat \<Rightarrow> IssueCommentView list \<times> bool" where
  "commentsWithin comments maximum = takeWithin (\<lambda>k. jsonLen (encIssueComment k)) maximum 0 False comments"

definition stoppedWarning :: "int \<Rightarrow> string" where
  "stoppedWarning n = ''The comment list stopped at the max_comments limit of '' @ formatInt n @ ''.''"

definition partialWarning :: string where
  "partialWarning = ''Comments are partial. Use after_id=next_after_id for more comments; use comment_id and body_offset for a comment's remaining body.''"

text \<open>The page made out of the mapped comments.\<close>

definition commentPage :: "string \<Rightarrow> listIssueCommentsInput \<Rightarrow> int \<Rightarrow> IssueCommentView list \<Rightarrow> IssueCommentPage toolResult" where
  "commentPage requestID input maxComments mapped =
     (let meta = (metaFor requestID)\<lparr>Truncated := list_ex (\<lambda>k. cvNextBodyOffset k \<noteq> None) mapped\<rparr>;
          meta = (if int (length mapped) > maxComments
            then meta\<lparr>Warnings := Warnings meta @ [stoppedWarning maxComments]\<rparr> else meta)
      in case commentsWithin (take (nat maxComments) mapped) maximumFileTextBytes of (selected, dropped) \<Rightarrow>
        (let meta = (if length selected < length mapped \<and> selected \<noteq> []
               then meta\<lparr>NextAfterID := cvID (last selected), Truncated := True\<rparr> else meta);
             meta = (if dropped \<or> Truncated meta then meta\<lparr>Warnings := Warnings meta @ [partialWarning]\<rparr> else meta)
         in toolData \<lparr>kpComments = selected, kpSince = lcSince input, kpMax = maxComments\<rparr> meta))"

definition commentsAfter :: "listIssueCommentsInput \<Rightarrow> IssueComment list \<Rightarrow> IssueComment list" where
  "commentsAfter input comments = filter (wantedComment input) (sortSlice (\<lambda>a b. icID a < icID b) comments)"

definition listIssueCommentsTool :: "(string \<Rightarrow> bool) \<Rightarrow> httpWorld \<Rightarrow> Client \<Rightarrow> string \<Rightarrow> listIssueCommentsInput \<Rightarrow>
    IssueCommentPage toolResult clientIO" where
  "listIssueCommentsTool validSince w c requestID input =
     (case resolveIssueCommentsInput validSince input of
        Inl err \<Rightarrow> ret (contentError requestID err)
      | Inr maxComments \<Rightarrow>
          if lcBodyOffset input > 0 \<and> lcCommentID input = 0 then
            ret (contentError requestID (gogsErr CodeInvalidArgument ''body_offset requires comment_id.''))
          else
            runTool requestID (ListIssueComments w c (lcOwner input) (lcRepo input) (lcNumber input) (lcSince input)) (\<lambda>comments.
              case boundComments input (map toolIssueComment (commentsAfter input comments)) of
                Inl err \<Rightarrow> contentError requestID err
              | Inr mapped \<Rightarrow> commentPage requestID input maxComments mapped))"

section \<open>Writing\<close>

definition maxIssueTitleRunes :: int where "maxIssueTitleRunes = 255"
definition maxIssueBodyBytes :: int where "maxIssueBodyBytes = 1048576"

record createIssueInput =
  ciOwner :: string
  ciRepo :: string
  ciTitle :: string
  ciBody :: string
  ciAssignee :: string
  ciLabels :: "string list"
  ciMilestone :: string

record updateIssueInput =
  uiOwner :: string
  uiRepo :: string
  uiNumber :: int
  uiTitle :: "string option"
  uiBody :: "string option"
  uiAssignee :: "string option"
  uiMilestone :: "string option"
  uiState :: string

definition invalidArgument :: "string \<Rightarrow> goerr" where
  "invalidArgument message = gogsErr CodeInvalidArgument message"

definition checkTitle :: "string \<Rightarrow> goerr + unit" where
  "checkTitle title = guardE (\<not> int (length (goRunes title)) > maxIssueTitleRunes)
     (invalidArgument ''title must be at most 255 characters'')"

definition checkBody :: "string \<Rightarrow> goerr + unit" where
  "checkBody body = guardE (\<not> int (length body) > maxIssueBodyBytes)
     (invalidArgument ''body must be at most 1048576 bytes'')"

definition idsByName :: "RepositoryLabel list \<Rightarrow> string \<Rightarrow> int option" where
  "idsByName labels = map_of (rev (map (\<lambda>label. (rlName label, rlID label)) labels))"

fun labelIDs :: "(string \<Rightarrow> int option) \<Rightarrow> string \<Rightarrow> string \<Rightarrow> string list \<Rightarrow> goerr + int list" where
  "labelIDs ids owner repo [] = Inr []"
| "labelIDs ids owner repo (name # names) =
     (case ids name of
        None \<Rightarrow> Inl (invalidArgument (''the label '' @ goQuote name @ '' does not exist in '' @ owner @ ''/'' @ repo))
      | Some i \<Rightarrow> bindE (labelIDs ids owner repo names) (\<lambda>rest. Inr (i # rest)))"

text \<open>An error of the client is classified on the way.\<close>

definition classified :: "'a clientIO \<Rightarrow> 'a clientIO" where
  "classified m = onResult m (\<lambda>r. case r of Inl err \<Rightarrow> fail (AsError err) | Inr x \<Rightarrow> ret x)"

definition requirePush :: "httpWorld \<Rightarrow> Client \<Rightarrow> string \<Rightarrow> string \<Rightarrow> string \<Rightarrow> unit clientIO" where
  "requirePush w c owner repo message =
     bindM (classified (GetRepository w c owner repo)) (\<lambda>repository.
       if \<not> permPush (repoPermissions repository) then fail (gogsErr CodePermissionDenied message) else ret ())"

definition resolveLabels :: "httpWorld \<Rightarrow> Client \<Rightarrow> createIssueInput \<Rightarrow> int list clientIO" where
  "resolveLabels w c input =
     (if ciLabels input = [] then ret []
      else bindM (classified (ListRepositoryLabels w c (ciOwner input) (ciRepo input))) (\<lambda>labels.
        liftE (labelIDs (idsByName labels) (ciOwner input) (ciRepo input) (ciLabels input))))"

definition resolveMilestone :: "httpWorld \<Rightarrow> Client \<Rightarrow> string \<Rightarrow> string \<Rightarrow> string \<Rightarrow> int clientIO" where
  "resolveMilestone w c owner repo title =
     bindM (classified (ListRepositoryMilestones w c owner repo)) (\<lambda>milestones.
       let found = (case List.find (\<lambda>m. rmTitle m = title) milestones of Some m \<Rightarrow> rmID m | None \<Rightarrow> 0)
       in if found = 0 then fail (invalidArgument (''the milestone '' @ goQuote title @ '' does not exist in '' @ owner @ ''/'' @ repo))
          else ret found)"

definition resolveAssignee :: "httpWorld \<Rightarrow> Client \<Rightarrow> string \<Rightarrow> unit clientIO" where
  "resolveAssignee w c username =
     bindM (classified (UserExists w c username)) (\<lambda>exists.
       if \<not> exists then fail (invalidArgument (''the assignee '' @ goQuote username @ '' does not exist'')) else ret ())"

definition resolveCreateIssueInput :: "httpWorld \<Rightarrow> Client \<Rightarrow> createIssueInput \<Rightarrow> CreateIssueOptions clientIO" where
  "resolveCreateIssueInput w c input =
     bindM (liftE (checkTitle (ciTitle input))) (\<lambda>_.
     bindM (liftE (checkBody (ciBody input))) (\<lambda>_.
       let options = \<lparr>coTitle = ciTitle input, coBody = ciBody input, coAssignee = [], coLabelIDs = [], coMilestoneID = 0\<rparr>
       in if ciAssignee input = [] \<and> ciLabels input = [] \<and> ciMilestone input = [] then ret options
          else
            bindM (requirePush w c (ciOwner input) (ciRepo input)
              ''Setting an assignee, labels, or a milestone requires repository write access; create the issue with only a title and body instead.'') (\<lambda>_.
            bindM (resolveLabels w c input) (\<lambda>ids.
            bindM (if ciMilestone input \<noteq> [] then resolveMilestone w c (ciOwner input) (ciRepo input) (ciMilestone input) else ret 0) (\<lambda>milestone.
            bindM (if ciAssignee input \<noteq> [] then resolveAssignee w c (ciAssignee input) else ret ()) (\<lambda>_.
              ret (options\<lparr>coLabelIDs := ids, coMilestoneID := milestone, coAssignee := ciAssignee input\<rparr>)))))))"

definition updateCount :: "updateIssueInput \<Rightarrow> int" where
  "updateCount input = (if uiTitle input \<noteq> None then 1 else 0) + (if uiBody input \<noteq> None then 1 else 0)
     + (if uiState input \<noteq> [] then 1 else 0)"

definition checkOption :: "(string \<Rightarrow> goerr + unit) \<Rightarrow> string option \<Rightarrow> goerr + unit" where
  "checkOption check v = (case v of None \<Rightarrow> Inr () | Some s \<Rightarrow> check s)"

definition resolveUpdateIssueInput :: "httpWorld \<Rightarrow> Client \<Rightarrow> updateIssueInput \<Rightarrow> UpdateIssueOptions clientIO" where
  "resolveUpdateIssueInput w c input =
     bindM (liftE (checkOption checkTitle (uiTitle input))) (\<lambda>_.
     bindM (liftE (checkOption checkBody (uiBody input))) (\<lambda>_.
       let options = \<lparr>uoTitle = (case uiTitle input of None \<Rightarrow> [] | Some title \<Rightarrow> title), uoBody = uiBody input,
             uoAssignee = None, uoMilestone = None,
             uoState = (if uiState input \<noteq> [] then Some (uiState input) else None)\<rparr>
       in if uiAssignee input = None \<and> uiMilestone input = None then
            (if updateCount input = 0 then
               fail (invalidArgument ''Provide at least one of title, body, assignee, milestone, or state to update.'')
             else ret options)
          else
            bindM (requirePush w c (uiOwner input) (uiRepo input)
              ''Changing the assignee or milestone requires repository write access; update the title, body, or state instead.'') (\<lambda>_.
            bindM (case uiAssignee input of None \<Rightarrow> ret () | Some username \<Rightarrow>
                if username \<noteq> [] then resolveAssignee w c username else ret ()) (\<lambda>_.
            bindM (case uiMilestone input of None \<Rightarrow> ret None | Some title \<Rightarrow>
                if title \<noteq> [] then bindM (resolveMilestone w c (uiOwner input) (uiRepo input) title) (\<lambda>found. ret (Some found))
                else ret (Some 0)) (\<lambda>milestone.
              ret (options\<lparr>uoAssignee := uiAssignee input, uoMilestone := milestone\<rparr>))))))"

definition validateCommentBody :: "string \<Rightarrow> goerr + unit" where
  "validateCommentBody body =
     (if body = [] then Inl (gogsErr CodeInvalidArgument ''The comment body must not be empty.'') else checkBody body)"

definition createIssueTool :: "httpWorld \<Rightarrow> Client \<Rightarrow> string \<Rightarrow> createIssueInput \<Rightarrow> IssueView toolResult clientIO" where
  "createIssueTool w c requestID input =
     runTool requestID
       (bindM (resolveCreateIssueInput w c input) (\<lambda>options. CreateIssue w c (ciOwner input) (ciRepo input) options))
       (\<lambda>issue. showIssue requestID issue 0 0)"

definition updateIssueTool :: "httpWorld \<Rightarrow> Client \<Rightarrow> string \<Rightarrow> updateIssueInput \<Rightarrow> IssueView toolResult clientIO" where
  "updateIssueTool w c requestID input =
     runTool requestID
       (bindM (resolveUpdateIssueInput w c input) (\<lambda>options.
          UpdateIssue w c (uiOwner input) (uiRepo input) (uiNumber input) options))
       (\<lambda>issue. showIssue requestID issue 0 0)"

definition createIssueCommentTool :: "httpWorld \<Rightarrow> Client \<Rightarrow> string \<Rightarrow> string \<Rightarrow> string \<Rightarrow> int \<Rightarrow> string \<Rightarrow>
    IssueCommentView toolResult clientIO" where
  "createIssueCommentTool w c requestID owner repo number body =
     (case validateCommentBody body of
        Inl err \<Rightarrow> ret (contentError requestID err)
      | Inr _ \<Rightarrow> runTool requestID (CreateIssueComment w c owner repo number body) (\<lambda>comment.
          case boundBody (icBody comment) 0 0 (metaFor requestID) of (chunk, meta) \<Rightarrow>
            toolData ((toolIssueComment comment)\<lparr>cvBody := chunk, cvNextBodyOffset := NextBodyOffset meta\<rparr>) meta))"

section \<open>What the tools send\<close>

lemma sends_classified [sends_intro]: "sends P n m \<Longrightarrow> sends P n (classified m)"
  unfolding classified_def
  by (rule sends_mono, rule sends_onResult [where n = 0]) (auto split: sum.split)

lemma sends_runTool [sends_intro]: "sends P n m \<Longrightarrow> sends P n (runTool requestID m respond)"
  unfolding runTool_def
  by (rule sends_mono, rule sends_onResult [where n = 0]) (auto split: sum.split)

lemma sends_bindM_pure: "sends P n m \<Longrightarrow> (\<And>x. sends P 0 (f x)) \<Longrightarrow> sends P n (bindM m f)"
  using sends_bindM [of P n m 0 f] by simp

lemma sends_GetAuthenticatedUser: "sends (isRead c) 3 (GetAuthenticatedUser w c)"
  unfolding GetAuthenticatedUser_def by (intro sends_bindM_pure sends_getJSON) auto

lemma sends_GetIssue: "sends (isRead c) 3 (GetIssue w c owner repo number)"
  unfolding GetIssue_def
  by (rule sends_mono, rule sends_onResult [where n = 0], rule sends_getJSON) (auto split: sum.split)

lemma sends_requirePush: "sends (isRead c) 3 (requirePush w c owner repo message)"
  unfolding requirePush_def by (intro sends_bindM_pure sends_classified sends_GetRepository) auto

lemma sends_labels: "sends (isRead c) 3 (resolveLabels w c input)"
proof -
  have "sends (isRead c) 3 (bindM (classified (ListRepositoryLabels w c (ciOwner input) (ciRepo input))) (\<lambda>labels.
        liftE (labelIDs (idsByName labels) (ciOwner input) (ciRepo input) (ciLabels input))))"
    unfolding ListRepositoryLabels_def by (intro sends_bindM_pure sends_classified sends_getJSON) auto
  then show ?thesis by (simp add: resolveLabels_def)
qed

lemma sends_milestone: "sends (isRead c) 3 (resolveMilestone w c owner repo title)"
  unfolding resolveMilestone_def ListRepositoryMilestones_def
  by (intro sends_bindM_pure sends_classified sends_getJSON) (auto simp: Let_def)

lemma sends_assignee: "sends (isRead c) 3 (resolveAssignee w c username)"
proof -
  have "sends (isRead c) (3 + 0) (UserExists w c username)"
    unfolding UserExists_def by (rule sends_onResult, rule sends_getJSON) (auto split: sum.split)
  then have "sends (isRead c) 3 (classified (UserExists w c username))" by (intro sends_classified) simp
  then show ?thesis unfolding resolveAssignee_def by (intro sends_bindM_pure) auto
qed

text \<open>Resolving the input of a write only reads, at most twelve times.\<close>

lemma sends_resolveCreate: "sends (isRead c) 12 (resolveCreateIssueInput w c input)"
proof -
  let ?ms = "if ciMilestone input \<noteq> [] then resolveMilestone w c (ciOwner input) (ciRepo input) (ciMilestone input) else ret 0"
  let ?as = "if ciAssignee input \<noteq> [] then resolveAssignee w c (ciAssignee input) else ret ()"
  have ms: "sends (isRead c) 3 ?ms" and as: "sends (isRead c) 3 ?as" using sends_milestone sends_assignee by simp_all
  have "sends (isRead c) (3 + (3 + (3 + 3))) (bindM (requirePush w c owner repo m) (\<lambda>_. bindM (resolveLabels w c input)
      (\<lambda>ids. bindM ?ms (\<lambda>milestone. bindM ?as (\<lambda>_. ret (f ids milestone))))))" for owner repo m and f :: "int list \<Rightarrow> int \<Rightarrow> 'b"
    by (intro sends_bindM sends_bindM_pure sends_requirePush sends_labels ms as sends_pure(1))
  then have "sends (isRead c) (0 + (0 + 12)) (resolveCreateIssueInput w c input)"
    unfolding resolveCreateIssueInput_def Let_def by (intro sends_bindM sends_pure(3)) auto
  then show ?thesis by simp
qed

lemma sends_resolveUpdate: "sends (isRead c) 9 (resolveUpdateIssueInput w c input)"
proof -
  let ?as = "case uiAssignee input of None \<Rightarrow> ret () | Some username \<Rightarrow>
                if username \<noteq> [] then resolveAssignee w c username else ret ()"
  let ?ms = "case uiMilestone input of None \<Rightarrow> ret None | Some title \<Rightarrow>
                if title \<noteq> [] then bindM (resolveMilestone w c (uiOwner input) (uiRepo input) title) (\<lambda>found. ret (Some found))
                else ret (Some 0)"
  have as: "sends (isRead c) 3 ?as" using sends_assignee by (auto split: option.split)
  have ms: "sends (isRead c) 3 ?ms" using sends_milestone by (auto split: option.split intro!: sends_bindM_pure)
  have "sends (isRead c) (3 + (3 + 3)) (bindM (requirePush w c owner repo m) (\<lambda>_. bindM ?as (\<lambda>_. bindM ?ms (\<lambda>x. ret (f x)))))"
    for owner repo m and f :: "int option \<Rightarrow> 'b"
    by (intro sends_bindM sends_bindM_pure sends_requirePush ms as sends_pure(1))
  then have "sends (isRead c) (0 + (0 + 9)) (resolveUpdateIssueInput w c input)"
    unfolding resolveUpdateIssueInput_def Let_def by (intro sends_bindM sends_pure(3)) auto
  then show ?thesis by simp
qed

section \<open>A write is verified before it is sent\<close>

definition extends :: "clientState \<Rightarrow> clientState \<Rightarrow> bool" where
  "extends s t \<longleftrightarrow> (\<exists>new. sent t = sent s @ new)"

lemma extends_refl [simp]: "extends s s"
  by (simp add: extends_def)

lemma extends_trans: "extends s t \<Longrightarrow> extends t u \<Longrightarrow> extends s u"
  by (auto simp: extends_def)

lemma sends_extends: "sends P n m \<Longrightarrow> m s = (r, t) \<Longrightarrow> extends s t"
  unfolding sends_def extends_def by (metis snd_conv)

text \<open>Gogs gave the answer \<open>x\<close> to a request of \<open>m\<close> while the call took the client from \<open>s0\<close> to \<open>s1\<close>.\<close>

definition during :: "clientState \<Rightarrow> clientState \<Rightarrow> 'a clientIO \<Rightarrow> 'a \<Rightarrow> bool" where
  "during s0 s1 m x \<longleftrightarrow> (\<exists>s t. m s = (Inr x, t) \<and> extends s0 s \<and> extends s t \<and> extends t s1)"

lemma duringI: "m s = (Inr x, t) \<Longrightarrow> extends s0 s \<Longrightarrow> extends s t \<Longrightarrow> extends t s1 \<Longrightarrow> during s0 s1 m x"
  unfolding during_def by blast

lemma during_here: "m s = (Inr x, t) \<Longrightarrow> extends s t \<Longrightarrow> during s t m x"
  by (rule duringI [of m s x t]) simp_all

lemma during_mono: "during s0 s1 m x \<Longrightarrow> extends r0 s0 \<Longrightarrow> extends s1 r1 \<Longrightarrow> during r0 r1 m x"
  unfolding during_def by (meson extends_trans)

lemma during_ex_mono:
  "\<exists>x. during s0 s1 m x \<and> P x \<Longrightarrow> extends r0 s0 \<Longrightarrow> extends s1 r1 \<Longrightarrow> \<exists>x. during r0 r1 m x \<and> P x"
  by (elim exE conjE, intro exI conjI, rule during_mono)

lemma classified_Inr: "classified m s = (Inr x, t) \<longleftrightarrow> m s = (Inr x, t)"
  by (cases "m s") (auto simp: classified_def split: sum.split)

lemma requirePush_Inr:
  assumes "requirePush w c owner repo message s = (Inr u, t)"
  shows "extends s t" "\<exists>repository. during s t (GetRepository w c owner repo) repository \<and> permPush (repoPermissions repository)"
proof -
  show e: "extends s t" using sends_extends [OF sends_requirePush assms] .
  from assms obtain repository where "GetRepository w c owner repo s = (Inr repository, t)" "permPush (repoPermissions repository)"
    by (auto simp: requirePush_def bindM_eq_Inr classified_Inr split: if_splits)
  then show "\<exists>repository. during s t (GetRepository w c owner repo) repository \<and> permPush (repoPermissions repository)"
    using e by (intro exI [of _ repository] conjI during_here)
qed

lemma idsByName_Some: "idsByName labels name = Some i \<Longrightarrow> \<exists>l \<in> set labels. rlName l = name \<and> rlID l = i"
  by (auto simp: idsByName_def dest!: map_of_SomeD)

lemma labelIDs_Inr: "labelIDs f owner repo names = Inr ids \<Longrightarrow> list_all2 (\<lambda>name i. f name = Some i) names ids"
  by (induction names arbitrary: ids) (auto simp: bindE_eq_Inr split: option.splits)

definition labelsKnown :: "RepositoryLabel list \<Rightarrow> string list \<Rightarrow> int list \<Rightarrow> bool" where
  "labelsKnown labels names ids \<longleftrightarrow> list_all2 (\<lambda>name i. \<exists>l \<in> set labels. rlName l = name \<and> rlID l = i) names ids"

lemma resolveLabels_Inr:
  assumes "resolveLabels w c input s = (Inr ids, t)"
  shows "extends s t" "ciLabels input = [] \<and> ids = [] \<or>
    (\<exists>labels. during s t (ListRepositoryLabels w c (ciOwner input) (ciRepo input)) labels \<and> labelsKnown labels (ciLabels input) ids)"
proof -
  show e: "extends s t" using sends_extends [OF sends_labels assms] .
  show "ciLabels input = [] \<and> ids = [] \<or>
    (\<exists>labels. during s t (ListRepositoryLabels w c (ciOwner input) (ciRepo input)) labels \<and> labelsKnown labels (ciLabels input) ids)"
  proof (cases "ciLabels input = []")
    case True
    then show ?thesis using assms by (simp add: resolveLabels_def)
  next
    case False
    then obtain labels where l: "ListRepositoryLabels w c (ciOwner input) (ciRepo input) s = (Inr labels, t)"
      "labelIDs (idsByName labels) (ciOwner input) (ciRepo input) (ciLabels input) = Inr ids"
      using assms by (auto simp: resolveLabels_def bindM_eq_Inr classified_Inr)
    have "labelsKnown labels (ciLabels input) ids"
      using labelIDs_Inr [OF l(2)] idsByName_Some unfolding labelsKnown_def by (rule list_all2_mono)
    then show ?thesis using l(1) e by (intro disjI2 exI [of _ labels] conjI during_here)
  qed
qed

lemma resolveMilestone_Inr:
  assumes "resolveMilestone w c owner repo title s = (Inr i, t)"
  shows "extends s t" "i \<noteq> 0" "\<exists>ms. during s t (ListRepositoryMilestones w c owner repo) ms \<and> (\<exists>m \<in> set ms. rmTitle m = title \<and> rmID m = i)"
proof -
  show e: "extends s t" using sends_extends [OF sends_milestone assms] .
  from assms obtain ms where ms: "ListRepositoryMilestones w c owner repo s = (Inr ms, t)" "i \<noteq> 0"
    "i = (case List.find (\<lambda>m. rmTitle m = title) ms of Some m \<Rightarrow> rmID m | None \<Rightarrow> 0)"
    by (auto simp: resolveMilestone_def bindM_eq_Inr classified_Inr Let_def split: if_splits)
  then obtain m where "List.find (\<lambda>m. rmTitle m = title) ms = Some m" "rmID m = i"
    by (cases "List.find (\<lambda>m. rmTitle m = title) ms") auto
  then have "\<exists>m \<in> set ms. rmTitle m = title \<and> rmID m = i" by (auto simp: find_Some_iff)
  then show "\<exists>ms. during s t (ListRepositoryMilestones w c owner repo) ms \<and> (\<exists>m \<in> set ms. rmTitle m = title \<and> rmID m = i)"
    using ms(1) e by (intro exI [of _ ms] conjI during_here)
  show "i \<noteq> 0" by (rule ms(2))
qed

lemma resolveAssignee_Inr:
  assumes "resolveAssignee w c username s = (Inr u, t)"
  shows "extends s t" "during s t (UserExists w c username) True"
proof -
  show e: "extends s t" using sends_extends [OF sends_assignee assms] .
  from assms have "UserExists w c username s = (Inr True, t)"
    by (auto simp: resolveAssignee_def bindM_eq_Inr classified_Inr split: if_splits)
  then show "during s t (UserExists w c username) True" using e by (rule during_here)
qed

text \<open>What has been verified about the options of a new issue.\<close>

definition createVerified :: "httpWorld \<Rightarrow> Client \<Rightarrow> clientState \<Rightarrow> clientState \<Rightarrow> createIssueInput \<Rightarrow> CreateIssueOptions \<Rightarrow> bool" where
  "createVerified w c s t input options \<longleftrightarrow>
     coTitle options = ciTitle input \<and> coBody options = ciBody input \<and> coAssignee options = ciAssignee input
     \<and> int (length (goRunes (ciTitle input))) \<le> 255 \<and> int (length (ciBody input)) \<le> 1048576
     \<and> ((ciAssignee input = [] \<and> ciLabels input = [] \<and> ciMilestone input = [])
        \<or> (\<exists>repository. during s t (GetRepository w c (ciOwner input) (ciRepo input)) repository
             \<and> permPush (repoPermissions repository)))
     \<and> (ciLabels input = [] \<and> coLabelIDs options = []
        \<or> (\<exists>labels. during s t (ListRepositoryLabels w c (ciOwner input) (ciRepo input)) labels
             \<and> labelsKnown labels (ciLabels input) (coLabelIDs options)))
     \<and> (ciMilestone input = [] \<and> coMilestoneID options = 0
        \<or> (\<exists>ms. during s t (ListRepositoryMilestones w c (ciOwner input) (ciRepo input)) ms
             \<and> (\<exists>m \<in> set ms. rmTitle m = ciMilestone input \<and> rmID m = coMilestoneID options)))
     \<and> (ciAssignee input = [] \<or> during s t (UserExists w c (ciAssignee input)) True)"

lemma checks_Inr:
  "checkTitle title = Inr u \<longleftrightarrow> int (length (goRunes title)) \<le> 255"
  "checkBody body = Inr u \<longleftrightarrow> int (length body) \<le> 1048576"
  by (auto simp: checkTitle_def checkBody_def guardE_Inr maxIssueTitleRunes_def maxIssueBodyBytes_def)

lemma resolveCreate_Inr:
  assumes "resolveCreateIssueInput w c input s = (Inr options, t)"
  shows "createVerified w c s t input options"
proof -
  have limits: "int (length (goRunes (ciTitle input))) \<le> 255" "int (length (ciBody input)) \<le> 1048576"
    using assms by (auto simp: resolveCreateIssueInput_def bindM_eq_Inr checks_Inr)
  show ?thesis
  proof (cases "ciAssignee input = [] \<and> ciLabels input = [] \<and> ciMilestone input = []")
    case True
    then show ?thesis using assms limits
      by (auto simp: resolveCreateIssueInput_def bindM_eq_Inr createVerified_def)
  next
    case False
    define mm where "mm = (if ciMilestone input \<noteq> [] then resolveMilestone w c (ciOwner input) (ciRepo input) (ciMilestone input) else ret 0)"
    define aa where "aa = (if ciAssignee input \<noteq> [] then resolveAssignee w c (ciAssignee input) else ret ())"
    obtain s1 s2 s3 ids milestone message where run: "requirePush w c (ciOwner input) (ciRepo input) message s = (Inr (), s1)"
      "resolveLabels w c input s1 = (Inr ids, s2)" "mm s2 = (Inr milestone, s3)" "aa s3 = (Inr (), t)"
      and options: "options = \<lparr>coTitle = ciTitle input, coBody = ciBody input, coAssignee = ciAssignee input,
        coLabelIDs = ids, coMilestoneID = milestone\<rparr>"
      using assms False unfolding resolveCreateIssueInput_def mm_def [symmetric] aa_def [symmetric]
      by (auto simp: bindM_eq_Inr Let_def)
    note p = requirePush_Inr [OF run(1)] and l = resolveLabels_Inr [OF run(2)]
    have m: "extends s2 s3" "ciMilestone input = [] \<and> milestone = 0
        \<or> (\<exists>ms. during s2 s3 (ListRepositoryMilestones w c (ciOwner input) (ciRepo input)) ms
             \<and> (\<exists>m \<in> set ms. rmTitle m = ciMilestone input \<and> rmID m = milestone))"
      using run(3) resolveMilestone_Inr [of w c "ciOwner input" "ciRepo input" "ciMilestone input" s2 milestone s3]
      by (simp_all add: mm_def split: if_splits)
    have a: "extends s3 t" "ciAssignee input = [] \<or> during s3 t (UserExists w c (ciAssignee input)) True"
      using run(4) resolveAssignee_Inr [of w c "ciAssignee input" s3 "()" t] by (simp_all add: aa_def split: if_splits)
    have s2: "extends s s2" using p(1) l(1) by (rule extends_trans)
    have s3: "extends s s3" using s2 m(1) by (rule extends_trans)
    have t2: "extends s2 t" using m(1) a(1) by (rule extends_trans)
    have t1: "extends s1 t" using l(1) t2 by (rule extends_trans)
    have "\<exists>repository. during s t (GetRepository w c (ciOwner input) (ciRepo input)) repository
        \<and> permPush (repoPermissions repository)"
      by (rule during_ex_mono [OF p(2) extends_refl t1])
    moreover have "ciLabels input = [] \<and> ids = [] \<or> (\<exists>labels. during s t (ListRepositoryLabels w c (ciOwner input) (ciRepo input)) labels
        \<and> labelsKnown labels (ciLabels input) ids)"
      using l(2) by (elim disjE) (rule disjI1, assumption, rule disjI2, erule during_ex_mono [OF _ p(1) t2])
    moreover have "ciMilestone input = [] \<and> milestone = 0
        \<or> (\<exists>ms. during s t (ListRepositoryMilestones w c (ciOwner input) (ciRepo input)) ms
             \<and> (\<exists>m \<in> set ms. rmTitle m = ciMilestone input \<and> rmID m = milestone))"
      using m(2) by (elim disjE) (rule disjI1, assumption, rule disjI2, erule during_ex_mono [OF _ s2 a(1)])
    moreover have "ciAssignee input = [] \<or> during s t (UserExists w c (ciAssignee input)) True"
      using a(2) by (elim disjE) (rule disjI1, assumption, rule disjI2, erule during_mono [OF _ s3 extends_refl])
    ultimately show ?thesis using limits by (simp add: createVerified_def options)
  qed
qed

lemma bindM_ret_state: "snd (bindM m (\<lambda>x. ret (f x)) s) = snd (m s)"
  by (cases "m s"; cases "fst (m s)") (auto simp: bindM_def)

lemma writeJSON_sent: "sent (snd (writeJSON w c verb dec payload segments st)) = sent st @ [mkRequest c verb [] payload segments]"
  by (auto simp: writeJSON_def httpDo_def Let_def split: httpOutcome.splits option.splits)

lemma CreateIssue_sent: "sent (snd (CreateIssue w c owner repo options st))
    = sent st @ [mkRequest c ''POST'' [] (createPayload options) [''repos'', owner, repo, ''issues'']]"
  by (simp add: CreateIssue_def bindM_ret_state postJSON_def writeJSON_sent)

lemma UpdateIssue_sent: "sent (snd (UpdateIssue w c owner repo number options st))
    = sent st @ [mkRequest c ''PATCH'' [] (updatePayload options) [''repos'', owner, repo, ''issues'', formatInt number]]"
  by (simp add: UpdateIssue_def bindM_ret_state patchJSON_def writeJSON_sent)

text \<open>A tool that resolves its input and then writes: either only the reads of the resolution are sent and the
  answer is an error, or one write follows them.\<close>

lemma resolved_write:
  assumes resolve: "sends (isRead c) n resolve"
    and effect: "\<And>options t. sent (snd (act options t)) = sent t @ [req options]"
    and run: "runTool requestID (bindM resolve act) respond st = (r, st')"
  shows "\<exists>t reads writes. sent t = sent st @ reads \<and> list_all (isRead c) reads \<and> length reads \<le> n
    \<and> sent st' = sent st @ reads @ writes
    \<and> (writes = [] \<and> (\<exists>err. r = Inr (contentError requestID err))
       \<or> (\<exists>options. resolve st = (Inr options, t) \<and> writes = [req options] \<and> (\<exists>result. r = Inr result)))"
proof -
  obtain x t where x: "resolve st = (x, t)" by (cases "resolve st")
  with resolve obtain reads where reads: "sent t = sent st @ reads" "list_all (isRead c) reads" "length reads \<le> n"
    unfolding sends_def by (metis snd_conv)
  show ?thesis
  proof (cases x)
    case (Inl err)
    then have "r = Inr (contentError requestID err)" "st' = t" using run x by (simp_all add: runTool_def)
    then show ?thesis using reads by (intro exI [of _ t] exI [of _ reads] exI [of _ "[]"]) auto
  next
    case (Inr options)
    obtain y u where y: "act options t = (y, u)" by (cases "act options t")
    have "bindM resolve act st = (y, u)" using x y Inr by simp
    then have "st' = u" "\<exists>result. r = Inr result" using run by (auto simp: runTool_def split: sum.splits)
    moreover have "sent u = sent t @ [req options]" using effect [of options t] y by simp
    ultimately show ?thesis
      using reads x Inr by (intro exI [of _ t] exI [of _ reads] exI [of _ "[req options]"]) auto
  qed
qed

text \<open>C6: Creating an issue sends only reads, at most twelve, and after them at most one write. The write is
  the POST of the issue, with the title and body of the input, both within their limits; when it names an
  assignee, labels or a milestone, then Gogs has reported push permission on the repository during this
  call, every label and the milestone are ones Gogs has listed with that name, and the assignee exists.
  Without the write the answer is an error.\<close>

theorem create_issue_verified:
  assumes "createIssueTool w c requestID input st = (r, st')"
  shows "\<exists>t reads writes. sent t = sent st @ reads \<and> list_all (isRead c) reads \<and> length reads \<le> 12
    \<and> sent st' = sent st @ reads @ writes
    \<and> (writes = [] \<and> (\<exists>err. r = Inr (contentError requestID err))
       \<or> (\<exists>options. createVerified w c st t input options \<and> (\<exists>result. r = Inr result)
           \<and> writes = [mkRequest c ''POST'' [] (createPayload options) [''repos'', ciOwner input, ciRepo input, ''issues'']]))"
proof -
  from resolved_write [OF sends_resolveCreate CreateIssue_sent assms [unfolded createIssueTool_def]]
  obtain t reads writes where w: "sent t = sent st @ reads" "list_all (isRead c) reads" "length reads \<le> 12"
    "sent st' = sent st @ reads @ writes"
    "writes = [] \<and> (\<exists>err. r = Inr (contentError requestID err))
     \<or> (\<exists>options. resolveCreateIssueInput w c input st = (Inr options, t)
         \<and> writes = [mkRequest c ''POST'' [] (createPayload options) [''repos'', ciOwner input, ciRepo input, ''issues'']]
         \<and> (\<exists>result. r = Inr result))"
    by (elim exE conjE)
  from w(5) have "writes = [] \<and> (\<exists>err. r = Inr (contentError requestID err))
     \<or> (\<exists>options. createVerified w c st t input options \<and> (\<exists>result. r = Inr result)
         \<and> writes = [mkRequest c ''POST'' [] (createPayload options) [''repos'', ciOwner input, ciRepo input, ''issues'']])"
  proof (elim disjE exE)
    fix options
    assume run: "resolveCreateIssueInput w c input st = (Inr options, t)
         \<and> writes = [mkRequest c ''POST'' [] (createPayload options) [''repos'', ciOwner input, ciRepo input, ''issues'']]
         \<and> (\<exists>result. r = Inr result)"
    then have "createVerified w c st t input options" by (intro resolveCreate_Inr) simp
    then show ?thesis using run by (intro disjI2 exI [of _ options] conjI) simp_all
  qed (rule disjI1)
  then show ?thesis using w(1-4) by (intro exI [of _ t] exI [of _ reads] exI [of _ writes] conjI)
qed

text \<open>What has been verified about an update, with the milestone it sets.\<close>

definition updateVerified :: "httpWorld \<Rightarrow> Client \<Rightarrow> clientState \<Rightarrow> clientState \<Rightarrow> updateIssueInput \<Rightarrow> int option \<Rightarrow> bool" where
  "updateVerified w c s t input milestone \<longleftrightarrow>
     (case uiTitle input of None \<Rightarrow> True | Some title \<Rightarrow> int (length (goRunes title)) \<le> 255)
     \<and> (case uiBody input of None \<Rightarrow> True | Some body \<Rightarrow> int (length body) \<le> 1048576)
     \<and> (if uiAssignee input = None \<and> uiMilestone input = None then updateCount input \<noteq> 0
        else (\<exists>repository. during s t (GetRepository w c (uiOwner input) (uiRepo input)) repository
             \<and> permPush (repoPermissions repository)))
     \<and> (case uiAssignee input of None \<Rightarrow> True | Some username \<Rightarrow> username = [] \<or> during s t (UserExists w c username) True)
     \<and> (case uiMilestone input of None \<Rightarrow> milestone = None
        | Some title \<Rightarrow> title = [] \<and> milestone = Some 0
          \<or> (\<exists>ms. during s t (ListRepositoryMilestones w c (uiOwner input) (uiRepo input)) ms
             \<and> (\<exists>m \<in> set ms. rmTitle m = title \<and> milestone = Some (rmID m))))"

definition updateOptions :: "updateIssueInput \<Rightarrow> int option \<Rightarrow> UpdateIssueOptions" where
  "updateOptions input milestone =
     \<lparr>uoTitle = (case uiTitle input of None \<Rightarrow> [] | Some title \<Rightarrow> title), uoBody = uiBody input,
      uoAssignee = uiAssignee input, uoMilestone = milestone,
      uoState = (if uiState input \<noteq> [] then Some (uiState input) else None)\<rparr>"

lemma resolveUpdate_Inr:
  assumes "resolveUpdateIssueInput w c input s = (Inr options, t)"
  shows "\<exists>milestone. options = updateOptions input milestone \<and> updateVerified w c s t input milestone"
proof -
  have limits: "case uiTitle input of None \<Rightarrow> True | Some title \<Rightarrow> int (length (goRunes title)) \<le> 255"
    "case uiBody input of None \<Rightarrow> True | Some body \<Rightarrow> int (length body) \<le> 1048576"
    using assms by (auto simp: resolveUpdateIssueInput_def bindM_eq_Inr checks_Inr checkOption_def split: option.splits)
  show ?thesis
  proof (cases "uiAssignee input = None \<and> uiMilestone input = None")
    case True
    then have "updateCount input \<noteq> 0" "options = updateOptions input None"
      using assms by (auto simp: resolveUpdateIssueInput_def bindM_eq_Inr updateOptions_def split: if_splits)
    then show ?thesis using True limits by (intro exI [of _ None]) (simp add: updateVerified_def)
  next
    case False
    define aa where "aa = (case uiAssignee input of None \<Rightarrow> ret () | Some username \<Rightarrow>
                if username \<noteq> [] then resolveAssignee w c username else ret ())"
    define mm where "mm = (case uiMilestone input of None \<Rightarrow> ret None | Some title \<Rightarrow>
                if title \<noteq> [] then bindM (resolveMilestone w c (uiOwner input) (uiRepo input) title) (\<lambda>found. ret (Some found))
                else ret (Some 0))"
    obtain s1 s2 milestone message where run: "requirePush w c (uiOwner input) (uiRepo input) message s = (Inr (), s1)"
      "aa s1 = (Inr (), s2)" "mm s2 = (Inr milestone, t)"
      and options: "options = updateOptions input milestone"
      using assms False unfolding resolveUpdateIssueInput_def mm_def [symmetric] aa_def [symmetric]
      by (auto simp: bindM_eq_Inr Let_def updateOptions_def)
    note p = requirePush_Inr [OF run(1)]
    have a: "extends s1 s2" "case uiAssignee input of None \<Rightarrow> True
        | Some username \<Rightarrow> username = [] \<or> during s1 s2 (UserExists w c username) True"
      using run(2) resolveAssignee_Inr [of w c _ s1 "()" s2] by (auto simp: aa_def split: if_splits option.splits)
    have m: "extends s2 t" "case uiMilestone input of None \<Rightarrow> milestone = None
        | Some title \<Rightarrow> title = [] \<and> milestone = Some 0
          \<or> (\<exists>ms. during s2 t (ListRepositoryMilestones w c (uiOwner input) (uiRepo input)) ms
             \<and> (\<exists>m \<in> set ms. rmTitle m = title \<and> milestone = Some (rmID m)))"
    proof -
      have both: "extends s2 t \<and> (case uiMilestone input of None \<Rightarrow> milestone = None
        | Some title \<Rightarrow> title = [] \<and> milestone = Some 0
          \<or> (\<exists>ms. during s2 t (ListRepositoryMilestones w c (uiOwner input) (uiRepo input)) ms
             \<and> (\<exists>m \<in> set ms. rmTitle m = title \<and> milestone = Some (rmID m))))"
      proof (cases "uiMilestone input = None \<or> uiMilestone input = Some []")
        case True
        then show ?thesis using run(3) by (auto simp: mm_def)
      next
        case False
        then obtain title i where ti: "uiMilestone input = Some title" "milestone = Some i"
          "resolveMilestone w c (uiOwner input) (uiRepo input) title s2 = (Inr i, t)"
          using run(3) by (auto simp: mm_def bindM_eq_Inr)
        note found = resolveMilestone_Inr [OF ti(3)]
        from found(3) obtain ms m where "during s2 t (ListRepositoryMilestones w c (uiOwner input) (uiRepo input)) ms"
          "m \<in> set ms" "rmTitle m = title" "rmID m = i" by (elim exE conjE bexE)
        then show ?thesis using found(1) ti(1,2) by auto
      qed
      show "extends s2 t" by (rule conjunct1 [OF both])
      show "case uiMilestone input of None \<Rightarrow> milestone = None
        | Some title \<Rightarrow> title = [] \<and> milestone = Some 0
          \<or> (\<exists>ms. during s2 t (ListRepositoryMilestones w c (uiOwner input) (uiRepo input)) ms
             \<and> (\<exists>m \<in> set ms. rmTitle m = title \<and> milestone = Some (rmID m)))" by (rule conjunct2 [OF both])
    qed
    have s2: "extends s s2" using p(1) a(1) by (rule extends_trans)
    have t1: "extends s1 t" using a(1) m(1) by (rule extends_trans)
    have "\<exists>repository. during s t (GetRepository w c (uiOwner input) (uiRepo input)) repository
        \<and> permPush (repoPermissions repository)"
      by (rule during_ex_mono [OF p(2) extends_refl t1])
    moreover have "case uiAssignee input of None \<Rightarrow> True
        | Some username \<Rightarrow> username = [] \<or> during s t (UserExists w c username) True"
      using a(2) by (cases "uiAssignee input") (simp, auto intro: during_mono [OF _ p(1) m(1)])
    moreover have "case uiMilestone input of None \<Rightarrow> milestone = None
        | Some title \<Rightarrow> title = [] \<and> milestone = Some 0
          \<or> (\<exists>ms. during s t (ListRepositoryMilestones w c (uiOwner input) (uiRepo input)) ms
             \<and> (\<exists>m \<in> set ms. rmTitle m = title \<and> milestone = Some (rmID m)))"
    proof (cases "uiMilestone input")
      case (Some title)
      then show ?thesis using m(2)
        by simp (elim disjE, rule disjI1, assumption, rule disjI2, erule during_ex_mono [OF _ s2 extends_refl])
    qed (use m(2) in simp)
    ultimately show ?thesis
      unfolding updateVerified_def if_not_P [OF False] using limits
      by (intro exI [of _ milestone] conjI options)
  qed
qed

text \<open>C7: Updating an issue sends only reads, at most nine, and after them at most one write: the PATCH of that
  issue with exactly the fields the input sets, the milestone by its identifier. An assignee or milestone
  is only sent after Gogs has reported push permission during this call, and names a user that exists or a
  milestone Gogs has listed, or clears the field. An input that sets nothing sends no write; without the
  write the answer is an error.\<close>

theorem update_issue_verified:
  assumes "updateIssueTool w c requestID input st = (r, st')"
  shows "\<exists>t reads writes. sent t = sent st @ reads \<and> list_all (isRead c) reads \<and> length reads \<le> 9
    \<and> sent st' = sent st @ reads @ writes
    \<and> (writes = [] \<and> (\<exists>err. r = Inr (contentError requestID err))
       \<or> (\<exists>milestone. updateVerified w c st t input milestone \<and> (\<exists>result. r = Inr result)
           \<and> writes = [mkRequest c ''PATCH'' [] (JObj
               ((if uiTitle input \<in> {None, Some []} then [] else [(''title'', JStr (the (uiTitle input)))])
                @ optField ''body'' JStr (uiBody input) @ optField ''assignee'' JStr (uiAssignee input)
                @ optField ''milestone'' JNum milestone
                @ (if uiState input = [] then [] else [(''state'', JStr (uiState input))])))
             [''repos'', uiOwner input, uiRepo input, ''issues'', formatInt (uiNumber input)]]))"
proof -
  have payload: "updatePayload (updateOptions input milestone) = JObj
               ((if uiTitle input \<in> {None, Some []} then [] else [(''title'', JStr (the (uiTitle input)))])
                @ optField ''body'' JStr (uiBody input) @ optField ''assignee'' JStr (uiAssignee input)
                @ optField ''milestone'' JNum milestone
                @ (if uiState input = [] then [] else [(''state'', JStr (uiState input))]))" for milestone
    by (cases "uiTitle input") (auto simp: updatePayload_def updateOptions_def optField_def)
  from resolved_write [OF sends_resolveUpdate UpdateIssue_sent assms [unfolded updateIssueTool_def]]
  obtain t reads writes where w: "sent t = sent st @ reads" "list_all (isRead c) reads" "length reads \<le> 9"
    "sent st' = sent st @ reads @ writes"
    "writes = [] \<and> (\<exists>err. r = Inr (contentError requestID err))
     \<or> (\<exists>options. resolveUpdateIssueInput w c input st = (Inr options, t)
         \<and> writes = [mkRequest c ''PATCH'' [] (updatePayload options)
             [''repos'', uiOwner input, uiRepo input, ''issues'', formatInt (uiNumber input)]]
         \<and> (\<exists>result. r = Inr result))"
    by (elim exE conjE)
  have "writes = [] \<and> (\<exists>err. r = Inr (contentError requestID err))
       \<or> (\<exists>milestone. updateVerified w c st t input milestone \<and> (\<exists>result. r = Inr result)
           \<and> writes = [mkRequest c ''PATCH'' [] (JObj
               ((if uiTitle input \<in> {None, Some []} then [] else [(''title'', JStr (the (uiTitle input)))])
                @ optField ''body'' JStr (uiBody input) @ optField ''assignee'' JStr (uiAssignee input)
                @ optField ''milestone'' JNum milestone
                @ (if uiState input = [] then [] else [(''state'', JStr (uiState input))])))
             [''repos'', uiOwner input, uiRepo input, ''issues'', formatInt (uiNumber input)]])"
    using w(5)
  proof (elim disjE exE)
    fix options
    assume run: "resolveUpdateIssueInput w c input st = (Inr options, t)
         \<and> writes = [mkRequest c ''PATCH'' [] (updatePayload options)
             [''repos'', uiOwner input, uiRepo input, ''issues'', formatInt (uiNumber input)]]
         \<and> (\<exists>result. r = Inr result)"
    then obtain milestone where "options = updateOptions input milestone" "updateVerified w c st t input milestone"
      using resolveUpdate_Inr by blast
    then show ?thesis using run unfolding payload [symmetric]
      by (intro disjI2 exI [of _ milestone] conjI) simp_all
  qed (rule disjI1)
  then show ?thesis using w(1-4) by (intro exI [of _ t] exI [of _ reads] exI [of _ writes] conjI)
qed

text \<open>A server that knows one label, one milestone and one user.\<close>

definition forge :: httpWorld where
  "forge = \<lparr>doRequest = (\<lambda>h rq. Response 200 [] (rqMethod rq @ rqPath rq) None None), waitCanceled = (\<lambda>_ _. None),
     parseJSON = (\<lambda>s. Some
       (if s = ''GET/api/v1/repos/o/r'' then JObj [(''permissions'', JObj [(''push'', JBool True)])]
        else if s = ''GET/api/v1/repos/o/r/labels'' then JArr [JObj [(''id'', JNum 4), (''name'', JStr ''bug'')]]
        else if s = ''GET/api/v1/repos/o/r/milestones'' then JArr [JObj [(''id'', JNum 9), (''title'', JStr ''v1'')]]
        else if s = ''GET/api/v1/users/ann/repos'' then JArr []
        else JObj [(''number'', JNum 7)]))\<rparr>"

definition sampleIssue :: createIssueInput where
  "sampleIssue = \<lparr>ciOwner = ''o'', ciRepo = ''r'', ciTitle = ''t'', ciBody = ''b'', ciAssignee = ''ann'',
     ciLabels = [''bug''], ciMilestone = ''v1''\<rparr>"

definition sampleUpdate :: updateIssueInput where
  "sampleUpdate = \<lparr>uiOwner = ''o'', uiRepo = ''r'', uiNumber = 7, uiTitle = None, uiBody = Some [], uiAssignee = Some [],
     uiMilestone = Some ''v1'', uiState = ''closed''\<rparr>"

theorem create_issue_verified_witness:
  "map rqMethod (sent (snd (createIssueTool forge someClient ''id'' sampleIssue freshState))) = [''GET'', ''GET'', ''GET'', ''GET'', ''POST'']
   \<and> rqPayload (last (sent (snd (createIssueTool forge someClient ''id'' sampleIssue freshState))))
     = JObj [(''title'', JStr ''t''), (''body'', JStr ''b''), (''assignee'', JStr ''ann''), (''milestone'', JNum 9), (''labels'', JArr [JNum 4])]
   \<and> (\<exists>reads writes. sent (snd (createIssueTool forge someClient ''id'' sampleIssue freshState)) = reads @ writes
       \<and> list_all (isRead someClient) reads \<and> length reads \<le> 12 \<and> length writes \<le> 1)"
proof (intro conjI)
  let ?run = "createIssueTool forge someClient ''id'' sampleIssue freshState"
  show "map rqMethod (sent (snd ?run)) = [''GET'', ''GET'', ''GET'', ''GET'', ''POST'']" by code_simp
  show "rqPayload (last (sent (snd ?run)))
     = JObj [(''title'', JStr ''t''), (''body'', JStr ''b''), (''assignee'', JStr ''ann''), (''milestone'', JNum 9), (''labels'', JArr [JNum 4])]"
    by code_simp
  obtain reads writes where "sent (snd ?run) = sent freshState @ reads @ writes" "list_all (isRead someClient) reads"
    "length reads \<le> 12" "writes = [] \<or> (\<exists>q. writes = [q])"
    using create_issue_verified [of forge someClient "''id''" sampleIssue freshState "fst ?run" "snd ?run", OF prod.collapse [symmetric]]
    by (elim exE conjE) (erule disjE, blast+)
  moreover from this(4) have "length writes \<le> 1" by (elim disjE exE) simp_all
  ultimately show "\<exists>reads writes. sent (snd ?run) = reads @ writes
       \<and> list_all (isRead someClient) reads \<and> length reads \<le> 12 \<and> length writes \<le> 1"
    by (intro exI [of _ reads] exI [of _ writes]) (simp add: freshState_def)
qed

theorem update_issue_verified_witness:
  "map rqMethod (sent (snd (updateIssueTool forge someClient ''id'' sampleUpdate freshState))) = [''GET'', ''GET'', ''PATCH'']
   \<and> rqPayload (last (sent (snd (updateIssueTool forge someClient ''id'' sampleUpdate freshState))))
     = JObj [(''body'', JStr []), (''assignee'', JStr []), (''milestone'', JNum 9), (''state'', JStr ''closed'')]
   \<and> (\<exists>reads writes. sent (snd (updateIssueTool forge someClient ''id'' sampleUpdate freshState)) = reads @ writes
       \<and> list_all (isRead someClient) reads \<and> length reads \<le> 9 \<and> length writes \<le> 1)"
proof (intro conjI)
  let ?run = "updateIssueTool forge someClient ''id'' sampleUpdate freshState"
  show "map rqMethod (sent (snd ?run)) = [''GET'', ''GET'', ''PATCH'']" by code_simp
  show "rqPayload (last (sent (snd ?run)))
     = JObj [(''body'', JStr []), (''assignee'', JStr []), (''milestone'', JNum 9), (''state'', JStr ''closed'')]"
    by code_simp
  obtain reads writes where "sent (snd ?run) = sent freshState @ reads @ writes" "list_all (isRead someClient) reads"
    "length reads \<le> 9" "writes = [] \<or> (\<exists>q. writes = [q])"
    using update_issue_verified [of forge someClient "''id''" sampleUpdate freshState "fst ?run" "snd ?run", OF prod.collapse [symmetric]]
    by (elim exE conjE) (erule disjE, blast+)
  moreover from this(4) have "length writes \<le> 1" by (elim disjE exE) simp_all
  ultimately show "\<exists>reads writes. sent (snd ?run) = reads @ writes
       \<and> list_all (isRead someClient) reads \<and> length reads \<le> 9 \<and> length writes \<le> 1"
    by (intro exI [of _ reads] exI [of _ writes]) (simp add: freshState_def)
qed

section \<open>Walking the comments of an issue\<close>

text \<open>A comment as a listing shows it: with the first 256 bytes of its body.\<close>

definition shownComment :: "IssueComment \<Rightarrow> IssueCommentView" where
  "shownComment comment =
     (case bodyChunk (icBody comment) 0 256 of (chunk, following) \<Rightarrow>
       (toolIssueComment comment)\<lparr>cvBody := chunk, cvNextBodyOffset := following\<rparr>)"

lemma cvID_shown [simp]: "cvID (shownComment k) = icID k"
  by (simp add: shownComment_def toolIssueComment_def split: prod.split)

lemma boundComments_listing:
  "lcCommentID input = 0 \<Longrightarrow> boundComments input (map toolIssueComment ks) = Inr (map shownComment ks)"
  by (induction ks) (auto simp: shownComment_def toolIssueComment_def split: prod.split)

lemma after_last:
  fixes key :: "'a \<Rightarrow> int"
  assumes "sorted_wrt (\<lambda>a b. key a < key b) (ys @ zs)" "ys \<noteq> []"
  shows "filter (\<lambda>x. key (last ys) < key x) (ys @ zs) = zs"
proof -
  obtain us x where ys: "ys = us @ [x]" using assms(2) by (metis append_butlast_last_id)
  have "filter (\<lambda>y. key x < key y) us = []" "filter (\<lambda>y. key x < key y) zs = zs"
    using assms(1) ys by (auto simp: sorted_wrt_append filter_empty_conv filter_id_conv intro: less_asym')
  then show ?thesis by (simp add: ys)
qed

lemma commentsWithin_spec:
  assumes "commentsWithin ks m = (selected, dropped)"
  shows "\<exists>rest. ks = selected @ rest" "ks \<noteq> [] \<Longrightarrow> jsonLen (encIssueComment (hd ks)) \<le> m \<Longrightarrow> selected \<noteq> []"
proof -
  show "\<exists>rest. ks = selected @ rest" using takeWithin_prefix [OF assms [unfolded commentsWithin_def]] by blast
  show "ks \<noteq> [] \<Longrightarrow> jsonLen (encIssueComment (hd ks)) \<le> m \<Longrightarrow> selected \<noteq> []"
    using assms by (cases ks) (auto simp: commentsWithin_def Let_def split: prod.splits if_splits)
qed

text \<open>The entries of a page and the identifier to continue after, if any.\<close>

definition commentAnswer :: "(goerr + IssueCommentPage toolResult) \<times> clientState \<Rightarrow> IssueCommentView list \<times> int option" where
  "commentAnswer answer =
     (case fst answer of
        Inr (_, response) \<Rightarrow> (case respData response of
            Some p \<Rightarrow> (kpComments p, if NextAfterID (respMeta response) = 0 then None else Some (NextAfterID (respMeta response)))
          | None \<Rightarrow> ([], None))
      | Inl _ \<Rightarrow> ([], None))"

lemma commentPage_answer:
  assumes "1 \<le> m" "mapped = [] \<or> jsonLen (encIssueComment (hd mapped)) \<le> maximumFileTextBytes"
    and "\<forall>k \<in> set mapped. 0 < cvID k"
  shows "\<exists>selected rest. mapped = selected @ rest \<and> (mapped \<noteq> [] \<longrightarrow> selected \<noteq> [])
    \<and> commentAnswer (Inr (commentPage requestID input m mapped), st)
      = (selected, if rest = [] then None else Some (cvID (last selected)))"
proof -
  obtain selected dropped where c: "commentsWithin (take (nat m) mapped) maximumFileTextBytes = (selected, dropped)"
    by (cases "commentsWithin (take (nat m) mapped) maximumFileTextBytes")
  obtain rest where rest: "take (nat m) mapped = selected @ rest" using commentsWithin_spec(1) [OF c] by blast
  define tail where "tail = rest @ drop (nat m) mapped"
  have split: "mapped = selected @ tail" using rest by (metis append_assoc append_take_drop_id tail_def)
  have some: "selected \<noteq> []" if "mapped \<noteq> []"
  proof -
    have "take (nat m) mapped \<noteq> []" "hd (take (nat m) mapped) = hd mapped" using that assms(1) by (cases mapped; cases "nat m"; simp)+
    then show ?thesis using commentsWithin_spec(2) [OF c] assms(2) that by simp
  qed
  have pos: "0 < cvID (last selected)" if "selected \<noteq> []" using that split assms(3) by simp
  have "commentAnswer (Inr (commentPage requestID input m mapped), st)
      = (selected, if tail = [] then None else Some (cvID (last selected)))"
    using c some pos split
    by (cases "selected = []") (auto simp: commentAnswer_def commentPage_def toolData_def Let_def metaFor_def)
  then show ?thesis using split some by blast
qed

definition listInput :: "listIssueCommentsInput \<Rightarrow> IssueComment list \<Rightarrow> bool" where
  "listInput input comments \<longleftrightarrow> lcCommentID input = 0 \<and> lcBodyOffset input = 0 \<and> distinct (map icID comments)
     \<and> (\<forall>k \<in> set comments. 0 < icID k \<and> jsonLen (encIssueComment (shownComment k)) \<le> maximumFileTextBytes)"

lemma comments_walk:
  fixes f
  assumes listing: "listInput input comments" and max: "1 \<le> m"
    and f: "\<And>a. f a = commentAnswer (Inr (commentPage requestID (input\<lparr>lcAfterID := a\<rparr>) m
        (map shownComment (commentsAfter (input\<lparr>lcAfterID := a\<rparr>) comments))), st)"
  defines "S \<equiv> sortSlice (\<lambda>a b. icID a < icID b) comments"
  shows "S = ys @ zs \<Longrightarrow> ys = [] \<and> a = 0 \<or> ys \<noteq> [] \<and> a = icID (last ys) \<Longrightarrow> length zs < fuel \<Longrightarrow>
    followPages f fuel a = Some (map shownComment zs)"
proof (induction fuel arbitrary: ys zs a)
  case 0
  then show ?case by simp
next
  case (Suc fuel)
  have "sorted_wrt (\<lambda>a b. \<not> icID b < icID a) S" unfolding S_def by (rule sorted_sortSlice) auto
  moreover have "distinct (map icID S)"
    using listing unfolding S_def listInput_def by (metis mset_map mset_sortSlice mset_eq_imp_distinct_iff)
  ultimately have strict: "sorted_wrt (\<lambda>a b. icID a < icID b) S"
    by (auto simp: sorted_wrt_iff_nth_less distinct_conv_nth) (metis linorder_neqE_linordered_idom nat_neq_iff order_less_trans)
  have members: "0 < icID k" "jsonLen (encIssueComment (shownComment k)) \<le> maximumFileTextBytes" if "k \<in> set S" for k
    using listing that by (simp_all add: listInput_def S_def)
  have wanted: "filter (wantedComment (input\<lparr>lcAfterID := a\<rparr>)) S = filter (\<lambda>k. a < icID k) S"
    using listing by (intro filter_cong) (simp_all add: wantedComment_def listInput_def)
  have after: "commentsAfter (input\<lparr>lcAfterID := a\<rparr>) comments = zs"
  proof (cases "ys = []")
    case True
    then show ?thesis using Suc.prems(1,2) members(1) wanted
      by (simp add: commentsAfter_def S_def [symmetric] filter_id_conv)
  next
    case False
    then have "filter (\<lambda>k. a < icID k) S = zs"
      using after_last [of icID ys zs] strict Suc.prems(1,2) by simp
    then show ?thesis using wanted by (simp add: commentsAfter_def S_def [symmetric])
  qed
  obtain selected rest where page: "map shownComment zs = selected @ rest" "zs \<noteq> [] \<longrightarrow> selected \<noteq> []"
    "f a = (selected, if rest = [] then None else Some (cvID (last selected)))"
  proof -
    have "zs = [] \<or> jsonLen (encIssueComment (hd (map shownComment zs))) \<le> maximumFileTextBytes"
      using members(2) Suc.prems(1) by (cases zs) auto
    moreover have "\<forall>k \<in> set (map shownComment zs). 0 < cvID k" using members(1) Suc.prems(1) by auto
    ultimately show thesis
      using commentPage_answer [of m "map shownComment zs" requestID "input\<lparr>lcAfterID := a\<rparr>" st] max that
      unfolding f after by auto
  qed
  define n where "n = length selected"
  have sel: "selected = map shownComment (take n zs)" "rest = map shownComment (drop n zs)"
    using page(1) by (simp_all add: n_def take_map [symmetric] drop_map [symmetric])
  show ?case
  proof (cases "rest = []")
    case True
    then show ?thesis using page(1,3) by simp
  next
    case False
    then have ne: "take n zs \<noteq> []" using page(1,2) sel(1) by auto
    have "followPages f fuel (icID (last (take n zs))) = Some (map shownComment (drop n zs))"
    proof (rule Suc.IH [of "ys @ take n zs"])
      show "S = (ys @ take n zs) @ drop n zs" using Suc.prems(1) by simp
      show "ys @ take n zs = [] \<and> icID (last (take n zs)) = 0
          \<or> ys @ take n zs \<noteq> [] \<and> icID (last (take n zs)) = icID (last (ys @ take n zs))" using ne by simp
      have "0 < n" "zs \<noteq> []" using ne by (cases n; simp)+
      then show "length (drop n zs) < fuel" using Suc.prems(3) by (cases zs) simp_all
    qed
    moreover have "cvID (last selected) = icID (last (take n zs))" using ne sel(1) by (simp add: last_map)
    ultimately show ?thesis using page(1,3) False sel(2) by simp
  qed
qed


definition commentServer :: httpWorld where
  "commentServer = \<lparr>doRequest = (\<lambda>h rq. Response 200 [] [] None None), waitCanceled = (\<lambda>_ _. None),
     parseJSON = (\<lambda>s. Some (JArr [JObj [(''id'', JNum 5), (''body'', JStr ''b'')], JObj [(''id'', JNum 3), (''body'', JStr ''a'')]]))\<rparr>"

definition sampleListing :: listIssueCommentsInput where
  "sampleListing = \<lparr>lcAfterID = 0, lcCommentID = 0, lcBodyOffset = 0, lcBodyMaxBytes = 8192, lcOwner = ''o'', lcRepo = ''r'',
     lcNumber = 1, lcSince = [], lcMaxComments = 1\<rparr>"


end
