(* ===== verification/ToolPulls.thy ===== *)
theory ToolPulls
  imports Pulls ToolIssues
begin

text \<open>
  internal/mcpserver/pulls.go: the pull request tools. They work on the state of the pull engine, whose client
  state holds the requests sent. The warnings of a diff follow its fields.
\<close>

section \<open>What the tools show\<close>

record PullRequestSummaryView =
  pvNumber :: int
  pvTitle :: string
  pvState :: string
  pvUser :: IssueUser
  pvNumComments :: int
  pvCreatedAt :: string
  pvUpdatedAt :: string
  pvHeadSHA :: string

record PullRequestPage =
  ppTotalScope :: string
  ppPullRequests :: "PullRequestSummaryView list"
  ppState :: string
  ppLimit :: int
  ppTotal :: int

record PullRequestView =
  pwNumber :: int
  pwTitle :: string
  pwBody :: string
  pwState :: string
  pwUser :: IssueUser
  pwLabels :: "IssueLabel list"
  pwNumComments :: int
  pwCreatedAt :: string
  pwUpdatedAt :: string
  pwWebURL :: string
  pwHeadSHA :: string
  pwBaseRef :: string
  pwBaseRefAssumed :: bool

record PullRequestDiffPage =
  dgNumber :: int
  dgBaseRef :: string
  dgBaseRefAssumed :: bool
  dgMergeBase :: string
  dgDiff :: string
  dgFiles :: "DiffFileStat list"
  dgCommits :: "PullCommit list"
  dgTruncated :: bool
  dgMergeState :: string
  dgMergeConflictPaths :: "string list"
  dgBaseCommits :: int

definition mapPullRequestSummaries :: "PullRequestSummary list \<Rightarrow> PullRequestSummaryView list" where
  "mapPullRequestSummaries pulls = map (\<lambda>pull.
     \<lparr>pvNumber = psNumber pull, pvTitle = psTitle pull, pvState = psState pull, pvUser = toolIssueUser (psUser pull),
      pvNumComments = psNumComments pull, pvCreatedAt = psCreatedAt pull, pvUpdatedAt = psUpdatedAt pull,
      pvHeadSHA = psHeadSHA pull\<rparr>) pulls"

definition mapPullRequest :: "PullRequest \<Rightarrow> PullRequestView" where
  "mapPullRequest pull =
     \<lparr>pwNumber = pqNumber pull, pwTitle = pqTitle pull, pwBody = pqBody pull, pwState = pqState pull,
      pwUser = toolIssueUser (pqUser pull), pwLabels = toolIssueLabels (pqLabels pull),
      pwNumComments = pqNumComments pull, pwCreatedAt = pqCreatedAt pull, pwUpdatedAt = pqUpdatedAt pull,
      pwWebURL = pqWebURL pull, pwHeadSHA = pqHeadSHA pull, pwBaseRef = pqBaseRef pull,
      pwBaseRefAssumed = pqBaseRefAssumed pull\<rparr>"

definition limitOrDefault :: "int \<Rightarrow> int \<Rightarrow> int" where
  "limitOrDefault v defaultValue = (if v \<le> 0 then defaultValue else v)"

definition mapDiffFiles :: "DiffFileStat list \<Rightarrow> DiffFileStat list" where
  "mapDiffFiles files = map (\<lambda>f. \<lparr>dfPath = dfPath f, dfStatus = dfStatus f, dfAdditions = dfAdditions f,
     dfDeletions = dfDeletions f, dfIsBinary = dfIsBinary f\<rparr>) files"

definition mapPullCommits :: "PullCommit list \<Rightarrow> PullCommit list" where
  "mapPullCommits commits = map (\<lambda>k. \<lparr>pcSHA = pcSHA k, pcMessage = pcMessage k, pcAuthor = pcAuthor k, pcDate = pcDate k\<rparr>) commits"

definition quotedPathList :: "string list \<Rightarrow> string" where
  "quotedPathList paths = joinWith '', '' (map (\<lambda>p. ''`'' @ p @ ''`'') paths)"

definition encPullSummary :: "PullRequestSummaryView \<Rightarrow> json" where
  "encPullSummary p = JObj
     (numField ''number'' (pvNumber p) @ strField ''title'' (pvTitle p) @ strField ''state'' (pvState p)
      @ [(''user'', encIssueUser (pvUser p))] @ numField ''num_comments'' (pvNumComments p)
      @ strField ''created_at'' (pvCreatedAt p) @ strField ''updated_at'' (pvUpdatedAt p) @ strField ''head_sha'' (pvHeadSHA p))"

definition encPullPage :: "PullRequestPage \<Rightarrow> json" where
  "encPullPage p = JObj
     (strField ''total_scope'' (ppTotalScope p) @ [(''pull_requests'', JArr (map encPullSummary (ppPullRequests p)))]
      @ strField ''state'' (ppState p) @ numField ''limit'' (ppLimit p) @ numField ''total'' (ppTotal p))"

definition encPull :: "PullRequestView \<Rightarrow> json" where
  "encPull p = JObj
     (numField ''number'' (pwNumber p) @ strField ''title'' (pwTitle p) @ strField ''body'' (pwBody p)
      @ strField ''state'' (pwState p) @ [(''user'', encIssueUser (pwUser p)), (''labels'', JArr (map encIssueLabel (pwLabels p)))]
      @ numField ''num_comments'' (pwNumComments p) @ strField ''created_at'' (pwCreatedAt p)
      @ strField ''updated_at'' (pwUpdatedAt p) @ strField ''web_url'' (pwWebURL p) @ strField ''head_sha'' (pwHeadSHA p)
      @ strField ''base_ref'' (pwBaseRef p) @ boolField ''base_ref_assumed'' (pwBaseRefAssumed p))"

definition encDiffFile :: "DiffFileStat \<Rightarrow> json" where
  "encDiffFile f = JObj
     (strField ''path'' (dfPath f) @ strField ''status'' (dfStatus f) @ numField ''additions'' (dfAdditions f)
      @ numField ''deletions'' (dfDeletions f) @ boolField ''is_binary'' (dfIsBinary f))"

definition encPullCommit :: "PullCommit \<Rightarrow> json" where
  "encPullCommit k = JObj
     (strField ''sha'' (pcSHA k) @ strField ''message'' (pcMessage k) @ strField ''author'' (pcAuthor k) @ strField ''date'' (pcDate k))"

definition encDiffPage :: "PullRequestDiffPage \<Rightarrow> json" where
  "encDiffPage p = JObj
     (numField ''number'' (dgNumber p) @ strField ''base_ref'' (dgBaseRef p) @ boolField ''base_ref_assumed'' (dgBaseRefAssumed p)
      @ strField ''merge_base'' (dgMergeBase p) @ strField ''diff'' (dgDiff p)
      @ [(''files'', JArr (map encDiffFile (dgFiles p))), (''commits'', JArr (map encPullCommit (dgCommits p)))]
      @ boolField ''truncated'' (dgTruncated p) @ strField ''merge_state'' (dgMergeState p)
      @ omitList ''merge_conflict_paths'' (map JStr (dgMergeConflictPaths p)) @ numField ''base_commits'' (dgBaseCommits p))"

section \<open>The tools\<close>

definition defaultPullLimitShared :: int where "defaultPullLimitShared = 30"

definition listPullRequestsTool :: "pullsWorld \<Rightarrow> Client \<Rightarrow> string \<Rightarrow> string \<Rightarrow> string \<Rightarrow> string \<Rightarrow> int \<Rightarrow> int \<Rightarrow>
    PullRequestPage toolResult pullsIO" where
  "listPullRequestsTool w c requestID owner repo inputState limit before =
     (let state = (if inputState = [] then ''open'' else inputState)
      in runTool requestID (ListPullRequests w c owner repo state limit before) (\<lambda>(pulls, tot, nxt).
           toolData \<lparr>ppTotalScope = ''all_advertised_refs'', ppPullRequests = mapPullRequestSummaries pulls, ppState = state,
               ppLimit = limitOrDefault limit defaultPullLimitShared, ppTotal = tot\<rparr>
             ((metaFor requestID)\<lparr>Truncated := (nxt > 0), NextBefore := nxt\<rparr>)))"

definition getPullRequestTool :: "pullsWorld \<Rightarrow> Client \<Rightarrow> string \<Rightarrow> string \<Rightarrow> string \<Rightarrow> int \<Rightarrow> int \<Rightarrow> int \<Rightarrow>
    PullRequestView toolResult pullsIO" where
  "getPullRequestTool w c requestID owner repo number bodyOffset bodyMaxBytes =
     runTool requestID (GetPullRequest w c owner repo number) (\<lambda>pull.
       case validateBodyOffset (pqBody pull) bodyOffset of
         Inl err \<Rightarrow> contentError requestID err
       | Inr _ \<Rightarrow>
           (case boundBody (pqBody pull) bodyOffset bodyMaxBytes (metaFor requestID) of (chunk, meta) \<Rightarrow>
             toolData ((mapPullRequest pull)\<lparr>pwBody := chunk\<rparr>) meta))"

definition cutWarning :: string where
  "cutWarning = ''The rendered diff was cut off at the byte limit; raise max_bytes or narrow the review with base_ref and get_file.''"

definition assumedWarning :: "string \<Rightarrow> int \<Rightarrow> string" where
  "assumedWarning baseRef commits =
     (if commits > 0 then ''The assumed base branch '' @ baseRef @ '' carries '' @ formatInt commits
        @ '' commits since the merge base; if this pull request targets a different branch (for example when branches host separate projects), pass base_ref explicitly.''
      else ''Gogs does not expose the pull request target branch; the diff uses the repository default branch. Pass base_ref to override it.'')"

definition conflictWarning :: "string list \<Rightarrow> string" where
  "conflictWarning paths = ''The pull request head and the base branch both touch '' @ quotedPathList paths
     @ '', so the merge may conflict; this is a heuristic from the changed file lists, and only a real merge can decide the outcome.''"

definition noPathsWarning :: string where
  "noPathsWarning = ''No changes matched the requested paths; the merge state still describes the whole pull request.''"

definition addWarning :: "bool \<Rightarrow> string \<Rightarrow> ResponseMeta \<Rightarrow> ResponseMeta" where
  "addWarning b warning meta = (if b then meta\<lparr>Warnings := Warnings meta @ [warning]\<rparr> else meta)"

definition diffMeta :: "string \<Rightarrow> string list \<Rightarrow> PullRequestDiff \<Rightarrow> ResponseMeta" where
  "diffMeta requestID paths diff =
     (let d = pxDiff diff;
          meta = (metaFor requestID)\<lparr>Truncated := pdTruncated d\<rparr>;
          meta = addWarning (pdTruncated d) cutWarning meta;
          meta = addWarning (pxBaseRefAssumed diff) (assumedWarning (pxBaseRef diff) (pdBaseCommits d)) meta;
          meta = addWarning (pdMergeState d = ''conflicting'') (conflictWarning (pdMergeConflictPaths d)) meta
      in addWarning (paths \<noteq> [] \<and> pdFiles d = []) noPathsWarning meta)"

definition diffPage :: "PullRequestDiff \<Rightarrow> PullRequestDiffPage" where
  "diffPage diff =
     (let d = pxDiff diff in
      \<lparr>dgNumber = pxNumber diff, dgBaseRef = pxBaseRef diff, dgBaseRefAssumed = pxBaseRefAssumed diff,
       dgMergeBase = pdMergeBase d, dgDiff = pdDiff d, dgFiles = mapDiffFiles (pdFiles d), dgCommits = mapPullCommits (pdCommits d),
       dgTruncated = pdTruncated d, dgMergeState = pdMergeState d, dgMergeConflictPaths = pdMergeConflictPaths d,
       dgBaseCommits = pdBaseCommits d\<rparr>)"

definition getPullRequestDiffTool :: "pullsWorld \<Rightarrow> Client \<Rightarrow> string \<Rightarrow> string \<Rightarrow> string \<Rightarrow> int \<Rightarrow> string \<Rightarrow> string list \<Rightarrow> int \<Rightarrow>
    PullRequestDiffPage toolResult pullsIO" where
  "getPullRequestDiffTool w c requestID owner repo number baseRef paths maxBytes =
     runTool requestID (GetPullRequestDiff w c owner repo number baseRef paths maxBytes) (\<lambda>diff.
       toolData (diffPage diff) (diffMeta requestID paths diff))"

section \<open>What the tools send\<close>

lemma mapped_same [simp]: "mapDiffFiles files = files" "mapPullCommits commits = commits" "toolIssueLabels labels = labels"
  by (auto simp: mapDiffFiles_def mapPullCommits_def toolIssueLabels_def intro: map_idI)

text \<open>The requests a pull request call adds are reads.\<close>

definition pullReads :: "Client \<Rightarrow> pullsState \<Rightarrow> pullsState \<Rightarrow> bool" where
  "pullReads c s t \<longleftrightarrow> (\<exists>new. sent (plClient t) = sent (plClient s) @ new \<and> list_all (isRead c) new)"

lemma pullReads_refl [simp]: "pullReads c s s"
  by (simp add: pullReads_def)

lemma pullReads_trans: "pullReads c s t \<Longrightarrow> pullReads c t u \<Longrightarrow> pullReads c s u"
  by (auto simp: pullReads_def)

lemma pullReads_bindM: "keeps (pullReads c) m \<Longrightarrow> (\<And>x. keeps (pullReads c) (f x)) \<Longrightarrow> keeps (pullReads c) (bindM m f)"
  by (rule keeps_bindM) (auto intro: pullReads_trans)

lemma pullReads_onResult: "keeps (pullReads c) m \<Longrightarrow> (\<And>x. keeps (pullReads c) (f x)) \<Longrightarrow> keeps (pullReads c) (onResult m f)"
  by (rule keeps_onResult) (auto intro: pullReads_trans)

lemma pullReads_onClient:
  assumes "\<exists>n. sends (isRead c) n m"
  shows "keeps (pullReads c) (onClient m)"
  unfolding keeps_def pullReads_def
proof
  fix s :: pullsState
  from assms obtain new where "sent (snd (m (plClient s))) = sent (plClient s) @ new" "list_all (isRead c) new"
    unfolding sends_def by blast
  then show "\<exists>new. sent (plClient (snd (onClient m s))) = sent (plClient s) @ new \<and> list_all (isRead c) new"
    by (cases "m (plClient s)") (simp add: onClient_def)
qed

lemma pullReads_invalidate: "keeps (pullReads c) (invalidateOn c r)"
  by (simp add: keeps_def invalidateOn_def pullReads_def invalidateAuthentication_def split: sum.split)

lemma pullReadsD: "keeps (pullReads c) m \<Longrightarrow> pullReads c s (snd (m s))"
  by (simp add: keeps_def)

lemma reads_pullEngine: "keeps (pullReads c) (pullEngine w c)"
proof -
  have last: "keeps (pullReads c) (\<lambda>s. (Inr e, s\<lparr>plEngine := Some e\<rparr>))" for e
    by (simp add: keeps_def pullReads_def)
  show ?thesis
    unfolding pullEngine_def keeps_def
    by (simp split: option.split, intro allI impI pullReadsD pullReads_bindM pullReads_onClient exI [of _ 3]
        sends_GetAuthenticatedUser last) (simp_all add: keeps_def)
qed

lemma reads_listPullRefs: "keeps (pullReads c) (listPullRefs w c owner repo)"
  unfolding listPullRefs_def by (intro pullReads_bindM reads_pullEngine pullReads_invalidate)

lemma sends_scanLoop: "\<exists>n. sends (isRead c) n (scanLoop w ctx c owner repo state limit before scanned nxt summaries refs)"
proof -
  have "sends (isRead c) (3 * length refs) (scanLoop w ctx c owner repo state limit before scanned nxt summaries refs)"
  proof (induction refs arbitrary: scanned nxt summaries)
    case (Cons ref refs)
    have "sends (isRead c) (3 + 3 * length refs) (onResult (GetIssue w c owner repo (prNumber ref)) (\<lambda>r. case r of
            Inl err \<Rightarrow>
              if codeOf (AsError err) = CodeResourceNotFoundOrForbidden then
                scanLoop w ctx c owner repo state limit before (Suc scanned) (prNumber ref) summaries refs
              else fail err
          | Inr issue \<Rightarrow>
              if state \<noteq> ''all'' \<and> isState issue \<noteq> state then
                scanLoop w ctx c owner repo state limit before (Suc scanned) (prNumber ref) summaries refs
              else
                scanLoop w ctx c owner repo state limit before (Suc scanned) (prNumber ref)
                  (summaries @ [summaryOf ref issue]) refs))"
      by (rule sends_onResult, rule sends_GetIssue) (simp add: Cons.IH split: sum.split)
    then show ?case
      using sends_mono [OF Cons.IH, of "3 + 3 * length refs"] by (simp split: option.split)
  qed simp
  then show ?thesis by blast
qed

lemma reads_ListPullRequests: "keeps (pullReads c) (ListPullRequests w c owner repo state limit before)"
proof -
  have "\<exists>n. sends (isRead c) n (scanPullRefs w' ctx c owner repo state limit before refs)" for w' ctx limit refs
  proof -
    obtain n where "sends (isRead c) n (scanLoop w' ctx c owner repo state limit before 0 0 [] (rev refs))"
      using sends_scanLoop by blast
    then show ?thesis unfolding scanPullRefs_def
      by (intro exI [of _ n] sends_bindM_pure) (auto split: prod.split)
  qed
  then show ?thesis
    unfolding ListPullRequests_def Let_def
    by (auto intro!: pullReads_bindM reads_listPullRefs pullReads_onClient)
qed

lemma reads_pullHeadRefOf: "keeps (pullReads c) (pullHeadRefOf w c owner repo number)"
  unfolding pullHeadRefOf_def by (auto intro!: pullReads_bindM reads_listPullRefs split: option.split)

lemma reads_GetRepository: "keeps (pullReads c) (onClient (GetRepository w c owner repo))"
  by (intro pullReads_onClient exI [of _ 3] sends_GetRepository) simp

lemma reads_GetPullRequest: "keeps (pullReads c) (GetPullRequest w c owner repo number)"
  unfolding GetPullRequest_def
  by (intro pullReads_bindM reads_pullHeadRefOf reads_GetRepository pullReads_onClient exI [of _ 3] sends_GetIssue) simp

lemma reads_GetPullRequestDiff: "keeps (pullReads c) (GetPullRequestDiff w c owner repo number baseRef paths maxBytes)"
  unfolding GetPullRequestDiff_def
  by (auto intro!: pullReads_bindM reads_pullHeadRefOf reads_pullEngine pullReads_invalidate reads_GetRepository)

lemma pullReads_runTool: "keeps (pullReads c) m \<Longrightarrow> keeps (pullReads c) (runTool requestID m respond)"
  unfolding runTool_def by (auto intro!: pullReads_onResult split: sum.split)

lemma reads_pullTools:
  "keeps (pullReads c) (listPullRequestsTool w c requestID owner repo state limit before)"
  "keeps (pullReads c) (getPullRequestTool w c requestID owner repo number bodyOffset bodyMaxBytes)"
  "keeps (pullReads c) (getPullRequestDiffTool w c requestID owner repo number baseRef paths maxBytes)"
  unfolding listPullRequestsTool_def getPullRequestTool_def getPullRequestDiffTool_def Let_def
  by (intro pullReads_runTool reads_ListPullRequests reads_GetPullRequest reads_GetPullRequestDiff)+

section \<open>The warnings of a diff\<close>

text \<open>A diff answer is marked as truncated exactly when the diff is, and warns once for each of the four reasons
  that apply, in this order.\<close>

lemma diffMeta_spec:
  "ResponseMeta.Truncated (diffMeta requestID paths diff) = pdTruncated (pxDiff diff)"
  "Warnings (diffMeta requestID paths diff) =
     (if pdTruncated (pxDiff diff) then [cutWarning] else [])
     @ (if pxBaseRefAssumed diff then [assumedWarning (pxBaseRef diff) (pdBaseCommits (pxDiff diff))] else [])
     @ (if pdMergeState (pxDiff diff) = ''conflicting'' then [conflictWarning (pdMergeConflictPaths (pxDiff diff))] else [])
     @ (if paths \<noteq> [] \<and> pdFiles (pxDiff diff) = [] then [noPathsWarning] else [])"
  by (simp_all add: diffMeta_def addWarning_def Let_def metaFor_def)

end
