(* ===== verification/Archive.thy ===== *)
theory Archive
  imports GoPath GogsErrors "HOL-Library.AList"
begin

text \<open>
  internal/snapshot/snapshot.go, the extraction of an untrusted archive: the byte limits of the two
  bounded readers, the mapping of entry names to paths (\<open>safeJoin\<close>), the extraction loop with its
  limits and its admission callback, and the removal of the wrapper directory. The gzip and tar
  readers of the standard library are the stream of \<open>tarEvent\<close>s they deliver; the directory being
  filled is a tree of named children, \<open>None\<close> while it does not exist.
\<close>

section \<open>Bounded readers\<close>

text \<open>A reader takes the length of the buffer and answers with the bytes it wrote there and its error.\<close>

type_synonym 's reader = "int \<Rightarrow> 's \<Rightarrow> (string \<times> goerr option) \<times> 's"

record boundedReader =
  brCount :: int
  brMaximum :: int
  brExceeded :: goerr

definition newBoundedReader :: "int \<Rightarrow> goerr \<Rightarrow> boundedReader" where
  "newBoundedReader maximum exceeded =
     \<lparr>brCount = 0, brMaximum = maximum, brExceeded = exceeded\<rparr>"

definition boundedRead :: "'s reader \<Rightarrow> int \<Rightarrow> boundedReader \<times> 's \<Rightarrow>
    (string \<times> goerr option) \<times> (boundedReader \<times> 's)" where
  "boundedRead reader buffer st =
     (case st of (b, s) \<Rightarrow>
      if brCount b \<ge> brMaximum b then (([], Some (brExceeded b)), (b, s))
      else
        (let buffer = (if buffer > brMaximum b - brCount b then brMaximum b - brCount b else buffer) in
         case reader buffer s of
           ((bytes, err), s) \<Rightarrow> ((bytes, err), (b\<lparr>brCount := brCount b + int (length bytes)\<rparr>, s))))"

text \<open>What a consumer sees that reads with buffers of the given lengths, errors included.\<close>

fun readAll :: "'s reader \<Rightarrow> int list \<Rightarrow> boundedReader \<times> 's \<Rightarrow> (string \<times> goerr option) list" where
  "readAll reader [] st = []"
| "readAll reader (n # ns) st =
     (case boundedRead reader n st of (r, st) \<Rightarrow> r # readAll reader ns st)"

section \<open>Entry names\<close>

definition errUnsafe :: goerr where
  "errUnsafe = [SentinelErr ErrUnsafeArchiveEntry]"

definition safeJoin :: "string \<Rightarrow> string \<Rightarrow> goerr + string" where
  "safeJoin destination name =
     (if name = [] \<or> CHR 0x00 \<in> set name then Inl errUnsafe
      else if hasPrefix name ''/'' then Inl errUnsafe
      else
        (let cleaned = pathClean name in
         if cleaned = ''..'' \<or> hasPrefix cleaned ''../'' then Inl errUnsafe
         else
           (let target = pathJoin [destination, cleaned] in
            if \<not> hasPrefix target (destination @ ''/'') then Inl errUnsafe else Inr target)))"

section \<open>The directory being filled\<close>

datatype stree =
    Blob string
  | Tree "(string \<times> stree) list"

type_synonym dirTree = "(string \<times> stree) list"

fun fileAt :: "string list \<Rightarrow> dirTree \<Rightarrow> string option" where
  "fileAt [] cs = None"
| "fileAt [p] cs = (case map_of cs p of Some (Blob d) \<Rightarrow> Some d | _ \<Rightarrow> None)"
| "fileAt (p # q # ps) cs = (case map_of cs p of Some (Tree t) \<Rightarrow> fileAt (q # ps) t | _ \<Rightarrow> None)"

text \<open>\<open>os.MkdirAll\<close> below the directory; \<open>None\<close> when a component is a file.\<close>

fun mkdirAll :: "string list \<Rightarrow> dirTree \<Rightarrow> dirTree option" where
  "mkdirAll [] cs = Some cs"
| "mkdirAll (p # ps) cs =
     (case map_of cs p of
        Some (Blob _) \<Rightarrow> None
      | Some (Tree t) \<Rightarrow> map_option (\<lambda>t. AList.update p (Tree t) cs) (mkdirAll ps t)
      | None \<Rightarrow> map_option (\<lambda>t. AList.update p (Tree t) cs) (mkdirAll ps []))"

text \<open>Creating or truncating a file whose parent exists; \<open>None\<close> when the path is a directory.\<close>

fun writeBlob :: "string list \<Rightarrow> string \<Rightarrow> dirTree \<Rightarrow> dirTree option" where
  "writeBlob [] d cs = None"
| "writeBlob [p] d cs =
     (case map_of cs p of Some (Tree _) \<Rightarrow> None | _ \<Rightarrow> Some (AList.update p (Blob d) cs))"
| "writeBlob (p # q # ps) d cs =
     (case map_of cs p of
        Some (Tree t) \<Rightarrow> map_option (\<lambda>t. AList.update p (Tree t) cs) (writeBlob (q # ps) d t)
      | _ \<Rightarrow> None)"

text \<open>The size \<open>os.Stat\<close> reports, the one of a directory being the file system's business.\<close>

fun statSize :: "int \<Rightarrow> string list \<Rightarrow> dirTree \<Rightarrow> int option" where
  "statSize dirSize [] cs = Some dirSize"
| "statSize dirSize [p] cs =
     (case map_of cs p of None \<Rightarrow> None | Some (Blob d) \<Rightarrow> Some (int (length d)) | Some (Tree _) \<Rightarrow> Some dirSize)"
| "statSize dirSize (p # q # ps) cs =
     (case map_of cs p of Some (Tree t) \<Rightarrow> statSize dirSize (q # ps) t | _ \<Rightarrow> None)"

section \<open>Extraction\<close>

record Limits =
  MaxCompressedBytes :: int
  MaxDecompressedBytes :: int
  MaxEntries :: int

definition DefaultLimits :: Limits where
  "DefaultLimits = \<lparr>MaxCompressedBytes = 128 * 2 ^ 20, MaxDecompressedBytes = 512 * 2 ^ 20,
     MaxEntries = 20000\<rparr>"

record extractionStats =
  SkippedEntries :: int
  FileCount :: int
  TotalBytes :: int

definition noStats :: extractionStats where
  "noStats = \<lparr>SkippedEntries = 0, FileCount = 0, TotalBytes = 0\<rparr>"

text \<open>A header with its type flag (the byte of the tar format) and announced size.\<close>

record tarHeader =
  hdName :: string
  hdType :: char
  hdSize :: int

definition TypeDir :: char where "TypeDir = CHR ''5''"
definition TypeReg :: char where "TypeReg = CHR ''0''"
definition TypeGNUSparse :: char where "TypeGNUSparse = CHR ''S''"

definition isMaterializable :: "char \<Rightarrow> bool" where
  "isMaterializable typeflag \<longleftrightarrow>
     typeflag = TypeDir \<or> typeflag = TypeReg \<or> typeflag = TypeGNUSparse"

text \<open>What the tar reader delivers: a failure of \<open>Next\<close>, or a header followed by the bytes that
  copying the entry reads and the error that stops it; the end of the list is \<open>io.EOF\<close>.\<close>

datatype tarEvent =
    NextError goerr
  | TarEntry tarHeader string "goerr option"

text \<open>The surroundings of one extraction: its destination (an absolute clean path), the limits, the
  state of the context at each round, and the failures of the file system.\<close>

record extractEnv =
  exDestination :: string
  exLimits :: Limits
  exCtx :: "int \<Rightarrow> goerr option"
  exFail :: "string \<Rightarrow> goerr option"
  exNotDir :: goerr
  exDirSize :: int

definition relComps :: "string \<Rightarrow> string \<Rightarrow> string list" where
  "relComps destination target = splitOn slash (drop (length destination + 1) target)"

definition errClash :: goerr where
  "errClash = [MsgErr ''snapshot wrapper content clashes with the archive root'']"

fun flattenLoop :: "string \<Rightarrow> (string \<times> stree) list \<Rightarrow> dirTree \<Rightarrow> goerr + dirTree" where
  "flattenLoop wrapper [] root = Inr (filter (\<lambda>c. fst c \<noteq> wrapper) root)"
| "flattenLoop wrapper (e # es) root =
     (if map_of root (fst e) \<noteq> None then Inl errClash
      else flattenLoop wrapper es (root @ [e]))"

definition flattenArchivePrefix :: "dirTree option \<Rightarrow> goerr + dirTree" where
  "flattenArchivePrefix destination =
     (case destination of
        None \<Rightarrow> Inl [MsgErr ''read snapshot root'']
      | Some [(wrapper, Tree nested)] \<Rightarrow> flattenLoop wrapper nested [(wrapper, Tree nested)]
      | Some root \<Rightarrow> Inr root)"

text \<open>\<open>writeFile\<close>: the number of bytes written, and the tree with the file.\<close>

definition writeFile :: "extractEnv \<Rightarrow> string \<Rightarrow> string \<Rightarrow> goerr option \<Rightarrow> dirTree option \<Rightarrow>
    goerr + (int \<times> dirTree)" where
  "writeFile E target content copyErr tree =
     (let comps = relComps (exDestination E) target in
      case mkdirAll (butlast comps) (case tree of None \<Rightarrow> [] | Some cs \<Rightarrow> cs) of
        None \<Rightarrow> Inl (MsgErr ''create snapshot parent directory'' # exNotDir E)
      | Some tree \<Rightarrow>
          (case exFail E target of
             Some err \<Rightarrow> Inl (MsgErr ''create snapshot file'' # err)
           | None \<Rightarrow>
             (case writeBlob comps content tree of
                None \<Rightarrow> Inl (MsgErr ''create snapshot file'' # exNotDir E)
              | Some tree \<Rightarrow>
                  (case copyErr of
                     Some err \<Rightarrow> Inl (MsgErr ''write snapshot file'' # err)
                   | None \<Rightarrow> Inr (int (length content), tree)))))"

text \<open>\<open>extractArchive\<close> after the readers are open. The admission callback has its own state \<open>'s\<close> and sees
  the tree as it is on disk.\<close>

type_synonym 's admission = "dirTree option \<Rightarrow> int \<Rightarrow> 's \<Rightarrow> (goerr + unit) \<times> 's"

fun extractLoop :: "extractEnv \<Rightarrow> 's admission \<Rightarrow> int \<Rightarrow> extractionStats \<Rightarrow> dirTree option \<Rightarrow> 's \<Rightarrow>
    tarEvent list \<Rightarrow> (goerr + extractionStats) \<times> dirTree option \<times> 's" where
  "extractLoop E admit entries stats tree s [] =
     (case exCtx E entries of
        Some err \<Rightarrow> (Inl (MsgErr ''extract Gogs archive'' # err), tree, s)
      | None \<Rightarrow>
        (case flattenArchivePrefix tree of
           Inl err \<Rightarrow> (Inl err, tree, s)
         | Inr root \<Rightarrow> (Inr stats, Some root, s)))"
| "extractLoop E admit entries stats tree s (ev # evs) =
     (case exCtx E entries of
        Some err \<Rightarrow> (Inl (MsgErr ''extract Gogs archive'' # err), tree, s)
      | None \<Rightarrow>
        (case ev of
           NextError err \<Rightarrow> (Inl (MsgErr ''read Gogs archive'' # err), tree, s)
         | TarEntry h content copyErr \<Rightarrow>
           if entries + 1 > MaxEntries (exLimits E) then (Inl [SentinelErr ErrTooManyEntries], tree, s)
           else if \<not> isMaterializable (hdType h) then
             extractLoop E admit (entries + 1) (stats\<lparr>SkippedEntries := SkippedEntries stats + 1\<rparr>) tree s evs
           else
             (case safeJoin (exDestination E) (hdName h) of
                Inl err \<Rightarrow> (Inl err, tree, s)
              | Inr target \<Rightarrow>
                if target = exDestination E then extractLoop E admit (entries + 1) stats tree s evs
                else if hdType h = TypeDir then
                  (case exFail E target of
                     Some err \<Rightarrow> (Inl (MsgErr ''create snapshot directory'' # err), tree, s)
                   | None \<Rightarrow>
                     (case mkdirAll (relComps (exDestination E) target)
                             (case tree of None \<Rightarrow> [] | Some cs \<Rightarrow> cs) of
                        None \<Rightarrow> (Inl (MsgErr ''create snapshot directory'' # exNotDir E), tree, s)
                      | Some cs \<Rightarrow> extractLoop E admit (entries + 1) stats (Some cs) s evs))
                else
                  (let growth =
                     (case (case tree of None \<Rightarrow> None
                            | Some cs \<Rightarrow> statSize (exDirSize E) (relComps (exDestination E) target) cs) of
                        None \<Rightarrow> hdSize h | Some old \<Rightarrow> max 0 (hdSize h - old))
                   in case admit tree growth s of
                        (Inl err, s) \<Rightarrow> (Inl err, tree, s)
                      | (Inr _, s) \<Rightarrow>
                        (case writeFile E target content copyErr tree of
                           Inl err \<Rightarrow> (Inl err, tree, s)
                         | Inr (written, cs) \<Rightarrow>
                             extractLoop E admit (entries + 1)
                               (stats\<lparr>FileCount := FileCount stats + 1,
                                  TotalBytes := TotalBytes stats + written\<rparr>)
                               (Some cs) s evs)))))"

text \<open>The whole of \<open>extractArchive\<close>: the download may be missing or fail, the stream may not be gzip.\<close>

definition extractArchive :: "extractEnv \<Rightarrow> 's admission \<Rightarrow> (goerr + (goerr + tarEvent list)) option \<Rightarrow>
    's \<Rightarrow> (goerr + extractionStats) \<times> dirTree option \<times> 's" where
  "extractArchive E admit download s =
     (case download of
        None \<Rightarrow> (Inl [MsgErr ''archive download is required''], None, s)
      | Some (Inl err) \<Rightarrow> (Inl err, None, s)
      | Some (Inr (Inl err)) \<Rightarrow> (Inl (MsgErr ''open Gogs archive'' # err), None, s)
      | Some (Inr (Inr events)) \<Rightarrow> extractLoop E admit 0 noStats None s events)"

section \<open>Lemmas on bounded readers\<close>

text \<open>The contract of \<open>io.Reader\<close>: never more bytes than the buffer holds.\<close>

definition wellBehaved :: "'s reader \<Rightarrow> bool" where
  "wellBehaved reader \<longleftrightarrow> (\<forall>n s. int (length (fst (fst (reader n s)))) \<le> max 0 n)"

lemma boundedRead_step:
  assumes "wellBehaved reader" "boundedRead reader n (b, s) = (r, (b', s'))" "0 \<le> brCount b"
  shows "brCount b' = brCount b + int (length (fst r)) \<and> brMaximum b' = brMaximum b
    \<and> brExceeded b' = brExceeded b
    \<and> (brCount b \<le> brMaximum b \<longrightarrow> brCount b' \<le> brMaximum b)
    \<and> (brCount b \<ge> brMaximum b \<longrightarrow> r = ([], Some (brExceeded b)))"
proof (cases "brCount b \<ge> brMaximum b")
  case True
  with assms show ?thesis by (auto simp: boundedRead_def)
next
  case False
  define m where "m = (if n > brMaximum b - brCount b then brMaximum b - brCount b else n)"
  obtain bytes err s1 where read: "reader m s = ((bytes, err), s1)" by (metis surj_pair)
  have "int (length bytes) \<le> max 0 m" using assms(1) read by (metis fst_conv wellBehaved_def)
  moreover have "max 0 m \<le> brMaximum b - brCount b" using False by (simp add: m_def)
  ultimately show ?thesis
    using assms(2) False read unfolding boundedRead_def
    by (auto simp: Let_def m_def [symmetric] split: if_splits)
qed

lemma readAll_total:
  assumes "wellBehaved reader" "0 \<le> brCount b" "brCount b \<le> brMaximum b"
  shows "brCount b + (\<Sum>r\<leftarrow>readAll reader ns (b, s). int (length (fst r))) \<le> brMaximum b"
  using assms
proof (induction ns arbitrary: b s)
  case (Cons n ns)
  obtain r b' s' where run: "boundedRead reader n (b, s) = (r, (b', s'))" by (metis surj_pair)
  note step = boundedRead_step [OF Cons.prems(1) run Cons.prems(2)]
  then have "brCount b' + (\<Sum>r\<leftarrow>readAll reader ns (b', s'). int (length (fst r))) \<le> brMaximum b'"
    using Cons by (intro Cons.IH) auto
  with step run show ?case by simp
qed simp

text \<open>However the decompressor or the tar reader chunks its reads, no more than the maximum number of
  bytes passes through a bounded reader; once the maximum has passed, every read fails with the
  limit's own error.\<close>

theorem bounded_reader_limit:
  assumes "wellBehaved reader" "0 \<le> maximum"
  shows "(\<Sum>r\<leftarrow>readAll reader ns (newBoundedReader maximum exceeded, s). int (length (fst r))) \<le> maximum
    \<and> (brCount b \<ge> brMaximum b \<longrightarrow> boundedRead reader n (b, s) = (([], Some (brExceeded b)), (b, s)))"
  using readAll_total [OF assms(1), of "newBoundedReader maximum exceeded" ns s] assms(2)
  by (simp add: newBoundedReader_def boundedRead_def)

text \<open>A source of five bytes read through a limit of three.\<close>

definition fiveBytes :: "string reader" where
  "fiveBytes n s = ((take (nat n) s, if s = [] then Some [MsgErr ''EOF''] else None), drop (nat n) s)"

theorem bounded_reader_limit_witness:
  "wellBehaved fiveBytes \<and>
   (\<Sum>r\<leftarrow>readAll fiveBytes [2, 2, 2] (newBoundedReader 3 errUnsafe, ''abcde''). int (length (fst r))) \<le> 3"
proof -
  have "wellBehaved fiveBytes" by (auto simp: wellBehaved_def fiveBytes_def)
  with bounded_reader_limit [OF this, of 3 "[2, 2, 2]" errUnsafe "''abcde''"] show ?thesis by simp
qed

text \<open>A source of exactly the maximum size: the read after its last byte reports the limit, not the
  end of the source.\<close>

lemma bounded_reader_at_limit:
  "readAll fiveBytes [5, 5] (newBoundedReader 5 errUnsafe, ''abcde'')
     = [(''abcde'', None), ([], Some errUnsafe)]"
  by (simp add: newBoundedReader_def boundedRead_def fiveBytes_def)

section \<open>Lemmas on entry names\<close>

text \<open>The components of a cleaned relative path: some leading ".." and then normal ones.\<close>

definition relativeComps :: "string list \<Rightarrow> bool" where
  "relativeComps cs \<longleftrightarrow> (\<exists>k ns. cs = replicate k ''..'' @ ns \<and> list_all normalComp ns)"

lemma relativeCompsI: "cs = replicate k ''..'' @ ns \<Longrightarrow> list_all normalComp ns \<Longrightarrow> relativeComps cs"
  by (auto simp: relativeComps_def)

lemma cleanStep_relative:
  assumes "relativeComps (rev st)" "slash \<notin> set c"
  shows "relativeComps (rev (cleanStep False st c))"
proof -
  obtain k ns where st: "rev st = replicate k ''..'' @ ns" "list_all normalComp ns"
    using assms(1) by (auto simp: relativeComps_def)
  then have st': "st = rev ns @ replicate k ''..''" by (metis rev_append rev_replicate rev_rev_ident)
  show ?thesis
  proof (cases "c = [] \<or> c = ''.''")
    case True
    with assms(1) show ?thesis by (auto simp: cleanStep_def)
  next
    case False
    show ?thesis
    proof (cases "c = ''..''")
      case dots: True
      show ?thesis
      proof (cases ns rule: rev_cases)
        case Nil
        have "cleanStep False st c = ''..'' # st"
          using st' Nil dots by (cases k) (auto simp: cleanStep_def)
        with st Nil have "rev (cleanStep False st c) = replicate (Suc k) ''..'' @ []"
          by (simp add: replicate_append_same)
        then show ?thesis by (rule relativeCompsI) simp
      next
        case (snoc ms m)
        then have "m \<noteq> ''..''" using st(2) by (auto simp: normalComp_def)
        with snoc st' dots have "rev (cleanStep False st c) = replicate k ''..'' @ ms"
          by (simp add: cleanStep_def)
        then show ?thesis by (rule relativeCompsI) (use snoc st(2) in simp)
      qed
    next
      case plain: False
      with False assms(2) have "normalComp c" by (simp add: normalComp_def)
      moreover from this have "rev (cleanStep False st c) = replicate k ''..'' @ (ns @ [c])"
        using st by simp
      ultimately show ?thesis using st(2) by (intro relativeCompsI [of _ k "ns @ [c]"]) simp_all
    qed
  qed
qed

lemma cleanComps_relative: "relativeComps (cleanComps False s)"
proof -
  have "relativeComps (rev (foldl (cleanStep False) st cs))"
    if "relativeComps (rev st)" "\<And>c. c \<in> set cs \<Longrightarrow> slash \<notin> set c" for st cs
    using that
  proof (induction cs arbitrary: st)
    case (Cons c cs)
    then show ?case using cleanStep_relative [of st c] by simp
  qed simp
  moreover have "relativeComps []" by (rule relativeCompsI [of _ 0 "[]"]) simp_all
  ultimately show ?thesis by (simp add: cleanComps_def splitOn_no_sep)
qed

text \<open>The entry names that have a place inside the destination.\<close>

definition safeEntry :: "string \<Rightarrow> bool" where
  "safeEntry name \<longleftrightarrow> name \<noteq> [] \<and> CHR 0x00 \<notin> set name \<and> \<not> isRooted name
     \<and> cleanComps False name \<noteq> [] \<and> list_all normalComp (cleanComps False name)"

lemma relative_cases:
  assumes "relativeComps cs"
  obtains (inside) "list_all normalComp cs" | (outside) rest where "cs = ''..'' # rest"
proof -
  obtain k ns where cs: "cs = replicate k ''..'' @ ns" "list_all normalComp ns"
    using assms by (auto simp: relativeComps_def)
  show thesis
  proof (cases k)
    case 0
    with cs inside show thesis by simp
  next
    case (Suc k')
    with cs outside show thesis by simp
  qed
qed

lemma hasPrefix_slash: "hasPrefix name ''/'' \<longleftrightarrow> isRooted name"
  by (cases name) (auto simp: hasPrefix_def isRooted_def slash_def)

lemma pathClean_relative:
  "name \<noteq> [] \<Longrightarrow> \<not> isRooted name \<Longrightarrow>
    pathClean name = (if cleanComps False name = [] then ''.'' else joinWith [slash] (cleanComps False name))"
  by (simp add: pathClean_def)

lemma dotdot_join:
  "joinWith [slash] (''..'' # rest) = ''..'' \<or> hasPrefix (joinWith [slash] (''..'' # rest)) ''../''"
  by (cases rest) (simp_all add: joinWith_Cons hasPrefix_def slash_def)

lemma normal_join_not_dotdot:
  assumes "list_all normalComp (c # cs)"
  shows "joinWith [slash] (c # cs) \<noteq> ''..'' \<and> \<not> hasPrefix (joinWith [slash] (c # cs)) ''../''"
proof -
  have c: "c \<noteq> []" "c \<noteq> ''..''" "slash \<notin> set c" using assms by (auto simp: normalComp_def)
  show ?thesis
  proof (cases cs)
    case Nil
    have "\<not> hasPrefix c ''../''"
    proof
      assume "hasPrefix c ''../''"
      then obtain t where "c = ''../'' @ t" by (auto simp: hasPrefix_iff)
      with c(3) show False by (simp add: slash_def)
    qed
    with Nil c show ?thesis by simp
  next
    case (Cons d ds)
    then have j: "joinWith [slash] (c # cs) = c @ slash # joinWith [slash] cs"
      by (simp add: joinWith_Cons)
    have "joinWith [slash] (c # cs) \<noteq> ''..''"
    proof
      assume "joinWith [slash] (c # cs) = ''..''"
      then have "slash \<in> set ''..''" using j by (metis in_set_conv_decomp)
      then show False by (simp add: slash_def)
    qed
    moreover have "\<not> hasPrefix (joinWith [slash] (c # cs)) ''../''"
    proof
      assume "hasPrefix (joinWith [slash] (c # cs)) ''../''"
      then obtain t where "c @ slash # joinWith [slash] cs = ''..'' @ slash # t"
        using j by (auto simp: hasPrefix_iff slash_def)
      then have "splitOn slash (c @ slash # joinWith [slash] cs) = splitOn slash (''..'' @ slash # t)"
        by simp
      moreover have "slash \<notin> set ''..''" by (simp add: slash_def)
      ultimately have "c = ''..''"
        using splitOn_sep [OF c(3)] splitOn_sep [of slash "''..''" t] by simp
      with c(2) show False ..
    qed
    ultimately show ?thesis ..
  qed
qed

text \<open>An absolute, cleaned destination other than the root: what \<open>MkdirTemp\<close> and \<open>Join\<close> give.\<close>

definition cleanDest :: "string \<Rightarrow> bool" where
  "cleanDest d \<longleftrightarrow> (\<exists>cs. cs \<noteq> [] \<and> list_all normalComp cs \<and> d = slash # joinWith [slash] cs)"

lemma cleanDest_rooted: "cleanDest d \<Longrightarrow> isRooted d \<and> d \<noteq> []"
  by (auto simp: cleanDest_def isRooted_def)

lemma cleanDest_comps:
  assumes "cleanDest d"
  shows "d = slash # joinWith [slash] (rootComps d) \<and> rootComps d \<noteq> []"
proof -
  obtain cs where cs: "cs \<noteq> []" "list_all normalComp cs" "d = slash # joinWith [slash] cs"
    using assms by (auto simp: cleanDest_def)
  have "cleanComps True ([] @ slash # joinWith [slash] cs) = cleanComps True [] @ cs"
    by (rule cleanComps_append [OF cs(2,1)])
  then have "rootComps d = cs"
    using cs by (simp add: rootComps_def isRooted_def cleanComps_def cleanStep_def)
  with cs show ?thesis by simp
qed

lemma pathJoin_dest:
  assumes "cleanDest d" "list_all normalComp ps" "ps \<noteq> []"
  shows "pathJoin [d, joinWith [slash] ps] = d @ slash # joinWith [slash] ps"
proof -
  have "pathJoin [d, joinWith [slash] ps] = pathJoin (d # ps)"
    using assms(3) cleanDest_rooted [OF assms(1)] by (simp add: pathJoin_def joinWith_Cons)
  also have "\<dots> = slash # joinWith [slash] (rootComps d @ ps)"
    using pathJoin_normal [of d ps] assms cleanDest_rooted [OF assms(1)] by simp
  also have "\<dots> = d @ slash # joinWith [slash] ps"
    using cleanDest_comps [OF assms(1)] assms(3) by (metis append_Cons append_Nil joinWith_append)
  finally show ?thesis .
qed

lemma pathJoin_dot:
  assumes "cleanDest d"
  shows "pathJoin [d, ''.''] = d"
proof -
  obtain cs where cs: "cs \<noteq> []" "list_all normalComp cs" "d = slash # joinWith [slash] cs"
    using assms by (auto simp: cleanDest_def)
  have "splitOn slash (d @ slash # ''.'') = splitOn slash d @ [''.'']"
    by (simp add: splitOn_append_sep splitOn_id slash_def)
  then have "cleanComps True (d @ slash # ''.'') = cleanComps True d"
    by (simp add: cleanComps_def cleanStep_def)
  with cleanDest_rooted [OF assms] cleanDest_comps [OF assms] show ?thesis
    by (simp add: pathJoin_def pathClean_def isRooted_append rootComps_def)
qed

lemma safeJoin_spec:
  assumes "cleanDest destination"
  shows "safeJoin destination name =
    (if safeEntry name then Inr (destination @ slash # joinWith [slash] (cleanComps False name))
     else Inl errUnsafe)"
proof (cases "name = [] \<or> CHR 0x00 \<in> set name \<or> isRooted name")
  case True
  then show ?thesis by (auto simp: safeJoin_def safeEntry_def hasPrefix_slash)
next
  case False
  note plain = this
  show ?thesis
  proof (cases "cleanComps False name = []")
    case True
    moreover have "\<not> hasPrefix destination (destination @ ''/'')" by (auto simp: hasPrefix_iff)
    moreover have "\<not> hasPrefix ''.'' ''../''" by (simp add: hasPrefix_def)
    ultimately show ?thesis
      using plain pathJoin_dot [OF assms]
      by (simp add: safeJoin_def safeEntry_def hasPrefix_slash pathClean_relative)
  next
    case comps: False
    show ?thesis
      using cleanComps_relative
    proof (cases rule: relative_cases [of "cleanComps False name"])
      case inside
      obtain c cs where cs: "cleanComps False name = c # cs" using comps by (cases "cleanComps False name") auto
      then have no: "joinWith [slash] (cleanComps False name) \<noteq> ''..''"
        "\<not> hasPrefix (joinWith [slash] (cleanComps False name)) ''../''"
        using normal_join_not_dotdot [of c cs] inside by simp_all
      moreover have "hasPrefix (destination @ slash # joinWith [slash] (cleanComps False name)) (destination @ ''/'')"
        by (simp add: hasPrefix_iff slash_def)
      ultimately show ?thesis
        using plain comps inside pathJoin_dest [OF assms inside comps]
        by (simp add: safeJoin_def safeEntry_def hasPrefix_slash pathClean_relative Let_def)
    next
      case (outside rest)
      then have "\<not> safeEntry name" by (simp add: safeEntry_def normalComp_def)
      with outside plain dotdot_join [of rest] show ?thesis
        by (auto simp: safeJoin_def hasPrefix_slash pathClean_relative Let_def)
    qed
  qed
qed

text \<open>C18: An archive entry lands strictly below the destination or nowhere: the names that get a path are
  exactly the relative, NUL-free names that do not climb out of the archive root, the path is the
  destination followed by plain components, and every plain path can be named.\<close>

theorem safe_join_confined:
  assumes "cleanDest destination"
  shows "((\<exists>target. safeJoin destination name = Inr target) \<longleftrightarrow> safeEntry name)
    \<and> (\<forall>target. safeJoin destination name = Inr target \<longrightarrow>
        (\<exists>cs. cs \<noteq> [] \<and> list_all normalComp cs \<and> target = destination @ slash # joinWith [slash] cs))
    \<and> (\<forall>cs. cs \<noteq> [] \<and> list_all normalComp cs \<and> CHR 0x00 \<notin> set (joinWith [slash] cs) \<longrightarrow>
        safeJoin destination (joinWith [slash] cs) = Inr (destination @ slash # joinWith [slash] cs))"
proof -
  have "safeEntry (joinWith [slash] cs) \<and> cleanComps False (joinWith [slash] cs) = cs"
    if "cs \<noteq> []" "list_all normalComp cs" "CHR 0x00 \<notin> set (joinWith [slash] cs)" for cs
    using that cleanComps_normal [OF that(2,1)] not_rooted_join [OF that(2,1)]
    by (auto simp: safeEntry_def joinWith_eq_Nil normalComp_def)
  then show ?thesis by (auto simp: safeJoin_spec [OF assms] safeEntry_def)
qed

definition tmpDest :: string where "tmpDest = ''/tmp/s''"

lemma tmpDest_clean: "cleanDest tmpDest"
  unfolding cleanDest_def
  by (intro exI [of _ "[''tmp'', ''s'']"]) (simp add: normalComp_def slash_def tmpDest_def)

theorem safe_join_confined_witness:
  "safeJoin tmpDest ''a/../b/./c'' = Inr ''/tmp/s/b/c'' \<and> (\<forall>t. safeJoin tmpDest ''a/../../b'' \<noteq> Inr t)"
proof -
  have "\<not> safeEntry ''a/../../b''"
    by (simp add: safeEntry_def cleanComps_def cleanStep_def slash_def isRooted_def normalComp_def)
  moreover have "safeJoin tmpDest ''a/../b/./c'' = Inr ''/tmp/s/b/c''"
    by (simp add: safeJoin_spec [OF tmpDest_clean] safeEntry_def cleanComps_def cleanStep_def
        slash_def isRooted_def normalComp_def) (simp add: tmpDest_def)
  ultimately show ?thesis using safe_join_confined [OF tmpDest_clean, of "''a/../../b''"] by blast
qed

section \<open>Lemmas on extraction\<close>

lemma fileAt_empty [simp]: "fileAt q [] = None"
  by (cases q; cases "tl q") auto

lemma fileAt_Cons: "fileAt (p # q) cs =
    (case map_of cs p of
       Some (Blob d) \<Rightarrow> (if q = [] then Some d else None)
     | Some (Tree t) \<Rightarrow> fileAt q t
     | None \<Rightarrow> None)"
  by (cases q) (auto split: option.splits stree.splits)

lemma fileAt_update: "fileAt (a # q) (AList.update p t cs) =
    (if a = p then (case t of Blob d \<Rightarrow> (if q = [] then Some d else None) | Tree t \<Rightarrow> fileAt q t)
     else fileAt (a # q) cs)"
  by (simp add: fileAt_Cons update_conv)

lemma mkdirAll_ConsE:
  assumes "mkdirAll (p # ps) cs = Some cs'"
  obtains t t' where "cs' = AList.update p (Tree t') cs" "mkdirAll ps t = Some t'"
    "\<And>q. fileAt (p # q) cs = fileAt q t"
proof (cases "map_of cs p")
  case None
  with assms that [of _ "[]"] show thesis by (auto simp: fileAt_Cons)
next
  case (Some c)
  with assms that show thesis by (cases c) (auto simp: fileAt_Cons)
qed

lemma fileAt_mkdirAll: "mkdirAll p cs = Some cs' \<Longrightarrow> fileAt q cs' = fileAt q cs"
proof (induction p arbitrary: cs cs' q)
  case (Cons p ps)
  from Cons.prems obtain t t' where t: "cs' = AList.update p (Tree t') cs" "mkdirAll ps t = Some t'"
    "\<And>q. fileAt (p # q) cs = fileAt q t" using mkdirAll_ConsE by blast
  with Cons.IH [OF t(2)] show ?case
    by (cases q) (simp_all add: fileAt_update del: fileAt.simps(2,3))
qed simp

lemma fileAt_writeBlob:
  "writeBlob p d cs = Some cs' \<Longrightarrow> fileAt q cs' = (if q = p then Some d else fileAt q cs)"
proof (induction p arbitrary: cs cs' q)
  case (Cons p ps)
  show ?case
  proof (cases "ps = []")
    case True
    with Cons.prems have "cs' = AList.update p (Blob d) cs" and old: "\<And>t. map_of cs p \<noteq> Some (Tree t)"
      by (auto split: option.splits stree.splits)
    then show ?thesis
    proof (cases q)
      case q: (Cons a q')
      have "fileAt (p # q') cs = None" if "q' \<noteq> []"
        using old that by (auto simp: fileAt_Cons split: option.split stree.split)
      with True q \<open>cs' = _\<close> show ?thesis by (auto simp: fileAt_update simp del: fileAt.simps(2,3))
    qed simp
  next
    case False
    then obtain p' ps' where ps: "ps = p' # ps'" by (cases ps) auto
    with Cons.prems obtain t t' where t: "map_of cs p = Some (Tree t)" "writeBlob ps d t = Some t'"
      "cs' = AList.update p (Tree t') cs" by (auto split: option.splits stree.splits)
    show ?thesis
    proof (cases q)
      case q: (Cons a q')
      have "fileAt (p # q') cs = fileAt q' t" using t(1) by (simp add: fileAt_Cons)
      with Cons.IH [OF t(2), of q'] q t(3) show ?thesis
        by (auto simp: fileAt_update simp del: fileAt.simps(2,3))
    qed simp
  qed
qed simp

text \<open>The regular files of an archive in its order, with their cleaned paths.\<close>

fun archiveFiles :: "tarEvent list \<Rightarrow> (string list \<times> string) list" where
  "archiveFiles [] = []"
| "archiveFiles (NextError err # evs) = archiveFiles evs"
| "archiveFiles (TarEntry h content copyErr # evs) =
     (if isMaterializable (hdType h) \<and> hdType h \<noteq> TypeDir
      then (cleanComps False (hdName h), content) # archiveFiles evs else archiveFiles evs)"

fun skippedHeaders :: "tarEvent list \<Rightarrow> int" where
  "skippedHeaders [] = 0"
| "skippedHeaders (NextError err # evs) = skippedHeaders evs"
| "skippedHeaders (TarEntry h content copyErr # evs) =
     (if isMaterializable (hdType h) then 0 else 1) + skippedHeaders evs"

text \<open>What a successful extraction has made of a directory tree.\<close>

definition treeOf :: "dirTree option \<Rightarrow> dirTree" where
  "treeOf t = (case t of None \<Rightarrow> [] | Some cs \<Rightarrow> cs)"

lemma treeOf_simps [simp]: "treeOf None = []" "treeOf (Some cs) = cs"
  by (simp_all add: treeOf_def)

definition filled :: "extractEnv \<Rightarrow> int \<Rightarrow> extractionStats \<Rightarrow> dirTree option \<Rightarrow> tarEvent list \<Rightarrow>
    extractionStats \<Rightarrow> dirTree option \<Rightarrow> bool" where
  "filled E entries stats tree evs stats' raw \<longleftrightarrow>
     (\<forall>p. fileAt p (treeOf raw) =
        (case map_of (rev (archiveFiles evs)) p of Some d \<Rightarrow> Some d | None \<Rightarrow> fileAt p (treeOf tree)))
   \<and> FileCount stats' = FileCount stats + int (length (archiveFiles evs))
   \<and> TotalBytes stats' = TotalBytes stats + (\<Sum>f\<leftarrow>archiveFiles evs. int (length (snd f)))
   \<and> SkippedEntries stats' = SkippedEntries stats + skippedHeaders evs
   \<and> (evs \<noteq> [] \<longrightarrow> entries + int (length evs) \<le> MaxEntries (exLimits E))
   \<and> list_all (\<lambda>f. fst f \<noteq> [] \<and> list_all normalComp (fst f)) (archiveFiles evs)"

lemma filled_same:
  assumes "filled E (entries + 1) stats1 tree1 evs stats' raw"
    "archiveFiles (ev # evs) = archiveFiles evs"
    "FileCount stats1 = FileCount stats" "TotalBytes stats1 = TotalBytes stats"
    "SkippedEntries stats1 + skippedHeaders evs = SkippedEntries stats + skippedHeaders (ev # evs)"
    "\<And>p. fileAt p (treeOf tree1) = fileAt p (treeOf tree)" "entries + 1 \<le> MaxEntries (exLimits E)"
  shows "filled E entries stats tree (ev # evs) stats' raw"
  using assms unfolding filled_def by (cases "evs = []") (auto split: option.split)

lemma filled_written:
  assumes "filled E (entries + 1) (stats\<lparr>FileCount := FileCount stats + 1,
        TotalBytes := TotalBytes stats + int (length d)\<rparr>) tree1 evs stats' raw"
    "archiveFiles (ev # evs) = (p, d) # archiveFiles evs" "skippedHeaders (ev # evs) = skippedHeaders evs"
    "p \<noteq> []" "list_all normalComp p"
    "\<And>q. fileAt q (treeOf tree1) = (if q = p then Some d else fileAt q (treeOf tree))"
    "entries + 1 \<le> MaxEntries (exLimits E)"
  shows "filled E entries stats tree (ev # evs) stats' raw"
  using assms unfolding filled_def
  by (cases "evs = []") (auto simp: map_add_def split: option.splits)

lemma relComps_joined:
  assumes "list_all normalComp cs" "cs \<noteq> []"
  shows "relComps d (d @ slash # joinWith [slash] cs) = cs"
  using assms by (auto simp: relComps_def intro!: split_join simp: list_all_iff normalComp_def)

lemma writeFile_ok:
  assumes "writeFile E target content copyErr tree = Inr (written, cs)"
  shows "written = int (length content) \<and> fileAt q cs =
    (if q = relComps (exDestination E) target then Some content else fileAt q (treeOf tree))"
proof -
  let ?c = "relComps (exDestination E) target"
  from assms obtain mid where mid: "mkdirAll (butlast ?c) (treeOf tree) = Some mid"
    "writeBlob ?c content mid = Some cs" "written = int (length content)"
    by (auto simp: writeFile_def Let_def treeOf_def split: option.splits)
  then show ?thesis using fileAt_mkdirAll [OF mid(1)] fileAt_writeBlob [OF mid(2)] by simp
qed

lemma extractLoop_ok:
  assumes "cleanDest (exDestination E)"
  shows "extractLoop E admit entries stats tree s evs = (Inr stats', tree', s') \<Longrightarrow>
    \<exists>raw root. flattenArchivePrefix raw = Inr root \<and> tree' = Some root
      \<and> filled E entries stats tree evs stats' raw"
proof (induction evs arbitrary: entries stats tree s)
  case Nil
  then show ?case
    by (intro exI [of _ tree]) (auto simp: filled_def split: option.splits sum.splits)
next
  case (Cons ev evs)
  from Cons.prems obtain h content copyErr where ev: "ev = TarEntry h content copyErr"
    and within: "entries + 1 \<le> MaxEntries (exLimits E)"
    by (cases ev) (auto split: option.splits if_splits)
  have ctx: "exCtx E entries = None" using Cons.prems by (auto split: option.splits)
  show ?case
  proof (cases "isMaterializable (hdType h)")
    case False
    with Cons.prems ev ctx within obtain raw root where raw: "flattenArchivePrefix raw = Inr root" "tree' = Some root"
      and f: "filled E (entries + 1) (stats\<lparr>SkippedEntries := SkippedEntries stats + 1\<rparr>) tree evs stats' raw"
      using Cons.IH by fastforce
    have "filled E entries stats tree (ev # evs) stats' raw"
      by (rule filled_same [OF f]) (use False ev within in simp_all)
    with raw show ?thesis by blast
  next
    case mat: True
    let ?comps = "cleanComps False (hdName h)"
    let ?target = "exDestination E @ slash # joinWith [slash] ?comps"
    have safe: "safeEntry (hdName h)"
      using Cons.prems ev ctx within mat by (auto simp: safeJoin_spec [OF assms] split: if_splits)
    then have join: "safeJoin (exDestination E) (hdName h) = Inr ?target"
      by (simp add: safeJoin_spec [OF assms])
    have comps: "?comps \<noteq> []" "list_all normalComp ?comps" using safe by (simp_all add: safeEntry_def)
    have rel: "relComps (exDestination E) ?target = ?comps" by (rule relComps_joined [OF comps(2,1)])
    show ?thesis
    proof (cases "hdType h = TypeDir")
      case True
      with Cons.prems ev ctx within mat join rel obtain cs where cs: "mkdirAll ?comps (treeOf tree) = Some cs"
        and go: "extractLoop E admit (entries + 1) stats (Some cs) s evs = (Inr stats', tree', s')"
        by (auto simp: treeOf_def split: option.splits)
      from Cons.IH [OF go] obtain raw root where raw: "flattenArchivePrefix raw = Inr root" "tree' = Some root"
        and f: "filled E (entries + 1) stats (Some cs) evs stats' raw" by blast
      have "filled E entries stats tree (ev # evs) stats' raw"
        by (rule filled_same [OF f])
          (use True ev within mat fileAt_mkdirAll [OF cs] in simp_all)
      with raw show ?thesis by blast
    next
      case False
      from Cons.prems ev ctx within mat join False obtain s1 written cs where
        wr: "writeFile E ?target content copyErr tree = Inr (written, cs)"
        and go: "extractLoop E admit (entries + 1)
          (stats\<lparr>FileCount := FileCount stats + 1, TotalBytes := TotalBytes stats + written\<rparr>)
          (Some cs) s1 evs = (Inr stats', tree', s')"
        by (auto simp: Let_def split: sum.splits prod.splits)
      from Cons.IH [OF go] obtain raw root where raw: "flattenArchivePrefix raw = Inr root" "tree' = Some root"
        and f: "filled E (entries + 1)
          (stats\<lparr>FileCount := FileCount stats + 1, TotalBytes := TotalBytes stats + written\<rparr>)
          (Some cs) evs stats' raw" by blast
      have wrote: "written = int (length content)"
        "fileAt q cs = (if q = ?comps then Some content else fileAt q (treeOf tree))" for q
        using writeFile_ok [OF wr] rel by simp_all
      have "filled E entries stats tree (ev # evs) stats' raw"
        by (rule filled_written [OF f [unfolded wrote(1)], where p = ?comps])
          (use wrote(2) comps False ev within mat in simp_all)
      with raw show ?thesis by blast
    qed
  qed
qed

section \<open>Removing the wrapper directory\<close>

lemma flattenLoop_result:
  "flattenLoop w es root = Inr out \<Longrightarrow>
    out = filter (\<lambda>c. fst c \<noteq> w) (root @ es) \<and> (\<forall>e \<in> set es. map_of root (fst e) = None)"
proof (induction es arbitrary: root)
  case (Cons e es)
  then have "map_of root (fst e) = None" and "flattenLoop w es (root @ [e]) = Inr out"
    by (simp_all split: if_splits)
  with Cons.IH [of "root @ [e]"] show ?case by (auto simp: map_add_def split: option.splits)
qed simp

lemma flattenLoop_runs:
  assumes "distinct (map fst es)" "\<forall>e \<in> set es. map_of root (fst e) = None"
  shows "flattenLoop w es root = Inr (filter (\<lambda>c. fst c \<noteq> w) (root @ es))"
  using assms
proof (induction es arbitrary: root)
  case (Cons e es)
  have "map_of (root @ [e]) (fst x) = None" if "x \<in> set es" for x
    using Cons.prems that by (cases e) (auto simp: map_add_def image_iff split: option.splits)
  with Cons show ?case by simp
qed simp

lemma flattenLoop_clash:
  assumes "map_of root w \<noteq> None" "w \<in> fst ` set es"
  shows "flattenLoop w es root = Inl errClash"
  using assms
proof (induction es arbitrary: root)
  case (Cons e es)
  show ?case
  proof (cases "fst e = w")
    case True
    with Cons.prems(1) show ?thesis by auto
  next
    case False
    moreover have "map_of (root @ [e]) w \<noteq> None" using Cons.prems(1) by (auto simp: map_add_def)
    ultimately show ?thesis using Cons by auto
  qed
qed simp

text \<open>Removing the wrapper: an archive root that is one directory is replaced by that directory's
  children, except that a child with the wrapper's own name makes the extraction fail; any other root
  is left as it is.\<close>

theorem flatten_wrapper:
  assumes "distinct (map fst nested)"
  shows "flattenArchivePrefix (Some [(wrapper, Tree nested)]) =
      (if wrapper \<in> fst ` set nested then Inl errClash else Inr nested)
    \<and> ((\<forall>w t. root \<noteq> [(w, Tree t)]) \<longrightarrow> flattenArchivePrefix (Some root) = Inr root)"
proof -
  have "flattenLoop wrapper nested [(wrapper, Tree nested)] = Inr nested" if "wrapper \<notin> fst ` set nested"
  proof -
    have "filter (\<lambda>c. fst c \<noteq> wrapper) nested = nested" using that by (induction nested) auto
    moreover have "\<forall>e \<in> set nested. map_of [(wrapper, Tree nested)] (fst e) = None" using that by auto
    ultimately show ?thesis
      using flattenLoop_runs [OF assms, of "[(wrapper, Tree nested)]" wrapper] by simp
  qed
  moreover have "flattenArchivePrefix (Some root) = Inr root" if "\<forall>w t. root \<noteq> [(w, Tree t)]"
    using that by (auto simp: flattenArchivePrefix_def split: list.splits stree.splits)
  ultimately show ?thesis
    using flattenLoop_clash [of "[(wrapper, Tree nested)]" wrapper nested]
    by (auto simp: flattenArchivePrefix_def)
qed

text \<open>A repository that holds a top-level directory of its own name, in its wrapper.\<close>

theorem flatten_wrapper_witness:
  "flattenArchivePrefix (Some [(''requests'', Tree [(''README'', Blob ''x''), (''requests'', Tree [])])])
     = Inl errClash"
  using flatten_wrapper [of "[(''README'', Blob ''x''), (''requests'', Tree [])]" "''requests''"] by simp

section \<open>What a successful extraction gives\<close>

lemma fileAt_single: "fileAt p [(w, Tree nested)] = (case p of a # q \<Rightarrow> if a = w then fileAt q nested else None | [] \<Rightarrow> None)"
  by (cases p) (simp_all add: fileAt_Cons)

lemma flatten_files:
  assumes "flattenArchivePrefix raw = Inr root"
  obtains (same) "root = treeOf raw"
    | (wrapped) w where "raw = Some [(w, Tree root)]"
proof (cases "\<exists>w nested. raw = Some [(w, Tree nested)]")
  case True
  then obtain w nested where raw: "raw = Some [(w, Tree nested)]" by blast
  with assms have "flattenLoop w nested [(w, Tree nested)] = Inr root"
    by (simp add: flattenArchivePrefix_def)
  from flattenLoop_result [OF this] have "root = filter (\<lambda>c. fst c \<noteq> w) nested" "\<forall>e \<in> set nested. fst e \<noteq> w"
    by (auto split: if_splits)
  then have "root = nested" by (simp add: filter_id_conv)
  with raw wrapped show thesis by simp
next
  case False
  with assms same show thesis
    by (auto simp: flattenArchivePrefix_def split: option.splits list.splits stree.splits)
qed

lemma extract_files:
  assumes "cleanDest (exDestination E)"
    and "extractArchive E admit download s = (Inr stats, tree', s')"
  shows "\<exists>events root wrapper. download = Some (Inr (Inr events)) \<and> tree' = Some root \<and> length wrapper \<le> 1
    \<and> (\<forall>p. fileAt p root = (if p = [] then None else map_of (rev (archiveFiles events)) (wrapper @ p)))
    \<and> (\<forall>f \<in> set (archiveFiles events). \<exists>p. p \<noteq> [] \<and> fst f = wrapper @ p)
    \<and> FileCount stats = int (length (archiveFiles events))
    \<and> TotalBytes stats = (\<Sum>f\<leftarrow>archiveFiles events. int (length (snd f)))
    \<and> SkippedEntries stats = skippedHeaders events
    \<and> (events \<noteq> [] \<longrightarrow> int (length events) \<le> MaxEntries (exLimits E))"
proof -
  from assms(2) obtain events where dl: "download = Some (Inr (Inr events))"
    and run: "extractLoop E admit 0 noStats None s events = (Inr stats, tree', s')"
    by (auto simp: extractArchive_def split: option.splits sum.splits)
  from extractLoop_ok [OF assms(1) run] obtain raw root where
    flat: "flattenArchivePrefix raw = Inr root" "tree' = Some root"
    and f: "filled E 0 noStats None events stats raw" by blast
  let ?m = "map_of (rev (archiveFiles events))"
  have look: "fileAt p (treeOf raw) = ?m p" for p
    using f by (auto simp: filled_def split: option.splits)
  have named: "fst x \<noteq> []" "?m (fst x) \<noteq> None" if "x \<in> set (archiveFiles events)" for x
    using f that by (auto simp: filled_def list_all_iff map_of_eq_None_iff)
  have counts: "FileCount stats = int (length (archiveFiles events))"
    "TotalBytes stats = (\<Sum>f\<leftarrow>archiveFiles events. int (length (snd f)))"
    "SkippedEntries stats = skippedHeaders events"
    "events \<noteq> [] \<longrightarrow> int (length events) \<le> MaxEntries (exLimits E)"
    using f by (auto simp: filled_def noStats_def)
  from flat(1) show ?thesis
  proof (cases rule: flatten_files)
    case same
    have "fileAt p root = (if p = [] then None else ?m ([] @ p))" for p
      using look [of p] same look [of "[]"] by auto
    then show ?thesis
      using dl flat(2) counts named by (intro exI [of _ events] exI [of _ root] exI [of _ "[]"]) auto
  next
    case (wrapped w)
    have "fileAt p root = (if p = [] then None else ?m ([w] @ p))" for p
      using look [of "[w] @ p"] look [of "[w]"] wrapped by (auto simp: fileAt_single)
    moreover have "\<exists>p. p \<noteq> [] \<and> fst x = [w] @ p" if "x \<in> set (archiveFiles events)" for x
      using named(2) [OF that] look [of "fst x"] wrapped
      by (cases "fst x") (auto simp: fileAt_single split: if_splits)
    ultimately show ?thesis
      using dl flat(2) counts by (intro exI [of _ events] exI [of _ root] exI [of _ "[w]"]) simp
  qed
qed

section \<open>Invariants of the extraction\<close>

text \<open>No directory of the tree has two children of one name.\<close>

fun wfTree :: "stree \<Rightarrow> bool" where
  "wfTree (Blob d) \<longleftrightarrow> True"
| "wfTree (Tree cs) \<longleftrightarrow> distinct (map fst cs) \<and> (\<forall>c \<in> set cs. wfTree (snd c))"

definition wfDir :: "dirTree \<Rightarrow> bool" where
  "wfDir cs \<longleftrightarrow> wfTree (Tree cs)"

lemma wfDir_Nil [simp]: "wfDir []"
  by (simp add: wfDir_def)

lemma wfDir_child: "wfDir cs \<Longrightarrow> map_of cs p = Some (Tree t) \<Longrightarrow> wfDir t"
  using map_of_SomeD unfolding wfDir_def by fastforce

lemma set_update: "set (AList.update p t cs) \<subseteq> insert (p, t) (set cs)"
  by (induction cs) auto

lemma wfDir_update:
  assumes "wfDir cs" "wfTree t"
  shows "wfDir (AList.update p t cs)"
proof -
  have "wfTree (snd c)" if "c \<in> set (AList.update p t cs)" for c
    using subsetD [OF set_update that] assms by (auto simp: wfDir_def)
  moreover have "distinct (map fst (AList.update p t cs))"
    using assms(1) by (simp add: wfDir_def distinct_update)
  ultimately show ?thesis by (simp add: wfDir_def)
qed

lemma wfDir_updateTree: "wfDir cs \<Longrightarrow> wfDir t \<Longrightarrow> wfDir (AList.update p (Tree t) cs)"
  by (rule wfDir_update) (simp_all add: wfDir_def)

lemma mkdirAll_wf: "mkdirAll p cs = Some cs' \<Longrightarrow> wfDir cs \<Longrightarrow> wfDir cs'"
proof (induction p arbitrary: cs cs')
  case (Cons p ps)
  show ?case
  proof (cases "map_of cs p")
    case None
    with Cons.prems obtain t where "mkdirAll ps [] = Some t" "cs' = AList.update p (Tree t) cs" by auto
    with Cons.IH [of "[]" t] wfDir_updateTree [OF Cons.prems(2)] show ?thesis by simp
  next
    case (Some c)
    with Cons.prems obtain t t' where t: "c = Tree t" "mkdirAll ps t = Some t'" "cs' = AList.update p (Tree t') cs"
      by (auto split: stree.splits)
    with Cons.IH [OF t(2)] wfDir_child [OF Cons.prems(2)] Some wfDir_updateTree [OF Cons.prems(2)]
    show ?thesis by simp
  qed
qed simp

lemma writeBlob_wf: "writeBlob p d cs = Some cs' \<Longrightarrow> wfDir cs \<Longrightarrow> wfDir cs'"
proof (induction p d cs arbitrary: cs' rule: writeBlob.induct)
  case (2 p d cs)
  then have "cs' = AList.update p (Blob d) cs" by (auto split: option.splits stree.splits)
  with wfDir_update [OF "2.prems"(2), of "Blob d"] show ?case by simp
next
  case (3 p q ps d cs)
  then obtain t t' where t: "map_of cs p = Some (Tree t)" "writeBlob (q # ps) d t = Some t'"
    "cs' = AList.update p (Tree t') cs" by (auto split: option.splits stree.splits)
  with "3.IH" [OF t(1) refl t(2) wfDir_child [OF "3.prems"(2) t(1)]] wfDir_updateTree [OF "3.prems"(2)]
  show ?case by simp
qed simp

lemma writeFile_wf:
  assumes "writeFile E target content copyErr tree = Inr (written, cs)" "wfDir (treeOf tree)"
  shows "wfDir cs"
proof -
  let ?c = "relComps (exDestination E) target"
  from assms obtain mid where mid: "mkdirAll (butlast ?c) (treeOf tree) = Some mid"
    "writeBlob ?c content mid = Some cs"
    by (auto simp: writeFile_def Let_def treeOf_def split: option.splits)
  show ?thesis by (rule writeBlob_wf [OF mid(2) mkdirAll_wf [OF mid(1) assms(2)]])
qed

text \<open>What every admission keeps of its own state, the extraction keeps.\<close>

lemma extractLoop_state:
  assumes "\<And>tree growth s r s'. wfDir (treeOf tree) \<Longrightarrow> I s \<Longrightarrow> admit tree growth s = (r, s') \<Longrightarrow> I s'"
  shows "extractLoop E admit entries stats tree s evs = (r, tree', s') \<Longrightarrow>
    wfDir (treeOf tree) \<Longrightarrow> I s \<Longrightarrow> I s' \<and> wfDir (treeOf tree')"
proof (induction evs arbitrary: entries stats tree s)
  case Nil
  have "wfDir root" if "flattenArchivePrefix tree = Inr root" for root
    using that
  proof (cases rule: flatten_files)
    case (wrapped w)
    with Nil.prems(2) show ?thesis by (simp add: wfDir_def)
  qed (use Nil.prems(2) in simp)
  with Nil.prems show ?case by (auto split: option.splits sum.splits)
next
  case (Cons ev evs)
  show ?case
  proof (cases "exCtx E entries = None \<and> (\<exists>h content copyErr. ev = TarEntry h content copyErr)
      \<and> entries + 1 \<le> MaxEntries (exLimits E)")
    case False
    with Cons.prems show ?thesis by (cases ev) (auto split: option.splits)
  next
    case True
    then obtain h content copyErr where ev: "ev = TarEntry h content copyErr" and
      go: "exCtx E entries = None" "\<not> MaxEntries (exLimits E) < entries + 1" by auto
    show ?thesis
    proof (cases "isMaterializable (hdType h)")
      case False
      with Cons.prems(1) ev go have "extractLoop E admit (entries + 1)
          (stats\<lparr>SkippedEntries := SkippedEntries stats + 1\<rparr>) tree s evs = (r, tree', s')" by simp
      then show ?thesis by (rule Cons.IH [OF _ Cons.prems(2,3)])
    next
      case mat: True
      show ?thesis
      proof (cases "safeJoin (exDestination E) (hdName h)")
        case (Inl err)
        with Cons.prems ev go mat show ?thesis by auto
      next
        case (Inr target)
        show ?thesis
        proof (cases "target = exDestination E \<or> hdType h = TypeDir")
          case True
          consider (more) tree1 where "extractLoop E admit (entries + 1) stats tree1 s evs = (r, tree', s')"
              "wfDir (treeOf tree1)"
            | (stop) "tree' = tree" "s' = s"
          proof (cases "target = exDestination E")
            case True
            with Cons.prems ev go mat Inr that(1) [of tree] show thesis by simp
          next
            case False
            with True have dir: "hdType h = TypeDir" by simp
            let ?made = "mkdirAll (relComps (exDestination E) target) (treeOf tree)"
            show thesis
            proof (cases "exFail E target = None \<and> ?made \<noteq> None")
              case True
              then obtain cs where cs: "?made = Some cs" by auto
              with True Cons.prems(1) ev go mat Inr False dir
              have "extractLoop E admit (entries + 1) stats (Some cs) s evs = (r, tree', s')"
                by (simp add: treeOf_def)
              with mkdirAll_wf [OF cs Cons.prems(2)] that(1) [of "Some cs"] show thesis by simp
            next
              case fails: False
              with Cons.prems(1) ev go mat Inr False dir that(2) show thesis
                by (auto simp: treeOf_def split: option.splits)
            qed
          qed
          then show ?thesis
          proof cases
            case more
            from Cons.IH [OF this Cons.prems(3)] show ?thesis .
          next
            case stop
            with Cons.prems show ?thesis by simp
          qed
        next
          case False
          define growth where "growth = (case (case tree of None \<Rightarrow> None
              | Some cs \<Rightarrow> statSize (exDirSize E) (relComps (exDestination E) target) cs) of
            None \<Rightarrow> hdSize h | Some old \<Rightarrow> max 0 (hdSize h - old))"
          obtain r1 s1 where adm: "admit tree growth s = (r1, s1)" by fastforce
          have I1: "I s1" by (rule assms [OF Cons.prems(2,3) adm])
          from Cons.prems(1) ev go mat Inr False adm
          have step: "(case r1 of Inl err \<Rightarrow> (Inl err, tree, s1)
            | Inr _ \<Rightarrow> (case writeFile E target content copyErr tree of
                 Inl err \<Rightarrow> (Inl err, tree, s1)
               | Inr (written, cs) \<Rightarrow> extractLoop E admit (entries + 1)
                   (stats\<lparr>FileCount := FileCount stats + 1, TotalBytes := TotalBytes stats + written\<rparr>)
                   (Some cs) s1 evs)) = (r, tree', s')"
            by (simp add: Let_def growth_def [symmetric] split: sum.splits)
          show ?thesis
          proof (cases "isl r1 \<or> isl (writeFile E target content copyErr tree)")
            case True
            with step Cons.prems(2) I1 show ?thesis by (auto split: sum.splits)
          next
            case False
            then obtain written cs where wr: "writeFile E target content copyErr tree = Inr (written, cs)"
              by (metis Inr_Inl_False old.sum.exhaust sum.disc(1) surj_pair)
            with False step show ?thesis
              using Cons.IH [OF _ _ I1, where tree = "Some cs"] writeFile_wf [OF wr Cons.prems(2)]
              by (auto split: sum.splits)
          qed
        qed
      qed
    qed
  qed
qed

text \<open>C19: A snapshot is the archive: when the extraction succeeds, the files below the destination are
  exactly the regular files of the archive at their cleaned paths (the last one wins), less one common
  wrapper directory at most; links and devices leave no trace but the skip counter, the statistics
  count what was written, and no archive beyond the entry limit succeeds.\<close>

theorem extract_archive_exact:
  assumes "cleanDest (exDestination E)"
    and "extractArchive E admit (Some (Inr (Inr events))) s = (Inr stats, tree', s')"
  shows "\<exists>root wrapper. tree' = Some root \<and> length wrapper \<le> 1
    \<and> (\<forall>p. fileAt p root = (if p = [] then None else map_of (rev (archiveFiles events)) (wrapper @ p)))
    \<and> (\<forall>f \<in> set (archiveFiles events). \<exists>p. p \<noteq> [] \<and> fst f = wrapper @ p)
    \<and> FileCount stats = int (length (archiveFiles events))
    \<and> TotalBytes stats = (\<Sum>f\<leftarrow>archiveFiles events. int (length (snd f)))
    \<and> SkippedEntries stats = skippedHeaders events
    \<and> (events \<noteq> [] \<longrightarrow> int (length events) \<le> MaxEntries (exLimits E))"
  using extract_files [OF assms] by auto

definition someEnv :: extractEnv where
  "someEnv = \<lparr>exDestination = tmpDest, exLimits = DefaultLimits, exCtx = (\<lambda>k. None),
     exFail = (\<lambda>t. None), exNotDir = [MsgErr ''not a directory''], exDirSize = 4096\<rparr>"

definition someArchive :: "tarEvent list" where
  "someArchive =
     [TarEntry \<lparr>hdName = ''r/'', hdType = TypeDir, hdSize = 0\<rparr> [] None,
      TarEntry \<lparr>hdName = ''r/a'', hdType = TypeReg, hdSize = 2\<rparr> ''hi'' None,
      TarEntry \<lparr>hdName = ''r/ln'', hdType = CHR ''2'', hdSize = 0\<rparr> [] None,
      TarEntry \<lparr>hdName = ''r/d/./b'', hdType = TypeReg, hdSize = 1\<rparr> ''x'' None]"

definition freeAdmission :: "unit admission" where
  "freeAdmission tree growth s = (Inr (), s)"

lemmas archive_run = someEnv_def someArchive_def freeAdmission_def extractArchive_def DefaultLimits_def
  isMaterializable_def TypeDir_def TypeReg_def TypeGNUSparse_def noStats_def writeFile_def
  flattenArchivePrefix_def

lemma someArchive_names:
  "cleanComps False ''r/'' = [''r'']" "cleanComps False ''r/a'' = [''r'', ''a'']"
  "cleanComps False ''r/d/./b'' = [''r'', ''d'', ''b'']"
  by (simp_all add: cleanComps_def cleanStep_def slash_def)

theorem extract_archive_exact_witness:
  "\<exists>stats root. extractArchive someEnv freeAdmission (Some (Inr (Inr someArchive))) () = (Inr stats, Some root, ())
     \<and> FileCount stats = 2 \<and> SkippedEntries stats = 1"
proof -
  have dest: "cleanDest (exDestination someEnv)" by (simp add: someEnv_def tmpDest_clean)
  have join: "safeJoin tmpDest ''r/'' = Inr ''/tmp/s/r''" "safeJoin tmpDest ''r/a'' = Inr ''/tmp/s/r/a''"
    "safeJoin tmpDest ''r/d/./b'' = Inr ''/tmp/s/r/d/b''"
    unfolding safeJoin_spec [OF tmpDest_clean] safeEntry_def someArchive_names
    by (simp_all add: tmpDest_def slash_def isRooted_def normalComp_def)
  have rel: "relComps tmpDest ''/tmp/s/r'' = [''r'']" "relComps tmpDest ''/tmp/s/r/a'' = [''r'', ''a'']"
    "relComps tmpDest ''/tmp/s/r/d/b'' = [''r'', ''d'', ''b'']"
    by (simp_all add: relComps_def tmpDest_def slash_def)
  have ne: "''/tmp/s/r'' \<noteq> tmpDest" "''/tmp/s/r/a'' \<noteq> tmpDest" "''/tmp/s/r/d/b'' \<noteq> tmpDest"
    by (simp_all add: tmpDest_def)
  have "\<exists>stats tree'. extractArchive someEnv freeAdmission (Some (Inr (Inr someArchive))) () = (Inr stats, tree', ())"
    by (simp add: archive_run join rel ne)
  then obtain stats tree' where
    run: "extractArchive someEnv freeAdmission (Some (Inr (Inr someArchive))) () = (Inr stats, tree', ())" by blast
  have "FileCount stats = 2 \<and> SkippedEntries stats = 1 \<and> (\<exists>root. tree' = Some root)"
    using extract_archive_exact [OF dest run]
    by (auto simp: someArchive_def isMaterializable_def TypeDir_def TypeReg_def TypeGNUSparse_def)
  with run show ?thesis by blast
qed

end
