(* ===== verification/Snapshot.thy ===== *)
theory Snapshot
  imports Archive DiskCache
begin

text \<open>
  internal/snapshot/snapshot.go and eviction.go: the layout of the snapshot cache (instance, user,
  owner, repository, commit), the publication of a snapshot by \<open>Ensure\<close> and the removal of caches.
  The cache of one user is the tree of DiskCache; paths are relative to the user's directory. The
  SHA-256 digest, the parsed instance URL, the results of the lock waits and the failures of the
  file system are parameters. What is extracted is a tree of Archive, grafted into the user's tree.
\<close>

section \<open>Keys and directories\<close>

record Key =
  kyUserID :: int
  kyOwner :: string
  kyRepo :: string
  kyCommitSHA :: string

record Eviction =
  evMaxBytes :: int
  evTTL :: int

definition DefaultEviction :: Eviction where
  "DefaultEviction = \<lparr>evMaxBytes = 2 * 2 ^ 30, evTTL = 24 * 3600 * 10 ^ 9\<rparr>"

text \<open>The instance URL as \<open>url.Parse\<close> gives it, or its error.\<close>

record instanceURL =
  iuScheme :: string
  iuHostname :: string
  iuPort :: string
  iuPath :: string

record Manager =
  mgRoot :: string
  mgInstance :: "goerr + instanceURL"
  mgLimits :: Limits
  mgEviction :: Eviction

definition NewManager :: "string \<Rightarrow> string \<Rightarrow> (goerr + instanceURL) \<Rightarrow> Limits \<Rightarrow> Eviction \<Rightarrow> goerr + Manager" where
  "NewManager root inst parsed limits eviction =
     (if root = [] then Inl [MsgErr ''cache root is required'']
      else if inst = [] then Inl [MsgErr ''Gogs instance is required'']
      else if evMaxBytes eviction < 0 \<or> evTTL eviction < 0
        then Inl [MsgErr ''eviction limits must not be negative'']
      else Inr \<lparr>mgRoot = root, mgInstance = parsed, mgLimits = limits, mgEviction = eviction\<rparr>)"

definition isHexDigit :: "char \<Rightarrow> bool" where
  "isHexDigit c \<longleftrightarrow> (CHR ''0'' \<le> c \<and> c \<le> CHR ''9'') \<or> (CHR ''a'' \<le> c \<and> c \<le> CHR ''f'')
     \<or> (CHR ''A'' \<le> c \<and> c \<le> CHR ''F'')"

definition isHex :: "string \<Rightarrow> bool" where
  "isHex value \<longleftrightarrow> list_all isHexDigit value"

definition isFullCommitSHA :: "string \<Rightarrow> bool" where
  "isFullCommitSHA value \<longleftrightarrow> length value = 40 \<and> isHex value"

definition isInstanceHash :: "string \<Rightarrow> bool" where
  "isInstanceHash name \<longleftrightarrow> length name = 64 \<and> isHex name"

definition alnum :: "char \<Rightarrow> bool" where
  "alnum c \<longleftrightarrow> (CHR ''0'' \<le> c \<and> c \<le> CHR ''9'') \<or> (CHR ''a'' \<le> c \<and> c \<le> CHR ''z'')
     \<or> (CHR ''A'' \<le> c \<and> c \<le> CHR ''Z'')"

fun cacheChars :: "nat \<Rightarrow> string \<Rightarrow> bool" where
  "cacheChars index [] \<longleftrightarrow> True"
| "cacheChars index (c # cs) \<longleftrightarrow>
     (if alnum c then cacheChars (index + 1) cs
      else if c = CHR ''.'' \<or> c = CHR ''_'' \<or> c = CHR ''-''
        then (if index = 0 then False else cacheChars (index + 1) cs)
      else False)"

definition isCacheComponent :: "string \<Rightarrow> bool" where
  "isCacheComponent value \<longleftrightarrow>
     (if value = [] \<or> length value > 100 \<or> value = ''.'' \<or> value = ''..'' then False
      else cacheChars 0 value)"

definition isDefaultPort :: "string \<Rightarrow> string \<Rightarrow> bool" where
  "isDefaultPort scheme port \<longleftrightarrow>
     (scheme = ''http'' \<and> port = ''80'') \<or> (scheme = ''https'' \<and> port = ''443'')"

definition trimSlashes :: "string \<Rightarrow> string" where
  "trimSlashes s = rev (dropWhile (\<lambda>c. c = slash) (rev (dropWhile (\<lambda>c. c = slash) s)))"

text \<open>The identifier of the instance before it is digested.\<close>

definition normalizedInstance :: "goerr + instanceURL \<Rightarrow> goerr + string" where
  "normalizedInstance parsed =
     (case parsed of
        Inl err \<Rightarrow> Inl (MsgErr ''parse Gogs instance'' # err)
      | Inr u \<Rightarrow>
          (let scheme = toLower (iuScheme u); host = toLower (iuHostname u) in
           if scheme = [] \<or> host = [] then Inl [MsgErr ''Gogs instance must include a scheme and host'']
           else
             (let host = (if iuPort u \<noteq> [] \<and> \<not> isDefaultPort scheme (iuPort u)
                          then host @ '':'' @ iuPort u else host);
                  trimmed = trimSlashes (pathClean (''/'' @ iuPath u));
                  host = (if trimmed \<noteq> [] then host @ ''/'' @ trimmed else host)
              in Inr (scheme @ ''://'' @ host))))"

definition normalizedInstanceHash :: "(string \<Rightarrow> string) \<Rightarrow> goerr + instanceURL \<Rightarrow> goerr + string" where
  "normalizedInstanceHash sha256 parsed = bindE (normalizedInstance parsed) (\<lambda>s. Inr (sha256 s))"

definition userRootOf :: "(string \<Rightarrow> string) \<Rightarrow> Manager \<Rightarrow> int \<Rightarrow> goerr + string" where
  "userRootOf sha256 m userID =
     (if userID \<le> 0 then Inl [MsgErr ''snapshot user must be a positive identifier'']
      else bindE (normalizedInstanceHash sha256 (mgInstance m)) (\<lambda>instanceHash.
        Inr (pathJoin [mgRoot m, instanceHash, formatInt userID])))"

definition directory :: "(string \<Rightarrow> string) \<Rightarrow> Manager \<Rightarrow> Key \<Rightarrow> goerr + (string \<times> string)" where
  "directory sha256 m key =
     (if \<not> isFullCommitSHA (kyCommitSHA key)
        then Inl [MsgErr ''snapshot commit must be a full 40-character SHA'']
      else if \<not> isCacheComponent (kyOwner key)
        then Inl [MsgErr ''snapshot owner contains unsupported characters'']
      else if \<not> isCacheComponent (kyRepo key)
        then Inl [MsgErr ''snapshot repository contains unsupported characters'']
      else if kyUserID key \<le> 0 then Inl [MsgErr ''snapshot user must be a positive identifier'']
      else bindE (normalizedInstanceHash sha256 (mgInstance m)) (\<lambda>instanceHash.
        Inr (pathJoin [mgRoot m, instanceHash, formatInt (kyUserID key), kyOwner key, kyRepo key,
               kyCommitSHA key], instanceHash)))"

section \<open>Publishing a snapshot\<close>

text \<open>Putting a node at a path, creating the directories above it (\<open>os.MkdirAll\<close> of the parent).\<close>

fun putAt :: "fpath \<Rightarrow> fnode \<Rightarrow> fnode \<Rightarrow> fnode" where
  "putAt [] x t = x"
| "putAt (p # ps) x (FDir m cs) =
     FDir m (AList.update p (putAt ps x (case map_of cs p of Some c \<Rightarrow> c | None \<Rightarrow> FDir 0 [])) cs)"
| "putAt (p # ps) x t = t"

fun toNode :: "stree \<Rightarrow> fnode" where
  "toNode (Blob d) = FFile (int (length d))"
| "toNode (Tree cs) = FDir 0 (map (\<lambda>c. (fst c, toNode (snd c))) cs)"

definition touchAt :: "fpath \<Rightarrow> int \<Rightarrow> fnode \<Rightarrow> fnode" where
  "touchAt p now root =
     (case nodeAt p root of Some (FDir m cs) \<Rightarrow> putAt p (FDir now cs) root | _ \<Rightarrow> root)"

definition isDirAt :: "fpath \<Rightarrow> fnode \<Rightarrow> bool" where
  "isDirAt p root \<longleftrightarrow> (case nodeAt p root of Some n \<Rightarrow> isDirNode n | None \<Rightarrow> False)"

text \<open>The world of one call of \<open>Ensure\<close>: what the four lock waits return (read, writer, shared entry,
  exclusive entry), the file system of the budget, the name and time of the temporary directory, the
  times of its siblings, and the failures of the single steps.\<close>

record ensureWorld =
  ewRead :: "goerr option"
  ewWriter :: "goerr option"
  ewShared :: "goerr option"
  ewExclusive :: "goerr option"
  ewShare :: "goerr option"
  ewDisk :: diskWorld
  ewModTime :: "string \<Rightarrow> int option"
  ewTmpDirErr :: "goerr option"
  ewTempName :: "goerr + string"
  ewExtract :: extractEnv
  ewCreatedAt :: string
  ewMetadataErr :: "goerr option"
  ewParentErr :: "goerr option"
  ewRenameErr :: "goerr option"

record Result =
  rsDir :: fpath
  rsCacheHit :: bool
  rsSkipped :: int

definition snapshotHit :: "fpath \<Rightarrow> bool \<Rightarrow> int \<Rightarrow> Result" where
  "snapshotHit final hit skipped = \<lparr>rsDir = final, rsCacheHit = hit, rsSkipped = skipped\<rparr>"

text \<open>\<open>sweepStaleTemporaries\<close> on the user's temporary directory; failures are ignored, an hour is
  3600 seconds of nanoseconds.\<close>

fun sweepNames :: "diskWorld \<Rightarrow> (string \<Rightarrow> int option) \<Rightarrow> string list \<Rightarrow> fnode \<Rightarrow> fnode" where
  "sweepNames w stamps [] root = root"
| "sweepNames w stamps (name # names) root =
     (case stamps name of
        None \<Rightarrow> sweepNames w stamps names root
      | Some modified \<Rightarrow>
          if modified > dwNow w - 3600 * 10 ^ 9 then sweepNames w stamps names root
          else if dwRemoveErr w [''.tmp'', name] \<noteq> None then sweepNames w stamps names root
          else sweepNames w stamps names (removeAt [''.tmp'', name] root))"

definition sweepStaleTemporaries :: "ensureWorld \<Rightarrow> fnode \<Rightarrow> fnode" where
  "sweepStaleTemporaries w root =
     (case nodeAt [''.tmp''] root of
        Some (FDir m cs) \<Rightarrow> sweepNames (ewDisk w) (ewModTime w) (map fst cs) root
      | _ \<Rightarrow> root)"

text \<open>The metadata document, indented as \<open>json.MarshalIndent\<close> does.\<close>

definition quoted :: "string \<Rightarrow> string" where
  "quoted s = CHR 0x22 # s @ [CHR 0x22]"

definition metadataField :: "string \<Rightarrow> string \<Rightarrow> string" where
  "metadataField name value = ''  '' @ quoted name @ '': '' @ value"

definition metadataDocument :: "Key \<Rightarrow> string \<Rightarrow> extractionStats \<Rightarrow> string \<Rightarrow> string" where
  "metadataDocument key instanceHash stats now =
     ''{'' @ [CHR 0x0A] @ joinWith ('','' @ [CHR 0x0A])
       [metadataField ''schema_version'' (formatInt 1),
        metadataField ''instance_hash'' (quoted instanceHash),
        metadataField ''user_id'' (formatInt (kyUserID key)),
        metadataField ''repository'' (quoted (kyOwner key @ ''/'' @ kyRepo key)),
        metadataField ''commit_sha'' (quoted (kyCommitSHA key)),
        metadataField ''created_at'' (quoted now),
        metadataField ''last_accessed_at'' (quoted now),
        metadataField ''file_count'' (formatInt (FileCount stats)),
        metadataField ''total_bytes'' (formatInt (TotalBytes stats))]
     @ [CHR 0x0A] @ ''}''"

definition writeMetadata :: "ensureWorld \<Rightarrow> fpath \<Rightarrow> Key \<Rightarrow> string \<Rightarrow> extractionStats \<Rightarrow> budgetState \<Rightarrow>
    goerr option \<times> budgetState" where
  "writeMetadata w dir key instanceHash stats s =
     (let size' = int (length (metadataDocument key instanceHash stats (ewCreatedAt w))) + 1 in
      case Reserve (ewDisk w) size' s of
        (Inl err, s) \<Rightarrow> (Some err, s)
      | (Inr _, (b, root)) \<Rightarrow>
          (case ewMetadataErr w of
             Some err \<Rightarrow> (Some (MsgErr ''write snapshot metadata'' # err), (b, root))
           | None \<Rightarrow> (None, (b, putAt (dir @ [''metadata.json'']) (FFile size') root))))"

text \<open>The tree of a user while an archive is being extracted below \<open>dir\<close>, and the admission that
  reserves growth on it.\<close>

definition graft :: "fpath \<Rightarrow> dirTree option \<Rightarrow> fnode \<Rightarrow> fnode" where
  "graft dir tree root = (case tree of None \<Rightarrow> root | Some cs \<Rightarrow> putAt dir (toNode (Tree cs)) root)"

definition reserveAdmission :: "diskWorld \<Rightarrow> fpath \<Rightarrow> budgetState admission" where
  "reserveAdmission w dir tree growth s =
     (case s of (b, root) \<Rightarrow> Reserve w growth (b, graft dir tree root))"

text \<open>\<open>os.Rename\<close> of the temporary directory to the commit directory, which must be absent or empty.\<close>

definition renameTo :: "ensureWorld \<Rightarrow> fpath \<Rightarrow> fpath \<Rightarrow> fnode \<Rightarrow> goerr + fnode" where
  "renameTo w source target root =
     (case ewRenameErr w of Some err \<Rightarrow> Inl err
      | None \<Rightarrow>
        (case (nodeAt source root, nodeAt target root) of
           (None, _) \<Rightarrow> Inl [MsgErr ''no such file or directory'']
         | (Some n, None) \<Rightarrow> Inr (putAt target n (removeAt source root))
         | (Some n, Some (FDir m [])) \<Rightarrow> Inr (putAt target n (removeAt source root))
         | (Some n, Some _) \<Rightarrow> Inl [MsgErr ''file exists'']))"

text \<open>Whether \<open>os.MkdirAll\<close> can make the path a directory: nothing on it is a file.\<close>

fun dirPath :: "fpath \<Rightarrow> fnode \<Rightarrow> bool" where
  "dirPath [] t \<longleftrightarrow> isDirNode t"
| "dirPath (p # ps) (FDir m cs) \<longleftrightarrow> (case map_of cs p of None \<Rightarrow> True | Some c \<Rightarrow> dirPath ps c)"
| "dirPath (p # ps) t \<longleftrightarrow> False"

definition errNotDir :: goerr where
  "errNotDir = [MsgErr ''not a directory'']"

definition cleanupTemporary :: "diskWorld \<Rightarrow> fpath \<Rightarrow> fnode \<Rightarrow> fnode" where
  "cleanupTemporary w temporary root =
     (if dwRemoveErr w temporary \<noteq> None then root else removeAt temporary root)"

text \<open>\<open>finish\<close>: the exclusive lock is turned into a shared one.\<close>

definition finishEnsure :: "ensureWorld \<Rightarrow> fpath \<Rightarrow> bool \<Rightarrow> int \<Rightarrow> goerr + Result" where
  "finishEnsure w final hit skipped =
     (case ewShare w of Some err \<Rightarrow> Inl err | None \<Rightarrow> Inr (snapshotHit final hit skipped))"

text \<open>The part of \<open>Ensure\<close> that runs below the temporary directory, up to the rename.\<close>

definition publish :: "ensureWorld \<Rightarrow> Manager \<Rightarrow> Key \<Rightarrow> string \<Rightarrow> fpath \<Rightarrow> fpath \<Rightarrow>
    (goerr + (goerr + tarEvent list)) option \<Rightarrow> budgetState \<Rightarrow> (goerr + extractionStats) \<times> fnode" where
  "publish w m key instanceHash commitDir temporary download s =
     (case extractArchive ((ewExtract w)\<lparr>exLimits := mgLimits m\<rparr>)
             (reserveAdmission (ewDisk w) (temporary @ [''snapshot''])) download s of
        (Inl err, tree, (b, root)) \<Rightarrow> (Inl err, graft (temporary @ [''snapshot'']) tree root)
      | (Inr stats, tree, (b, root)) \<Rightarrow>
          (case writeMetadata w temporary key instanceHash stats
                  (b, graft (temporary @ [''snapshot'']) tree root) of
             (Some err, (b, root)) \<Rightarrow> (Inl err, root)
           | (None, (b, root)) \<Rightarrow>
               (case ewParentErr w of
                  Some err \<Rightarrow> (Inl err, root)
                | None \<Rightarrow>
                    if \<not> dirPath (butlast commitDir) root then (Inl errNotDir, root)
                    else (case renameTo w temporary commitDir root of
                       Inl err \<Rightarrow> (Inl err, root)
                     | Inr root \<Rightarrow> (Inr stats, root)))))"

text \<open>The steps before the download: sweeping, making room, and the temporary directory.\<close>

definition prepareTemporary :: "ensureWorld \<Rightarrow> Budget \<Rightarrow> fnode \<Rightarrow> (goerr + string) \<times> fnode" where
  "prepareTemporary w b root =
     (case MakeRoom (ewDisk w) b 1 (sweepStaleTemporaries w root) of
        (Inl err, root) \<Rightarrow> (Inl err, root)
      | (Inr _, root) \<Rightarrow>
          (case (if dirPath [''.tmp''] root then ewTmpDirErr w else Some errNotDir) of
             Some err \<Rightarrow> (Inl err, root)
           | None \<Rightarrow>
               (let root = (if isDirAt [''.tmp''] root then root
                            else putAt [''.tmp''] (FDir (dwNow (ewDisk w)) []) root)
                in case ewTempName w of
                     Inl err \<Rightarrow> (Inl err, root)
                   | Inr name \<Rightarrow>
                       (Inr name,
                        putAt [''.tmp'', ''snapshot-'' @ name] (FDir (dwNow (ewDisk w)) []) root))))"

text \<open>\<open>before\<close> is the user's tree while the read lock is held, \<open>root\<close> the tree from the moment the writer
  lock is held; other requests may have changed it in between.\<close>

definition Ensure :: "(string \<Rightarrow> string) \<Rightarrow> ensureWorld \<Rightarrow> Manager \<Rightarrow> Key \<Rightarrow>
    (goerr + (goerr + tarEvent list)) option \<Rightarrow> fnode \<Rightarrow> fnode \<Rightarrow> (goerr + Result) \<times> fnode" where
  "Ensure sha256 w m key download before root =
     (case directory sha256 m key of
        Inl err \<Rightarrow> (Inl err, before)
      | Inr (commitPath, instanceHash) \<Rightarrow>
        (case userRootOf sha256 m (kyUserID key) of
           Inl err \<Rightarrow> (Inl err, before)
         | Inr userRoot \<Rightarrow>
           (let commitDir = [kyOwner key, kyRepo key, kyCommitSHA key];
                final = commitDir @ [''snapshot''] in
            case ewRead w of
              Some err \<Rightarrow> (Inl err, before)
            | None \<Rightarrow>
              if isDirAt final before
              then (Inr (snapshotHit final True 0), touchAt commitDir (dwNow (ewDisk w)) before)
              else (case ewWriter w of
                  Some err \<Rightarrow> (Inl err, root)
                | None \<Rightarrow>
                  if ewShared w = None \<and> isDirAt final root
                  then (Inr (snapshotHit final True 0), root)
                  else (case (if ewShared w = None then ewExclusive w else ewShared w) of
                      Some err \<Rightarrow> (Inl err, root)
                    | None \<Rightarrow>
                      if isDirAt final root then (finishEnsure w final True 0, root)
                      else
                        (let b = \<lparr>bgBase = pathBase userRoot, bgKeep = None,
                                  bgMaxBytes = evMaxBytes (mgEviction m), bgTTL = evTTL (mgEviction m),
                                  bgReady = False, bgFree = 0\<rparr>
                         in case prepareTemporary w b root of
                              (Inl err, root) \<Rightarrow> (Inl err, root)
                            | (Inr name, root) \<Rightarrow>
                              (let temporary = [''.tmp'', ''snapshot-'' @ name] in
                               case publish w m key instanceHash commitDir temporary download
                                      (b\<lparr>bgKeep := Some temporary\<rparr>, root) of
                                 (Inl err, root) \<Rightarrow>
                                   (Inl err, cleanupTemporary (ewDisk w) temporary root)
                               | (Inr stats, root) \<Rightarrow>
                                   (finishEnsure w final False (SkippedEntries stats),
                                    cleanupTemporary (ewDisk w) temporary root))))))))"

section \<open>Removing caches\<close>

text \<open>\<open>RemoveUser\<close>: the error of inspecting the user's directory (\<open>None\<close> in the first argument for a
  directory that is not there), then the cleanup of the tree.\<close>

definition RemoveUser :: "(string \<Rightarrow> string) \<Rightarrow> Manager \<Rightarrow> diskWorld \<Rightarrow> goerr option \<Rightarrow> goerr option \<Rightarrow>
    int \<Rightarrow> fnode option \<Rightarrow> goerr option \<times> fnode option" where
  "RemoveUser sha256 m w statErr writer userID tree =
     (case userRootOf sha256 m userID of
        Inl err \<Rightarrow> (Some err, tree)
      | Inr userRoot \<Rightarrow>
        (case statErr of
           Some err \<Rightarrow> (Some (MsgErr ''inspect snapshot cache user directory'' # err), tree)
         | None \<Rightarrow>
           (case tree of
              None \<Rightarrow> (None, None)
            | Some root \<Rightarrow>
                (case RemoveTree w writer (pathBase userRoot) False root of
                   (Some err, left) \<Rightarrow> (Some (MsgErr ''remove snapshot cache user directory'' # err), left)
                 | (None, left) \<Rightarrow> (None, left)))))"

text \<open>\<open>RemoveAll\<close> on the tree of the whole cache root. The worlds of the users are indexed by instance and
  user names.\<close>

record cleanupWorld =
  cwDisk :: "string \<Rightarrow> string \<Rightarrow> diskWorld"
  cwWriter :: "string \<Rightarrow> string \<Rightarrow> goerr option"
  cwReadErr :: "fpath \<Rightarrow> goerr option"

fun removeUsers :: "cleanupWorld \<Rightarrow> string \<Rightarrow> string list \<Rightarrow> fnode \<Rightarrow> goerr option \<times> fnode" where
  "removeUsers w inst [] root = (None, root)"
| "removeUsers w inst (user # users) root =
     (case nodeAt [inst, user] root of
        Some (FDir m cs) \<Rightarrow>
          (case RemoveTree (cwDisk w inst user) (cwWriter w inst user) user False (FDir m cs) of
             (err, Some left) \<Rightarrow>
               (case err of
                  Some e \<Rightarrow> (Some e, putAt [inst, user] left root)
                | None \<Rightarrow> removeUsers w inst users (putAt [inst, user] left root))
           | (err, None) \<Rightarrow> (err, root))
      | _ \<Rightarrow> removeUsers w inst users root)"

fun removeInstances :: "cleanupWorld \<Rightarrow> string list \<Rightarrow> fnode \<Rightarrow> goerr option \<times> fnode" where
  "removeInstances w [] root = (None, root)"
| "removeInstances w (name # names) root =
     (if \<not> isDirAt [name] root \<or> \<not> isInstanceHash name then removeInstances w names root
      else (case cwReadErr w [name] of
          Some err \<Rightarrow> (Some err, root)
        | None \<Rightarrow>
          (case removeUsers w name
                  (case nodeAt [name] root of Some n \<Rightarrow> childNames n | None \<Rightarrow> []) root of
             (Some err, root) \<Rightarrow> (Some err, root)
           | (None, root) \<Rightarrow> removeInstances w names root)))"

definition RemoveAll :: "cleanupWorld \<Rightarrow> fnode option \<Rightarrow> goerr option \<times> fnode option" where
  "RemoveAll w tree =
     (case tree of
        None \<Rightarrow> (None, None)
      | Some root \<Rightarrow>
        (case cwReadErr w [] of
           Some err \<Rightarrow> (Some (MsgErr ''read snapshot cache root'' # err), Some root)
         | None \<Rightarrow> (case removeInstances w (childNames root) root of (err, root) \<Rightarrow> (err, Some root))))"

section \<open>The layout of the cache\<close>

lemma alnum_cases: "alnum c \<Longrightarrow> c \<noteq> CHR ''/'' \<and> c \<noteq> CHR ''.''"
  by (auto simp: alnum_def less_eq_char_def)

lemma cacheChars_no_slash: "cacheChars n s \<Longrightarrow> CHR ''/'' \<notin> set s"
  by (induction n s rule: cacheChars.induct) (auto split: if_splits simp: alnum_cases dest: alnum_cases)

lemma cacheChars_start: "cacheChars 0 (c # s) \<Longrightarrow> c \<noteq> CHR ''.''"
  by (auto split: if_splits dest: alnum_cases)

lemma isCacheComponent_normal:
  assumes "isCacheComponent s"
  shows "normalComp s \<and> hd s \<noteq> CHR ''.''"
proof -
  have "s \<noteq> []" "s \<noteq> ''.''" "s \<noteq> ''..''" "cacheChars 0 s"
    using assms by (auto simp: isCacheComponent_def split: if_splits)
  then show ?thesis using cacheChars_no_slash [of 0 s] cacheChars_start [of "hd s" "tl s"]
    by (cases s) (auto simp: normalComp_def slash_def)
qed

lemma isHex_normal: "isHex s \<Longrightarrow> s \<noteq> [] \<Longrightarrow> normalComp s"
  by (cases s) (auto simp: isHex_def normalComp_def list_all_iff isHexDigit_def less_eq_char_def slash_def)

lemma sha_normal: "isFullCommitSHA s \<Longrightarrow> normalComp s"
  by (rule isHex_normal) (auto simp: isFullCommitSHA_def)

lemma id_normal: "0 < n \<Longrightarrow> normalComp (formatInt n)"
proof -
  assume "0 < n"
  then have d: "formatInt n = natDigits (nat n)" by (simp add: formatInt_def)
  have digits: "isDigit c" if "c \<in> set (natDigits (nat n))" for c
    using that by (rule natDigits_only_digits)
  have "slash \<notin> set (natDigits (nat n))" using digits [of slash] by (auto simp: slash_def)
  moreover have "CHR ''.'' \<notin> set (natDigits (nat n))" using digits [of "CHR ''.''"] by auto
  ultimately show ?thesis unfolding d normalComp_def by (metis list.set_intros(1) natDigits_nonempty)
qed

lemma directory_ok:
  assumes "directory sha256 m key = Inr (path, instanceHash)"
  shows "isFullCommitSHA (kyCommitSHA key)" "isCacheComponent (kyOwner key)" "isCacheComponent (kyRepo key)"
    "0 < kyUserID key" "normalizedInstanceHash sha256 (mgInstance m) = Inr instanceHash"
    "path = pathJoin [mgRoot m, instanceHash, formatInt (kyUserID key), kyOwner key, kyRepo key, kyCommitSHA key]"
  using assms by (auto simp: directory_def bindE_def split: if_splits sum.splits)

lemma directory_normal:
  assumes "directory sha256 m key = Inr (path, instanceHash)" "normalComp instanceHash"
  shows "list_all normalComp [instanceHash, formatInt (kyUserID key), kyOwner key, kyRepo key, kyCommitSHA key]"
  using directory_ok [OF assms(1)] assms(2) isCacheComponent_normal sha_normal id_normal by simp

text \<open>Users never share snapshots: under one manager two keys have the same directory only when they
  are the same key, user, owner, repository and commit alike.\<close>

theorem snapshot_directory_injective:
  assumes "directory sha256 m k1 = Inr (path, h1)" "directory sha256 m k2 = Inr (path, h2)"
    and "normalComp h1" "mgRoot m \<noteq> []"
  shows "k1 = k2"
proof -
  have "h1 = h2" using directory_ok(5) [OF assms(1)] directory_ok(5) [OF assms(2)] by simp
  then have "[h1, formatInt (kyUserID k1), kyOwner k1, kyRepo k1, kyCommitSHA k1]
      = [h1, formatInt (kyUserID k2), kyOwner k2, kyRepo k2, kyCommitSHA k2]"
    using pathJoin_inj [OF assms(4) directory_normal [OF assms(1,3)] directory_normal [OF assms(2)]]
      directory_ok(6) [OF assms(1)] directory_ok(6) [OF assms(2)] assms(3) by simp
  then show ?thesis by (simp add: formatInt_inj)
qed

definition someManager :: Manager where
  "someManager = \<lparr>mgRoot = ''/c'', mgInstance = Inr \<lparr>iuScheme = ''HTTPS'', iuHostname = ''git.example'',
     iuPort = ''443'', iuPath = ''/g/''\<rparr>, mgLimits = DefaultLimits,
     mgEviction = \<lparr>evMaxBytes = 1000, evTTL = 0\<rparr>\<rparr>"

definition someKey :: "string \<Rightarrow> Key" where
  "someKey owner = \<lparr>kyUserID = 7, kyOwner = owner, kyRepo = ''r'', kyCommitSHA = replicate 40 CHR ''a''\<rparr>"

definition someDigest :: "string \<Rightarrow> string" where
  "someDigest s = replicate 64 CHR ''0''"

lemma someDirectory:
  "owner = ''o'' \<or> owner = ''p'' \<Longrightarrow> \<exists>path. directory someDigest someManager (someKey owner) = Inr (path, someDigest [])"
  by (auto simp: directory_def someKey_def isFullCommitSHA_def isHex_def isHexDigit_def list_all_iff
      isCacheComponent_def alnum_def someManager_def normalizedInstanceHash_def normalizedInstance_def
      someDigest_def bindE_def less_eq_char_def Let_def)

theorem snapshot_directory_injective_witness:
  "directory someDigest someManager (someKey ''o'') \<noteq> directory someDigest someManager (someKey ''p'')"
proof
  assume eq: "directory someDigest someManager (someKey ''o'') = directory someDigest someManager (someKey ''p'')"
  obtain path where d: "directory someDigest someManager (someKey ''o'') = Inr (path, someDigest [])"
    using someDirectory by blast
  have "someKey ''o'' = someKey ''p''"
    by (rule snapshot_directory_injective [OF d d [unfolded eq]])
      (auto simp: someDigest_def normalComp_def slash_def someManager_def dest: arg_cong [of _ _ length])
  then show False by (simp add: someKey_def)
qed

lemma formatInt_not_pull: "0 < n \<Longrightarrow> formatInt n \<noteq> ''.pull'' \<and> formatInt n \<noteq> ''pull''"
proof -
  assume "0 < n"
  then have d: "formatInt n = natDigits (nat n)" by (simp add: formatInt_def)
  have "\<not> isDigit CHR ''p''" by (simp add: isDigit_def)
  then have "CHR ''p'' \<notin> set (formatInt n)" unfolding d using natDigits_only_digits by blast
  then show ?thesis by auto
qed

text \<open>C21: Repository names are never mistaken for cache entries: in a user's cache, whatever accepted names
  the owner and the repository have (a repository "snapshot-1" or "x.git" included), neither their
  directories nor anything hidden is an entry, and the commit directory is one exactly when its
  metadata has been written.\<close>

theorem names_are_not_entries:
  assumes "isCacheComponent owner" "isCacheComponent repo" "0 < userID"
  shows "\<not> isEntry (formatInt userID) [owner] n \<and> \<not> isEntry (formatInt userID) [owner, repo] n
    \<and> (isEntry (formatInt userID) [owner, repo, sha] n \<longleftrightarrow> hasChild ''metadata.json'' n)
    \<and> owner \<noteq> ''.locks''"
proof -
  have "owner \<noteq> ''.tmp''" "owner \<noteq> ''.pull''" "owner \<noteq> ''.locks''"
    using isCacheComponent_normal [OF assms(1)] by auto
  with formatInt_not_pull [OF assms(3)] show ?thesis by (auto simp: isEntry_def Let_def)
qed

theorem names_are_not_entries_witness:
  "\<not> isEntry (formatInt 7) [''o'', ''snapshot-1''] (FDir 0 []) \<and> \<not> isEntry (formatInt 7) [''o'', ''x.git''] (FDir 0 [])"
proof -
  have "isCacheComponent ''o''" "isCacheComponent ''snapshot-1''" "isCacheComponent ''x.git''"
    by (simp_all add: isCacheComponent_def alnum_def less_eq_char_def)
  with names_are_not_entries [of "''o''" "''snapshot-1''" 7] names_are_not_entries [of "''o''" "''x.git''" 7]
  show ?thesis by simp
qed

section \<open>Lemmas on trees under construction\<close>

text \<open>Two paths of which neither leads through the other.\<close>

definition apart :: "fpath \<Rightarrow> fpath \<Rightarrow> bool" where
  "apart p q \<longleftrightarrow> (\<nexists>r. q = p @ r) \<and> (\<nexists>r. p = q @ r)"

lemma apart_Nil [simp]: "\<not> apart [] q" "\<not> apart p []"
  by (simp_all add: apart_def)

lemma apart_Cons: "apart (a # p) (b # q) \<longleftrightarrow> a \<noteq> b \<or> apart p q"
  by (auto simp: apart_def)

lemma nodeAt_putAt_other: "apart p q \<Longrightarrow> nodeAt q (putAt p x root) = nodeAt q root"
proof (induction p x root arbitrary: q rule: putAt.induct)
  case (2 p ps x m cs)
  obtain a q' where q: "q = a # q'" using "2.prems" by (cases q) auto
  show ?case
  proof (cases "a = p")
    case True
    with "2.prems" q have ap: "apart ps q'" by (simp add: apart_Cons)
    then have "q' \<noteq> []" by auto
    then obtain b q'' where "q' = b # q''" by (cases q') auto
    with "2.IH" [OF ap] q True show ?thesis by (auto simp: update_conv split: option.split)
  next
    case False
    with q show ?thesis by (simp add: update_conv)
  qed
qed auto

lemma dirPath_empty: "dirPath p (FDir m [])"
  by (cases p) (simp_all add: isDirNode_def)

lemma nodeAt_putAt_below:
  "dirPath (butlast p) root \<Longrightarrow> p \<noteq> [] \<Longrightarrow> nodeAt (p @ q) (putAt p x root) = nodeAt q x"
proof (induction p x root rule: putAt.induct)
  case (2 p ps x m cs)
  show ?case
  proof (cases "ps = []")
    case False
    then have "dirPath (butlast ps) (case map_of cs p of Some c \<Rightarrow> c | None \<Rightarrow> FDir 0 [])"
      using "2.prems"(1) by (auto simp: dirPath_empty split: option.splits)
    with "2.IH" False show ?thesis by (simp add: update_conv)
  qed (simp add: update_conv)
qed (auto simp: isDirNode_def split: if_splits)

lemma nodeAt_removeAt_other: "apart p q \<Longrightarrow> nodeAt q (removeAt p root) = nodeAt q root"
proof (induction p root arbitrary: q rule: removeAt.induct)
  case (2 p m cs)
  then obtain a q' where q: "q = a # q'" by (cases q) auto
  with 2 have "a \<noteq> p" by (auto simp: apart_def)
  then have "map_of (filter (\<lambda>c. fst c \<noteq> p) cs) a = map_of cs a" by (induction cs) auto
  with q show ?case by simp
next
  case (3 p p' ps m cs)
  then obtain a q' where q: "q = a # q'" by (cases q) auto
  show ?case
  proof (cases "a = p")
    case False
    with q show ?thesis by (simp add: updChild_map_of)
  next
    case True
    with "3.prems" q have ap: "apart (p' # ps) q'" by (simp add: apart_Cons)
    show ?thesis
    proof (cases "map_of cs p")
      case (Some c)
      with "3.IH" [of "(p, c)" q'] map_of_SomeD [OF Some] ap q True show ?thesis by (simp add: updChild_map_of)
    qed (use q True in \<open>simp add: updChild_map_of\<close>)
  qed
qed auto

lemma isDirNode_removeAt [simp]: "isDirNode (removeAt p root) = isDirNode root"
  by (induction p root rule: removeAt.induct) (auto simp: isDirNode_def)

lemma isDirAt_removeAt: "isDirAt q (removeAt p root) \<Longrightarrow> isDirAt q root"
proof (induction p root arbitrary: q rule: removeAt.induct)
  case (2 p m cs)
  show ?case
  proof (cases q)
    case (Cons a q')
    have "map_of (filter (\<lambda>c. fst c \<noteq> p) cs) a = (if a = p then None else map_of cs a)"
      by (induction cs) auto
    with 2 Cons show ?thesis by (auto simp: isDirAt_def split: if_splits)
  qed (use 2 in \<open>simp add: isDirAt_def isDirNode_def\<close>)
next
  case (3 p p' ps m cs)
  show ?case
  proof (cases q)
    case (Cons a q')
    show ?thesis
    proof (cases "map_of cs a")
      case (Some c)
      have "isDirAt q' (removeAt (p' # ps) (snd (a, c))) \<Longrightarrow> isDirAt q' (snd (a, c))" if "a = p"
        using "3.IH" [OF map_of_SomeD [OF Some]] that by simp
      with Some "3.prems" Cons show ?thesis
        by (cases "a = p") (auto simp: isDirAt_def updChild_map_of)
    next
      case None
      with "3.prems" Cons show ?thesis by (cases "a = p") (auto simp: isDirAt_def updChild_map_of)
    qed
  qed (use 3 in \<open>simp add: isDirAt_def isDirNode_def\<close>)
qed auto

lemma validTree_putAt: "validTree x \<Longrightarrow> validTree root \<Longrightarrow> validTree (putAt p x root)"
proof (induction p x root rule: putAt.induct)
  case (2 p ps x m cs)
  have "validTree (case map_of cs p of Some c \<Rightarrow> c | None \<Rightarrow> FDir 0 [])"
    using "2.prems"(2) map_of_SomeD [of cs p] by (auto split: option.splits)
  with 2 have "validTree (putAt ps x (case map_of cs p of Some c \<Rightarrow> c | None \<Rightarrow> FDir 0 []))" by simp
  then have "validTree (snd c)" if "c \<in> set (AList.update p
      (putAt ps x (case map_of cs p of Some c \<Rightarrow> c | None \<Rightarrow> FDir 0 [])) cs)" for c
    using subsetD [OF set_update that] "2.prems"(2) by auto
  with "2.prems"(2) show ?case by (simp add: distinct_update)
qed auto

lemma isDirNode_putAt: "p \<noteq> [] \<Longrightarrow> isDirNode (putAt p x root) = isDirNode root"
  by (cases p; cases root) (auto simp: isDirNode_def)

lemma validTree_toNode: "wfTree t \<Longrightarrow> validTree (toNode t)"
proof (induction t rule: toNode.induct)
  case (2 cs)
  then show ?case by (auto simp: comp_def)
qed simp

lemma isDirAt_prefix: "isDirAt (p @ q) root \<Longrightarrow> isDirAt p root"
proof (induction p root rule: nodeAt.induct)
  case (1 n)
  then show ?case by (cases q; cases n) (auto simp: isDirAt_def isDirNode_def)
qed (auto simp: isDirAt_def split: option.splits)

lemma isDirAt_dirPath: "isDirAt p root \<Longrightarrow> dirPath p root"
  by (induction p root rule: dirPath.induct) (auto simp: isDirAt_def isDirNode_def split: option.splits)

lemma nodeAt_append: "nodeAt (p @ q) root = (case nodeAt p root of Some n \<Rightarrow> nodeAt q n | None \<Rightarrow> None)"
  by (induction p root rule: nodeAt.induct) (auto split: option.splits)

lemma apart_append: "apart p q \<Longrightarrow> apart p (q @ s)"
  by (auto simp: apart_def append_eq_append_conv2)

lemma isDirAt_putAt_above: "isDirAt p root \<Longrightarrow> q \<noteq> [] \<Longrightarrow> isDirAt p (putAt (p @ q) x root)"
proof (induction p root rule: nodeAt.induct)
  case (1 n)
  then show ?case by (auto simp: isDirAt_def isDirNode_putAt)
next
  case (2 p ps m cs)
  then show ?case by (auto simp: isDirAt_def update_conv split: option.splits)
qed (auto simp: isDirAt_def)

lemma dirPath_removeAt: "dirPath q root \<Longrightarrow> dirPath q (removeAt p root)"
proof (induction p root arbitrary: q rule: removeAt.induct)
  case (2 p m cs)
  show ?case
  proof (cases q)
    case (Cons a q')
    have "map_of (filter (\<lambda>c. fst c \<noteq> p) cs) a = (if a = p then None else map_of cs a)"
      by (induction cs) auto
    with 2 Cons show ?thesis by (auto split: if_splits)
  qed (use 2 in \<open>simp add: isDirNode_def\<close>)
next
  case (3 p p' ps m cs)
  show ?case
  proof (cases q)
    case (Cons a q')
    show ?thesis
    proof (cases "map_of cs a")
      case (Some c)
      have "dirPath q' (removeAt (p' # ps) (snd (a, c)))" if "a = p"
        using "3.IH" [OF map_of_SomeD [OF Some]] that "3.prems" Cons Some by simp
      with Some "3.prems" Cons show ?thesis by (cases "a = p") (auto simp: updChild_map_of)
    next
      case None
      with Cons show ?thesis by (cases "a = p") (auto simp: updChild_map_of)
    qed
  qed (use 3 in \<open>simp add: isDirNode_def\<close>)
qed auto

lemma Reserve_removes:
  assumes "Reserve w growth (b, root) = (r, b', root')" "validTree root"
  shows "\<exists>removed. (\<forall>p \<in> set removed. evictable w b root p) \<and> root' = fold removeAt removed root
    \<and> validTree root' \<and> bgKeep b' = bgKeep b \<and> bgBase b' = bgBase b"
proof (cases "bgMaxBytes b > 0 \<and> (\<not> bgReady b \<or> growth > bgFree b)")
  case False
  with assms show ?thesis
    by (intro exI [of _ "[]"]) (auto simp: Reserve_def split: if_splits)
next
  case True
  obtain r1 root1 where room: "MakeRoom w b growth root = (r1, root1)" by fastforce
  from MakeRoom_spec [OF room assms(2)] obtain removed where made:
    "\<forall>p \<in> set removed. evictable w b root p" "root1 = fold removeAt removed root" "validTree root1" by blast
  have "root' = root1 \<and> bgKeep b' = bgKeep b \<and> bgBase b' = bgBase b"
    using assms(1) True room
    by (auto simp: Reserve_def split: if_splits sum.splits option.splits)
  with made show ?thesis by blast
qed

section \<open>What happens below the temporary directory\<close>

definition tmpPath :: "string \<Rightarrow> fpath" where
  "tmpPath name = [''.tmp'', ''snapshot-'' @ name]"

lemma keep_apart:
  assumes "evictable w b root p" "bgKeep b = Some (tmpPath name)" "isDirAt (tmpPath name) root"
  shows "apart p (tmpPath name)"
proof -
  have top: "topEntry (bgBase b) [] root p" "p \<noteq> tmpPath name"
    using assms(1,2) by (auto simp: evictable_def)
  have p: "p \<noteq> []" "\<exists>d. isEntry (bgBase b) p d"
    using top(1) by (auto simp: topEntry_def entryHere_def)
  have here: "entryHere (bgBase b) [] root (tmpPath name)"
    using assms(3) by (auto simp: entryHere_def isDirAt_def tmpPath_def isEntry_def hasPrefix_iff Let_def
        split: option.splits)
  have "\<not> isEntry (bgBase b) [''.tmp''] d" for d
    by (simp add: isEntry_def hasSuffix_def Let_def)
  with p top(2) have "\<nexists>r. tmpPath name = p @ r"
    by (auto simp: tmpPath_def Cons_eq_append_conv)
  moreover have "\<nexists>r. p = tmpPath name @ r"
    using top here unfolding topEntry_def by (metis append_Nil2)
  ultimately show ?thesis by (simp add: apart_def)
qed

text \<open>The invariant of an extraction: the temporary directory is kept, and nothing outside the temporary
  area appears.\<close>

definition outside :: "fpath \<Rightarrow> bool" where
  "outside q \<longleftrightarrow> q \<noteq> [] \<and> hd q \<noteq> ''.tmp''"

definition pubInv :: "string \<Rightarrow> fnode \<Rightarrow> budgetState \<Rightarrow> bool" where
  "pubInv name root0 s \<longleftrightarrow> validTree (snd s) \<and> isDirNode (snd s) \<and> isDirAt (tmpPath name) (snd s)
     \<and> bgKeep (fst s) = Some (tmpPath name)
     \<and> (\<forall>q. outside q \<and> isDirAt q (snd s) \<longrightarrow> isDirAt q root0)"

lemma outside_apart: "outside q \<Longrightarrow> apart (tmpPath name @ p) q"
  by (cases q) (auto simp: outside_def tmpPath_def apart_Cons)

lemma outside_apart2: "outside q \<Longrightarrow> apart q (tmpPath name @ p)"
  by (cases q) (auto simp: outside_def tmpPath_def apart_Cons)

lemma pubInv_put:
  assumes "pubInv name root0 (b, root)" "validTree x" "q \<noteq> []"
  shows "pubInv name root0 (b, putAt (tmpPath name @ q) x root)"
proof -
  have "isDirAt p root0" if "outside p" "isDirAt p (putAt (tmpPath name @ q) x root)" for p
    using nodeAt_putAt_other [OF outside_apart [OF that(1)]] that assms(1)
    by (simp add: isDirAt_def pubInv_def)
  moreover have "tmpPath name @ q \<noteq> []" by (simp add: tmpPath_def)
  ultimately show ?thesis
    using assms isDirAt_putAt_above by (simp add: pubInv_def validTree_putAt isDirNode_putAt)
qed

lemma fold_removeAt_apart:
  assumes "\<forall>p \<in> set removed. apart p q"
  shows "nodeAt q (fold removeAt removed root) = nodeAt q root"
  using assms by (induction removed arbitrary: root) (simp_all add: nodeAt_removeAt_other)

lemma fold_removeAt_dirs: "isDirAt q (fold removeAt removed root) \<Longrightarrow> isDirAt q root"
  by (induction removed arbitrary: root) (auto dest: isDirAt_removeAt)

lemma fold_removeAt_node: "isDirNode (fold removeAt removed root) = isDirNode root"
  by (induction removed arbitrary: root) simp_all

lemma pubInv_Reserve:
  assumes "Reserve w growth (b, root) = (r, s')" "pubInv name root0 (b, root)"
  shows "pubInv name root0 s' \<and> nodeAt (tmpPath name @ q) (snd s') = nodeAt (tmpPath name @ q) root"
proof -
  obtain b' root' where s': "s' = (b', root')" by (cases s')
  have "validTree root" using assms(2) by (simp add: pubInv_def)
  with assms(1) s' obtain removed where rem: "\<forall>p \<in> set removed. evictable w b root p"
    "root' = fold removeAt removed root" "validTree root'" "bgKeep b' = bgKeep b"
    using Reserve_removes by blast
  have ap: "\<forall>p \<in> set removed. apart p (tmpPath name)"
    using rem(1) assms(2) keep_apart by (auto simp: pubInv_def)
  have same: "nodeAt (tmpPath name @ q) root' = nodeAt (tmpPath name @ q) root" for q
    unfolding rem(2) by (rule fold_removeAt_apart) (use ap apart_append in blast)
  have "isDirAt (tmpPath name) root'" using same [of "[]"] assms(2) by (simp add: pubInv_def isDirAt_def)
  moreover have "isDirNode root'" using rem(2) assms(2) by (simp add: fold_removeAt_node pubInv_def)
  moreover have "isDirAt q root0" if "outside q" "isDirAt q root'" for q
    using that assms(2) rem(2) fold_removeAt_dirs by (auto simp: pubInv_def)
  ultimately show ?thesis using same rem s' assms(2) by (simp add: pubInv_def)
qed

lemma graft_pubInv:
  assumes "pubInv name root0 (b, root)" "wfDir (treeOf tree)"
  shows "pubInv name root0 (b, graft (tmpPath name @ [''snapshot'']) tree root)"
proof (cases tree)
  case (Some cs)
  with assms(2) have "validTree (toNode (Tree cs))" using validTree_toNode [of "Tree cs"] by (simp add: wfDir_def)
  with pubInv_put [OF assms(1)] Some show ?thesis by (simp add: graft_def del: toNode.simps)
qed (use assms in \<open>simp add: graft_def\<close>)

lemma reserveAdmission_pubInv:
  assumes "wfDir (treeOf tree)" "pubInv name root0 s"
    and "reserveAdmission w (tmpPath name @ [''snapshot'']) tree growth s = (r, s')"
  shows "pubInv name root0 s'"
proof -
  obtain b root where s: "s = (b, root)" by (cases s)
  with assms(3) have "Reserve w growth (b, graft (tmpPath name @ [''snapshot'']) tree root) = (r, s')"
    by (simp add: reserveAdmission_def)
  from pubInv_Reserve [OF this graft_pubInv] assms(1,2) s show ?thesis by blast
qed

lemma writeMetadata_pubInv:
  assumes "writeMetadata w (tmpPath name) key h stats s = (r, s')" "pubInv name root0 s"
  shows "pubInv name root0 s'
    \<and> nodeAt (tmpPath name @ ''snapshot'' # q) (snd s') = nodeAt (tmpPath name @ ''snapshot'' # q) (snd s)
    \<and> (r = None \<longrightarrow> (\<exists>n. nodeAt (tmpPath name @ [''metadata.json'']) (snd s') = Some (FFile n)))"
proof -
  define size' where "size' = int (length (metadataDocument key h stats (ewCreatedAt w))) + 1"
  obtain b root where s: "s = (b, root)" by (cases s)
  obtain r1 b1 root1 where res: "Reserve (ewDisk w) size' (b, root) = (r1, b1, root1)" by (metis surj_pair)
  note kept = pubInv_Reserve [OF res assms(2) [unfolded s]]
  let ?meta = "tmpPath name @ [''metadata.json'']"
  have cases': "(r \<noteq> None \<and> s' = (b1, root1)) \<or> (r = None \<and> s' = (b1, putAt ?meta (FFile size') root1))"
    using assms(1) res s
    by (auto simp: writeMetadata_def Let_def size'_def [symmetric] split: sum.splits option.splits)
  have ap: "apart ?meta (tmpPath name @ ''snapshot'' # q)" by (simp add: tmpPath_def apart_Cons)
  have "validTree (FFile size')" by (simp add: size'_def)
  then have put: "pubInv name root0 (b1, putAt ?meta (FFile size') root1)"
    using pubInv_put [of name root0 b1 root1 "FFile size'" "[''metadata.json'']"] kept by simp
  have "isDirAt (tmpPath name) root1" using kept by (simp add: pubInv_def)
  then have "nodeAt ?meta (putAt ?meta (FFile size') root1) = Some (FFile size')"
    using nodeAt_putAt_below [of ?meta root1 "[]" "FFile size'"] isDirAt_dirPath by simp
  with cases' kept put nodeAt_putAt_other [OF ap] s show ?thesis by auto
qed

text \<open>What a finished publication has put in the commit directory.\<close>

definition published :: "ensureWorld \<Rightarrow> Manager \<Rightarrow> (goerr + (goerr + tarEvent list)) option \<Rightarrow> fpath \<Rightarrow>
    extractionStats \<Rightarrow> fnode \<Rightarrow> bool" where
  "published w m download commitDir stats root \<longleftrightarrow>
     (\<exists>cs dir s0 s1. extractArchive ((ewExtract w)\<lparr>exLimits := mgLimits m\<rparr>)
         (reserveAdmission (ewDisk w) dir) download s0 = (Inr stats, Some cs, s1)
       \<and> nodeAt (commitDir @ [''snapshot'']) root = Some (toNode (Tree cs)))
   \<and> (\<exists>n. nodeAt (commitDir @ [''metadata.json'']) root = Some (FFile n))"

lemma extract_pubInv:
  assumes "extractArchive E (reserveAdmission w (tmpPath name @ [''snapshot''])) download s = (r, tree, s')"
    and "pubInv name root0 s"
  shows "pubInv name root0 s' \<and> wfDir (treeOf tree)"
proof (cases "\<exists>events. download = Some (Inr (Inr events))")
  case True
  then obtain events where "extractLoop E (reserveAdmission w (tmpPath name @ [''snapshot''])) 0 noStats None s events
      = (r, tree, s')" using assms(1) by (auto simp: extractArchive_def)
  from extractLoop_state [where I = "pubInv name root0", OF reserveAdmission_pubInv this] assms(2)
  show ?thesis by simp
next
  case False
  with assms show ?thesis by (auto simp: extractArchive_def split: option.splits sum.splits)
qed

lemma extract_tree:
  "extractArchive E admit download s = (Inr stats, tree, s') \<Longrightarrow> \<exists>cs. tree = Some cs"
proof -
  have "extractLoop E admit entries st t s evs = (Inr stats, tree, s') \<Longrightarrow> \<exists>cs. tree = Some cs" for entries st t s evs
    by (induction E admit entries st t s evs rule: extractLoop.induct)
      (auto simp: Let_def split: option.splits sum.splits tarEvent.splits if_splits prod.splits)
  then show "extractArchive E admit download s = (Inr stats, tree, s') \<Longrightarrow> \<exists>cs. tree = Some cs"
    by (auto simp: extractArchive_def split: option.splits sum.splits)
qed

lemma publish_spec:
  assumes run: "publish w m key h commitDir (tmpPath name) download s = (r, root')"
    and inv: "pubInv name root0 s" and out: "outside commitDir"
  shows "(\<exists>err. r = Inl err \<and> (\<exists>b. pubInv name root0 (b, root')))
    \<or> (\<exists>stats. r = Inr stats \<and> published w m download commitDir stats root'
        \<and> nodeAt (tmpPath name) root' = None)"
proof -
  let ?E = "(ewExtract w)\<lparr>exLimits := mgLimits m\<rparr>"
  let ?snap = "tmpPath name @ [''snapshot'']"
  obtain r1 tree b1 root1 where ex: "extractArchive ?E (reserveAdmission (ewDisk w) ?snap) download s
      = (r1, tree, (b1, root1))" by (metis surj_pair)
  note exinv = extract_pubInv [OF ex inv]
  note grafted = graft_pubInv [OF conjunct1 [OF exinv] conjunct2 [OF exinv]]
  show ?thesis
  proof (cases r1)
    case (Inl err)
    with run ex have "r = Inl err" "root' = graft ?snap tree root1" by (simp_all add: publish_def)
    with grafted show ?thesis by blast
  next
    case (Inr stats)
    obtain cs where cs: "tree = Some cs" using extract_tree [OF ex [unfolded Inr]] ..
    let ?root2 = "graft ?snap tree root1"
    obtain r3 b3 root3 where meta: "writeMetadata w (tmpPath name) key h stats (b1, ?root2) = (r3, (b3, root3))"
      by (metis surj_pair)
    note minv = writeMetadata_pubInv [OF meta grafted]
    have step: "(case r3 of Some err \<Rightarrow> (Inl err, root3)
        | None \<Rightarrow> (case ewParentErr w of Some err \<Rightarrow> (Inl err, root3)
          | None \<Rightarrow> if \<not> dirPath (butlast commitDir) root3 then (Inl errNotDir, root3)
              else (case renameTo w (tmpPath name) commitDir root3 of
                 Inl err \<Rightarrow> (Inl err, root3) | Inr root \<Rightarrow> (Inr stats, root)))) = (r, root')"
      using run ex Inr meta by (auto simp: publish_def split: option.splits if_splits)
    show ?thesis
    proof (cases "r3 = None \<and> ewParentErr w = None \<and> dirPath (butlast commitDir) root3
        \<and> \<not> isl (renameTo w (tmpPath name) commitDir root3)")
      case False
      with step have "isl r \<and> root' = root3"
        by (cases r3; cases "ewParentErr w"; cases "renameTo w (tmpPath name) commitDir root3")
          (auto split: if_splits)
      with minv show ?thesis by (auto simp: isl_def)
    next
      case True
      then obtain root4 where ren: "renameTo w (tmpPath name) commitDir root3 = Inr root4"
        by (cases "renameTo w (tmpPath name) commitDir root3") auto
      with step True have r: "r = Inr stats" "root' = root4" by simp_all
      from ren obtain nd where nd: "nodeAt (tmpPath name) root3 = Some nd"
        "root4 = putAt commitDir nd (removeAt (tmpPath name) root3)"
        by (auto simp: renameTo_def split: option.splits fnode.splits list.splits)
      have "dirPath (butlast commitDir) (removeAt (tmpPath name) root3)"
        using True dirPath_removeAt by blast
      then have moved: "nodeAt (commitDir @ q) root4 = nodeAt (tmpPath name @ q) root3" for q
        unfolding nd(2) using nodeAt_putAt_below out nd(1)
        by (simp add: outside_def nodeAt_append [of "tmpPath name"])
      have "isDirAt (tmpPath name) root1" using exinv by (simp add: pubInv_def)
      then have "nodeAt ?snap (putAt ?snap (toNode (Tree cs)) root1) = Some (toNode (Tree cs))"
        using nodeAt_putAt_below [of ?snap root1 "[]" "toNode (Tree cs)"] isDirAt_dirPath
        by (simp del: toNode.simps)
      then have "nodeAt ?snap root3 = Some (toNode (Tree cs))"
        using minv [of "[]"] cs by (simp add: graft_def del: toNode.simps)
      then have "nodeAt (commitDir @ [''snapshot'']) root4 = Some (toNode (Tree cs))"
        unfolding moved .
      moreover have "extractArchive ?E (reserveAdmission (ewDisk w) ?snap) download s = (Inr stats, Some cs, (b1, root1))"
        using ex Inr cs by simp
      moreover have "\<exists>n. nodeAt (commitDir @ [''metadata.json'']) root4 = Some (FFile n)"
        using moved minv True by simp
      ultimately have "published w m download commitDir stats root4"
        unfolding published_def by blast
      moreover have "nodeAt (tmpPath name) root4 = None"
      proof -
        have "apart commitDir (tmpPath name)" using outside_apart2 [OF out, of name "[]"] by simp
        moreover have "validTree root3" "tmpPath name \<noteq> []" using minv by (simp_all add: pubInv_def tmpPath_def)
        ultimately show ?thesis unfolding nd(2) using removeAt_gone by (simp add: nodeAt_putAt_other)
      qed
      ultimately show ?thesis using r by blast
    qed
  qed
qed

section \<open>Ensure\<close>

lemma sweepNames_removes: "\<exists>removed. sweepNames w stamps names root = fold removeAt removed root"
proof (induction w stamps names root rule: sweepNames.induct)
  case (1 w stamps root)
  show ?case by (intro exI [of _ "[]"]) simp
next
  case (2 w stamps name names root)
  show ?case
  proof (cases "\<exists>t. stamps name = Some t \<and> \<not> t > dwNow w - 3600 * 10 ^ 9 \<and> dwRemoveErr w [''.tmp'', name] = None")
    case True
    then obtain t where t: "stamps name = Some t" "\<not> t > dwNow w - 3600 * 10 ^ 9"
      "dwRemoveErr w [''.tmp'', name] = None" by blast
    with "2.IH"(4) [OF t(1)] obtain removed where
      "sweepNames w stamps names (removeAt [''.tmp'', name] root) = fold removeAt removed (removeAt [''.tmp'', name] root)"
      by auto
    with t show ?thesis by (intro exI [of _ "[''.tmp'', name] # removed"]) simp
  next
    case False
    with 2 show ?thesis by (auto split: option.splits)
  qed
qed

lemma sweep_removes: "\<exists>removed. sweepStaleTemporaries w root = fold removeAt removed root"
  using sweepNames_removes [of "ewDisk w" "ewModTime w" _ root]
  by (auto simp: sweepStaleTemporaries_def split: option.splits fnode.splits intro: exI [of _ "[]"])

lemma fold_removeAt_valid: "validTree root \<Longrightarrow> validTree (fold removeAt removed root)"
  by (induction removed arbitrary: root) (simp_all add: validTree_removeAt)

text \<open>Preparing removes some paths and, when it succeeds, has an empty temporary directory.\<close>

lemma prepareTemporary_spec:
  assumes run: "prepareTemporary w b root = (r, root')" and valid: "validTree root" "isDirNode root"
  shows "validTree root' \<and> isDirNode root' \<and> (\<forall>q. outside q \<and> isDirAt q root' \<longrightarrow> isDirAt q root)
    \<and> (\<forall>name. r = Inr name \<longrightarrow> isDirAt (tmpPath name) root')"
proof -
  obtain swept where swept: "sweepStaleTemporaries w root = fold removeAt swept root"
    using sweep_removes by blast
  let ?root1 = "fold removeAt swept root"
  obtain r2 root2 where room: "MakeRoom (ewDisk w) b 1 ?root1 = (r2, root2)" by fastforce
  have v1: "validTree ?root1" by (rule fold_removeAt_valid [OF valid(1)])
  from MakeRoom_spec [OF room v1] obtain removed where "root2 = fold removeAt removed ?root1" by blast
  then have v2: "validTree root2" "isDirNode root2"
    "isDirAt q root2 \<Longrightarrow> isDirAt q root" for q
    using fold_removeAt_valid [OF v1] valid(2) by (auto simp: fold_removeAt_node dest!: fold_removeAt_dirs)
  let ?now = "dwNow (ewDisk w)"
  define root3 where "root3 = (if isDirAt [''.tmp''] root2 then root2 else putAt [''.tmp''] (FDir ?now []) root2)"
  have out: "nodeAt q (putAt (''.tmp'' # p) x t) = nodeAt q t" if "outside q" for q p x t
    using that by (intro nodeAt_putAt_other) (cases q; simp add: outside_def apart_Cons)
  have new: "isDirAt [''.tmp''] (putAt [''.tmp''] (FDir ?now []) root2)"
    using nodeAt_putAt_below [of "[''.tmp'']" root2 "[]" "FDir ?now []"] v2(2)
    by (simp add: isDirAt_def isDirNode_def del: putAt.simps)
  have outD: "isDirAt q (putAt (''.tmp'' # p) x t) = isDirAt q t" if "outside q" for q p x t
    using out [OF that] by (simp add: isDirAt_def)
  have v3: "validTree root3" "isDirNode root3" "isDirAt [''.tmp''] root3"
    "outside q \<Longrightarrow> isDirAt q root3 \<Longrightarrow> isDirAt q root" for q
    using v2 new outD [of q "[]"]
    by (auto simp: root3_def validTree_putAt isDirNode_putAt split: if_splits simp del: putAt.simps)
  let ?err = "if dirPath [''.tmp''] root2 then ewTmpDirErr w else Some errNotDir"
  have step: "(case r2 of Inl err \<Rightarrow> (Inl err, root2) | Inr _ \<Rightarrow> (case ?err of Some err \<Rightarrow> (Inl err, root2)
      | None \<Rightarrow> (case ewTempName w of Inl err \<Rightarrow> (Inl err, root3)
          | Inr name \<Rightarrow> (Inr name, putAt (tmpPath name) (FDir ?now []) root3)))) = (r, root')"
    using run unfolding prepareTemporary_def swept room Let_def tmpPath_def root3_def by (simp only: prod.case)
  consider (early) err where "r = Inl err" "root' = root2"
    | (noName) err where "r = Inl err" "root' = root3"
    | (ok) name where "r = Inr name" "root' = putAt (tmpPath name) (FDir ?now []) root3"
  proof (cases r2)
    case (Inl e)
    with step have "r = Inl e" "root' = root2" by simp_all
    then show thesis by (rule that(1))
  next
    case (Inr u)
    show thesis
    proof (cases ?err)
      case None
      note noErr = None
      show thesis
      proof (cases "ewTempName w")
        case (Inl e)
        with step Inr noErr have "r = Inl e" "root' = root3" using \<open>r2 = Inr u\<close> by simp_all
        then show thesis by (rule that(2))
      next
        case name: (Inr n)
        with step noErr \<open>r2 = Inr u\<close> have "r = Inr n" "root' = putAt (tmpPath n) (FDir ?now []) root3"
          by (simp_all del: putAt.simps)
        then show thesis by (rule that(3))
      qed
    next
      case (Some e)
      with step Inr have "r = Inl e" "root' = root2" by simp_all
      then show thesis by (rule that(1))
    qed
  qed
  then show ?thesis
  proof cases
    case early
    with v2 show ?thesis by blast
  next
    case noName
    with v3 show ?thesis by blast
  next
    case ok
    have "isDirAt (tmpPath name) root'"
      using nodeAt_putAt_below [of "tmpPath name" root3 "[]" "FDir ?now []"] isDirAt_dirPath [OF v3(3)] ok
      by (simp add: isDirAt_def isDirNode_def tmpPath_def del: putAt.simps)
    moreover have "nodeAt q root' = nodeAt q root3" if "outside q" for q
      using out [OF that] ok by (simp add: tmpPath_def del: putAt.simps)
    then have "isDirAt q root" if "outside q" "isDirAt q root'" for q
      using v3(4) [OF that(1)] that by (simp add: isDirAt_def)
    moreover have "validTree root'" "isDirNode root'"
      using v3(1,2) ok by (simp_all add: validTree_putAt isDirNode_putAt tmpPath_def del: putAt.simps)
    ultimately show ?thesis using ok by blast
  qed
qed

lemma touchAt_dirs: "isDirAt (p @ [a]) root \<Longrightarrow> isDirAt (p @ [a]) (touchAt p now root)"
proof -
  assume d: "isDirAt (p @ [a]) root"
  then obtain n where n: "nodeAt p root = Some n" "isDirAt [a] n"
    by (auto simp: isDirAt_def nodeAt_append split: option.splits)
  then obtain t cs where f: "n = FDir t cs" by (cases n) (auto simp: isDirAt_def)
  show ?thesis
  proof (cases "p = []")
    case True
    with n f show ?thesis by (simp add: touchAt_def isDirAt_def)
  next
    case False
    then have "isDirAt (butlast p) root"
      using isDirAt_prefix [of "butlast p" "[last p, a]" root] d
      by (metis append.assoc append_Cons append_Nil append_butlast_last_id)
    then have "nodeAt (p @ [a]) (putAt p (FDir now cs) root) = nodeAt [a] (FDir now cs)"
      using nodeAt_putAt_below False isDirAt_dirPath by blast
    with n f show ?thesis by (simp add: touchAt_def isDirAt_def)
  qed
qed

lemma published_isDir: "published w m download commitDir stats root \<Longrightarrow> isDirAt (commitDir @ [''snapshot'']) root"
  by (auto simp: published_def isDirAt_def isDirNode_def)

lemma cleanup_outside:
  assumes "outside commitDir"
  shows "nodeAt (commitDir @ q) (cleanupTemporary w (tmpPath name) root) = nodeAt (commitDir @ q) root"
proof -
  have "outside (commitDir @ q)" using assms by (auto simp: outside_def)
  then have "apart (tmpPath name) (commitDir @ q)" using outside_apart [of "commitDir @ q" name "[]"] by simp
  then show ?thesis by (simp add: cleanupTemporary_def nodeAt_removeAt_other)
qed

lemma Ensure_spec:
  assumes run: "Ensure sha256 w m key download before root = (r, root')"
    and valid: "validTree root" "isDirNode root" and dir: "directory sha256 m key = Inr (path, h)"
    and final: "final = [kyOwner key, kyRepo key, kyCommitSHA key, ''snapshot'']"
  shows "(\<forall>err. r = Inl err \<and> ewShare w = None \<and> isDirAt final root' \<longrightarrow> isDirAt final before \<or> isDirAt final root)
    \<and> (\<forall>res. r = Inr res \<longrightarrow> rsDir res = final \<and> isDirAt final root'
        \<and> (if rsCacheHit res then isDirAt final before \<or> isDirAt final root
           else \<exists>stats. published w m download [kyOwner key, kyRepo key, kyCommitSHA key] stats root'
             \<and> rsSkipped res = SkippedEntries stats))"
proof -
  let ?commit = "[kyOwner key, kyRepo key, kyCommitSHA key]"
  have "kyOwner key \<noteq> ''.tmp''"
    using isCacheComponent_normal [OF directory_ok(2) [OF dir]] by auto
  then have out: "outside ?commit" "outside final" by (simp_all add: outside_def final)
  obtain userRoot where user: "userRootOf sha256 m (kyUserID key) = Inr userRoot"
    using directory_ok(4,5) [OF dir] by (auto simp: userRootOf_def bindE_def)
  show ?thesis
  proof (cases "ewRead w = None \<and> \<not> isDirAt final before \<and> ewWriter w = None \<and> \<not> isDirAt final root
      \<and> (if ewShared w = None then ewExclusive w else ewShared w) = None")
    case False
    with run dir user touchAt_dirs [of ?commit "''snapshot''" before "dwNow (ewDisk w)"] show ?thesis
      by (auto simp: Ensure_def Let_def final snapshotHit_def finishEnsure_def split: option.splits if_splits)
  next
    case True
    define b where "b = \<lparr>bgBase = pathBase userRoot, bgKeep = None, bgMaxBytes = evMaxBytes (mgEviction m),
      bgTTL = evTTL (mgEviction m), bgReady = False, bgFree = 0\<rparr>"
    obtain r1 root1 where prep: "prepareTemporary w b root = (r1, root1)" by fastforce
    note prepared = prepareTemporary_spec [OF prep valid]
    show ?thesis
    proof (cases r1)
      case (Inl err)
      with run dir user True prep have "r = Inl err" "root' = root1"
        by (auto simp: Ensure_def Let_def final b_def [symmetric] split: if_splits)
      with prepared out(2) show ?thesis by simp
    next
      case (Inr name)
      obtain r2 root2 where pub: "publish w m key h ?commit (tmpPath name) download
          (b\<lparr>bgKeep := Some (tmpPath name)\<rparr>, root1) = (r2, root2)" by fastforce
      have "pubInv name root (b\<lparr>bgKeep := Some (tmpPath name)\<rparr>, root1)"
        using prepared Inr by (simp add: pubInv_def)
      note finished = publish_spec [OF pub this out(1)]
      have res: "root' = cleanupTemporary (ewDisk w) (tmpPath name) root2
          \<and> r = (case r2 of Inl err \<Rightarrow> Inl err | Inr stats \<Rightarrow> finishEnsure w final False (SkippedEntries stats))"
        using run dir user True prep Inr pub
        by (auto simp: Ensure_def Let_def final b_def [symmetric] tmpPath_def split: if_splits sum.splits)
      have kept: "nodeAt (?commit @ q) root' = nodeAt (?commit @ q) root2" for q
        using res cleanup_outside [OF out(1)] by simp
      then have same: "isDirAt final root' = isDirAt final root2"
        using kept [of "[''snapshot'']"] by (simp add: isDirAt_def final)
      show ?thesis
      proof (cases r2)
        case (Inl err)
        with finished obtain b' where "pubInv name root (b', root2)" by auto
        then have "isDirAt final root2 \<Longrightarrow> isDirAt final root" using out(2) by (auto simp: pubInv_def)
        with res Inl same show ?thesis by simp
      next
        case (Inr stats)
        with finished have p2: "published w m download ?commit stats root2" by auto
        then have "published w m download ?commit stats root'"
          using kept [of "[''snapshot'']"] kept [of "[''metadata.json'']"] unfolding published_def by simp
        with res Inr same published_isDir [OF p2] show ?thesis
          by (auto simp: finishEnsure_def snapshotHit_def final split: option.splits)
      qed
    qed
  qed
qed

text \<open>C1: Publication is atomic: if Ensure fails (other than in turning its finished lock into a shared one),
  no snapshot directory has appeared; if it succeeds the directory is there, a cache hit only reports a
  directory that was there before, and a miss has published exactly the files of the downloaded archive,
  less one wrapper directory at most.\<close>

theorem ensure_atomic:
  assumes "Ensure sha256 w m key download before root = (r, root')"
    and "validTree root" "isDirNode root" "directory sha256 m key = Inr (path, h)"
    and "final = [kyOwner key, kyRepo key, kyCommitSHA key, ''snapshot'']"
    and "cleanDest (exDestination (ewExtract w))"
  shows "(\<forall>err. r = Inl err \<and> ewShare w = None \<and> isDirAt final root' \<longrightarrow> isDirAt final before \<or> isDirAt final root)
    \<and> (\<forall>res. r = Inr res \<longrightarrow> rsDir res = final \<and> isDirAt final root'
        \<and> (rsCacheHit res \<longrightarrow> isDirAt final before \<or> isDirAt final root)
        \<and> (\<not> rsCacheHit res \<longrightarrow> (\<exists>events cs wrapper. download = Some (Inr (Inr events))
             \<and> nodeAt final root' = Some (toNode (Tree cs)) \<and> length wrapper \<le> 1
             \<and> (\<forall>p. fileAt p cs = (if p = [] then None else map_of (rev (archiveFiles events)) (wrapper @ p)))
             \<and> rsSkipped res = skippedHeaders events)))"
proof -
  note spec = Ensure_spec [OF assms(1-5)]
  have "\<exists>events cs wrapper. download = Some (Inr (Inr events))
      \<and> nodeAt final root' = Some (toNode (Tree cs)) \<and> length wrapper \<le> 1
      \<and> (\<forall>p. fileAt p cs = (if p = [] then None else map_of (rev (archiveFiles events)) (wrapper @ p)))
      \<and> SkippedEntries stats = skippedHeaders events"
    if "published w m download [kyOwner key, kyRepo key, kyCommitSHA key] stats root'" for stats
  proof -
    from that obtain cs dir s0 s1 where ex: "extractArchive ((ewExtract w)\<lparr>exLimits := mgLimits m\<rparr>)
         (reserveAdmission (ewDisk w) dir) download s0 = (Inr stats, Some cs, s1)"
      and at: "nodeAt final root' = Some (toNode (Tree cs))"
      unfolding published_def assms(5) by auto
    from extract_files [OF _ ex] assms(6) obtain events root2 wrapper where
      "download = Some (Inr (Inr events))" "Some cs = Some root2" "length wrapper \<le> 1"
      "\<forall>p. fileAt p root2 = (if p = [] then None else map_of (rev (archiveFiles events)) (wrapper @ p))"
      "SkippedEntries stats = skippedHeaders events" by auto
    with at show ?thesis by (intro exI [of _ events] exI [of _ cs] exI [of _ wrapper]) simp
  qed
  note shown = this
  show ?thesis
  proof (intro conjI allI impI)
    fix err
    assume "r = Inl err \<and> ewShare w = None \<and> isDirAt final root'"
    with spec show "isDirAt final before \<or> isDirAt final root" by blast
  next
    fix res
    assume res: "r = Inr res"
    from conjunct2 [OF spec] res have got: "rsDir res = final \<and> isDirAt final root'
        \<and> (if rsCacheHit res then isDirAt final before \<or> isDirAt final root
           else \<exists>stats. published w m download [kyOwner key, kyRepo key, kyCommitSHA key] stats root'
             \<and> rsSkipped res = SkippedEntries stats)" by blast
    then show "rsDir res = final" "isDirAt final root'" by simp_all
    show "isDirAt final before \<or> isDirAt final root" if "rsCacheHit res" using got that by simp
    assume "\<not> rsCacheHit res"
    with got obtain stats where stats: "published w m download [kyOwner key, kyRepo key, kyCommitSHA key] stats root'"
      "rsSkipped res = SkippedEntries stats" by auto
    show "\<exists>events cs wrapper. download = Some (Inr (Inr events))
        \<and> nodeAt final root' = Some (toNode (Tree cs)) \<and> length wrapper \<le> 1
        \<and> (\<forall>p. fileAt p cs = (if p = [] then None else map_of (rev (archiveFiles events)) (wrapper @ p)))
        \<and> rsSkipped res = skippedHeaders events"
      using shown [OF stats(1)] unfolding stats(2) .
  qed
qed

text \<open>The archive is downloaded only on a miss: when the snapshot is already there, at the first look or
  once the writer lock is held, the call does not depend on the download at all.\<close>

theorem ensure_hit_ignores_download:
  assumes "isDirAt [kyOwner key, kyRepo key, kyCommitSHA key, ''snapshot''] before
    \<or> isDirAt [kyOwner key, kyRepo key, kyCommitSHA key, ''snapshot''] root"
  shows "Ensure sha256 w m key download before root = Ensure sha256 w m key download' before root"
  using assms by (auto simp: Ensure_def Let_def split: sum.split option.split)

text \<open>A manager without limits, and a request on an empty cache.\<close>

definition freeManager :: Manager where
  "freeManager = someManager\<lparr>mgEviction := \<lparr>evMaxBytes = 0, evTTL = 0\<rparr>\<rparr>"

definition someEnsure :: ensureWorld where
  "someEnsure = \<lparr>ewRead = None, ewWriter = None, ewShared = None, ewExclusive = None, ewShare = None,
     ewDisk = someDisk, ewModTime = (\<lambda>n. None), ewTmpDirErr = None, ewTempName = Inr ''1'',
     ewExtract = someEnv, ewCreatedAt = ''2026-01-01T00:00:00Z'', ewMetadataErr = None,
     ewParentErr = None, ewRenameErr = None\<rparr>"

lemma freeDirectory: "\<exists>path. directory someDigest freeManager (someKey ''o'') = Inr (path, someDigest [])"
proof -
  have "directory someDigest freeManager (someKey ''o'') = directory someDigest someManager (someKey ''o'')"
    by (simp add: directory_def freeManager_def)
  with someDirectory [of "''o''"] show ?thesis by simp
qed

definition oneFile :: "tarEvent list" where
  "oneFile = [TarEntry \<lparr>hdName = ''a'', hdType = TypeReg, hdSize = 2\<rparr> ''hi'' None]"

lemma someEnsure_runs:
  "\<exists>res root'. Ensure someDigest someEnsure freeManager (someKey ''o'') (Some (Inr (Inr oneFile)))
      (FDir 0 []) (FDir 0 []) = (Inr res, root') \<and> \<not> rsCacheHit res"
proof -
  obtain path where dir: "directory someDigest freeManager (someKey ''o'') = Inr (path, someDigest [])"
    using freeDirectory ..
  obtain userRoot where user: "userRootOf someDigest freeManager (kyUserID (someKey ''o'')) = Inr userRoot"
    using directory_ok(4,5) [OF dir] by (auto simp: userRootOf_def bindE_def)
  have name: "cleanComps False ''a'' = [''a'']" by (simp add: cleanComps_def cleanStep_def slash_def)
  have join: "safeJoin tmpDest ''a'' = Inr ''/tmp/s/a''"
    unfolding safeJoin_spec [OF tmpDest_clean] safeEntry_def name
    by (simp add: tmpDest_def slash_def isRooted_def normalComp_def)
  have rel: "relComps tmpDest ''/tmp/s/a'' = [''a'']" and ne: "''/tmp/s/a'' \<noteq> tmpDest"
    by (simp_all add: relComps_def tmpDest_def slash_def)
  let ?b = "\<lparr>bgBase = pathBase userRoot, bgKeep = None, bgMaxBytes = 0, bgTTL = 0, bgReady = False, bgFree = 0\<rparr>"
  let ?tmp = "[''.tmp'', ''snapshot-1'']"
  let ?root = "FDir 0 [(''.tmp'', FDir 100 [(''snapshot-1'', FDir 100 [])])]"
  have prep: "prepareTemporary someEnsure ?b (FDir 0 []) = (Inr ''1'', ?root)"
    by (simp add: prepareTemporary_def sweepStaleTemporaries_def MakeRoom_def someEnsure_def someDisk_def
        isDirAt_def isDirNode_def Let_def)
  let ?s = "(?b\<lparr>bgKeep := Some ?tmp\<rparr>, ?root)"
  have "\<exists>stats. extractArchive ((ewExtract someEnsure)\<lparr>exLimits := mgLimits freeManager\<rparr>)
      (reserveAdmission (ewDisk someEnsure) (?tmp @ [''snapshot''])) (Some (Inr (Inr oneFile))) ?s
      = (Inr stats, Some [(''a'', Blob ''hi'')], ?s)"
    by (simp add: archive_run oneFile_def join rel ne reserveAdmission_def Reserve_def graft_def
        someEnsure_def freeManager_def someManager_def)
  then obtain stats where ex: "extractArchive ((ewExtract someEnsure)\<lparr>exLimits := mgLimits freeManager\<rparr>)
      (reserveAdmission (ewDisk someEnsure) (?tmp @ [''snapshot''])) (Some (Inr (Inr oneFile))) ?s
      = (Inr stats, Some [(''a'', Blob ''hi'')], ?s)" ..
  have "\<exists>root'. publish someEnsure freeManager (someKey ''o'') (someDigest [])
      [kyOwner (someKey ''o''), kyRepo (someKey ''o''), kyCommitSHA (someKey ''o'')] ?tmp
      (Some (Inr (Inr oneFile))) ?s = (Inr stats, root')"
    unfolding publish_def ex
    by (simp add: writeMetadata_def Let_def Reserve_def graft_def renameTo_def someEnsure_def someKey_def
        isDirNode_def)
  then obtain root' where pub: "publish someEnsure freeManager (someKey ''o'') (someDigest [])
      [kyOwner (someKey ''o''), kyRepo (someKey ''o''), kyCommitSHA (someKey ''o'')] ?tmp
      (Some (Inr (Inr oneFile))) ?s = (Inr stats, root')" ..
  have world: "ewRead someEnsure = None" "ewWriter someEnsure = None" "ewShared someEnsure = None"
    "ewExclusive someEnsure = None" "ewShare someEnsure = None"
    "evMaxBytes (mgEviction freeManager) = 0" "evTTL (mgEviction freeManager) = 0"
    by (simp_all add: someEnsure_def freeManager_def)
  have empty: "\<not> isDirAt (a # p) (FDir 0 [])" for a p by (simp add: isDirAt_def)
  show ?thesis
    by (simp add: Ensure_def Let_def dir user world empty prep pub [simplified] finishEnsure_def snapshotHit_def)
qed

theorem ensure_atomic_witness:
  "\<exists>root' cs wrapper. snd (Ensure someDigest someEnsure freeManager (someKey ''o'') (Some (Inr (Inr oneFile)))
      (FDir 0 []) (FDir 0 [])) = root'
    \<and> nodeAt [''o'', ''r'', replicate 40 CHR ''a'', ''snapshot''] root' = Some (toNode (Tree cs))
    \<and> length wrapper \<le> (1 :: nat) \<and> fileAt [''a''] cs = map_of [([''a''], ''hi'')] (wrapper @ [''a''])"
proof -
  obtain res root' where run: "Ensure someDigest someEnsure freeManager (someKey ''o'')
      (Some (Inr (Inr oneFile))) (FDir 0 []) (FDir 0 []) = (Inr res, root')" and miss: "\<not> rsCacheHit res"
    using someEnsure_runs by blast
  obtain path where dir: "directory someDigest freeManager (someKey ''o'') = Inr (path, someDigest [])"
    using freeDirectory ..
  have "cleanDest (exDestination (ewExtract someEnsure))" by (simp add: someEnsure_def someEnv_def tmpDest_clean)
  from ensure_atomic [OF run _ _ dir refl this] miss obtain events cs wrapper where
    got: "Some (Inr (Inr oneFile)) = Some (Inr (Inr events))"
    "nodeAt [kyOwner (someKey ''o''), kyRepo (someKey ''o''), kyCommitSHA (someKey ''o''), ''snapshot''] root'
       = Some (toNode (Tree cs))" "length wrapper \<le> 1"
    "\<forall>p. fileAt p cs = (if p = [] then None else map_of (rev (archiveFiles events)) (wrapper @ p))"
    by (auto simp: isDirNode_def simp del: toNode.simps)
  have "archiveFiles oneFile = [([''a''], ''hi'')]"
    by (simp add: oneFile_def isMaterializable_def TypeReg_def TypeDir_def cleanComps_def cleanStep_def slash_def)
  with got run show ?thesis
    by (intro exI [of _ root'] exI [of _ cs] exI [of _ wrapper]) (simp add: someKey_def del: toNode.simps)
qed

theorem ensure_hit_ignores_download_witness:
  "Ensure someDigest someEnsure freeManager (someKey ''o'') None
      (FDir 0 [(''o'', FDir 0 [(''r'', FDir 0 [(replicate 40 CHR ''a'', FDir 0 [(''snapshot'', FDir 0 [])])])])]) (FDir 0 [])
   = Ensure someDigest someEnsure freeManager (someKey ''o'') (Some (Inr (Inr oneFile)))
      (FDir 0 [(''o'', FDir 0 [(''r'', FDir 0 [(replicate 40 CHR ''a'', FDir 0 [(''snapshot'', FDir 0 [])])])])]) (FDir 0 [])"
  by (rule ensure_hit_ignores_download) (simp add: someKey_def isDirAt_def isDirNode_def)

section \<open>Removal touches only instance directories\<close>

lemma removeUsers_other:
  "removeUsers w inst users root = (err, root') \<Longrightarrow> q \<noteq> [] \<Longrightarrow> hd q \<noteq> inst \<Longrightarrow> nodeAt q root' = nodeAt q root"
proof (induction users arbitrary: root)
  case (Cons user users)
  have ap: "nodeAt q (putAt [inst, user] left root) = nodeAt q root" for left
    using Cons.prems(2,3) by (intro nodeAt_putAt_other) (cases q; simp add: apart_Cons)
  consider (more) left where "removeUsers w inst users (putAt [inst, user] left root) = (err, root')"
    | (skip) "removeUsers w inst users root = (err, root')"
    | (stop) left where "root' = putAt [inst, user] left root" | (same) "root' = root"
    using Cons.prems(1)
    by (auto simp del: nodeAt.simps putAt.simps split: option.splits fnode.splits prod.splits)
  then show ?case
  proof cases
    case more
    with Cons ap show ?thesis by metis
  qed (use Cons ap in simp_all)
qed simp

lemma removeInstances_other:
  "removeInstances w names root = (err, root') \<Longrightarrow> q \<noteq> [] \<Longrightarrow> \<not> isInstanceHash (hd q) \<Longrightarrow>
    nodeAt q root' = nodeAt q root"
proof (induction names arbitrary: root)
  case (Cons name names)
  show ?case
  proof (cases "\<not> isDirAt [name] root \<or> \<not> isInstanceHash name \<or> cwReadErr w [name] \<noteq> None")
    case True
    with Cons show ?thesis by (auto simp del: nodeAt.simps split: if_splits option.splits)
  next
    case False
    then have ne: "hd q \<noteq> name" using Cons.prems(3) by auto
    let ?users = "case nodeAt [name] root of Some n \<Rightarrow> childNames n | None \<Rightarrow> []"
    obtain e root1 where r: "removeUsers w name ?users root = (e, root1)" by fastforce
    note kept = removeUsers_other [OF r Cons.prems(2) ne]
    show ?thesis
    proof (cases e)
      case None
      with Cons.prems(1) r False have "removeInstances w names root1 = (err, root')"
        by (simp del: nodeAt.simps)
      with Cons.IH [OF this Cons.prems(2,3)] kept show ?thesis by simp
    next
      case (Some x)
      with Cons.prems(1) r False kept show ?thesis by (simp del: nodeAt.simps)
    qed
  qed
qed simp

text \<open>Cleaning every cache touches only the directories named as instance hashes: whatever the outcome,
  everything else below the cache root stays exactly as it was.\<close>

theorem remove_all_confined:
  assumes "RemoveAll w (Some root) = (err, Some root')" "q \<noteq> []" "\<not> isInstanceHash (hd q)"
  shows "nodeAt q root' = nodeAt q root"
  using assms removeInstances_other [of w "childNames root" root _ _ q]
  by (auto simp: RemoveAll_def split: option.splits prod.splits)

definition quietCleanup :: cleanupWorld where
  "quietCleanup = \<lparr>cwDisk = (\<lambda>i u. someDisk), cwWriter = (\<lambda>i u. None), cwReadErr = (\<lambda>p. None)\<rparr>"

definition cacheRoot :: fnode where
  "cacheRoot = FDir 0 [(''config'', FFile 3), (replicate 64 CHR ''0'', FDir 0 [(''7'', FDir 0 [(''x'', FFile 5)])])]"

theorem remove_all_confined_witness:
  "nodeAt [''config''] (the (snd (RemoveAll quietCleanup (Some cacheRoot)))) = Some (FFile 3)"
proof -
  obtain err root' where inner: "removeInstances quietCleanup (childNames cacheRoot) cacheRoot = (err, root')"
    by fastforce
  have "cwReadErr quietCleanup [] = None" by (simp add: quietCleanup_def)
  with inner have run: "RemoveAll quietCleanup (Some cacheRoot) = (err, Some root')"
    by (simp add: RemoveAll_def)
  with remove_all_confined [OF run, of "[''config'']"] show ?thesis
    by (simp add: isInstanceHash_def cacheRoot_def)
qed

end
