(* ===== verification/Search.thy ===== *)
theory Search
  imports Archive
begin

text \<open>
  internal/snapshot: pattern.go, glob.go and search.go. Queries are compiled to matchers (the literal
  matcher is modelled, the regular expression engine is a parameter), path patterns are validated and
  matched, and the search walks the tree of a snapshot in the order of \<open>filepath.WalkDir\<close>, skipping
  what is excluded, oversized, binary or unreadable, up to its result limit and its deadline.
\<close>

section \<open>Matchers\<close>

text \<open>The ranges of one line, as offsets of the first byte and of the byte after the match.\<close>

type_synonym matcher = "string \<Rightarrow> (nat \<times> nat) list"

text \<open>The loop of the literal matcher. An empty needle would be found again at the same offset for ever,
  so the loop is a partial function.\<close>

partial_function (option) literalLoop :: "string \<Rightarrow> string \<Rightarrow> nat \<Rightarrow> (nat \<times> nat) list option" where
  "literalLoop needle line offset =
     (if int offset \<le> int (length line) - int (length needle) then
        (case indexOf (drop offset line) needle of
           None \<Rightarrow> Some []
         | Some index \<Rightarrow>
             Option.bind (literalLoop needle line (offset + index + length needle))
               (\<lambda>ranges. Some ((offset + index, offset + index + length needle) # ranges)))
      else Some [])"

declare literalLoop.simps [code]

definition literalMatcher :: "string \<Rightarrow> matcher" where
  "literalMatcher pattern line = (case literalLoop pattern line 0 of Some ranges \<Rightarrow> ranges | None \<Rightarrow> [])"

text \<open>\<open>regexp.QuoteMeta\<close>.\<close>

definition quoteMeta :: "string \<Rightarrow> string" where
  "quoteMeta s = concat (map (\<lambda>c.
     if c \<in> set (CHR 0x5C # ''.+*?()|[]{}^$'') then [CHR 0x5C, c] else [c]) s)"

definition compileRegex :: "(string \<Rightarrow> goerr + matcher) \<Rightarrow> string \<Rightarrow> goerr + matcher" where
  "compileRegex regexp expression =
     (case regexp expression of
        Inl err \<Rightarrow> Inl (MsgErr ''compile search pattern'' # err)
      | Inr m \<Rightarrow> Inr m)"

definition Compile :: "(string \<Rightarrow> goerr + matcher) \<Rightarrow> string \<Rightarrow> string \<Rightarrow> bool \<Rightarrow> goerr + matcher" where
  "Compile regexp mode query caseSensitive =
     (if query = [] then Inl [MsgErr ''the search query is required'']
      else if mode = ''literal'' then
        (if caseSensitive then Inr (literalMatcher query)
         else compileRegex regexp (''(?i)'' @ quoteMeta query))
      else if mode = ''regex'' then
        (if caseSensitive then compileRegex regexp query
         else compileRegex regexp (''(?i)'' @ query))
      else Inl [MsgErr ''unsupported search mode''])"

section \<open>Path patterns\<close>

definition validatePathPattern :: "string \<Rightarrow> goerr + unit" where
  "validatePathPattern pattern =
     (if pattern = [] then Inl [MsgErr ''the path pattern is empty'']
      else if CHR 0x00 \<in> set pattern then Inl [MsgErr ''the path pattern contains a NUL byte'']
      else if CHR 0x5C \<in> set pattern then Inl [MsgErr ''the path pattern must use / separators'']
      else if hasPrefix pattern ''/'' then Inl [MsgErr ''the path pattern must not be absolute'']
      else
        (let cleaned = pathClean pattern in
         if cleaned = ''..'' \<or> hasPrefix cleaned ''../''
           then Inl [MsgErr ''the path pattern must not reference parent directories'']
         else if cleaned \<noteq> pattern then Inl [MsgErr ''the path pattern is not a clean relative path'']
         else Inr ()))"

fun validateAll :: "string \<Rightarrow> string list \<Rightarrow> goerr + unit" where
  "validateAll message [] = Inr ()"
| "validateAll message (p # ps) =
     (case validatePathPattern p of
        Inl err \<Rightarrow> Inl (MsgErr message # err)
      | Inr _ \<Rightarrow> validateAll message ps)"

definition ValidatePathPatterns :: "string list \<Rightarrow> string list \<Rightarrow> goerr + unit" where
  "ValidatePathPatterns includes excludes =
     bindE (validateAll ''invalid include pattern'' includes) (\<lambda>_.
       validateAll ''invalid exclude pattern'' excludes)"

fun suffixes :: "string list \<Rightarrow> string list list" where
  "suffixes [] = []"
| "suffixes (x # xs) = (x # xs) # suffixes xs"

definition matchPathPattern :: "string \<Rightarrow> string \<Rightarrow> bool" where
  "matchPathPattern pattern snapshotPath \<longleftrightarrow>
     pathMatch pattern snapshotPath = Some True
     \<or> list_ex (\<lambda>tail. pathMatch pattern (joinWith [slash] tail) = Some True)
         (suffixes (splitOn slash snapshotPath))"

definition pathExcluded :: "string \<Rightarrow> string list \<Rightarrow> string list \<Rightarrow> bool" where
  "pathExcluded p includes excludes \<longleftrightarrow>
     (if ''.git'' \<in> set (splitOn slash p) then True
      else if list_ex (\<lambda>pattern. matchPathPattern pattern p) excludes then True
      else if includes = [] then False
      else \<not> list_ex (\<lambda>pattern. matchPathPattern pattern p) includes)"

section \<open>Searching one file\<close>

record Options =
  opMatcher :: "matcher option"
  opContextLines :: int
  opMaxResults :: int
  opMaxFileBytes :: int
  opInclude :: "string list"
  opExclude :: "string list"

record Stats =
  SkippedBinary :: int
  SkippedOversized :: int
  Truncated :: bool
  TimedOut :: bool

record ContextLine =
  clNumber :: int
  clText :: string

record Match =
  maPath :: string
  maLine :: int
  maColumn :: int
  maLineText :: string
  maContext :: "ContextLine list"

definition maxContextLines :: int where "maxContextLines = 10"
definition maxResultsLimit :: int where "maxResultsLimit = 500"
definition binaryProbeBytes :: nat where "binaryProbeBytes = 8192"
definition maxLineRunes :: nat where "maxLineRunes = 500"

definition ellipsis :: string where
  "ellipsis = [CHR 0xE2, CHR 0x80, CHR 0xA6]"

definition truncateLine :: "string \<Rightarrow> string" where
  "truncateLine line =
     (let runes = goRunes line in
      if length runes \<le> maxLineRunes then line else concat (take maxLineRunes runes) @ ellipsis)"

definition contextLines :: "string list \<Rightarrow> nat \<Rightarrow> nat \<Rightarrow> ContextLine list" where
  "contextLines lines index count' =
     (let first = index - count'; final = min (index + count') (length lines - 1) in
      map (\<lambda>number. \<lparr>clNumber = int number + 1,
             clText = truncateLine (trimSuffix (lines ! number) [CHR 0x0D])\<rparr>)
        (filter (\<lambda>number. number \<noteq> index) [first..<final + 1]))"

definition matchAt :: "string list \<Rightarrow> string \<Rightarrow> Options \<Rightarrow> nat \<Rightarrow> nat \<times> nat \<Rightarrow> Match" where
  "matchAt lines p options index located =
     \<lparr>maPath = p, maLine = int index + 1, maColumn = int (fst located) + 1,
      maLineText = truncateLine (trimSuffix (lines ! index) [CHR 0x0D]),
      maContext = contextLines lines index (nat (opContextLines options))\<rparr>"

text \<open>The two nested loops, with the early return once the limit is reached.\<close>

fun lineLoop :: "string list \<Rightarrow> string \<Rightarrow> Options \<Rightarrow> nat \<Rightarrow> Match list \<Rightarrow> (nat \<times> nat) list \<Rightarrow>
    Match list \<times> bool" where
  "lineLoop lines p options index acc [] = (acc, False)"
| "lineLoop lines p options index acc (located # rest) =
     (let acc = acc @ [matchAt lines p options index located] in
      if int (length acc) \<ge> opMaxResults options then (acc, True)
      else lineLoop lines p options index acc rest)"

fun contentLoop :: "string list \<Rightarrow> string \<Rightarrow> Options \<Rightarrow> matcher \<Rightarrow> nat list \<Rightarrow> Match list \<Rightarrow> Match list" where
  "contentLoop lines p options locate [] acc = acc"
| "contentLoop lines p options locate (index # rest) acc =
     (case lineLoop lines p options index acc (locate (trimSuffix (lines ! index) [CHR 0x0D])) of
        (acc, full) \<Rightarrow> if full then acc else contentLoop lines p options locate rest acc)"

definition contentLines :: "string \<Rightarrow> string list" where
  "contentLines content =
     splitOn (CHR 0x0A) (if content \<noteq> [] \<and> last content = CHR 0x0A then butlast content else content)"

definition searchContent :: "string \<Rightarrow> string \<Rightarrow> Options \<Rightarrow> matcher \<Rightarrow> Match list" where
  "searchContent content p options locate =
     (let lines = contentLines content in contentLoop lines p options locate [0..<length lines] [])"

section \<open>Searching a snapshot\<close>

text \<open>What the operating system says while the tree is walked: whether the context has ended when a path
  is visited, the directories that cannot be listed, and the size and content of a file (\<open>None\<close> when it
  cannot be read).\<close>

record searchWorld =
  swDone :: "string \<Rightarrow> bool"
  swUnlisted :: "string \<Rightarrow> bool"
  swStat :: "string \<Rightarrow> int option"
  swRead :: "string \<Rightarrow> string option"

datatype skipReason =
    SkippedNone string
  | OversizedFile
  | BinaryFile
  | UnreadableFile

definition readSearchableFile :: "searchWorld \<Rightarrow> string \<Rightarrow> int \<Rightarrow> skipReason" where
  "readSearchableFile w p maxFileBytes =
     (case swStat w p of
        None \<Rightarrow> UnreadableFile
      | Some size' \<Rightarrow>
          if size' > maxFileBytes then OversizedFile
          else (case swRead w p of
              None \<Rightarrow> UnreadableFile
            | Some content \<Rightarrow>
                if int (length content) > maxFileBytes then OversizedFile
                else if CHR 0x00 \<in> set (take binaryProbeBytes content) \<or> \<not> validUtf8 content
                then BinaryFile
                else SkippedNone content))"

text \<open>The entries in the order of the walk, with their slash paths; \<open>True\<close> marks a regular file.\<close>

fun visits :: "searchWorld \<Rightarrow> string list \<Rightarrow> stree \<Rightarrow> (string \<times> bool) list" where
  "visits w parts (Blob d) = [(joinWith [slash] parts, True)]"
| "visits w parts (Tree cs) =
     (joinWith [slash] parts, False) #
     (if swUnlisted w (joinWith [slash] parts) then []
      else concat (map snd (sortSlice (\<lambda>a b. fst a < fst b)
             (map (\<lambda>c. (fst c, visits w (parts @ [fst c]) (snd c))) cs))))"

fun searchLoop :: "searchWorld \<Rightarrow> Options \<Rightarrow> matcher \<Rightarrow> (string \<times> bool) list \<Rightarrow> Match list \<Rightarrow> Stats \<Rightarrow>
    Match list \<times> Stats" where
  "searchLoop w options locate [] matches stats = (matches, stats)"
| "searchLoop w options locate ((p, regular) # rest) matches stats =
     (if swDone w p then (matches, stats\<lparr>TimedOut := True\<rparr>)
      else if \<not> regular \<or> pathExcluded p (opInclude options) (opExclude options)
      then searchLoop w options locate rest matches stats
      else (case readSearchableFile w p (opMaxFileBytes options) of
          OversizedFile \<Rightarrow> searchLoop w options locate rest matches
            (stats\<lparr>SkippedOversized := SkippedOversized stats + 1\<rparr>)
        | BinaryFile \<Rightarrow> searchLoop w options locate rest matches
            (stats\<lparr>SkippedBinary := SkippedBinary stats + 1\<rparr>)
        | UnreadableFile \<Rightarrow> searchLoop w options locate rest matches stats
        | SkippedNone content \<Rightarrow>
            (let found = searchContent content p options locate in
             if found \<noteq> [] \<and> int (length (matches @ found)) \<ge> opMaxResults options
             then (matches @ found, stats\<lparr>Truncated := True\<rparr>)
             else searchLoop w options locate rest (matches @ found) stats)))"

definition matchLess :: "Match \<Rightarrow> Match \<Rightarrow> bool" where
  "matchLess a b \<longleftrightarrow> maPath a < maPath b
     \<or> (maPath a = maPath b \<and> (maLine a < maLine b
        \<or> (maLine a = maLine b \<and> maColumn a < maColumn b)))"

definition noSkips :: Stats where
  "noSkips = \<lparr>SkippedBinary = 0, SkippedOversized = 0, Truncated = False, TimedOut = False\<rparr>"

definition invalidOptions :: "string \<Rightarrow> goerr" where
  "invalidOptions message = [MsgErr message, SentinelErr ErrInvalidOptions]"

text \<open>The text of the first pattern error.\<close>

fun patternError :: "string list \<Rightarrow> string option" where
  "patternError [] = None"
| "patternError (p # ps) =
     (case validatePathPattern p of
        Inl (MsgErr message # _) \<Rightarrow> Some message
      | Inl _ \<Rightarrow> Some []
      | Inr _ \<Rightarrow> patternError ps)"

definition Search :: "searchWorld \<Rightarrow> dirTree \<Rightarrow> Options \<Rightarrow> goerr + (Match list \<times> Stats)" where
  "Search w root options =
     (case opMatcher options of
        None \<Rightarrow> Inl (invalidOptions ''the search matcher is required'')
      | Some locate \<Rightarrow>
          if opContextLines options < 0 \<or> opContextLines options > maxContextLines
          then Inl (invalidOptions ''context lines must be between 0 and 10'')
          else if opMaxResults options < 1 \<or> opMaxResults options > maxResultsLimit
          then Inl (invalidOptions ''result limit must be between 1 and 500'')
          else if opMaxFileBytes options < 1
          then Inl (invalidOptions ''the file size limit must be positive'')
          else
            (case patternError (opInclude options @ opExclude options) of
               Some message \<Rightarrow> Inl (invalidOptions message)
             | None \<Rightarrow>
                 (case searchLoop w options locate (visits w [] (Tree root)) [] noSkips of
                    (matches, stats) \<Rightarrow>
                      Inr (sortSlice matchLess (take (nat (opMaxResults options)) matches), stats))))"

section \<open>The literal matcher\<close>

text \<open>The leftmost occurrences that do not overlap, from an offset on.\<close>

definition occurrences :: "string \<Rightarrow> string \<Rightarrow> nat \<Rightarrow> (nat \<times> nat) list \<Rightarrow> bool" where
  "occurrences needle line offset ranges \<longleftrightarrow>
     (\<forall>(s, e) \<in> set ranges. offset \<le> s \<and> e = s + length needle \<and> e \<le> length line
        \<and> hasPrefix (drop s line) needle)
   \<and> sorted_wrt (\<lambda>a b. snd a \<le> fst b) ranges
   \<and> (\<forall>p \<ge> offset. hasPrefix (drop p line) needle \<longrightarrow> (\<exists>(s, e) \<in> set ranges. s \<le> p \<and> p < e))"

lemma hasPrefix_length: "hasPrefix s p \<Longrightarrow> length p \<le> length s"
  by (auto simp: hasPrefix_iff)

lemma occurrences_cons:
  assumes found: "indexOf (drop offset line) needle = Some index" and ne: "needle \<noteq> []"
    and rest: "occurrences needle line (offset + index + length needle) ranges"
  shows "occurrences needle line offset ((offset + index, offset + index + length needle) # ranges)"
proof -
  have here: "hasPrefix (drop (offset + index) line) needle"
    "index + length needle \<le> length (drop offset line)"
    "\<forall>j < index. \<not> hasPrefix (drop (offset + j) line) needle"
    using indexOf_Some [OF found] by (simp_all add: add.commute)
  have bound: "offset + index + length needle \<le> length line"
    using here(2) ne by (cases "offset \<le> length line") auto
  have "\<exists>(s, e) \<in> set ((offset + index, offset + index + length needle) # ranges). s \<le> p \<and> p < e"
    if "offset \<le> p" "hasPrefix (drop p line) needle" for p
  proof (cases "p < offset + index + length needle")
    case True
    have "offset + index \<le> p"
    proof (rule ccontr)
      assume "\<not> offset + index \<le> p"
      then have "p - offset < index" using that(1) by simp
      with here(3) that show False by (metis le_add_diff_inverse)
    qed
    with True show ?thesis by simp
  next
    case False
    with rest that show ?thesis by (auto simp: occurrences_def)
  qed
  moreover have "sorted_wrt (\<lambda>a b. snd a \<le> fst b) ((offset + index, offset + index + length needle) # ranges)"
    using rest by (fastforce simp: occurrences_def)
  moreover have "\<forall>(s, e) \<in> set ((offset + index, offset + index + length needle) # ranges).
      offset \<le> s \<and> e = s + length needle \<and> e \<le> length line \<and> hasPrefix (drop s line) needle"
    using rest here(1) bound by (fastforce simp: occurrences_def)
  ultimately show ?thesis unfolding occurrences_def by blast
qed

lemma literalLoop_total:
  assumes "needle \<noteq> []"
  shows "\<exists>ranges. literalLoop needle line offset = Some ranges \<and> occurrences needle line offset ranges"
proof (induction "length line - offset" arbitrary: offset rule: less_induct)
  case less
  show ?case
  proof (cases "int offset \<le> int (length line) - int (length needle)")
    case False
    have "\<not> hasPrefix (drop p line) needle" if "offset \<le> p" for p
    proof
      assume "hasPrefix (drop p line) needle"
      then have "length needle \<le> length line - p" using hasPrefix_length by fastforce
      moreover have "0 < length needle" using assms by simp
      ultimately show False using False that by linarith
    qed
    with False show ?thesis by (subst literalLoop.simps) (simp add: occurrences_def)
  next
    case True
    show ?thesis
    proof (cases "indexOf (drop offset line) needle")
      case None
      have "\<not> hasPrefix (drop p line) needle" if "offset \<le> p" for p
        using indexOf_None [OF None, of "p - offset"] that by simp
      with True None show ?thesis by (subst literalLoop.simps) (simp add: occurrences_def)
    next
      case (Some index)
      have "0 < length needle" using assms by simp
      moreover have "offset + length needle \<le> length line" using True by linarith
      ultimately have "length line - (offset + index + length needle) < length line - offset" by linarith
      from less [OF this] obtain ranges where
        "literalLoop needle line (offset + index + length needle) = Some ranges"
        "occurrences needle line (offset + index + length needle) ranges" by blast
      with True Some occurrences_cons [OF Some assms] show ?thesis
        by (subst literalLoop.simps) simp
    qed
  qed
qed

text \<open>C28: The literal search of a line ends for every query that Compile lets through, with the leftmost
  non-overlapping occurrences: each reported range is an occurrence, they do not overlap and are in
  order, and every occurrence starts inside a reported range.\<close>

theorem literal_matcher_exact:
  assumes "Compile regexp ''literal'' query True = Inr m"
  shows "\<exists>ranges. literalLoop query line 0 = Some ranges \<and> m line = ranges \<and> occurrences query line 0 ranges"
proof -
  have "query \<noteq> []" "m = literalMatcher query" using assms by (auto simp: Compile_def split: if_splits)
  with literalLoop_total [of query line 0] show ?thesis by (auto simp: literalMatcher_def)
qed

theorem literal_matcher_exact_witness:
  "\<exists>ranges. literalLoop ''aa'' ''xaaaa'' 0 = Some ranges \<and> occurrences ''aa'' ''xaaaa'' 0 ranges"
proof -
  have "Compile (\<lambda>e. Inl []) ''literal'' ''aa'' True = Inr (literalMatcher ''aa'')"
    by (simp add: Compile_def)
  from literal_matcher_exact [OF this, of "''xaaaa''"] show ?thesis by blast
qed

section \<open>The interface of matchers\<close>

text \<open>With an empty needle the loop of the literal matcher does not end.\<close>

lemma literalLoop_empty: "offset \<le> length line \<Longrightarrow> literalLoop [] line offset = None"
proof -
  have start: "indexOf s [] = Some 0" for s by (cases s) (simp_all add: hasPrefix_def)
  have "needle = [] \<longrightarrow> \<not> offset \<le> length line"
    if run: "literalLoop needle line offset = Some y" for needle line offset y
  proof (rule literalLoop.raw_induct [where P = "\<lambda>needle line offset y. needle = [] \<longrightarrow> \<not> offset \<le> length line", OF _ run])
    fix loop :: "string \<Rightarrow> string \<Rightarrow> nat \<Rightarrow> (nat \<times> nat) list option" and needle line :: string and offset y
    assume ih: "\<And>needle line offset y. loop needle line offset = Some y \<Longrightarrow> needle = [] \<longrightarrow> \<not> offset \<le> length line"
      and body: "(if int offset \<le> int (length line) - int (length needle)
        then case indexOf (drop offset line) needle of None \<Rightarrow> Some []
          | Some index \<Rightarrow> Option.bind (loop needle line (offset + index + length needle))
              (\<lambda>ranges. Some ((offset + index, offset + index + length needle) # ranges))
        else Some []) = Some y"
    show "needle = [] \<longrightarrow> \<not> offset \<le> length line"
    proof (intro impI notI)
      assume e: "needle = []" "offset \<le> length line"
      with body start obtain z where "loop [] line offset = Some z"
        by (auto split: bind_splits)
      from ih [OF this] e show False by simp
    qed
  qed
  then show "offset \<le> length line \<Longrightarrow> literalLoop [] line offset = None" by fastforce
qed

locale lineMatcher =
  fixes locate :: "string \<Rightarrow> (nat \<times> nat) list"
  assumes in_line: "(s, e) \<in> set (locate line) \<Longrightarrow> s \<le> e \<and> e \<le> length line"
    and increasing: "sorted_wrt (\<lambda>a b. fst a < fst b) (locate line)"

lemma literal_ranges:
  "(s, e) \<in> set (literalMatcher needle line) \<Longrightarrow> s \<le> e \<and> e \<le> length line"
  "sorted_wrt (\<lambda>a b. fst a < fst b) (literalMatcher needle line)"
proof -
  have "(\<forall>(s, e) \<in> set (literalMatcher needle line). s \<le> e \<and> e \<le> length line)
      \<and> sorted_wrt (\<lambda>a b. fst a < fst b) (literalMatcher needle line)"
  proof (cases "literalLoop needle line 0")
    case (Some ranges)
    show ?thesis
    proof (cases "needle = []")
      case False
      with literalLoop_total [OF this, of line 0] Some have occ: "occurrences needle line 0 ranges" by simp
      have "sorted_wrt (\<lambda>a b. fst a < fst b) ranges"
      proof (rule sorted_wrt_mono_rel [of _ "\<lambda>a b. snd a \<le> fst b"])
        fix a b
        assume "a \<in> set ranges" "b \<in> set ranges" "snd a \<le> fst b"
        moreover from this occ have "snd a = fst a + length needle" by (auto simp: occurrences_def)
        moreover have "0 < length needle" using False by simp
        ultimately show "fst a < fst b" by linarith
      qed (use occ in \<open>simp add: occurrences_def\<close>)
      with occ Some show ?thesis by (fastforce simp: literalMatcher_def occurrences_def)
    next
      case True
      have "literalLoop [] line 0 = None" by (rule literalLoop_empty) simp
      with True Some show ?thesis by simp
    qed
  qed (simp add: literalMatcher_def)
  then show "(s, e) \<in> set (literalMatcher needle line) \<Longrightarrow> s \<le> e \<and> e \<le> length line"
    "sorted_wrt (\<lambda>a b. fst a < fst b) (literalMatcher needle line)" by auto
qed

text \<open>Every match of one file, in the order it is found.\<close>

definition fileMatches :: "string list \<Rightarrow> string \<Rightarrow> Options \<Rightarrow> matcher \<Rightarrow> Match list" where
  "fileMatches lines p options locate =
     concat (map (\<lambda>index. map (matchAt lines p options index)
       (locate (trimSuffix (lines ! index) [CHR 0x0D]))) [0..<length lines])"

lemma lineLoop_take:
  assumes "length acc < k" "k = nat (opMaxResults options)"
  shows "lineLoop lines p options index acc located =
    (take k (acc @ map (matchAt lines p options index) located), k \<le> length acc + length located)"
  using assms
proof (induction located arbitrary: acc)
  case (Cons l rest)
  show ?case
  proof (cases "int (length acc) + 1 \<ge> opMaxResults options")
    case True
    then have "k = length acc + 1" using Cons.prems by linarith
    with True show ?thesis by simp
  next
    case False
    then have "length (acc @ [matchAt lines p options index l]) < k" using Cons.prems by simp
    from Cons.IH [OF this Cons.prems(2)] False show ?thesis by (simp add: Let_def)
  qed
qed simp

lemma contentLoop_take:
  assumes "length acc < k" "k = nat (opMaxResults options)"
  shows "contentLoop lines p options locate is acc =
    take k (acc @ concat (map (\<lambda>index. map (matchAt lines p options index)
       (locate (trimSuffix (lines ! index) [CHR 0x0D]))) is))"
  using assms
proof (induction "is" arbitrary: acc)
  case (Cons i "is")
  let ?l = "locate (trimSuffix (lines ! i) [CHR 0x0D])"
  let ?here = "map (matchAt lines p options i) ?l"
  show ?case
  proof (cases "k \<le> length acc + length ?l")
    case True
    with lineLoop_take [OF Cons.prems, of lines p i ?l] show ?thesis by simp
  next
    case False
    then have "length (acc @ ?here) < k" by simp
    from Cons.IH [OF this Cons.prems(2)] False lineLoop_take [OF Cons.prems, of lines p i ?l]
    show ?thesis by simp
  qed
qed simp

lemma searchContent_take:
  assumes "1 \<le> opMaxResults options"
  shows "searchContent content p options locate =
    take (nat (opMaxResults options)) (fileMatches (contentLines content) p options locate)"
  using assms contentLoop_take [of "[]" "nat (opMaxResults options)" options "contentLines content" p locate
      "[0..<length (contentLines content)]"]
  by (simp add: searchContent_def fileMatches_def Let_def)

text \<open>The text the search looks at when it visits an entry, if any.\<close>

definition searchedText :: "searchWorld \<Rightarrow> Options \<Rightarrow> string \<times> bool \<Rightarrow> string option" where
  "searchedText w options v =
     (if snd v \<and> \<not> pathExcluded (fst v) (opInclude options) (opExclude options)
      then (case readSearchableFile w (fst v) (opMaxFileBytes options) of
          SkippedNone content \<Rightarrow> Some content | _ \<Rightarrow> None)
      else None)"

definition allMatches :: "searchWorld \<Rightarrow> Options \<Rightarrow> matcher \<Rightarrow> (string \<times> bool) list \<Rightarrow> Match list" where
  "allMatches w options locate vs =
     concat (map (\<lambda>v. case searchedText w options v of None \<Rightarrow> []
       | Some content \<Rightarrow> fileMatches (contentLines content) (fst v) options locate) vs)"

text \<open>What a finished loop has collected and which bound it reports.\<close>

definition collected :: "searchWorld \<Rightarrow> Options \<Rightarrow> matcher \<Rightarrow> (string \<times> bool) list \<Rightarrow> Match list \<Rightarrow>
    Match list \<times> Stats \<Rightarrow> bool" where
  "collected w options locate vs acc r \<longleftrightarrow>
     (let k = nat (opMaxResults options); seen = takeWhile (\<lambda>v. \<not> swDone w (fst v)) vs;
          found = acc @ allMatches w options locate seen in
      take k (fst r) = take k found
    \<and> (Truncated (snd r) \<longleftrightarrow> k \<le> length found)
    \<and> (TimedOut (snd r) \<longleftrightarrow> \<not> Truncated (snd r) \<and> seen \<noteq> vs))"

lemma collected_skip:
  assumes "collected w options locate vs acc r" "\<not> swDone w (fst v)" "searchedText w options v = None"
  shows "collected w options locate (v # vs) acc r"
  using assms by (simp add: collected_def allMatches_def Let_def)

lemma take_append_take: "take k (xs @ take k ys) = take k (xs @ ys)"
  by (simp add: min_def)

lemma searchLoop_collects:
  assumes "1 \<le> opMaxResults options" "int (length acc) < opMaxResults options"
    "\<not> Truncated stats" "\<not> TimedOut stats"
  shows "collected w options locate vs acc (searchLoop w options locate vs acc stats)"
  using assms
proof (induction vs arbitrary: acc stats)
  case Nil
  then show ?case by (auto simp: collected_def allMatches_def Let_def)
next
  case (Cons v vs)
  obtain p regular where v: "v = (p, regular)" by (cases v)
  let ?k = "nat (opMaxResults options)"
  show ?case
  proof (cases "swDone w p")
    case True
    with Cons.prems v show ?thesis by (auto simp: collected_def allMatches_def Let_def)
  next
    case ongoing: False
    show ?thesis
    proof (cases "searchedText w options v")
      case None
      with ongoing v have "\<exists>stats'. searchLoop w options locate (v # vs) acc stats = searchLoop w options locate vs acc stats'
          \<and> \<not> Truncated stats' \<and> \<not> TimedOut stats'"
        using Cons.prems(3,4) by (auto simp: searchedText_def split: skipReason.splits if_splits)
      then obtain stats' where "searchLoop w options locate (v # vs) acc stats = searchLoop w options locate vs acc stats'"
        "\<not> Truncated stats'" "\<not> TimedOut stats'" by blast
      with collected_skip [OF Cons.IH [OF Cons.prems(1,2), of stats'] _ None] ongoing v show ?thesis by simp
    next
      case (Some content)
      let ?all = "fileMatches (contentLines content) p options locate"
      let ?found = "searchContent content p options locate"
      have found: "?found = take ?k ?all" by (rule searchContent_take [OF Cons.prems(1)])
      have run: "searchLoop w options locate (v # vs) acc stats =
          (if ?found \<noteq> [] \<and> int (length (acc @ ?found)) \<ge> opMaxResults options
           then (acc @ ?found, stats\<lparr>Truncated := True\<rparr>)
           else searchLoop w options locate vs (acc @ ?found) stats)"
        using Some ongoing v by (auto simp: searchedText_def Let_def split: skipReason.splits if_splits)
      have all: "allMatches w options locate (v # us) = ?all @ allMatches w options locate us" for us
        using Some v by (simp add: allMatches_def)
      show ?thesis
      proof (cases "?k \<le> length acc + length ?found")
        case True
        then have "?k \<le> length acc + length ?all" using found by simp
        moreover have "?found \<noteq> []" using True Cons.prems(2) by auto
        ultimately show ?thesis
          using True Cons.prems ongoing v found run all
          by (auto simp: collected_def Let_def take_append_take)
      next
        case False
        then have whole: "?found = ?all" using found by auto
        have "int (length (acc @ ?found)) < opMaxResults options" using False by simp
        from Cons.IH [OF Cons.prems(1) this Cons.prems(3,4)] have
          "collected w options locate vs (acc @ ?found) (searchLoop w options locate vs (acc @ ?found) stats)" .
        moreover have "\<not> int (length (acc @ ?found)) \<ge> opMaxResults options" using False by simp
        ultimately show ?thesis
          using ongoing v run whole all by (simp add: collected_def Let_def)
      qed
    qed
  qed
qed

text \<open>The order of the matches is the lexicographic one, so it is total.\<close>

lemma matchLess_lex:
  "matchLess a b \<longleftrightarrow> (maPath a, maLine a, maColumn a) < (maPath b, maLine b, maColumn b)"
  by (auto simp: matchLess_def less_prod_simp)

lemma matchLess_asym: "matchLess a b \<Longrightarrow> \<not> matchLess b a"
  unfolding matchLess_lex by (rule less_not_sym)

lemma matchLess_weak: "matchLess a c \<Longrightarrow> matchLess a b \<or> matchLess b c"
  unfolding matchLess_lex by (meson le_less_trans not_less)

lemma in_allMatches:
  "m \<in> set (allMatches w options locate vs) \<Longrightarrow> \<exists>v content. v \<in> set vs
     \<and> searchedText w options v = Some content
     \<and> m \<in> set (fileMatches (contentLines content) (fst v) options locate)"
proof (induction vs)
  case (Cons v vs)
  show ?case
  proof (cases "searchedText w options v")
    case None
    with Cons show ?thesis by (auto simp: allMatches_def)
  next
    case (Some content)
    with Cons show ?thesis by (fastforce simp: allMatches_def)
  qed
qed (simp add: allMatches_def)

lemma Search_ok:
  assumes "Search w root options = Inr (res, stats)"
  obtains locate matches where "opMatcher options = Some locate" "1 \<le> opMaxResults options"
    "opMaxResults options \<le> maxResultsLimit"
    "searchLoop w options locate (visits w [] (Tree root)) [] noSkips = (matches, stats)"
    "res = sortSlice matchLess (take (nat (opMaxResults options)) matches)"
  using assms by (auto simp: Search_def split: option.splits if_splits prod.splits)

lemma search_spec:
  assumes "Search w root options = Inr (res, stats)"
  obtains locate where "opMatcher options = Some locate" "opMaxResults options \<le> maxResultsLimit"
    "mset res = mset (take (nat (opMaxResults options)) (allMatches w options locate
       (takeWhile (\<lambda>v. \<not> swDone w (fst v)) (visits w [] (Tree root)))))"
    "sorted_wrt (\<lambda>a b. \<not> matchLess b a) res"
    "collected w options locate (visits w [] (Tree root)) [] (searchLoop w options locate (visits w [] (Tree root)) [] noSkips)"
    "snd (searchLoop w options locate (visits w [] (Tree root)) [] noSkips) = stats"
proof -
  from assms obtain locate matches where ok: "opMatcher options = Some locate" "1 \<le> opMaxResults options"
    "opMaxResults options \<le> maxResultsLimit"
    "searchLoop w options locate (visits w [] (Tree root)) [] noSkips = (matches, stats)"
    "res = sortSlice matchLess (take (nat (opMaxResults options)) matches)" by (rule Search_ok)
  have c: "collected w options locate (visits w [] (Tree root)) [] (searchLoop w options locate (visits w [] (Tree root)) [] noSkips)"
    by (rule searchLoop_collects [OF ok(2)]) (use ok(2) in \<open>simp_all add: noSkips_def\<close>)
  then have "take (nat (opMaxResults options)) matches = take (nat (opMaxResults options))
      (allMatches w options locate (takeWhile (\<lambda>v. \<not> swDone w (fst v)) (visits w [] (Tree root))))"
    using ok(4) by (simp add: collected_def Let_def)
  then have "mset res = mset (take (nat (opMaxResults options)) (allMatches w options locate
       (takeWhile (\<lambda>v. \<not> swDone w (fst v)) (visits w [] (Tree root)))))"
    unfolding ok(5) by simp
  moreover have "sorted_wrt (\<lambda>a b. \<not> matchLess b a) res"
    unfolding ok(5) by (rule sorted_sortSlice [OF matchLess_asym matchLess_weak])
  ultimately show thesis using that [OF ok(1,3) _ _ c] ok(4) by simp
qed

text \<open>C27: A search is exact up to its bounds: with the entries visited before the deadline, the result is
  the sorted list of the first matches in walk order up to the result limit (all of them when the search
  is not truncated), the truncation flag tells exactly whether the limit was reached, and the timeout
  flag exactly whether the walk was cut short without reaching it.\<close>

theorem search_exact:
  assumes "Search w root options = Inr (res, stats)"
  shows "\<exists>locate. opMatcher options = Some locate \<and>
    (let entries = visits w [] (Tree root); seen = takeWhile (\<lambda>v. \<not> swDone w (fst v)) entries;
         found = allMatches w options locate seen; limit = nat (opMaxResults options) in
     mset res = mset (take limit found) \<and> sorted_wrt (\<lambda>a b. \<not> matchLess b a) res
     \<and> (Truncated stats \<longleftrightarrow> limit \<le> length found)
     \<and> (TimedOut stats \<longleftrightarrow> \<not> Truncated stats \<and> seen \<noteq> entries))"
  using assms
proof (rule search_spec)
  fix locate
  assume "opMatcher options = Some locate"
    "mset res = mset (take (nat (opMaxResults options)) (allMatches w options locate
       (takeWhile (\<lambda>v. \<not> swDone w (fst v)) (visits w [] (Tree root)))))"
    "sorted_wrt (\<lambda>a b. \<not> matchLess b a) res"
    "collected w options locate (visits w [] (Tree root)) [] (searchLoop w options locate (visits w [] (Tree root)) [] noSkips)"
    "snd (searchLoop w options locate (visits w [] (Tree root)) [] noSkips) = stats"
  then show ?thesis
    by (intro exI [of _ locate]) (simp add: collected_def Let_def)
qed

text \<open>Nothing outside the filters is reported: every match comes from a regular file of the snapshot
  that is not below a .git directory, is included and not excluded, and whose text is valid UTF-8
  within the size limit; there are never more matches than asked for.\<close>

theorem search_respects_filters:
  assumes "Search w root options = Inr (res, stats)" "m \<in> set res"
  shows "(maPath m, True) \<in> set (visits w [] (Tree root))
    \<and> ''.git'' \<notin> set (splitOn slash (maPath m))
    \<and> \<not> pathExcluded (maPath m) (opInclude options) (opExclude options)
    \<and> (\<exists>content. readSearchableFile w (maPath m) (opMaxFileBytes options) = SkippedNone content
        \<and> validUtf8 content \<and> int (length content) \<le> opMaxFileBytes options)
    \<and> int (length res) \<le> opMaxResults options"
  using assms(1)
proof (rule search_spec)
  fix locate
  let ?seen = "takeWhile (\<lambda>v. \<not> swDone w (fst v)) (visits w [] (Tree root))"
  assume found: "mset res = mset (take (nat (opMaxResults options)) (allMatches w options locate ?seen))"
  then have "m \<in> set (allMatches w options locate ?seen)"
    using assms(2) by (metis in_set_takeD set_mset_mset)
  then obtain v content where v: "v \<in> set ?seen" "searchedText w options v = Some content"
    "m \<in> set (fileMatches (contentLines content) (fst v) options locate)"
    using in_allMatches by blast
  have p: "maPath m = fst v" using v(3) by (auto simp: fileMatches_def matchAt_def)
  have reg: "v \<in> set (visits w [] (Tree root))" "snd v"
    using v set_takeWhileD by (fastforce, auto simp: searchedText_def split: if_splits)
  have read: "\<not> pathExcluded (fst v) (opInclude options) (opExclude options)"
    "readSearchableFile w (fst v) (opMaxFileBytes options) = SkippedNone content"
    using v(2) by (auto simp: searchedText_def split: if_splits skipReason.splits)
  have "length res \<le> nat (opMaxResults options)"
    using found by (metis length_take min.cobounded2 size_mset)
  moreover have "1 \<le> opMaxResults options" using assms(1) by (rule Search_ok)
  ultimately have "int (length res) \<le> opMaxResults options" by linarith
  moreover have "validUtf8 content \<and> int (length content) \<le> opMaxFileBytes options"
    using read(2) by (auto simp: readSearchableFile_def split: option.splits if_splits)
  moreover have "''.git'' \<notin> set (splitOn slash (fst v))"
    using read(1) by (auto simp: pathExcluded_def split: if_splits)
  moreover have "(fst v, True) = v" using reg(2) by (cases v) simp
  with reg(1) have "(fst v, True) \<in> set (visits w [] (Tree root))" by (simp del: visits.simps)
  ultimately show ?thesis using p read by (simp del: visits.simps)
qed

definition openWorld :: "dirTree \<Rightarrow> searchWorld" where
  "openWorld root =
     \<lparr>swDone = (\<lambda>p. False), swUnlisted = (\<lambda>p. False),
      swStat = (\<lambda>p. map_option (\<lambda>d. int (length d)) (fileAt (splitOn slash p) root)),
      swRead = (\<lambda>p. fileAt (splitOn slash p) root)\<rparr>"

definition someRoot :: dirTree where
  "someRoot = [(''b'', Blob ''xax''), (''.git'', Tree [(''c'', Blob ''aaa'')]), (''a'', Blob ''ba'')]"

definition someOptions :: Options where
  "someOptions = \<lparr>opMatcher = Some (literalMatcher ''a''), opContextLines = 0, opMaxResults = 5,
     opMaxFileBytes = 100, opInclude = [], opExclude = []\<rparr>"

lemma someLiteral:
  "literalMatcher ''a'' ''ba'' = [(1, 2)]" "literalMatcher ''a'' ''xax'' = [(1, 2)]"
  by (simp_all add: literalMatcher_def literalLoop.simps hasPrefix_def)

lemma someSearch:
  "\<exists>m1 m2 stats. Search (openWorld someRoot) someRoot someOptions = Inr ([m1, m2], stats)
     \<and> maPath m1 = ''a'' \<and> maPath m2 = ''b'' \<and> maColumn m1 = 2 \<and> \<not> Truncated stats"
  by (simp add: Search_def someOptions_def someRoot_def openWorld_def maxContextLines_def maxResultsLimit_def
      sortSlice_def slash_def pathExcluded_def readSearchableFile_def binaryProbeBytes_def validUtf8.simps
      leadWidth_def byte_def tailOk_def searchContent_def contentLines_def trimSuffix_def hasSuffix_def
      someLiteral matchAt_def matchLess_def noSkips_def Let_def)

theorem search_exact_witness:
  "\<exists>res stats found. Search (openWorld someRoot) someRoot someOptions = Inr (res, stats)
     \<and> mset res = mset found \<and> length found < 5"
proof -
  obtain m1 m2 stats where run: "Search (openWorld someRoot) someRoot someOptions = Inr ([m1, m2], stats)"
    "\<not> Truncated stats" using someSearch by blast
  from search_exact [OF run(1)] run(2) obtain found :: "Match list" where
    "mset [m1, m2] = mset (take (nat 5) found)" "\<not> nat 5 \<le> length found"
    by (auto simp: someOptions_def Let_def simp del: visits.simps)
  then have "mset [m1, m2] = mset found \<and> length found < 5" by simp
  with run(1) show ?thesis by blast
qed

theorem search_respects_filters_witness:
  "\<exists>res stats. Search (openWorld someRoot) someRoot someOptions = Inr (res, stats)
     \<and> ''.git'' \<notin> set (splitOn slash (maPath (hd res)))"
proof -
  obtain m1 m2 stats where run: "Search (openWorld someRoot) someRoot someOptions = Inr ([m1, m2], stats)"
    using someSearch by blast
  from search_respects_filters [OF run, of m1] run show ?thesis by auto
qed

section \<open>Positions within a file\<close>

context lineMatcher
begin

lemma fileMatches_lines:
  "m \<in> set (fileMatches lines p options locate) \<Longrightarrow>
    \<exists>i < length lines. maPath m = p \<and> maLine m = int i + 1 \<and> 1 \<le> maColumn m
      \<and> maColumn m \<le> int (length (lines ! i)) + 1"
proof -
  assume "m \<in> set (fileMatches lines p options locate)"
  then obtain i l where m: "i < length lines" "l \<in> set (locate (trimSuffix (lines ! i) [CHR 0x0D]))"
    "m = matchAt lines p options i l" by (auto simp: fileMatches_def)
  have "length (trimSuffix (lines ! i) [CHR 0x0D]) \<le> length (lines ! i)" by (simp add: trimSuffix_def)
  moreover have "fst l \<le> length (trimSuffix (lines ! i) [CHR 0x0D])"
    using in_line [of "fst l" "snd l"] m(2) by fastforce
  ultimately show ?thesis using m by (intro exI [of _ i]) (simp add: matchAt_def)
qed

lemma fileMatches_sorted: "sorted_wrt matchLess (fileMatches lines p options locate)"
proof -
  have line: "sorted_wrt matchLess (map (matchAt lines p options i) (locate s))" for i s
    unfolding sorted_wrt_map
    by (rule sorted_wrt_mono_rel [OF _ increasing]) (simp add: matchLess_def matchAt_def)
  have "sorted_wrt matchLess (concat (map (\<lambda>i. map (matchAt lines p options i)
      (locate (trimSuffix (lines ! i) [CHR 0x0D]))) [k..<n]))" for k n
  proof (induction "n - k" arbitrary: k)
    case (Suc d)
    then have "[k..<n] = k # [Suc k..<n]" by (simp add: upt_conv_Cons)
    moreover have "sorted_wrt matchLess (concat (map (\<lambda>i. map (matchAt lines p options i)
        (locate (trimSuffix (lines ! i) [CHR 0x0D]))) [Suc k..<n]))"
      using Suc.hyps(1) [of "Suc k"] Suc.hyps(2) by simp
    ultimately show ?case
      using line by (auto simp: sorted_wrt_append matchLess_def matchAt_def)
  qed simp
  from this [of 0 "length lines"] show ?thesis by (simp add: fileMatches_def)
qed

lemma searchContent_positions:
  assumes "1 \<le> opMaxResults options"
  shows "sorted_wrt matchLess (searchContent content p options locate)
    \<and> (\<forall>m \<in> set (searchContent content p options locate). \<exists>i < length (contentLines content).
        maPath m = p \<and> maLine m = int i + 1 \<and> 1 \<le> maColumn m
        \<and> maColumn m \<le> int (length (contentLines content ! i)) + 1)"
  unfolding searchContent_take [OF assms]
  using fileMatches_sorted fileMatches_lines by (blast dest: in_set_takeD intro: sorted_wrt_take)

end

interpretation literal: lineMatcher "literalMatcher needle" for needle
  by unfold_locales (use literal_ranges in blast)+

text \<open>The positions of a literal search are real and unambiguous: within a file the matches come in
  strictly increasing line and column order, so none is reported twice, every line number is a line of
  the file and every column a place in that line.\<close>

theorem literal_positions:
  assumes "1 \<le> opMaxResults options"
  shows "sorted_wrt matchLess (searchContent content p options (literalMatcher query))
    \<and> (\<forall>m \<in> set (searchContent content p options (literalMatcher query)). \<exists>i < length (contentLines content).
        maPath m = p \<and> maLine m = int i + 1 \<and> 1 \<le> maColumn m
        \<and> maColumn m \<le> int (length (contentLines content ! i)) + 1)"
  using assms by (rule literal.searchContent_positions)

theorem literal_positions_witness:
  "sorted_wrt matchLess (searchContent ''xax'' ''b'' someOptions (literalMatcher ''a''))"
  using literal_positions [of someOptions "''xax''" "''b''" "''a''"] by (simp add: someOptions_def)

section \<open>Path patterns\<close>

lemma joinWith_normal_chars:
  "list_all normalComp cs \<Longrightarrow> cs \<noteq> [] \<Longrightarrow> joinWith [slash] cs \<noteq> []"
  by (auto simp: joinWith_eq_Nil normalComp_def)

lemma validate_pattern:
  "validatePathPattern pattern = Inr () \<longleftrightarrow>
     CHR 0x00 \<notin> set pattern \<and> CHR 0x5C \<notin> set pattern
     \<and> (pattern = ''.'' \<or> (\<exists>cs. cs \<noteq> [] \<and> list_all normalComp cs \<and> pattern = joinWith [slash] cs))"
  (is "?l \<longleftrightarrow> ?r")
proof
  assume l: ?l
  then have ok: "pattern \<noteq> []" "CHR 0x00 \<notin> set pattern" "CHR 0x5C \<notin> set pattern" "\<not> isRooted pattern"
    "pathClean pattern = pattern" "pathClean pattern \<noteq> ''..''" "\<not> hasPrefix (pathClean pattern) ''../''"
    by (auto simp: validatePathPattern_def hasPrefix_slash Let_def split: if_splits)
  show ?r
  proof (cases "cleanComps False pattern = []")
    case True
    with ok show ?r by (simp add: pathClean_relative)
  next
    case False
    then have p: "pattern = joinWith [slash] (cleanComps False pattern)"
      using ok by (simp add: pathClean_relative)
    show ?r
      using cleanComps_relative
    proof (cases rule: relative_cases [of "cleanComps False pattern"])
      case inside
      with ok(2,3) p False show ?r by blast
    next
      case (outside rest)
      with dotdot_join [of rest] p ok(5-7) show ?r by simp
    qed
  qed
next
  assume r: ?r
  then consider "pattern = ''.''"
    | cs where "cs \<noteq> []" "list_all normalComp cs" "pattern = joinWith [slash] cs" by blast
  then show ?l
  proof cases
    case 1
    then show ?l by (simp add: validatePathPattern_def hasPrefix_def pathClean_def isRooted_def slash_def
        cleanComps_def cleanStep_def)
  next
    case 2
    then obtain c ds where cs: "cs = c # ds" by (cases cs) auto
    with r 2 normal_join_not_dotdot [of c ds] pathClean_normal [OF 2(2,1)] not_rooted_join [OF 2(2,1)]
      joinWith_normal_chars [OF 2(2,1)] show ?l
      by (auto simp: validatePathPattern_def hasPrefix_slash)
  qed
qed

text \<open>The accepted path patterns are exactly the clean relative ones: without NUL and backslash, and
  either the root itself or plain components joined by slashes, so that no pattern can leave the
  snapshot.\<close>

theorem validate_pattern_exact:
  "validatePathPattern pattern = Inr () \<longleftrightarrow>
     CHR 0x00 \<notin> set pattern \<and> CHR 0x5C \<notin> set pattern
     \<and> (pattern = ''.'' \<or> (\<exists>cs. cs \<noteq> [] \<and> list_all normalComp cs \<and> pattern = joinWith [slash] cs))"
  by (rule validate_pattern)

text \<open>A pattern that is accepted although it is no valid glob: it silently matches nothing.\<close>

lemma bad_glob_accepted:
  "validatePathPattern ''[a'' = Inr ()" "\<not> matchPathPattern ''[a'' ''[a''"
proof -
  have "list_all normalComp [''[a'']" by (simp add: normalComp_def slash_def)
  then have "\<exists>cs. cs \<noteq> [] \<and> list_all normalComp cs \<and> ''[a'' = joinWith [slash] cs"
    by (intro exI [of _ "[''[a'']"]) simp
  moreover have "CHR 0x00 \<notin> set ''[a''" "CHR 0x5C \<notin> set ''[a''" by simp_all
  ultimately show "validatePathPattern ''[a'' = Inr ()" by (simp add: validate_pattern)
  show "\<not> matchPathPattern ''[a'' ''[a''" by code_simp
qed

text \<open>A pattern matches a path or what follows one of its slashes; a star never crosses a slash.\<close>

lemma suffixes_iff: "ys \<in> set (suffixes xs) \<longleftrightarrow> ys \<noteq> [] \<and> (\<exists>zs. xs = zs @ ys)"
  by (induction xs) (auto simp: Cons_eq_append_conv)

lemma matchPathPattern_iff:
  "matchPathPattern pattern p \<longleftrightarrow>
     (\<exists>zs ys. ys \<noteq> [] \<and> splitOn slash p = zs @ ys \<and> pathMatch pattern (joinWith [slash] ys) = Some True)"
proof -
  have "pathMatch pattern p = Some True \<longleftrightarrow> pathMatch pattern (joinWith [slash] (splitOn slash p)) = Some True"
    by simp
  then show ?thesis
    unfolding matchPathPattern_def list_ex_iff
    using suffixes_iff [of _ "splitOn slash p"] splitOn_nonempty [of slash p] by (metis append_Nil)
qed

lemma star_stops_at_slash:
  "matchPathPattern ''src/*'' ''lib/src/a''" "\<not> matchPathPattern ''src/*'' ''src/a/b''"
  by code_simp+

end
