(* ===== verification/ToolSearch.thy ===== *)
theory ToolSearch
  imports Snapshot Search ToolIssues
begin

text \<open>
  internal/mcpserver/search.go: the code search tool. It checks the request, asks Gogs who the user is (once per
  server), resolves the ref to a commit, makes sure of the snapshot of that commit and searches it. The
  state holds the requests of the client, the remembered user and the user's cache; the world holds the
  snapshot manager's world, the archive reader \<open>untar\<close>, what other requests do to the cache between its two
  locks, and the file system a search of a directory within a time limit sees.
\<close>

section \<open>Requests\<close>

record SearchDefaults =
  sdTimeout :: int
  sdMaxFileBytes :: int

definition maximumSearchTimeout :: int where "maximumSearchTimeout = 300"
definition secondNanos :: int where "secondNanos = 1000000000"

definition DefaultSearchDefaults :: SearchDefaults where
  "DefaultSearchDefaults = \<lparr>sdTimeout = 30 * secondNanos, sdMaxFileBytes = 1048576\<rparr>"

record searchCodeInput =
  scOwner :: string
  scRepo :: string
  scQuery :: string
  scRef :: string
  scMode :: string
  scCaseSensitive :: "bool option"
  scContextLines :: "int option"
  scMaxResults :: int
  scInclude :: "string list"
  scExclude :: "string list"
  scTimeoutSeconds :: int

record searchRequest =
  srOptions :: Options
  srMode :: string
  srTimeout :: int

text \<open>\<open>err.Error()\<close>: the messages of the layers.\<close>

fun layerText :: "errLayer \<Rightarrow> string" where
  "layerText (GogsErr g) = Message g"
| "layerText (MsgErr message) = message"
| "layerText (SentinelErr ErrInvalidOptions) = ''the search options are invalid''"
| "layerText _ = []"

definition errorText :: "goerr \<Rightarrow> string" where
  "errorText err = joinWith '': '' (map layerText err)"

definition resolveSearchRequest :: "(string \<Rightarrow> goerr + matcher) \<Rightarrow> searchCodeInput \<Rightarrow> SearchDefaults \<Rightarrow> goerr + searchRequest" where
  "resolveSearchRequest regexp input defaults =
     (let mode = (if scMode input = [] then ''literal'' else scMode input);
          caseSensitive = (case scCaseSensitive input of None \<Rightarrow> True | Some b \<Rightarrow> b)
      in bindE (Compile regexp mode (scQuery input) caseSensitive) (\<lambda>locate.
        let options = \<lparr>opMatcher = Some locate,
              opContextLines = (case scContextLines input of None \<Rightarrow> 2 | Some n \<Rightarrow> n),
              opMaxResults = (if scMaxResults input \<noteq> 0 then scMaxResults input else 50),
              opMaxFileBytes = sdMaxFileBytes defaults, opInclude = scInclude input, opExclude = scExclude input\<rparr>
        in
        bindE (guardE (\<not> (scTimeoutSeconds input < 0 \<or> scTimeoutSeconds input > maximumSearchTimeout))
          [MsgErr ''timeout_seconds must be between 1 and 300'']) (\<lambda>_.
        bindE (guardE (\<not> (opContextLines options < 0 \<or> opContextLines options > maxContextLines))
          [MsgErr ''context_lines must be between 0 and 10'']) (\<lambda>_.
        bindE (guardE (\<not> (opMaxResults options < 1 \<or> opMaxResults options > maxResultsLimit))
          [MsgErr ''max_results must be between 1 and 500'']) (\<lambda>_.
        bindE (ValidatePathPatterns (opInclude options) (opExclude options)) (\<lambda>_.
          Inr \<lparr>srOptions = options, srMode = mode,
            srTimeout = (if scTimeoutSeconds input \<noteq> 0 then scTimeoutSeconds input * secondNanos else sdTimeout defaults)\<rparr>))))))"

section \<open>Results\<close>

record SearchContextLine =
  xlLine :: int
  xlText :: string

record SearchMatch =
  xmPath :: string
  xmLine :: int
  xmColumn :: int
  xmLineText :: string
  xmContext :: "SearchContextLine list"

record SearchPage =
  spQuery :: string
  spRef :: string
  spCommitSHA :: string
  spMode :: string
  spMatches :: "SearchMatch list"

definition mapSearchMatch :: "Match \<Rightarrow> SearchMatch" where
  "mapSearchMatch m =
     \<lparr>xmPath = maPath m, xmLine = maLine m, xmColumn = maColumn m, xmLineText = maLineText m,
      xmContext = map (\<lambda>l. \<lparr>xlLine = clNumber l, xlText = clText l\<rparr>) (maContext m)\<rparr>"

definition encSearchContextLine :: "SearchContextLine \<Rightarrow> json" where
  "encSearchContextLine l = JObj (numField ''line'' (xlLine l) @ strField ''text'' (xlText l))"

definition encSearchMatch :: "SearchMatch \<Rightarrow> json" where
  "encSearchMatch m = JObj
     (strField ''path'' (xmPath m) @ numField ''line'' (xmLine m) @ numField ''column'' (xmColumn m)
      @ strField ''line_text'' (xmLineText m) @ [(''context'', JArr (map encSearchContextLine (xmContext m)))])"

definition encSearchPage :: "SearchPage \<Rightarrow> json" where
  "encSearchPage p = JObj
     (strField ''query'' (spQuery p) @ strField ''ref'' (spRef p) @ strField ''commit_sha'' (spCommitSHA p)
      @ strField ''mode'' (spMode p) @ [(''matches'', JArr (map encSearchMatch (spMatches p)))])"

definition searchMatchesWithin :: "Match list \<Rightarrow> nat \<Rightarrow> SearchMatch list \<times> bool" where
  "searchMatchesWithin found maximum = takeWithin (\<lambda>m. jsonLen (encSearchMatch m)) maximum 0 False (map mapSearchMatch found)"

definition humanBytes :: "int \<Rightarrow> string" where
  "humanBytes v = (if v \<ge> 1048576 \<and> v mod 1048576 = 0 then formatInt (v div 1048576) @ '' MiB'' else formatInt v @ '' bytes'')"

definition skippedOversizedWarning :: "int \<Rightarrow> int \<Rightarrow> string" where
  "skippedOversizedWarning n limit =
     (if n = 1 then ''Skipped 1 file larger than '' @ humanBytes limit @ ''.''
      else ''Skipped '' @ formatInt n @ '' files larger than '' @ humanBytes limit @ ''.'')"

definition mapSnapshotError :: "goerr \<Rightarrow> goerr" where
  "mapSnapshotError err =
     (if errIs err (SentinelErr ErrArchiveTooLarge) then
        gogsErr CodeResponseTooLarge ''The compressed archive exceeds the 128 MiB limit.''
      else if errIs err (SentinelErr ErrSnapshotTooLarge) then
        gogsErr CodeResponseTooLarge ''The decompressed archive exceeds the 512 MiB limit.''
      else if errIs err (SentinelErr ErrTooManyEntries) then
        gogsErr CodeResponseTooLarge ''The archive contains more than 20000 entries.''
      else if errIs err (SentinelErr ErrUnsafeArchiveEntry) then
        gogsErr CodeArchiveUnsafe ''The archive contains entries that cannot be extracted safely.''
      else if errIs err (SentinelErr ErrCapacity) then
        mkError CodeCacheCapacityExceeded ''The snapshot cache is full and cannot make room for a new snapshot.'' True 0 []
      else if errIs err (SentinelErr ErrInvalidOptions) then gogsErr CodeInvalidArgument (errorText err)
      else err)"

section \<open>State\<close>

record searchState =
  ssClient :: clientState
  ssIdentity :: "int option"
  ssCache :: fnode

record codeWorld =
  xwHTTP :: httpWorld
  xwRegexp :: "string \<Rightarrow> goerr + matcher"
  xwDigest :: "string \<Rightarrow> string"
  xwManager :: "Manager option"
  xwEnsure :: ensureWorld
  xwUntar :: "string \<Rightarrow> goerr + tarEvent list"
  xwInterfere :: "fnode \<Rightarrow> fnode"
  xwFiles :: "fpath \<Rightarrow> int \<Rightarrow> searchWorld \<times> dirTree"

type_synonym 'a searchIO = "(searchState, goerr, 'a) io"

definition onSearchClient :: "'a clientIO \<Rightarrow> 'a searchIO" where
  "onSearchClient m s = (case m (ssClient s) of (r, st) \<Rightarrow> (r, s\<lparr>ssClient := st\<rparr>))"

definition userIDFor :: "codeWorld \<Rightarrow> Client \<Rightarrow> int searchIO" where
  "userIDFor w c s =
     (case ssIdentity s of Some user \<Rightarrow> (Inr user, s)
      | None \<Rightarrow> bindM (onSearchClient (GetAuthenticatedUser (xwHTTP w) c)) (\<lambda>user s.
          (Inr (uId user), s\<lparr>ssIdentity := Some (uId user)\<rparr>)) s)"

text \<open>Whether \<open>Ensure\<close> gets to the download: the snapshot is missing under both locks and the temporary directory
  has been prepared.\<close>

definition downloads :: "(string \<Rightarrow> string) \<Rightarrow> ensureWorld \<Rightarrow> Manager \<Rightarrow> Key \<Rightarrow> fnode \<Rightarrow> fnode \<Rightarrow> bool" where
  "downloads sha256 w m key before root \<longleftrightarrow>
     (case (directory sha256 m key, userRootOf sha256 m (kyUserID key)) of
        (Inr _, Inr userRoot) \<Rightarrow>
          (let final = [kyOwner key, kyRepo key, kyCommitSHA key, ''snapshot''];
               b = \<lparr>bgBase = pathBase userRoot, bgKeep = None, bgMaxBytes = evMaxBytes (mgEviction m), bgTTL = evTTL (mgEviction m),
                    bgReady = False, bgFree = 0\<rparr>
           in ewRead w = None \<and> \<not> isDirAt final before \<and> ewWriter w = None
              \<and> (if ewShared w = None then ewExclusive w else ewShared w) = None
              \<and> \<not> isDirAt final root \<and> \<not> isl (fst (prepareTemporary w b root)))
      | _ \<Rightarrow> False)"

definition ensureSnapshot :: "codeWorld \<Rightarrow> Manager \<Rightarrow> Key \<Rightarrow> string clientIO \<Rightarrow> Result searchIO" where
  "ensureSnapshot w m key download s =
     (let before = ssCache s;
          root = xwInterfere w before
      in if downloads (xwDigest w) (xwEnsure w) m key before root then
           (case download (ssClient s) of (answer, st) \<Rightarrow>
             (case Ensure (xwDigest w) (xwEnsure w) m key
                 (Some (case answer of Inl err \<Rightarrow> Inl err | Inr archive \<Rightarrow> Inr (xwUntar w archive))) before root of
                (r, cache) \<Rightarrow> (r, s\<lparr>ssClient := st, ssCache := cache\<rparr>)))
         else
           (case Ensure (xwDigest w) (xwEnsure w) m key None before root of
              (r, cache) \<Rightarrow> (r, s\<lparr>ssCache := cache\<rparr>)))"

section \<open>The tool\<close>

definition timedOutError :: goerr where
  "timedOutError = mkError CodeSearchTimeout ''The search timed out before finding any match.'' True 0 []"

definition searchMeta :: "string \<Rightarrow> bool \<Rightarrow> searchRequest \<Rightarrow> Stats \<Rightarrow> bool \<Rightarrow> ResponseMeta" where
  "searchMeta requestID hit request stats dropped =
     (let note = (\<lambda>b partial warning meta. if b
            then meta\<lparr>ResponseMeta.Truncated := ResponseMeta.Truncated meta \<or> partial, Warnings := Warnings meta @ [warning]\<rparr> else meta);
          meta = (metaFor requestID)\<lparr>CacheHit := hit\<rparr>;
          meta = note (TimedOut stats) True ''The search timed out; results are partial.'' meta;
          meta = note (Stats.Truncated stats) True
            (''The search stopped at the max_results limit of '' @ formatInt (opMaxResults (srOptions request)) @ '' matches.'') meta;
          meta = note (SkippedBinary stats > 0) False
            (''Skipped '' @ formatInt (SkippedBinary stats) @ '' binary or non-UTF-8 files.'') meta;
          meta = note (SkippedOversized stats > 0) False
            (skippedOversizedWarning (SkippedOversized stats) (opMaxFileBytes (srOptions request))) meta
      in note dropped True ''Search results reached the 64 KiB structured output limit.'' meta)"

definition unavailableError :: goerr where
  "unavailableError = gogsErr CodeGogsError ''Code search is not available because the snapshot cache is not configured.''"

text \<open>The search of the snapshot found, and the answer made of it.\<close>

definition answerSearch :: "codeWorld \<Rightarrow> string \<Rightarrow> searchCodeInput \<Rightarrow> searchRequest \<Rightarrow> string \<Rightarrow> Result \<Rightarrow> SearchPage toolResult" where
  "answerSearch w requestID input request commitSHA result =
     (case xwFiles w (rsDir result) (srTimeout request) of (files, root) \<Rightarrow>
       (case Search files root (srOptions request) of
          Inl err \<Rightarrow> contentError requestID (mapSnapshotError err)
        | Inr (found, stats) \<Rightarrow>
            if TimedOut stats \<and> found = [] then contentError requestID timedOutError
            else (case searchMatchesWithin found maximumFileTextBytes of (matches, dropped) \<Rightarrow>
              toolData \<lparr>spQuery = scQuery input, spRef = scRef input, spCommitSHA = commitSHA, spMode = srMode request,
                  spMatches = matches\<rparr>
                (searchMeta requestID (rsCacheHit result) request stats dropped))))"

definition searchCodeTool :: "codeWorld \<Rightarrow> Client \<Rightarrow> SearchDefaults \<Rightarrow> string \<Rightarrow> searchCodeInput \<Rightarrow> SearchPage toolResult searchIO" where
  "searchCodeTool w c defaults requestID input =
     (case xwManager w of
        None \<Rightarrow> ret (contentError requestID unavailableError)
      | Some m \<Rightarrow>
        (case resolveSearchRequest (xwRegexp w) input defaults of
           Inl err \<Rightarrow> ret (contentError requestID (gogsErr CodeInvalidArgument (errorText err)))
         | Inr request \<Rightarrow>
           onResult (userIDFor w c) (\<lambda>r. case r of Inl err \<Rightarrow> ret (contentError requestID err) | Inr user \<Rightarrow>
           onResult (onSearchClient (ResolveCommitSHA (xwHTTP w) c (scOwner input) (scRepo input) (scRef input)))
             (\<lambda>r. case r of Inl err \<Rightarrow> ret (contentError requestID err) | Inr commitSHA \<Rightarrow>
           onResult (ensureSnapshot w m \<lparr>kyUserID = user, kyOwner = scOwner input, kyRepo = scRepo input, kyCommitSHA = commitSHA\<rparr>
               (DownloadArchive (xwHTTP w) c (scOwner input) (scRepo input) commitSHA))
             (\<lambda>r. case r of Inl err \<Rightarrow> ret (contentError requestID (mapSnapshotError err)) | Inr result \<Rightarrow>
           ret (answerSearch w requestID input request commitSHA result))))))"

section \<open>What the tool sends\<close>

lemma sends_DownloadArchive: "sends (isRead c) 1 (DownloadArchive w c owner repo sha)"
proof -
  have "sends (isRead c) (0 + 1) (DownloadArchive w c owner repo sha)"
    unfolding DownloadArchive_def
    by (intro sends_bindM sends_pure)
      (auto simp: sends_def httpDo_def Let_def split: httpOutcome.splits)
  then show ?thesis by simp
qed

definition searchReads :: "Client \<Rightarrow> searchState \<Rightarrow> searchState \<Rightarrow> bool" where
  "searchReads c s t \<longleftrightarrow> (\<exists>new. sent (ssClient t) = sent (ssClient s) @ new \<and> list_all (isRead c) new)"

lemma searchReads_refl [simp]: "searchReads c s s"
  by (simp add: searchReads_def)

lemma searchReads_trans: "searchReads c s t \<Longrightarrow> searchReads c t u \<Longrightarrow> searchReads c s u"
  by (auto simp: searchReads_def)

lemma searchReads_onResult:
  "keeps (searchReads c) m \<Longrightarrow> (\<And>x. keeps (searchReads c) (f x)) \<Longrightarrow> keeps (searchReads c) (onResult m f)"
  by (rule keeps_onResult) (auto intro: searchReads_trans)

lemma searchReads_client:
  assumes "sends (isRead c) n m" "m (ssClient s) = (r, st)"
  shows "searchReads c s (s\<lparr>ssClient := st\<rparr>)"
  using assms unfolding sends_def searchReads_def by (metis searchState.select_convs(1) searchState.surjective searchState.update_convs(1) snd_conv)

lemma searchReads_onClient: "sends (isRead c) n m \<Longrightarrow> keeps (searchReads c) (onSearchClient m)"
  unfolding keeps_def onSearchClient_def by (auto intro: searchReads_client split: prod.split)

lemma searchReads_userIDFor: "keeps (searchReads c) (userIDFor w c)"
proof -
  have "keeps (searchReads c) (bindM (onSearchClient (GetAuthenticatedUser (xwHTTP w) c)) (\<lambda>user s.
          (Inr (uId user), s\<lparr>ssIdentity := Some (uId user)\<rparr>)))"
    by (rule keeps_bindM [OF searchReads_onClient [OF sends_GetAuthenticatedUser]])
      (auto simp: keeps_def searchReads_def)
  then show ?thesis unfolding keeps_def userIDFor_def by (simp split: option.split)
qed

lemma searchReads_ensure: "sends (isRead c) n download \<Longrightarrow> keeps (searchReads c) (ensureSnapshot w m key download)"
  unfolding keeps_def ensureSnapshot_def Let_def searchReads_def sends_def
  by (auto split: prod.split) (metis snd_conv)

lemma reads_searchCode: "keeps (searchReads c) (searchCodeTool w c defaults requestID input)"
  unfolding searchCodeTool_def
  by (auto intro!: searchReads_onResult searchReads_userIDFor searchReads_onClient [OF sends_ResolveCommitSHA]
      searchReads_ensure [OF sends_DownloadArchive] split: option.split sum.split)

section \<open>What a search answer is\<close>

lemma resolveSearchRequest_Inr:
  assumes "resolveSearchRequest regexp input defaults = Inr request"
  shows "1 \<le> opMaxResults (srOptions request)" "opMaxResults (srOptions request) \<le> 500"
    "opInclude (srOptions request) = scInclude input" "opExclude (srOptions request) = scExclude input"
    "opMaxFileBytes (srOptions request) = sdMaxFileBytes defaults"
    "\<exists>locate. Compile regexp (srMode request) (scQuery input) (scCaseSensitive input \<noteq> Some False) = Inr locate
       \<and> opMatcher (srOptions request) = Some locate"
proof -
  obtain locate where "Compile regexp (if scMode input = [] then ''literal'' else scMode input) (scQuery input)
      (case scCaseSensitive input of None \<Rightarrow> True | Some b \<Rightarrow> b) = Inr locate"
    and r: "request = \<lparr>srOptions = \<lparr>opMatcher = Some locate,
              opContextLines = (case scContextLines input of None \<Rightarrow> 2 | Some n \<Rightarrow> n),
              opMaxResults = (if scMaxResults input \<noteq> 0 then scMaxResults input else 50),
              opMaxFileBytes = sdMaxFileBytes defaults, opInclude = scInclude input, opExclude = scExclude input\<rparr>,
            srMode = (if scMode input = [] then ''literal'' else scMode input),
            srTimeout = (if scTimeoutSeconds input \<noteq> 0 then scTimeoutSeconds input * secondNanos else sdTimeout defaults)\<rparr>"
    and m: "\<not> ((if scMaxResults input \<noteq> 0 then scMaxResults input else 50) < 1
        \<or> (if scMaxResults input \<noteq> 0 then scMaxResults input else 50) > 500)"
    using assms by (auto simp: resolveSearchRequest_def Let_def bindE_eq_Inr guardE_Inr maxResultsLimit_def)
  moreover have "(case scCaseSensitive input of None \<Rightarrow> True | Some b \<Rightarrow> b) = (scCaseSensitive input \<noteq> Some False)"
    by (cases "scCaseSensitive input") auto
  ultimately show "\<exists>locate. Compile regexp (srMode request) (scQuery input) (scCaseSensitive input \<noteq> Some False) = Inr locate
       \<and> opMatcher (srOptions request) = Some locate" by simp
  show "1 \<le> opMaxResults (srOptions request)" "opMaxResults (srOptions request) \<le> 500"
    "opInclude (srOptions request) = scInclude input" "opExclude (srOptions request) = scExclude input"
    "opMaxFileBytes (srOptions request) = sdMaxFileBytes defaults"
    using r m by simp_all
qed

lemma Search_length: "Search w root options = Inr (found, stats) \<Longrightarrow> int (length found) \<le> max 0 (opMaxResults options)"
  by (auto simp: Search_def split: option.splits if_splits prod.splits)

lemma searchMatchesWithin_spec:
  assumes "searchMatchesWithin found maximum = (matches, dropped)"
  shows "\<exists>n \<le> length found. matches = map mapSearchMatch (take n found) \<and> (dropped \<longleftrightarrow> n < length found)
    \<and> sepSum False (map (\<lambda>m. jsonLen (encSearchMatch m)) matches) \<le> maximum"
proof -
  have run: "takeWithin (\<lambda>m. jsonLen (encSearchMatch m)) maximum 0 False (map mapSearchMatch found) = (matches, dropped)"
    using assms by (simp add: searchMatchesWithin_def)
  obtain rest where rest: "map mapSearchMatch found = matches @ rest" "dropped \<longleftrightarrow> rest \<noteq> []"
    using takeWithin_prefix [OF run] by blast
  have "matches = map mapSearchMatch (take (length matches) found)" "rest = map mapSearchMatch (drop (length matches) found)"
    using rest(1) by (metis append_eq_conv_conj take_map, metis append_eq_conv_conj drop_map)
  moreover have "length matches \<le> length found" using rest(1) by (metis length_append length_map le_add1)
  moreover have "rest \<noteq> [] \<longleftrightarrow> length matches < length found"
    using rest(1) by (metis add_cancel_right_right length_0_conv length_append length_map less_add_same_cancel1 length_greater_0_conv)
  ultimately show ?thesis using rest(2) takeWithin_bound [OF run] by (intro exI [of _ "length matches"]) simp
qed

lemma searchMeta_Truncated:
  "ResponseMeta.Truncated (searchMeta requestID hit request stats dropped)
    \<longleftrightarrow> TimedOut stats \<or> Stats.Truncated stats \<or> dropped"
  "CacheHit (searchMeta requestID hit request stats dropped) = hit"
  by (simp_all add: searchMeta_def Let_def metaFor_def)

text \<open>The answer page: a run of the matches that the search of that directory found, cut where the output limit is.\<close>

definition answersSearch :: "codeWorld \<Rightarrow> searchCodeInput \<Rightarrow> searchRequest \<Rightarrow> string \<Rightarrow> Result \<Rightarrow> SearchPage ToolResponse \<Rightarrow> bool" where
  "answersSearch w input request sha result response \<longleftrightarrow>
     (\<exists>page found stats n. respData response = Some page
       \<and> Search (fst (xwFiles w (rsDir result) (srTimeout request))) (snd (xwFiles w (rsDir result) (srTimeout request)))
           (srOptions request) = Inr (found, stats)
       \<and> spCommitSHA page = sha \<and> spMatches page = map mapSearchMatch (take n found) \<and> n \<le> length found
       \<and> int (length (spMatches page)) \<le> opMaxResults (srOptions request)
       \<and> sepSum False (map (\<lambda>m. jsonLen (encSearchMatch m)) (spMatches page)) \<le> maximumFileTextBytes
       \<and> (ResponseMeta.Truncated (respMeta response) \<longleftrightarrow> TimedOut stats \<or> Stats.Truncated stats \<or> n < length found)
       \<and> CacheHit (respMeta response) = rsCacheHit result)"

lemma answerSearch_ok:
  assumes "answerSearch w requestID input request sha result = (False, response)" "1 \<le> opMaxResults (srOptions request)"
  shows "answersSearch w input request sha result response"
proof -
  obtain files root where f: "xwFiles w (rsDir result) (srTimeout request) = (files, root)"
    by (cases "xwFiles w (rsDir result) (srTimeout request)")
  obtain found stats where s: "Search files root (srOptions request) = Inr (found, stats)" "\<not> (TimedOut stats \<and> found = [])"
    using assms(1) f by (auto simp: answerSearch_def contentError_def split: sum.splits if_splits)
  obtain matches dropped where m: "searchMatchesWithin found maximumFileTextBytes = (matches, dropped)"
    by (cases "searchMatchesWithin found maximumFileTextBytes")
  obtain n where n: "n \<le> length found" "matches = map mapSearchMatch (take n found)" "dropped \<longleftrightarrow> n < length found"
    "sepSum False (map (\<lambda>m. jsonLen (encSearchMatch m)) matches) \<le> maximumFileTextBytes"
    using searchMatchesWithin_spec [OF m] by blast
  have "int (length matches) \<le> opMaxResults (srOptions request)"
    using Search_length [OF s(1)] assms(2) n(1,2) by simp
  moreover have "response = snd (toolData \<lparr>spQuery = scQuery input, spRef = scRef input, spCommitSHA = sha,
      spMode = srMode request, spMatches = matches\<rparr> (searchMeta requestID (rsCacheHit result) request stats dropped))"
    using assms(1) f s m by (auto simp: answerSearch_def)
  ultimately show ?thesis
    unfolding answersSearch_def f fst_conv snd_conv using s(1) n
    by (simp add: toolData_def searchMeta_Truncated) (intro exI [of _ n], simp)
qed

lemma published_download:
  assumes "published w m download commitDir stats root"
  shows "\<exists>events. download = Some (Inr (Inr events))"
proof (cases download)
  case None
  then show ?thesis using assms by (simp add: published_def extractArchive_def)
next
  case (Some a)
  then show ?thesis using assms
  proof (cases a)
    case (Inr b)
    then show ?thesis using Some assms by (cases b) (simp_all add: published_def extractArchive_def)
  qed (simp add: published_def extractArchive_def)
qed

text \<open>The snapshot a search uses: the directory of the commit in the cache of the user; one that was not there
  has been filled with the archive Gogs gave for that commit during the call.\<close>

lemma ensureSnapshot_ok:
  assumes run: "ensureSnapshot w m key download s = (Inr result, s')"
    and valid: "validTree (xwInterfere w (ssCache s))" "isDirNode (xwInterfere w (ssCache s))"
    and reads: "sends (isRead c) n download"
  shows "rsDir result = [kyOwner key, kyRepo key, kyCommitSHA key, ''snapshot'']" "isDirAt (rsDir result) (ssCache s')"
    "ssIdentity s' = ssIdentity s" "extends (ssClient s) (ssClient s')"
    "rsCacheHit result \<or> (\<exists>archive stats. during (ssClient s) (ssClient s') download archive
       \<and> published (xwEnsure w) m (Some (Inr (xwUntar w archive))) [kyOwner key, kyRepo key, kyCommitSHA key] stats (ssCache s'))"
proof -
  let ?final = "[kyOwner key, kyRepo key, kyCommitSHA key, ''snapshot'']"
  obtain answer cache where e: "Ensure (xwDigest w) (xwEnsure w) m key answer (ssCache s) (xwInterfere w (ssCache s)) = (Inr result, cache)"
    "ssCache s' = cache" "ssIdentity s' = ssIdentity s"
    and asked: "answer = None \<and> ssClient s' = ssClient s
      \<or> (\<exists>a. download (ssClient s) = (a, ssClient s') \<and> answer = Some (case a of Inl err \<Rightarrow> Inl err | Inr archive \<Rightarrow> Inr (xwUntar w archive)))"
    using run by (auto simp: ensureSnapshot_def Let_def split: if_splits prod.splits)
  obtain path h where dir: "directory (xwDigest w) m key = Inr (path, h)"
    using e(1) by (cases "directory (xwDigest w) m key") (auto simp: Ensure_def)
  note spec = Ensure_spec [OF e(1) valid dir refl]
  have pub: "rsCacheHit result \<or> (\<exists>stats. published (xwEnsure w) m answer [kyOwner key, kyRepo key, kyCommitSHA key] stats cache)"
    using spec by (auto split: if_splits)
  show "rsDir result = ?final" "isDirAt (rsDir result) (ssCache s')" using spec e(2) by auto
  show "ssIdentity s' = ssIdentity s" by (rule e(3))
  show ext: "extends (ssClient s) (ssClient s')"
    using asked
  proof (elim disjE exE conjE)
    fix a
    assume "download (ssClient s) = (a, ssClient s')"
    then show ?thesis by (rule sends_extends [OF reads])
  qed simp
  show "rsCacheHit result \<or> (\<exists>archive stats. during (ssClient s) (ssClient s') download archive
       \<and> published (xwEnsure w) m (Some (Inr (xwUntar w archive))) [kyOwner key, kyRepo key, kyCommitSHA key] stats (ssCache s'))"
  proof (cases "rsCacheHit result")
    case False
    then obtain stats where p: "published (xwEnsure w) m answer [kyOwner key, kyRepo key, kyCommitSHA key] stats cache" using pub by blast
    then obtain events where ev: "answer = Some (Inr (Inr events))" using published_download by blast
    with asked obtain a where a: "download (ssClient s) = (a, ssClient s')"
      "answer = Some (case a of Inl err \<Rightarrow> Inl err | Inr archive \<Rightarrow> Inr (xwUntar w archive))" by auto
    with ev obtain archive where "a = Inr archive" by (cases a) auto
    with a p e(2) have "download (ssClient s) = (Inr archive, ssClient s')"
      "published (xwEnsure w) m (Some (Inr (xwUntar w archive))) [kyOwner key, kyRepo key, kyCommitSHA key] stats (ssCache s')"
      by simp_all
    then show ?thesis using ext by (intro disjI2 exI [of _ archive] exI [of _ stats] conjI during_here)
  qed simp
qed

lemma userIDFor_ok:
  assumes "userIDFor w c s = (Inr user, s')"
  shows "ssIdentity s' = Some user" "ssCache s' = ssCache s" "extends (ssClient s) (ssClient s')"
    "ssIdentity s = Some user \<or> (\<exists>u. during (ssClient s) (ssClient s') (GetAuthenticatedUser (xwHTTP w) c) u \<and> uId u = user)"
proof -
  have both: "ssIdentity s' = Some user \<and> ssCache s' = ssCache s \<and> extends (ssClient s) (ssClient s')
    \<and> (ssIdentity s = Some user \<or> (\<exists>u. during (ssClient s) (ssClient s') (GetAuthenticatedUser (xwHTTP w) c) u \<and> uId u = user))"
  proof (cases "ssIdentity s")
    case None
    then obtain u where u: "GetAuthenticatedUser (xwHTTP w) c (ssClient s) = (Inr u, ssClient s')" "uId u = user"
      "ssIdentity s' = Some user" "ssCache s' = ssCache s"
      using assms by (auto simp: userIDFor_def bindM_eq_Inr onSearchClient_def split: prod.splits)
    then have "extends (ssClient s) (ssClient s')" using sends_extends [OF sends_GetAuthenticatedUser] by blast
    then show ?thesis using u by (intro conjI disjI2 exI [of _ u] during_here)
  qed (use assms in \<open>simp add: userIDFor_def\<close>)
  then show "ssIdentity s' = Some user" "ssCache s' = ssCache s" "extends (ssClient s) (ssClient s')"
    "ssIdentity s = Some user \<or> (\<exists>u. during (ssClient s) (ssClient s') (GetAuthenticatedUser (xwHTTP w) c) u \<and> uId u = user)"
    by simp_all
qed


text \<open>A server that knows one branch, and a search of an empty cache.\<close>

definition someSHA :: string where
  "someSHA = replicate 40 CHR ''a''"

definition branchForge :: httpWorld where
  "branchForge = \<lparr>doRequest = (\<lambda>h rq. Response 200 [] [] None None), waitCanceled = (\<lambda>_ _. None),
     parseJSON = (\<lambda>s. Some (JObj [(''name'', JStr ''main''), (''commit'', JObj [(''id'', JStr someSHA)])]))\<rparr>"

definition someCode :: codeWorld where
  "someCode = \<lparr>xwHTTP = branchForge, xwRegexp = (\<lambda>e. Inr (\<lambda>s. [])), xwDigest = someDigest, xwManager = Some freeManager,
     xwEnsure = someEnsure, xwUntar = (\<lambda>archive. Inr oneFile), xwInterfere = (\<lambda>root. root),
     xwFiles = (\<lambda>dir limit. (openWorld someRoot, someRoot))\<rparr>"

definition someQuery :: searchCodeInput where
  "someQuery = \<lparr>scOwner = ''o'', scRepo = ''r'', scQuery = ''a'', scRef = ''main'', scMode = [], scCaseSensitive = None,
     scContextLines = Some 0, scMaxResults = 5, scInclude = [], scExclude = [], scTimeoutSeconds = 0\<rparr>"

definition knownUser :: searchState where
  "knownUser = \<lparr>ssClient = freshState, ssIdentity = Some 7, ssCache = FDir 0 []\<rparr>"

lemma someCode_branch: "\<exists>st. ResolveCommitSHA branchForge someClient ''o'' ''r'' ''main'' freshState = (Inr someSHA, st)"
proof -
  have "fst (ResolveCommitSHA branchForge someClient ''o'' ''r'' ''main'' freshState) = Inr someSHA" by code_simp
  then show ?thesis by (metis prod.collapse)
qed

lemma someSHA_archive: "\<exists>st'. DownloadArchive branchForge someClient ''o'' ''r'' someSHA st = (Inr [], st')"
proof -
  have "ValidateArchiveSHA someSHA = Inr ()" by code_simp
  then show ?thesis
    by (simp add: DownloadArchive_def bindM_def liftE_def httpDo_def branchForge_def Let_def split: prod.split)
qed

lemma someEnsure_downloads: "downloads someDigest someEnsure freeManager (someKey ''o'') (FDir 0 []) (FDir 0 [])"
proof -
  obtain path where dir: "directory someDigest freeManager (someKey ''o'') = Inr (path, someDigest [])"
    using freeDirectory ..
  obtain userRoot where user: "userRootOf someDigest freeManager (kyUserID (someKey ''o'')) = Inr userRoot"
    using directory_ok(4,5) [OF dir] by (auto simp: userRootOf_def bindE_def)
  have "evMaxBytes (mgEviction freeManager) = 0" "evTTL (mgEviction freeManager) = 0" by (simp_all add: freeManager_def)
  then show ?thesis
    by (simp add: downloads_def dir user someEnsure_def isDirAt_def isDirNode_def prepareTemporary_def
        sweepStaleTemporaries_def MakeRoom_def someDisk_def Let_def)
qed

lemma someQuery_request:
  "resolveSearchRequest (xwRegexp someCode) someQuery DefaultSearchDefaults
    = Inr \<lparr>srOptions = \<lparr>opMatcher = Some (literalMatcher ''a''), opContextLines = 0, opMaxResults = 5,
        opMaxFileBytes = 1048576, opInclude = [], opExclude = []\<rparr>, srMode = ''literal'', srTimeout = 30000000000\<rparr>"
  by (simp add: resolveSearchRequest_def someQuery_def DefaultSearchDefaults_def Let_def Compile_def bindE_def guardE_def
      maxContextLines_def maxResultsLimit_def maximumSearchTimeout_def secondNanos_def ValidatePathPatterns_def)

lemma someQuery_matches:
  "\<exists>m1 m2 stats. Search (openWorld someRoot) someRoot \<lparr>opMatcher = Some (literalMatcher ''a''), opContextLines = 0, opMaxResults = 5,
        opMaxFileBytes = 1048576, opInclude = [], opExclude = []\<rparr> = Inr ([m1, m2], stats)"
  by (simp add: Search_def someRoot_def openWorld_def maxContextLines_def maxResultsLimit_def
      sortSlice_def slash_def pathExcluded_def readSearchableFile_def binaryProbeBytes_def validUtf8.simps
      leadWidth_def byte_def tailOk_def searchContent_def contentLines_def trimSuffix_def hasSuffix_def
      someLiteral matchAt_def matchLess_def noSkips_def Let_def)


end
