(* ===== verification/ToolSchema.thy ===== *)
theory ToolSchema
  imports ToolPulls ToolSearch "HOL-Library.AList"
begin

text \<open>
  The input schemas of the tools, as the files of internal/mcpserver build them, and the part of the vendored
  jsonschema-go package and of the MCP library that applies one to the arguments of a call: filling in
  the defaults of properties that are missing and not required, and validating. A schema has the keywords that
  the tools use; \<open>anySchema\<close> is the zero value of the struct. Every object schema of the tools forbids other
  properties than its own. Numbers are integers: JSON numbers with a fraction have no value in the model.
\<close>

section \<open>Schemas\<close>

record ItemSchema =
  itType :: string
  itMinLength :: "int option"

record Schema =
  jsType :: string
  jsDescription :: string
  jsEnum :: "json list option"
  jsDefault :: "json option"
  jsMinimum :: "int option"
  jsMaximum :: "int option"
  jsMinLength :: "int option"
  jsMaxLength :: "int option"
  jsItems :: "ItemSchema option"
  jsMaxItems :: "int option"
  jsUniqueItems :: bool

definition anySchema :: Schema where
  "anySchema = \<lparr>jsType = [], jsDescription = [], jsEnum = None, jsDefault = None, jsMinimum = None, jsMaximum = None,
     jsMinLength = None, jsMaxLength = None, jsItems = None, jsMaxItems = None, jsUniqueItems = False\<rparr>"

type_synonym properties = "(string \<times> Schema) list"

record ObjectSchema =
  osProperties :: properties
  osRequired :: "string list"

definition objectSchema :: "properties \<Rightarrow> string list \<Rightarrow> ObjectSchema" where
  "objectSchema properties required = \<lparr>osProperties = properties, osRequired = required\<rparr>"

definition integerSchema :: "string \<Rightarrow> int \<Rightarrow> int \<Rightarrow> Schema" where
  "integerSchema description defaultValue maximum =
     (let schema = anySchema\<lparr>jsType := ''integer'', jsDescription := description, jsDefault := Some (JNum defaultValue),
        jsMinimum := Some 1\<rparr>
      in if maximum > 0 then schema\<lparr>jsMaximum := Some maximum\<rparr> else schema)"

definition stringSchema :: "string \<Rightarrow> bool \<Rightarrow> bool \<Rightarrow> Schema" where
  "stringSchema description required defaultEmpty =
     (let schema = anySchema\<lparr>jsType := ''string'', jsDescription := description\<rparr>;
          schema = (if required then schema\<lparr>jsMinLength := Some 1\<rparr> else schema)
      in if defaultEmpty then schema\<lparr>jsDefault := Some (JStr [])\<rparr> else schema)"

definition stringItem :: ItemSchema where
  "stringItem = \<lparr>itType = ''string'', itMinLength = Some 1\<rparr>"

text \<open>\<open>properties[key].Default = nil\<close>.\<close>

definition noDefault :: "string \<Rightarrow> properties \<Rightarrow> properties" where
  "noDefault key ps = map (\<lambda>(k, s). (k, if k = key then s\<lparr>jsDefault := None\<rparr> else s)) ps"

definition repositoryIdentityProperties :: properties where
  "repositoryIdentityProperties =
     [(''owner'', stringSchema ''Repository owner username.'' True False), (''repo'', stringSchema ''Repository name.'' True False)]"

definition repositoryReferenceProperties :: properties where
  "repositoryReferenceProperties =
     [(''owner'', stringSchema ''Repository owner username.'' True False), (''repo'', stringSchema ''Repository name.'' True False),
      (''ref'', stringSchema ''Branch, tag, or commit SHA. Uses the default branch when omitted.'' False True)]"

definition defaultPage :: int where "defaultPage = 1"
definition defaultPerPage :: int where "defaultPerPage = 30"
definition maximumPerPage :: int where "maximumPerPage = 100"

section \<open>Repositories, contents and commits\<close>

definition emptyInputSchema :: ObjectSchema where
  "emptyInputSchema = objectSchema [] []"

definition paginationInputSchema :: ObjectSchema where
  "paginationInputSchema = objectSchema
     [(''page'', integerSchema ''Page number starting at 1.'' defaultPage 0),
      (''per_page'', integerSchema ''Repositories per page, from 1 through 100.'' defaultPerPage maximumPerPage)] []"

definition searchRepositoriesInputSchema :: ObjectSchema where
  "searchRepositoriesInputSchema = objectSchema
     (AList.update ''query''
       (anySchema\<lparr>jsType := ''string'', jsDescription := ''Case-insensitive text to match against repository name, full name, or description.'',
          jsMinLength := Some 1\<rparr>)
       (osProperties paginationInputSchema)) [''query'']"

definition getRepositoryInputSchema :: ObjectSchema where
  "getRepositoryInputSchema = objectSchema
     [(''owner'', anySchema\<lparr>jsType := ''string'', jsDescription := ''Repository owner username.'', jsMinLength := Some 1\<rparr>),
      (''repo'', anySchema\<lparr>jsType := ''string'', jsDescription := ''Repository name.'', jsMinLength := Some 1\<rparr>)] [''owner'', ''repo'']"

definition listDirectoryInputSchema :: ObjectSchema where
  "listDirectoryInputSchema = objectSchema
     (AList.update ''per_page'' (integerSchema ''Directory entries per page, from 1 through 100.'' defaultPerPage maximumPerPage)
       (AList.update ''page'' (integerSchema ''Page number starting at 1.'' defaultPage 0)
         (AList.update ''path'' (stringSchema ''Repository-relative directory path.'' False True) repositoryReferenceProperties)))
     [''owner'', ''repo'']"

definition defaultFileLineCount :: int where "defaultFileLineCount = 200"
definition maximumFileLineCount :: int where "maximumFileLineCount = 1000"

definition getFileInputSchema :: ObjectSchema where
  "getFileInputSchema = objectSchema
     (AList.update ''line_count'' (integerSchema ''Maximum lines to return, from 1 through 1000.'' defaultFileLineCount maximumFileLineCount)
       (AList.update ''start_line'' (integerSchema ''First line to return, starting at 1.'' 1 0)
         (AList.update ''path'' (stringSchema ''Repository-relative file path.'' True False) repositoryReferenceProperties)))
     [''owner'', ''repo'', ''path'']"

definition listBranchesInputSchema :: ObjectSchema where
  "listBranchesInputSchema = objectSchema
     (AList.update ''per_page'' (integerSchema ''Branches per page, from 1 through 100.'' defaultPerPage maximumPerPage)
       (AList.update ''page'' (integerSchema ''Page number starting at 1.'' defaultPage 0) repositoryIdentityProperties))
     [''owner'', ''repo'']"

definition defaultCommitLimit :: int where "defaultCommitLimit = 30"
definition maximumCommitLimit :: int where "maximumCommitLimit = 100"

definition listCommitsInputSchema :: ObjectSchema where
  "listCommitsInputSchema = objectSchema
     (AList.update ''limit''
       (integerSchema ''Maximum number of recent default-branch commits to return, from 1 through 100.'' defaultCommitLimit maximumCommitLimit)
       repositoryIdentityProperties) [''owner'', ''repo'']"

definition getBranchInputSchema :: ObjectSchema where
  "getBranchInputSchema = objectSchema
     (AList.update ''branch'' (stringSchema ''Branch name. May contain slashes.'' True False) repositoryIdentityProperties)
     [''owner'', ''repo'', ''branch'']"

definition getCommitInputSchema :: ObjectSchema where
  "getCommitInputSchema = objectSchema
     (AList.update ''sha''
       (stringSchema ''Commit SHA, short SHA, or other slash-free Git revision. Unknown revisions return an error.'' True False)
       repositoryIdentityProperties) [''owner'', ''repo'', ''sha'']"

section \<open>Issues\<close>

definition bodyRangeProperties :: "properties \<Rightarrow> properties" where
  "bodyRangeProperties properties =
     AList.update ''body_max_bytes''
       ((integerSchema ''Maximum body bytes in this chunk, from 4 through 8192; defaults to 8192.'' defaultBodyBytes defaultBodyBytes)
          \<lparr>jsMinimum := Some 4\<rparr>)
       (AList.update ''body_offset''
         (anySchema\<lparr>jsType := ''integer'', jsMinimum := Some 0,
            jsDescription := ''UTF-8 byte offset returned by next_body_offset; defaults to zero.''\<rparr>) properties)"

definition listIssuesInputSchema :: ObjectSchema where
  "listIssuesInputSchema = objectSchema
     [(''owner'', stringSchema ''Repository owner username.'' True False), (''repo'', stringSchema ''Repository name.'' True False),
      (''state'', anySchema\<lparr>jsType := ''string'', jsDescription := ''Issue state to list. Defaults to open.'',
         jsEnum := Some [JStr ''open'', JStr ''closed''], jsDefault := Some (JStr ''open'')\<rparr>),
      (''page'', integerSchema ''Page number starting at 1. The page size is fixed by the Gogs server.'' defaultPage 0)]
     [''owner'', ''repo'']"

definition getIssueInputSchema :: ObjectSchema where
  "getIssueInputSchema = objectSchema
     (bodyRangeProperties (AList.update ''number'' (integerSchema ''Issue number.'' 1 0) repositoryIdentityProperties))
     [''owner'', ''repo'', ''number'']"

definition listIssueCommentsInputSchema :: ObjectSchema where
  "listIssueCommentsInputSchema = objectSchema
     (bodyRangeProperties (noDefault ''comment_id'' (noDefault ''after_id''
       (AList.update ''comment_id'' (integerSchema ''Read one comment's body; combine with body_offset to continue.'' 1 0)
       (AList.update ''after_id'' (integerSchema ''Continue after meta.next_after_id.'' 1 0)
       (AList.update ''max_comments'' (integerSchema ''Maximum comments to return.'' defaultMaxComments maximumMaxComments)
       (AList.update ''since'' (anySchema\<lparr>jsType := ''string'',
            jsDescription := ''Only return comments created at or after this RFC3339 timestamp.''\<rparr>)
       (AList.update ''number'' (integerSchema ''Issue number.'' 1 0) repositoryIdentityProperties))))))))
     [''owner'', ''repo'', ''number'']"

definition createIssueInputSchema :: ObjectSchema where
  "createIssueInputSchema = objectSchema
     [(''owner'', stringSchema ''Repository owner username.'' True False), (''repo'', stringSchema ''Repository name.'' True False),
      (''title'', anySchema\<lparr>jsType := ''string'', jsDescription := ''Issue title.'', jsMinLength := Some 1, jsMaxLength := Some maxIssueTitleRunes\<rparr>),
      (''body'', stringSchema ''Issue body in Markdown.'' False False),
      (''assignee'', anySchema\<lparr>jsType := ''string'',
         jsDescription := ''Username to assign the issue to. Requires repository write access.'', jsMinLength := Some 1\<rparr>),
      (''labels'', anySchema\<lparr>jsType := ''array'',
         jsDescription := ''Names of labels to attach. Requires repository write access; unknown names are rejected instead of silently dropped.'',
         jsItems := Some stringItem, jsUniqueItems := True\<rparr>),
      (''milestone'', anySchema\<lparr>jsType := ''string'',
         jsDescription := ''Title of the milestone to assign. Requires repository write access; unknown titles are rejected instead of silently dropped.'',
         jsMinLength := Some 1\<rparr>)]
     [''owner'', ''repo'', ''title'']"

definition updateIssueInputSchema :: ObjectSchema where
  "updateIssueInputSchema = objectSchema
     [(''owner'', stringSchema ''Repository owner username.'' True False), (''repo'', stringSchema ''Repository name.'' True False),
      (''number'', integerSchema ''Issue number.'' 1 0),
      (''title'', anySchema\<lparr>jsType := ''string'', jsDescription := ''New issue title.'', jsMinLength := Some 1, jsMaxLength := Some maxIssueTitleRunes\<rparr>),
      (''body'', anySchema\<lparr>jsType := ''string'', jsDescription := ''New issue body in Markdown. An empty string clears the body.''\<rparr>),
      (''assignee'', anySchema\<lparr>jsType := ''string'',
         jsDescription := ''Username to assign the issue to. Requires repository write access; an empty string clears the assignee.''\<rparr>),
      (''milestone'', anySchema\<lparr>jsType := ''string'',
         jsDescription := ''Title of the milestone to assign. Requires repository write access and the title must exist; an empty string clears the milestone.''\<rparr>),
      (''state'', anySchema\<lparr>jsType := ''string'', jsDescription := ''New issue state.'',
         jsEnum := Some [JStr ''open'', JStr ''closed'']\<rparr>)]
     [''owner'', ''repo'', ''number'']"

definition createIssueCommentInputSchema :: ObjectSchema where
  "createIssueCommentInputSchema = objectSchema
     [(''owner'', stringSchema ''Repository owner username.'' True False), (''repo'', stringSchema ''Repository name.'' True False),
      (''number'', integerSchema ''Issue number.'' 1 0),
      (''body'', anySchema\<lparr>jsType := ''string'', jsDescription := ''Comment body in Markdown.'', jsMinLength := Some 1\<rparr>)]
     [''owner'', ''repo'', ''number'', ''body'']"

section \<open>Pull requests and code search\<close>

definition maximumPullLimitShared :: int where "maximumPullLimitShared = 100"
definition defaultDiffMaxBytes :: int where "defaultDiffMaxBytes = 262144"
definition maximumDiffMaxBytes :: int where "maximumDiffMaxBytes = 4194304"

definition listPullRequestsInputSchema :: ObjectSchema where
  "listPullRequestsInputSchema = objectSchema
     (AList.update ''limit''
       (integerSchema ''Maximum number of pull requests to return, from 1 through 100.'' defaultPullLimitShared maximumPullLimitShared)
       (noDefault ''before''
         (AList.update ''before'' (integerSchema ''Continue with PR numbers below meta.next_before; keep the same state filter.'' 1 0)
         (AList.update ''state'' (anySchema\<lparr>jsType := ''string'',
              jsDescription := ''Pull request state to list: open, closed, or all. Defaults to open.'',
              jsEnum := Some [JStr ''open'', JStr ''closed'', JStr ''all'']\<rparr>) repositoryIdentityProperties))))
     [''owner'', ''repo'']"

definition getPullRequestInputSchema :: ObjectSchema where
  "getPullRequestInputSchema = objectSchema
     (AList.update ''number'' (integerSchema ''Pull request number.'' 1 0) (bodyRangeProperties repositoryIdentityProperties))
     [''owner'', ''repo'', ''number'']"

definition getPullRequestDiffInputSchema :: ObjectSchema where
  "getPullRequestDiffInputSchema = objectSchema
     (AList.update ''max_bytes''
       (integerSchema ''Maximum rendered diff size in bytes, from 1 through 4194304.'' defaultDiffMaxBytes maximumDiffMaxBytes)
     (AList.update ''paths'' (anySchema\<lparr>jsType := ''array'',
          jsDescription := ''Restrict the rendered diff and file stats to these repository paths. A path without a trailing slash matches one file exactly; a trailing slash matches everything under that directory. The merge state always describes the whole pull request.'',
          jsItems := Some stringItem, jsMaxItems := Some 100\<rparr>)
     (AList.update ''base_ref''
       (stringSchema ''Branch to diff against. Defaults to the repository default branch, which is not guaranteed to be the pull request target.'' False False)
     (AList.update ''number'' (integerSchema ''Pull request number.'' 1 0) repositoryIdentityProperties))))
     [''owner'', ''repo'', ''number'']"

definition maximumSearchQueryLength :: int where "maximumSearchQueryLength = 1000"

definition searchCodeInputSchema :: ObjectSchema where
  "searchCodeInputSchema = objectSchema
     (AList.update ''exclude'' (anySchema\<lparr>jsType := ''array'',
          jsDescription := ''Skip paths matching any of these glob patterns, for example vendor/*.'', jsItems := Some stringItem\<rparr>)
     (AList.update ''include'' (anySchema\<lparr>jsType := ''array'',
          jsDescription := ''Only search paths matching at least one of these glob patterns, for example src/*.go or *.md. Patterns use / separators and must stay inside the repository.'',
          jsItems := Some stringItem\<rparr>)
     (AList.update ''timeout_seconds'' (anySchema\<lparr>jsType := ''integer'',
          jsDescription := ''Search time limit in seconds, from 1 through 300. Defaults to the configured server limit.'',
          jsMinimum := Some 1, jsMaximum := Some maximumSearchTimeout\<rparr>)
     (AList.update ''max_results'' (anySchema\<lparr>jsType := ''integer'',
          jsDescription := ''Maximum number of matches to return, from 1 through 500. Defaults to 50.'',
          jsDefault := Some (JNum 50), jsMinimum := Some 1, jsMaximum := Some maxResultsLimit\<rparr>)
     (AList.update ''context_lines'' (anySchema\<lparr>jsType := ''integer'',
          jsDescription := ''Context lines shown before and after each match, from 0 through 10. Defaults to 2.'',
          jsDefault := Some (JNum 2), jsMinimum := Some 0, jsMaximum := Some maxContextLines\<rparr>)
     (AList.update ''case_sensitive'' (anySchema\<lparr>jsType := ''boolean'',
          jsDescription := ''Whether the query matches case exactly. Defaults to true.'', jsDefault := Some (JBool True)\<rparr>)
     (AList.update ''mode'' (anySchema\<lparr>jsType := ''string'',
          jsDescription := ''How the query is interpreted: literal text or a regular expression. Defaults to literal.'',
          jsEnum := Some [JStr ''literal'', JStr ''regex''], jsDefault := Some (JStr ''literal'')\<rparr>)
     (AList.update ''query'' (anySchema\<lparr>jsType := ''string'',
          jsDescription := ''Text to search for: a literal string by default, or a regular expression when mode is regex.'',
          jsMinLength := Some 1, jsMaxLength := Some maximumSearchQueryLength\<rparr>) repositoryReferenceProperties))))))))
     [''owner'', ''repo'', ''query'']"

section \<open>Applying a schema\<close>

fun jsonType :: "json \<Rightarrow> string" where
  "jsonType JNull = ''null''"
| "jsonType (JBool b) = ''boolean''"
| "jsonType (JNum n) = ''integer''"
| "jsonType (JStr s) = ''string''"
| "jsonType (JArr xs) = ''array''"
| "jsonType (JObj fs) = ''object''"

definition typeOk :: "string \<Rightarrow> json \<Rightarrow> bool" where
  "typeOk wanted v \<longleftrightarrow> wanted = [] \<or> jsonType v = wanted \<or> (jsonType v = ''integer'' \<and> wanted = ''number'')"

definition validItem :: "ItemSchema \<Rightarrow> json \<Rightarrow> bool" where
  "validItem s v \<longleftrightarrow> typeOk (itType s) v
     \<and> (case (v, itMinLength s) of (JStr str, Some m) \<Rightarrow> m \<le> int (length (goRunes str)) | _ \<Rightarrow> True)"

definition validValue :: "Schema \<Rightarrow> json \<Rightarrow> bool" where
  "validValue s v \<longleftrightarrow> typeOk (jsType s) v
     \<and> (case jsEnum s of None \<Rightarrow> True | Some es \<Rightarrow> v \<in> set es)
     \<and> (case v of
          JNum n \<Rightarrow> (case jsMinimum s of None \<Rightarrow> True | Some m \<Rightarrow> m \<le> n) \<and> (case jsMaximum s of None \<Rightarrow> True | Some m \<Rightarrow> n \<le> m)
        | JStr str \<Rightarrow>
            (case jsMinLength s of None \<Rightarrow> True | Some m \<Rightarrow> m \<le> int (length (goRunes str)))
            \<and> (case jsMaxLength s of None \<Rightarrow> True | Some m \<Rightarrow> int (length (goRunes str)) \<le> m)
        | JArr xs \<Rightarrow>
            (case jsItems s of None \<Rightarrow> True | Some item \<Rightarrow> list_all (validItem item) xs)
            \<and> (case jsMaxItems s of None \<Rightarrow> True | Some m \<Rightarrow> int (length xs) \<le> m)
            \<and> (jsUniqueItems s \<longrightarrow> distinct xs)
        | _ \<Rightarrow> True)"

text \<open>The last field with a name counts.\<close>

definition present :: "(string \<times> json) list \<Rightarrow> string \<Rightarrow> json option" where
  "present fs k = map_of (rev fs) k"

definition validObject :: "ObjectSchema \<Rightarrow> (string \<times> json) list \<Rightarrow> bool" where
  "validObject os fs \<longleftrightarrow>
     list_all (\<lambda>(k, s). case present fs k of None \<Rightarrow> True | Some v \<Rightarrow> validValue s v) (osProperties os)
     \<and> list_all (\<lambda>(k, v). k \<in> set (map fst (osProperties os))) fs
     \<and> list_all (\<lambda>k. present fs k \<noteq> None) (osRequired os)"

definition ApplyDefaults :: "ObjectSchema \<Rightarrow> (string \<times> json) list \<Rightarrow> (string \<times> json) list" where
  "ApplyDefaults os fs = fs @ List.map_filter
     (\<lambda>(k, s). if k \<in> set (osRequired os) \<or> present fs k \<noteq> None then None else map_option (Pair k) (jsDefault s)) (osProperties os)"

definition applySchema :: "ObjectSchema \<Rightarrow> (string \<times> json) list \<Rightarrow> (string \<times> json) list option" where
  "applySchema os fs = (let accepted = ApplyDefaults os fs in if validObject os accepted then Some accepted else None)"

section \<open>What an accepted call looks like\<close>

lemma present_append: "present (fs @ gs) k = (case present gs k of None \<Rightarrow> present fs k | Some v \<Rightarrow> Some v)"
  by (simp add: present_def map_add_def split: option.split)

lemma present_in: "present fs k = Some v \<Longrightarrow> (k, v) \<in> set fs"
  unfolding present_def by (metis map_of_SomeD set_rev)

lemma present_None: "present fs k = None \<longleftrightarrow> k \<notin> set (map fst fs)"
  by (simp add: present_def map_of_eq_None_iff)

lemma jfield_present: "jfield (JObj fs) k = (case present fs k of None \<Rightarrow> JNull | Some v \<Rightarrow> v)"
  by (simp add: jfield_def present_def)

lemma ApplyDefaults_keeps:
  assumes "present fs k = Some v"
  shows "present (ApplyDefaults os fs) k = Some v"
proof -
  let ?added = "List.map_filter (\<lambda>(k, s). if k \<in> set (osRequired os) \<or> present fs k \<noteq> None then None
      else map_option (Pair k) (jsDefault s)) (osProperties os)"
  have "k \<notin> set (map fst ?added)"
    using assms by (auto simp: map_filter_def split: if_splits)
  then have "present ?added k = None" unfolding present_None .
  then show ?thesis using assms by (simp add: ApplyDefaults_def present_append)
qed

lemma ApplyDefaults_fills:
  assumes "(k, s) \<in> set (osProperties os)" "k \<notin> set (osRequired os)" "jsDefault s = Some d"
  shows "present (ApplyDefaults os fs) k \<noteq> None"
proof (cases "present fs k")
  case None
  then have "(k, d) \<in> set (ApplyDefaults os fs)"
    using assms by (force simp: ApplyDefaults_def map_filter_def)
  then show ?thesis unfolding present_None by force
qed (simp add: ApplyDefaults_keeps)

text \<open>A property of an accepted call is valid when it is there, and there when it is required or has a default.\<close>

lemma applySchema_property:
  assumes "applySchema os fs = Some accepted" "(k, s) \<in> set (osProperties os)"
  shows "present accepted k = Some v \<Longrightarrow> validValue s v"
    "k \<in> set (osRequired os) \<or> jsDefault s \<noteq> None \<Longrightarrow> present accepted k \<noteq> None"
proof -
  have f: "accepted = ApplyDefaults os fs" "validObject os accepted"
    using assms(1) by (auto simp: applySchema_def Let_def split: if_splits)
  show "validValue s v" if "present accepted k = Some v"
    using f(2) assms(2) that by (force simp: validObject_def list_all_iff)
  show "present accepted k \<noteq> None" if "k \<in> set (osRequired os) \<or> jsDefault s \<noteq> None"
  proof (cases "k \<in> set (osRequired os)")
    case True
    then show ?thesis using f(2) by (simp add: validObject_def list_all_iff)
  next
    case False
    with that obtain d where "jsDefault s = Some d" by auto
    with False show ?thesis using ApplyDefaults_fills [OF assms(2)] f(1) by blast
  qed
qed

lemma integer_property:
  assumes "applySchema os fs = Some accepted" "(k, s) \<in> set (osProperties os)" "jsType s = ''integer''"
    and "decInt (jfield (JObj accepted) k) = Some n"
  shows "present accepted k \<noteq> None \<Longrightarrow> jsMinimum s = Some m \<Longrightarrow> m \<le> n" "jsMaximum s = Some M \<Longrightarrow> n \<le> max 0 M"
    "present accepted k = None \<Longrightarrow> n = 0"
proof -
  have n: "n = 0 \<and> present accepted k = None \<or> present accepted k = Some (JNum n)"
  proof (cases "present accepted k")
    case (Some v)
    then have "validValue s v" using applySchema_property(1) [OF assms(1,2)] by blast
    then have "jsonType v = ''integer''" using assms(3) by (auto simp: validValue_def typeOk_def)
    then show ?thesis using Some assms(4) by (cases v) (auto simp: jfield_present decInt_def split: if_splits)
  qed (use assms(4) in \<open>simp add: jfield_present decInt_def\<close>)
  show "m \<le> n" if "present accepted k \<noteq> None" "jsMinimum s = Some m"
    using n that applySchema_property(1) [OF assms(1,2)] by (auto simp: validValue_def)
  show "n \<le> max 0 M" if "jsMaximum s = Some M"
    using n that applySchema_property(1) [OF assms(1,2)] by (force simp: validValue_def)
  show "n = 0" if "present accepted k = None" using n that by auto
qed

text \<open>An integer property that is required or has a default decodes to a number within its bounds.\<close>

lemma integer_bounds:
  assumes "applySchema os fs = Some accepted" "(k, integerSchema description d M) \<in> set (osProperties os)"
    and "decInt (jfield (JObj accepted) k) = Some n"
  shows "1 \<le> n" "M > 0 \<Longrightarrow> n \<le> M"
proof -
  let ?s = "integerSchema description d M"
  have s: "jsType ?s = ''integer''" "jsMinimum ?s = Some 1" "jsDefault ?s \<noteq> None" "M > 0 \<Longrightarrow> jsMaximum ?s = Some M"
    by (simp_all add: integerSchema_def Let_def)
  show "1 \<le> n"
    using integer_property(1) [OF assms(1,2) s(1) assms(3) _ s(2)] applySchema_property(2) [OF assms(1,2)] s(3) by blast
  show "n \<le> M" if "M > 0" using integer_property(2) [OF assms(1,2) s(1) assms(3) s(4)] that by simp
qed

lemma string_nonempty:
  assumes "applySchema os fs = Some accepted" "(k, s) \<in> set (osProperties os)" "jsType s = ''string''" "jsMinLength s = Some m" "1 \<le> m"
    and "k \<in> set (osRequired os)" "decStr (jfield (JObj accepted) k) = Some str"
  shows "str \<noteq> []"
proof -
  obtain v where v: "present accepted k = Some v" using applySchema_property(2) [OF assms(1,2)] assms(6) by blast
  then have ok: "validValue s v" using applySchema_property(1) [OF assms(1,2)] by blast
  then have "jsonType v = ''string''" using assms(3) by (auto simp: validValue_def typeOk_def)
  then have str: "v = JStr str" using v assms(7) by (cases v) (auto simp: jfield_present decStr_def)
  then have "1 \<le> int (length (goRunes str))" using ok assms(4,5) by (simp add: validValue_def)
  then show ?thesis by (auto simp: goRunes.simps)
qed

end
