(* ===== verification/ToolServer.thy ===== *)
theory ToolServer
  imports ToolSchema
begin

text \<open>
  internal/mcpserver/server.go and the registrations of the other files: the server holds a list of tools, each
  with its annotations, its input schema and its handler. A call finds the tool, applies the schema to the
  arguments, decodes them into the input of the handler, runs it on the state of the server and serves the answer
  through the output budget. What the libraries do around a handler is \<open>AddTool\<close> (schema, decoding) and
  \<open>callTool\<close> (lookup, middleware).
\<close>

section \<open>The state of a server\<close>

record serverState =
  stClient :: clientState
  stEngine :: "PullEngine option"
  stIdentity :: "int option"
  stCache :: fnode

record serverWorld =
  svHTTP :: httpWorld
  svTokens :: metaTokens
  svLower :: "string \<Rightarrow> string"
  svSince :: "string \<Rightarrow> bool"
  svPulls :: pullsWorld
  svCode :: codeWorld

type_synonym 'a serverIO = "(serverState, goerr, 'a) io"

definition onAPI :: "'a clientIO \<Rightarrow> 'a serverIO" where
  "onAPI m s = (case m (stClient s) of (r, t) \<Rightarrow> (r, s\<lparr>stClient := t\<rparr>))"

definition onPulls :: "'a pullsIO \<Rightarrow> 'a serverIO" where
  "onPulls m s = (case m \<lparr>plClient = stClient s, plEngine = stEngine s\<rparr> of
     (r, t) \<Rightarrow> (r, s\<lparr>stClient := plClient t, stEngine := plEngine t\<rparr>))"

definition onSearch :: "'a searchIO \<Rightarrow> 'a serverIO" where
  "onSearch m s = (case m \<lparr>ssClient = stClient s, ssIdentity = stIdentity s, ssCache = stCache s\<rparr> of
     (r, t) \<Rightarrow> (r, s\<lparr>stClient := ssClient t, stIdentity := ssIdentity t, stCache := ssCache t\<rparr>))"

section \<open>Inputs\<close>

text \<open>Decoding the arguments of a call into the input struct of its handler, given to a continuation.\<close>

definition decRepoArgs :: "json \<Rightarrow> (string \<times> string) option" where
  "decRepoArgs j = do {
     owner \<leftarrow> decStr (jfield j ''owner''); repo \<leftarrow> decStr (jfield j ''repo''); Some (owner, repo) }"

definition decPageArgs :: "json \<Rightarrow> (int \<times> int) option" where
  "decPageArgs j = do { page \<leftarrow> decInt (jfield j ''page''); perPage \<leftarrow> decInt (jfield j ''per_page''); Some (page, perPage) }"

definition decSearchRepositories :: "json \<Rightarrow> (string \<times> int \<times> int) option" where
  "decSearchRepositories j = do {
     query \<leftarrow> decStr (jfield j ''query''); (page, perPage) \<leftarrow> decPageArgs j; Some (query, page, perPage) }"

definition decListDirectory :: "json \<Rightarrow> (string \<times> string \<times> string \<times> string \<times> int \<times> int) option" where
  "decListDirectory j = do {
     (owner, repo) \<leftarrow> decRepoArgs j; path \<leftarrow> decStr (jfield j ''path''); ref \<leftarrow> decStr (jfield j ''ref'');
     (page, perPage) \<leftarrow> decPageArgs j; Some (owner, repo, path, ref, page, perPage) }"

definition decGetFile :: "json \<Rightarrow> (string \<times> string \<times> string \<times> string \<times> int \<times> int) option" where
  "decGetFile j = do {
     (owner, repo) \<leftarrow> decRepoArgs j; path \<leftarrow> decStr (jfield j ''path''); ref \<leftarrow> decStr (jfield j ''ref'');
     startLine \<leftarrow> decInt (jfield j ''start_line''); lineCount \<leftarrow> decInt (jfield j ''line_count'');
     Some (owner, repo, path, ref, startLine, lineCount) }"

definition decListBranches :: "json \<Rightarrow> (string \<times> string \<times> int \<times> int) option" where
  "decListBranches j = do {
     (owner, repo) \<leftarrow> decRepoArgs j; (page, perPage) \<leftarrow> decPageArgs j; Some (owner, repo, page, perPage) }"

definition decGetBranch :: "json \<Rightarrow> (string \<times> string \<times> string) option" where
  "decGetBranch j = do {
     (owner, repo) \<leftarrow> decRepoArgs j; branch \<leftarrow> decStr (jfield j ''branch''); Some (owner, repo, branch) }"

definition decListCommits :: "json \<Rightarrow> (string \<times> string \<times> int) option" where
  "decListCommits j = do {
     (owner, repo) \<leftarrow> decRepoArgs j; limit \<leftarrow> decInt (jfield j ''limit''); Some (owner, repo, limit) }"

definition decGetCommit :: "json \<Rightarrow> (string \<times> string \<times> string) option" where
  "decGetCommit j = do {
     (owner, repo) \<leftarrow> decRepoArgs j; sha \<leftarrow> decStr (jfield j ''sha''); Some (owner, repo, sha) }"

definition decListPullRequests :: "json \<Rightarrow> (string \<times> string \<times> string \<times> int \<times> int) option" where
  "decListPullRequests j = do {
     (owner, repo) \<leftarrow> decRepoArgs j; state \<leftarrow> decStr (jfield j ''state''); limit \<leftarrow> decInt (jfield j ''limit'');
     before \<leftarrow> decInt (jfield j ''before''); Some (owner, repo, state, limit, before) }"

text \<open>The inputs of \<open>get_issue\<close> and \<open>get_pull_request\<close>.\<close>

definition decGetBody :: "json \<Rightarrow> (string \<times> string \<times> int \<times> int \<times> int) option" where
  "decGetBody j = do {
     (owner, repo) \<leftarrow> decRepoArgs j; number \<leftarrow> decInt (jfield j ''number'');
     bodyOffset \<leftarrow> decInt (jfield j ''body_offset''); bodyMaxBytes \<leftarrow> decInt (jfield j ''body_max_bytes'');
     Some (owner, repo, number, bodyOffset, bodyMaxBytes) }"

definition decGetPullRequestDiff :: "json \<Rightarrow> (string \<times> string \<times> int \<times> string \<times> string list \<times> int) option" where
  "decGetPullRequestDiff j = do {
     (owner, repo) \<leftarrow> decRepoArgs j; number \<leftarrow> decInt (jfield j ''number''); baseRef \<leftarrow> decStr (jfield j ''base_ref'');
     paths \<leftarrow> decList decStr (jfield j ''paths''); maxBytes \<leftarrow> decInt (jfield j ''max_bytes'');
     Some (owner, repo, number, baseRef, paths, maxBytes) }"

definition decSearchCode :: "json \<Rightarrow> searchCodeInput option" where
  "decSearchCode j = do {
     (owner, repo) \<leftarrow> decRepoArgs j; query \<leftarrow> decStr (jfield j ''query''); ref \<leftarrow> decStr (jfield j ''ref'');
     mode \<leftarrow> decStr (jfield j ''mode''); caseSensitive \<leftarrow> decPtr decBool (jfield j ''case_sensitive'');
     contextLines \<leftarrow> decPtr decInt (jfield j ''context_lines''); maxResults \<leftarrow> decInt (jfield j ''max_results'');
     include \<leftarrow> decList decStr (jfield j ''include''); exclude \<leftarrow> decList decStr (jfield j ''exclude'');
     timeoutSeconds \<leftarrow> decInt (jfield j ''timeout_seconds'');
     Some \<lparr>scOwner = owner, scRepo = repo, scQuery = query, scRef = ref, scMode = mode, scCaseSensitive = caseSensitive,
       scContextLines = contextLines, scMaxResults = maxResults, scInclude = include, scExclude = exclude,
       scTimeoutSeconds = timeoutSeconds\<rparr> }"

definition decListIssues :: "json \<Rightarrow> (string \<times> string \<times> string \<times> int) option" where
  "decListIssues j = do {
     (owner, repo) \<leftarrow> decRepoArgs j; state \<leftarrow> decStr (jfield j ''state''); page \<leftarrow> decInt (jfield j ''page'');
     Some (owner, repo, state, page) }"

definition decListIssueComments :: "json \<Rightarrow> listIssueCommentsInput option" where
  "decListIssueComments j = do {
     afterID \<leftarrow> decInt (jfield j ''after_id''); commentID \<leftarrow> decInt (jfield j ''comment_id'');
     (owner, repo, number, bodyOffset, bodyMaxBytes) \<leftarrow> decGetBody j;
     since \<leftarrow> decStr (jfield j ''since''); maxComments \<leftarrow> decInt (jfield j ''max_comments'');
     Some \<lparr>lcAfterID = afterID, lcCommentID = commentID, lcBodyOffset = bodyOffset, lcBodyMaxBytes = bodyMaxBytes,
       lcOwner = owner, lcRepo = repo, lcNumber = number, lcSince = since, lcMaxComments = maxComments\<rparr> }"

definition decCreateIssue :: "json \<Rightarrow> createIssueInput option" where
  "decCreateIssue j = do {
     (owner, repo) \<leftarrow> decRepoArgs j; title \<leftarrow> decStr (jfield j ''title''); body \<leftarrow> decStr (jfield j ''body'');
     assignee \<leftarrow> decStr (jfield j ''assignee''); labels \<leftarrow> decList decStr (jfield j ''labels'');
     milestone \<leftarrow> decStr (jfield j ''milestone'');
     Some \<lparr>ciOwner = owner, ciRepo = repo, ciTitle = title, ciBody = body, ciAssignee = assignee, ciLabels = labels,
       ciMilestone = milestone\<rparr> }"

definition decUpdateIssue :: "json \<Rightarrow> updateIssueInput option" where
  "decUpdateIssue j = do {
     (owner, repo) \<leftarrow> decRepoArgs j; number \<leftarrow> decInt (jfield j ''number''); title \<leftarrow> decPtr decStr (jfield j ''title'');
     body \<leftarrow> decPtr decStr (jfield j ''body''); assignee \<leftarrow> decPtr decStr (jfield j ''assignee'');
     milestone \<leftarrow> decPtr decStr (jfield j ''milestone''); state \<leftarrow> decStr (jfield j ''state'');
     Some \<lparr>uiOwner = owner, uiRepo = repo, uiNumber = number, uiTitle = title, uiBody = body, uiAssignee = assignee,
       uiMilestone = milestone, uiState = state\<rparr> }"

definition decCreateIssueComment :: "json \<Rightarrow> (string \<times> string \<times> int \<times> string) option" where
  "decCreateIssueComment j = do {
     (owner, repo) \<leftarrow> decRepoArgs j; number \<leftarrow> decInt (jfield j ''number''); body \<leftarrow> decStr (jfield j ''body'');
     Some (owner, repo, number, body) }"

section \<open>Tools\<close>

record ToolAnnotations =
  anTitle :: string
  anReadOnlyHint :: bool
  anIdempotentHint :: bool
  anDestructiveHint :: bool
  anOpenWorldHint :: bool

definition readOnlyAnnotations :: "string \<Rightarrow> ToolAnnotations" where
  "readOnlyAnnotations title = \<lparr>anTitle = title, anReadOnlyHint = True, anIdempotentHint = True, anDestructiveHint = False,
     anOpenWorldHint = True\<rparr>"

definition writeAnnotations :: "string \<Rightarrow> bool \<Rightarrow> ToolAnnotations" where
  "writeAnnotations title destructive = \<lparr>anTitle = title, anReadOnlyHint = False, anIdempotentHint = False,
     anDestructiveHint = destructive, anOpenWorldHint = True\<rparr>"

text \<open>A handler as the library keeps it: it takes the identifier of the request and the arguments. Arguments that
  the schema or the input struct refuse give a result without structured content, and the handler does not run.\<close>

type_synonym toolHandler = "string \<Rightarrow> (string \<times> json) list \<Rightarrow> serverState \<Rightarrow> handlerResult \<times> serverState"

record ToolEntry =
  toName :: string
  toAnnotations :: ToolAnnotations
  toSchema :: ObjectSchema
  toHandler :: toolHandler

definition toolForErr :: "ObjectSchema \<Rightarrow> (json \<Rightarrow> 'i option) \<Rightarrow> ('a \<Rightarrow> json) \<Rightarrow> (string \<Rightarrow> 'i \<Rightarrow> 'a toolResult serverIO) \<Rightarrow> toolHandler" where
  "toolForErr schema dec enc handler requestID args s =
     (case Option.bind (applySchema schema args) (\<lambda>accepted. dec (JObj accepted)) of
        None \<Rightarrow> (Unstructured, s)
      | Some input \<Rightarrow>
          (case handler requestID input s of
             (Inl err, s) \<Rightarrow> (Unstructured, s)
           | (Inr (isError, response), s) \<Rightarrow> (Structured isError (encResponse enc response), s)))"

definition AddTool :: "string \<Rightarrow> ToolAnnotations \<Rightarrow> ObjectSchema \<Rightarrow> (json \<Rightarrow> 'i option) \<Rightarrow> ('a \<Rightarrow> json) \<Rightarrow>
    (string \<Rightarrow> 'i \<Rightarrow> 'a toolResult serverIO) \<Rightarrow> ToolEntry" where
  "AddTool name annotations schema dec enc handler =
     \<lparr>toName = name, toAnnotations = annotations, toSchema = schema, toHandler = toolForErr schema dec enc handler\<rparr>"

definition userTool :: "serverWorld \<Rightarrow> Client \<Rightarrow> ToolEntry" where
  "userTool w c =
     AddTool ''get_authenticated_user'' (readOnlyAnnotations ''Get authenticated user'') emptyInputSchema (\<lambda>j. Some ()) encUser
       (\<lambda>requestID _. onAPI (getAuthenticatedUserTool (svHTTP w) c requestID))"

definition registerRepositoryTools :: "serverWorld \<Rightarrow> Client \<Rightarrow> ToolEntry list" where
  "registerRepositoryTools w c =
     [AddTool ''list_repositories'' (readOnlyAnnotations ''List repositories'') paginationInputSchema decPageArgs encRepositoryPage
        (\<lambda>requestID (page, perPage). onAPI (listRepositoriesTool (svHTTP w) c requestID page perPage)),
      AddTool ''search_repositories'' (readOnlyAnnotations ''Search repositories'') searchRepositoriesInputSchema
        decSearchRepositories encRepositoryPage
        (\<lambda>requestID (query, page, perPage). onAPI (searchRepositoriesTool (svLower w) (svHTTP w) c requestID query page perPage)),
      AddTool ''get_repository'' (readOnlyAnnotations ''Get repository'') getRepositoryInputSchema decRepoArgs encRepository
        (\<lambda>requestID (owner, repo). onAPI (getRepositoryTool (svHTTP w) c requestID owner repo))]"

definition registerContentTools :: "serverWorld \<Rightarrow> Client \<Rightarrow> ToolEntry list" where
  "registerContentTools w c =
     [AddTool ''list_directory'' (readOnlyAnnotations ''List directory'') listDirectoryInputSchema decListDirectory encDirectoryPage
        (\<lambda>requestID (owner, repo, path, ref, page, perPage).
           onAPI (listDirectoryTool (svHTTP w) (svTokens w) c requestID owner repo path ref page perPage)),
      AddTool ''get_file'' (readOnlyAnnotations ''Get file'') getFileInputSchema decGetFile encFile
        (\<lambda>requestID (owner, repo, path, ref, startLine, lineCount).
           onAPI (getFileTool (svHTTP w) (svTokens w) c requestID owner repo path ref startLine lineCount))]"

definition registerGitTools :: "serverWorld \<Rightarrow> Client \<Rightarrow> ToolEntry list" where
  "registerGitTools w c =
     [AddTool ''list_branches'' (readOnlyAnnotations ''List branches'') listBranchesInputSchema decListBranches encBranchPage
        (\<lambda>requestID (owner, repo, page, perPage). onAPI (listBranchesTool (svHTTP w) c requestID owner repo page perPage)),
      AddTool ''get_branch'' (readOnlyAnnotations ''Get branch'') getBranchInputSchema decGetBranch encBranch
        (\<lambda>requestID (owner, repo, branch). onAPI (getBranchTool (svHTTP w) c requestID owner repo branch)),
      AddTool ''list_commits'' (readOnlyAnnotations ''List commits'') listCommitsInputSchema decListCommits encCommitPage
        (\<lambda>requestID (owner, repo, limit). onAPI (listCommitsTool (svHTTP w) c requestID owner repo limit)),
      AddTool ''get_commit'' (readOnlyAnnotations ''Get commit'') getCommitInputSchema decGetCommit encCommit
        (\<lambda>requestID (owner, repo, sha). onAPI (getCommitTool (svHTTP w) c requestID owner repo sha))]"

definition registerPullTools :: "serverWorld \<Rightarrow> Client \<Rightarrow> ToolEntry list" where
  "registerPullTools w c =
     [AddTool ''list_pull_requests'' (readOnlyAnnotations ''List pull requests'') listPullRequestsInputSchema
        decListPullRequests encPullPage
        (\<lambda>requestID (owner, repo, state, limit, before).
           onPulls (listPullRequestsTool (svPulls w) c requestID owner repo state limit before)),
      AddTool ''get_pull_request'' (readOnlyAnnotations ''Get pull request'') getPullRequestInputSchema decGetBody encPull
        (\<lambda>requestID (owner, repo, number, bodyOffset, bodyMaxBytes).
           onPulls (getPullRequestTool (svPulls w) c requestID owner repo number bodyOffset bodyMaxBytes)),
      AddTool ''get_pull_request_diff'' (readOnlyAnnotations ''Get pull request diff'') getPullRequestDiffInputSchema
        decGetPullRequestDiff encDiffPage
        (\<lambda>requestID (owner, repo, number, baseRef, paths, maxBytes).
           onPulls (getPullRequestDiffTool (svPulls w) c requestID owner repo number baseRef paths maxBytes))]"

definition registerSearchTools :: "serverWorld \<Rightarrow> Client \<Rightarrow> SearchDefaults \<Rightarrow> ToolEntry list" where
  "registerSearchTools w c defaults =
     [AddTool ''search_code'' (readOnlyAnnotations ''Search code'') searchCodeInputSchema decSearchCode encSearchPage
        (\<lambda>requestID input. onSearch (searchCodeTool (svCode w) c defaults requestID input))]"

definition issueWriteTools :: "serverWorld \<Rightarrow> Client \<Rightarrow> ToolEntry list" where
  "issueWriteTools w c =
     [AddTool ''create_issue'' (writeAnnotations ''Create issue'' False) createIssueInputSchema decCreateIssue encIssue
        (\<lambda>requestID input. onAPI (createIssueTool (svHTTP w) c requestID input)),
      AddTool ''update_issue'' (writeAnnotations ''Update issue'' True) updateIssueInputSchema decUpdateIssue encIssue
        (\<lambda>requestID input. onAPI (updateIssueTool (svHTTP w) c requestID input)),
      AddTool ''create_issue_comment'' (writeAnnotations ''Create issue comment'' False) createIssueCommentInputSchema
        decCreateIssueComment encIssueComment
        (\<lambda>requestID (owner, repo, number, body). onAPI (createIssueCommentTool (svHTTP w) c requestID owner repo number body))]"

definition registerIssueTools :: "serverWorld \<Rightarrow> Client \<Rightarrow> bool \<Rightarrow> ToolEntry list" where
  "registerIssueTools w c writeEnabled =
     [AddTool ''list_issues'' (readOnlyAnnotations ''List issues'') listIssuesInputSchema decListIssues encIssuePage
        (\<lambda>requestID (owner, repo, state, page). onAPI (listIssuesTool (svHTTP w) c requestID owner repo state page)),
      AddTool ''get_issue'' (readOnlyAnnotations ''Get issue'') getIssueInputSchema decGetBody encIssue
        (\<lambda>requestID (owner, repo, number, bodyOffset, bodyMaxBytes).
           onAPI (getIssueTool (svHTTP w) c requestID owner repo number bodyOffset bodyMaxBytes)),
      AddTool ''list_issue_comments'' (readOnlyAnnotations ''List issue comments'') listIssueCommentsInputSchema
        decListIssueComments encIssueCommentPage
        (\<lambda>requestID input. onAPI (listIssueCommentsTool (svSince w) (svHTTP w) c requestID input))]
     @ (if \<not> writeEnabled then [] else issueWriteTools w c)"

definition NewServer :: "serverWorld \<Rightarrow> Client \<Rightarrow> SearchDefaults \<Rightarrow> bool \<Rightarrow> ToolEntry list" where
  "NewServer w c defaults writeEnabled =
     [userTool w c] @ registerRepositoryTools w c @ registerContentTools w c @ registerGitTools w c @ registerPullTools w c
     @ registerSearchTools w c defaults @ registerIssueTools w c writeEnabled"

text \<open>A \<open>tools/call\<close> request under the middleware: \<open>admission\<close> is the end of the wait for a slot.\<close>

definition unknownTool :: goerr where
  "unknownTool = [MsgErr ''unknown tool'']"

definition callTool :: "ToolEntry list \<Rightarrow> goerr option \<Rightarrow> string \<Rightarrow> string \<Rightarrow> (string \<times> json) list \<Rightarrow> serverState \<Rightarrow>
    handlerResult \<times> serverState" where
  "callTool tools admission requestID name args s =
     (case admission of Some err \<Rightarrow> (HandlerError err, s)
      | None \<Rightarrow>
          (case List.find (\<lambda>tool. toName tool = name) tools of
             None \<Rightarrow> (HandlerError unknownTool, s)
           | Some tool \<Rightarrow> (case toHandler tool requestID args s of
               (handled, s) \<Rightarrow> (toolBudget ''tools/call'' None handled, s))))"

section \<open>What a call sends\<close>

definition clientReads :: "Client \<Rightarrow> clientState \<Rightarrow> clientState \<Rightarrow> bool" where
  "clientReads c s t \<longleftrightarrow> (\<exists>new. sent t = sent s @ new \<and> list_all (isRead c) new)"

lemma clientReads_trans: "clientReads c s t \<Longrightarrow> clientReads c t u \<Longrightarrow> clientReads c s u"
  by (auto simp: clientReads_def)

named_theorems reads

lemma clientReads_sends: "sends (isRead c) n m \<Longrightarrow> keeps (clientReads c) m"
  unfolding keeps_def sends_def clientReads_def by blast

lemmas clientReads_pure [reads] = sends_pure [THEN clientReads_sends]

lemma clientReads_bindM [reads]:
  "keeps (clientReads c) m \<Longrightarrow> (\<And>x. keeps (clientReads c) (f x)) \<Longrightarrow> keeps (clientReads c) (bindM m f)"
  by (rule keeps_bindM) (auto intro: clientReads_trans simp: clientReads_def)

lemma clientReads_onResult [reads]:
  "keeps (clientReads c) m \<Longrightarrow> (\<And>x. keeps (clientReads c) (f x)) \<Longrightarrow> keeps (clientReads c) (onResult m f)"
  by (rule keeps_onResult) (auto intro: clientReads_trans simp: clientReads_def)

lemma clientReads_runTool [reads]: "keeps (clientReads c) m \<Longrightarrow> keeps (clientReads c) (runTool requestID m respond)"
  unfolding runTool_def by (auto intro!: reads split: sum.split)

lemmas clientReads_get [reads] =
  sends_getJSON [where P = "isRead c" for c, OF isRead_get, THEN clientReads_sends] sends_getJSONWithQuery [where P = "isRead c" for c, OF isRead_get, THEN clientReads_sends]
  sends_getJSONWithHeaders [where P = "isRead c" for c, OF isRead_get, THEN clientReads_sends]

lemmas clientReads_refs [reads] =
  sends_GetRepository [where P = "isRead c" for c, OF isRead_get, THEN clientReads_sends] sends_GetBranch [where P = "isRead c" for c, OF isRead_get, THEN clientReads_sends]
  sends_GetCommit [where P = "isRead c" for c, OF isRead_get, THEN clientReads_sends] sends_ResolveCommitSHA [THEN clientReads_sends]
  sends_resolveContentRef [THEN clientReads_sends] sends_treeAt [THEN clientReads_sends]
  sends_contentEntries [THEN clientReads_sends] sends_contentPrefix [THEN clientReads_sends]
  sends_GetAuthenticatedUser [THEN clientReads_sends] sends_GetIssue [THEN clientReads_sends]

lemma reads_apiTools [reads]:
  "keeps (clientReads c) (getAuthenticatedUserTool w c requestID)"
  "keeps (clientReads c) (listRepositoriesTool w c requestID page perPage)"
  "keeps (clientReads c) (searchRepositoriesTool lower w c requestID query page perPage)"
  "keeps (clientReads c) (getRepositoryTool w c requestID owner repo)"
  "keeps (clientReads c) (listBranchesTool w c requestID owner repo page perPage)"
  "keeps (clientReads c) (getBranchTool w c requestID owner repo branch)"
  "keeps (clientReads c) (listCommitsTool w c requestID owner repo limit)"
  "keeps (clientReads c) (getCommitTool w c requestID owner repo sha)"
  "keeps (clientReads c) (listIssuesTool w c requestID owner repo state page)"
  "keeps (clientReads c) (getIssueTool w c requestID owner repo number bodyOffset bodyMaxBytes)"
  "keeps (clientReads c) (listIssueCommentsTool validSince w c requestID input)"
  unfolding getAuthenticatedUserTool_def listRepositoriesTool_def searchRepositoriesTool_def getRepositoryTool_def
    listBranchesTool_def getBranchTool_def listCommitsTool_def getCommitTool_def listIssuesTool_def getIssueTool_def
    listIssueCommentsTool_def ListRepositories_def ListBranches_def ListCommits_def ListIssues_def ListIssueComments_def Let_def
  by (auto intro!: reads split: sum.split)

lemma reads_contentTools [reads]:
  "keeps (clientReads c) (listDirectoryTool w tokens c requestID owner repo path ref page perPage)"
  "keeps (clientReads c) (getFileTool w tokens c requestID owner repo path ref startLine lineCount)"
  unfolding listDirectoryTool_def getFileTool_def ListDirectoryPage_def GetFile_def directoryTree_def getContent_def
  by (auto intro!: reads split: sum.split option.split)

definition serverReads :: "Client \<Rightarrow> serverState \<Rightarrow> serverState \<Rightarrow> bool" where
  "serverReads c s t \<longleftrightarrow> clientReads c (stClient s) (stClient t)"

lemma reads_onAPI [reads]: "keeps (clientReads c) m \<Longrightarrow> keeps (serverReads c) (onAPI m)"
  unfolding keeps_def onAPI_def serverReads_def by (metis (no_types, lifting) case_prod_unfold serverState.select_convs(1)
      serverState.surjective serverState.update_convs(1) snd_conv)

lemma reads_onPulls [reads]:
  assumes "keeps (pullReads c) m"
  shows "keeps (serverReads c) (onPulls m)"
  unfolding keeps_def
proof
  fix s :: serverState
  obtain r t where m: "m \<lparr>plClient = stClient s, plEngine = stEngine s\<rparr> = (r, t)"
    by (cases "m \<lparr>plClient = stClient s, plEngine = stEngine s\<rparr>")
  with pullReadsD [OF assms, of "\<lparr>plClient = stClient s, plEngine = stEngine s\<rparr>"]
  show "serverReads c s (snd (onPulls m s))" by (simp add: onPulls_def pullReads_def serverReads_def clientReads_def)
qed

lemma reads_onSearch [reads]:
  assumes "keeps (searchReads c) m"
  shows "keeps (serverReads c) (onSearch m)"
  unfolding keeps_def
proof
  fix s :: serverState
  let ?s = "\<lparr>ssClient = stClient s, ssIdentity = stIdentity s, ssCache = stCache s\<rparr>"
  obtain r t where m: "m ?s = (r, t)" by (cases "m ?s")
  then have "searchReads c ?s t" using assms unfolding keeps_def by (metis snd_conv)
  with m show "serverReads c s (snd (onSearch m s))"
    by (simp add: onSearch_def searchReads_def serverReads_def clientReads_def)
qed

text \<open>What holds between the states before and after every run of a handler.\<close>

definition handles :: "(serverState \<Rightarrow> serverState \<Rightarrow> bool) \<Rightarrow> toolHandler \<Rightarrow> bool" where
  "handles R h \<longleftrightarrow> (\<forall>requestID args s. R s (snd (h requestID args s)))"

lemma handles_AddTool [reads]:
  assumes "\<And>requestID input. keeps R (handler requestID input)" "\<And>s. R s s"
  shows "handles R (toHandler (AddTool name annotations schema dec enc handler))"
  unfolding handles_def
proof (intro allI)
  fix requestID args s
  show "R s (snd (toHandler (AddTool name annotations schema dec enc handler) requestID args s))"
  proof (cases "Option.bind (applySchema schema args) (\<lambda>accepted. dec (JObj accepted))")
    case (Some input)
    obtain r t where run: "handler requestID input s = (r, t)" by (cases "handler requestID input s")
    then have "R s t" using assms(1) unfolding keeps_def by (metis snd_conv)
    with Some run show ?thesis by (auto simp: AddTool_def toolForErr_def split: sum.split)
  qed (simp add: AddTool_def toolForErr_def assms(2))
qed

lemma serverReads_refl [simp]: "serverReads c s s"
  by (simp add: serverReads_def clientReads_def)

text \<open>The tools that are registered without the write option.\<close>

definition readTools :: "serverWorld \<Rightarrow> Client \<Rightarrow> SearchDefaults \<Rightarrow> ToolEntry list" where
  "readTools w c defaults = NewServer w c defaults False"

lemma NewServer_split: "NewServer w c defaults writeEnabled
    = readTools w c defaults @ (if writeEnabled then issueWriteTools w c else [])"
  by (simp add: readTools_def NewServer_def registerIssueTools_def)

lemmas registerDefs = userTool_def registerRepositoryTools_def registerContentTools_def registerGitTools_def
  registerPullTools_def registerSearchTools_def registerIssueTools_def

lemma readTools_read:
  "list_all (\<lambda>tool. handles (serverReads c) (toHandler tool)) (readTools w c defaults)"
  unfolding readTools_def NewServer_def registerDefs
  by (auto intro!: reads reads_pullTools reads_searchCode split: prod.split)

lemma toName_AddTool [simp]: "toName (AddTool name annotations schema dec enc handler) = name"
  "toAnnotations (AddTool name annotations schema dec enc handler) = annotations"
  "toSchema (AddTool name annotations schema dec enc handler) = schema"
  by (simp_all add: AddTool_def)

text \<open>Every request of a write tool but the last is a read, and all carry the token of the user.\<close>

definition writesOnce :: "Client \<Rightarrow> serverState \<Rightarrow> serverState \<Rightarrow> bool" where
  "writesOnce c s t \<longleftrightarrow> (\<exists>reads writes. sent (stClient t) = sent (stClient s) @ reads @ writes
     \<and> list_all (isRead c) reads \<and> length writes \<le> 1 \<and> list_all (\<lambda>q. rqToken q = token c) writes)"

lemma writesOnce_refl [simp]: "writesOnce c s s"
  unfolding writesOnce_def by (rule exI [of _ "[]"], rule exI [of _ "[]"]) simp

lemma writesOnce_onAPI:
  assumes "\<And>st. \<exists>reads writes. sent (snd (m st)) = sent st @ reads @ writes
     \<and> list_all (isRead c) reads \<and> length writes \<le> 1 \<and> list_all (\<lambda>q. rqToken q = token c) writes"
  shows "keeps (writesOnce c) (onAPI m)"
  unfolding keeps_def
proof
  fix s :: serverState
  show "writesOnce c s (snd (onAPI m s))"
    using assms [of "stClient s"] unfolding writesOnce_def onAPI_def by (cases "m (stClient s)") simp
qed

lemma resolved_writesOnce:
  assumes "sends (isRead c) n resolve" "\<And>options t. sent (snd (act options t)) = sent t @ [req options]"
    and "\<And>options. rqToken (req options) = token c"
  shows "keeps (writesOnce c) (onAPI (runTool requestID (bindM resolve act) respond))"
proof (rule writesOnce_onAPI)
  fix st
  obtain r st' where run: "runTool requestID (bindM resolve act) respond st = (r, st')"
    by (cases "runTool requestID (bindM resolve act) respond st")
  from resolved_write [OF assms(1,2) run] obtain reads writes where
    w: "sent st' = sent st @ reads @ writes" "list_all (isRead c) reads"
    "writes = [] \<or> (\<exists>options. writes = [req options])" by (elim exE conjE) (erule disjE, blast+)
  then show "\<exists>reads writes. sent (snd (runTool requestID (bindM resolve act) respond st)) = sent st @ reads @ writes
     \<and> list_all (isRead c) reads \<and> length writes \<le> 1 \<and> list_all (\<lambda>q. rqToken q = token c) writes"
    using run assms(3) by (intro exI [of _ reads] exI [of _ writes]) auto
qed

lemma comment_writesOnce:
  "keeps (writesOnce c) (onAPI (createIssueCommentTool w c requestID owner repo number body))"
proof (rule writesOnce_onAPI)
  fix st
  let ?q = "mkRequest c ''POST'' [] (JObj [(''body'', JStr body)]) [''repos'', owner, repo, ''issues'', formatInt number, ''comments'']"
  have "sent (snd (CreateIssueComment w c owner repo number body st)) = sent st @ [?q]" for st
    by (simp add: CreateIssueComment_def bindM_ret_state postJSON_def writeJSON_sent)
  then have "sent (snd (createIssueCommentTool w c requestID owner repo number body st)) = sent st
      \<or> sent (snd (createIssueCommentTool w c requestID owner repo number body st)) = sent st @ [?q]"
    by (auto simp: createIssueCommentTool_def runTool_def onResult_def split: sum.split prod.split) (metis snd_conv)+
  then show "\<exists>reads writes. sent (snd (createIssueCommentTool w c requestID owner repo number body st)) = sent st @ reads @ writes
     \<and> list_all (isRead c) reads \<and> length writes \<le> 1 \<and> list_all (\<lambda>q. rqToken q = token c) writes"
  proof
    assume "sent (snd (createIssueCommentTool w c requestID owner repo number body st)) = sent st"
    then show ?thesis by (intro exI [of _ "[]"]) simp
  next
    assume "sent (snd (createIssueCommentTool w c requestID owner repo number body st)) = sent st @ [?q]"
    then show ?thesis by (intro exI [of _ "[]"] exI [of _ "[?q]"]) (simp add: mkRequest_def)
  qed
qed

lemma issueWriteTools_write:
  "list_all (\<lambda>tool. handles (writesOnce c) (toHandler tool) \<and> \<not> anReadOnlyHint (toAnnotations tool)) (issueWriteTools w c)"
proof -
  have "keeps (writesOnce c) (onAPI (createIssueTool (svHTTP w) c requestID input))" for requestID input
    unfolding createIssueTool_def
    by (rule resolved_writesOnce [OF sends_resolveCreate CreateIssue_sent]) (simp add: mkRequest_def)
  moreover have "keeps (writesOnce c) (onAPI (updateIssueTool (svHTTP w) c requestID input))" for requestID input
    unfolding updateIssueTool_def
    by (rule resolved_writesOnce [OF sends_resolveUpdate UpdateIssue_sent]) (simp add: mkRequest_def)
  ultimately show ?thesis
    unfolding issueWriteTools_def writeAnnotations_def
    by (auto intro!: handles_AddTool comment_writesOnce split: prod.split)
qed

section \<open>The property\<close>

text \<open>C9: A tool call sends only GET requests without a body and, after them, at most one other request, all with
  the token of the user. The other request is sent only when the server was built with the write option, the
  call was admitted, and the tool it names is not annotated as read-only; so a tool with the read-only hint, and
  every call of a server without the option, only reads.\<close>

theorem read_only_tools:
  assumes "callTool (NewServer w c defaults writeEnabled) admission requestID name args s = (r, s')"
  shows "\<exists>reads writes. sent (stClient s') = sent (stClient s) @ reads @ writes \<and> list_all (isRead c) reads
    \<and> length writes \<le> 1 \<and> list_all (\<lambda>q. rqToken q = token c) writes
    \<and> (writes \<noteq> [] \<longrightarrow> writeEnabled \<and> admission = None
        \<and> (\<exists>tool \<in> set (NewServer w c defaults writeEnabled). toName tool = name \<and> \<not> anReadOnlyHint (toAnnotations tool)))"
proof (cases "s' = s")
  case True
  then show ?thesis by (intro exI [of _ "[]"]) simp
next
  case False
  then obtain tool where t: "admission = None" "List.find (\<lambda>tool. toName tool = name) (NewServer w c defaults writeEnabled) = Some tool"
    "s' = snd (toHandler tool requestID args s)"
    using assms by (auto simp: callTool_def split: option.splits prod.splits)
  then have tool: "tool \<in> set (NewServer w c defaults writeEnabled)" "toName tool = name"
    by (auto simp: find_Some_iff)
  show ?thesis
  proof (cases "tool \<in> set (readTools w c defaults)")
    case True
    then have "serverReads c s s'" using readTools_read [of c w defaults] t(3) by (auto simp: list_all_iff handles_def)
    then obtain new where "sent (stClient s') = sent (stClient s) @ new" "list_all (isRead c) new"
      unfolding serverReads_def clientReads_def by blast
    then show ?thesis by (intro exI [of _ new] exI [of _ "[]"]) simp
  next
    case False
    then have "writeEnabled" "tool \<in> set (issueWriteTools w c)" using tool(1) by (auto simp: NewServer_split split: if_splits)
    moreover from this(2) have "writesOnce c s s'" "\<not> anReadOnlyHint (toAnnotations tool)"
      using issueWriteTools_write [of c w] t(3) by (auto simp: list_all_iff handles_def)
    ultimately show ?thesis
      using t(1) tool unfolding writesOnce_def by blast
  qed
qed

text \<open>A server on the sample worlds.\<close>

definition samplePulls :: pullsWorld where
  "samplePulls = \<lparr>plHTTP = branchForge, plCtx = (\<lambda>n. None), plAdvertised = (\<lambda>url. Inr []), plGit = (\<lambda>dir. sampleWorld),
     plUserRoot = None, plCacheDir = [], plTimeout = 1, plCacheTTL = 1, plCacheMaxBytes = 1, plDisk = (\<lambda>dir. \<lparr>pkPresent = True, pkPrivate = True, pkTouches = 0\<rparr>)\<rparr>"

definition sampleServer :: serverWorld where
  "sampleServer = \<lparr>svHTTP = branchForge, svTokens = (\<lambda>body. None), svLower = (\<lambda>s. s), svSince = (\<lambda>s. True),
     svPulls = samplePulls, svCode = someCode\<rparr>"

definition freshServer :: serverState where
  "freshServer = \<lparr>stClient = freshState, stEngine = None, stIdentity = None, stCache = FDir 0 []\<rparr>"

definition repoArgs :: "(string \<times> json) list" where
  "repoArgs = [(''owner'', JStr ''o''), (''repo'', JStr ''r'')]"

definition commentArgs :: "(string \<times> json) list" where
  "commentArgs = repoArgs @ [(''number'', JNum 3), (''body'', JStr ''hi'')]"

lemma commentArgs_accepted:
  "applySchema createIssueCommentInputSchema commentArgs = Some commentArgs"
  "decCreateIssueComment (JObj commentArgs) = Some (''o'', ''r'', 3, ''hi'')"
  by code_simp+

lemma find_comment:
  "List.find (\<lambda>tool. toName tool = ''create_issue_comment'') (NewServer w c defaults True)
    = Some (AddTool ''create_issue_comment'' (writeAnnotations ''Create issue comment'' False) createIssueCommentInputSchema
        decCreateIssueComment encIssueComment
        (\<lambda>requestID (owner, repo, number, body). onAPI (createIssueCommentTool (svHTTP w) c requestID owner repo number body)))"
  by (simp add: NewServer_def registerDefs issueWriteTools_def)

theorem read_only_tools_witness:
  "\<exists>r s' reads writes. callTool (NewServer sampleServer someClient DefaultSearchDefaults True) None ''id'' ''create_issue_comment''
       commentArgs freshServer = (r, s')
     \<and> sent (stClient s') = reads @ writes \<and> list_all (isRead someClient) reads \<and> length writes = 1 \<and> rqMethod (hd writes) = ''POST''"
proof -
  let ?call = "callTool (NewServer sampleServer someClient DefaultSearchDefaults True) None ''id'' ''create_issue_comment'' commentArgs freshServer"
  have "map rqMethod (sent (snd (createIssueCommentTool branchForge someClient ''id'' ''o'' ''r'' 3 ''hi'' freshState))) = [''POST'']"
    by code_simp
  moreover have "stClient (snd ?call) = snd (createIssueCommentTool branchForge someClient ''id'' ''o'' ''r'' 3 ''hi'' freshState)"
    by (simp add: callTool_def find_comment commentArgs_accepted AddTool_def toolForErr_def onAPI_def sampleServer_def
        freshServer_def split: prod.split sum.split)
  ultimately have post: "map rqMethod (sent (stClient (snd ?call))) = [''POST'']" by simp
  obtain r s' where run: "?call = (r, s')" by (cases ?call)
  from read_only_tools [OF run] obtain reads writes where w: "sent (stClient s') = reads @ writes"
    "list_all (isRead someClient) reads" "length writes \<le> 1"
    by (auto simp: freshServer_def freshState_def)
  have "reads = []"
  proof (rule ccontr)
    assume "reads \<noteq> []"
    then have "rqMethod (hd reads) = ''GET''" using w(2) by (cases reads) (simp_all add: isRead_def)
    moreover have "rqMethod (hd reads) = ''POST''" using post run w(1) \<open>reads \<noteq> []\<close> by (cases reads) auto
    ultimately show False by simp
  qed
  then have "map rqMethod writes = [''POST'']" using post run w(1) by simp
  then have "length writes = 1" "rqMethod (hd writes) = ''POST''" by auto
  with run w show ?thesis by blast
qed

end
