(* ===== verification/ToolInputs.thy ===== *)
theory ToolInputs
  imports ToolServer
begin

text \<open>
  What the input schemas give the handlers: an accepted call decodes into an input within the bounds the handlers rely
  on, and filling in defaults never changes whether a call is accepted.
\<close>

section \<open>What handlers are given\<close>

lemma decPageArgs_Some:
  "decPageArgs j = Some (page, perPage) \<longleftrightarrow> decInt (jfield j ''page'') = Some page \<and> decInt (jfield j ''per_page'') = Some perPage"
  by (auto simp: decPageArgs_def bind_eq_Some_conv)

lemma decRepoArgs_Some:
  "decRepoArgs j = Some (owner, repo) \<longleftrightarrow> decStr (jfield j ''owner'') = Some owner \<and> decStr (jfield j ''repo'') = Some repo"
  by (auto simp: decRepoArgs_def bind_eq_Some_conv)

lemma page_args:
  assumes "applySchema os fs = Some accepted" "decPageArgs (JObj accepted) = Some (page, perPage)"
    and "(''page'', integerSchema d1 defaultPage 0) \<in> set (osProperties os)"
    and "(''per_page'', integerSchema d2 defaultPerPage maximumPerPage) \<in> set (osProperties os)"
  shows "1 \<le> page \<and> 1 \<le> perPage \<and> perPage \<le> 100"
  using integer_bounds [OF assms(1,3)] integer_bounds [OF assms(1,4)] assms(2)
  by (simp add: decPageArgs_Some maximumPerPage_def)

lemma paged_schemas:
  "os \<in> {paginationInputSchema, searchRepositoriesInputSchema, listDirectoryInputSchema, listBranchesInputSchema} \<Longrightarrow>
    \<exists>d1 d2. (''page'', integerSchema d1 defaultPage 0) \<in> set (osProperties os)
      \<and> (''per_page'', integerSchema d2 defaultPerPage maximumPerPage) \<in> set (osProperties os)"
  by (auto simp: paginationInputSchema_def searchRepositoriesInputSchema_def listDirectoryInputSchema_def
      listBranchesInputSchema_def objectSchema_def repositoryReferenceProperties_def repositoryIdentityProperties_def)

text \<open>The schemas of the tools over one repository.\<close>

definition repoSchemas :: "ObjectSchema list" where
  "repoSchemas = [getRepositoryInputSchema, listDirectoryInputSchema, getFileInputSchema, listBranchesInputSchema,
     listCommitsInputSchema, getBranchInputSchema, getCommitInputSchema, listPullRequestsInputSchema, getPullRequestInputSchema,
     getPullRequestDiffInputSchema, searchCodeInputSchema, listIssuesInputSchema, getIssueInputSchema,
     listIssueCommentsInputSchema, createIssueInputSchema, updateIssueInputSchema, createIssueCommentInputSchema]"

lemmas propertyDefs = objectSchema_def repositoryReferenceProperties_def repositoryIdentityProperties_def
  bodyRangeProperties_def noDefault_def

lemma repo_schemas:
  "list_all (\<lambda>os. {''owner'', ''repo''} \<subseteq> set (osRequired os)
     \<and> (\<forall>k \<in> {''owner'', ''repo''}. \<exists>s. (k, s) \<in> set (osProperties os) \<and> jsType s = ''string'' \<and> jsMinLength s = Some 1)) repoSchemas"
  unfolding repoSchemas_def
  by (simp add: getRepositoryInputSchema_def listDirectoryInputSchema_def getFileInputSchema_def listBranchesInputSchema_def
      listCommitsInputSchema_def getBranchInputSchema_def getCommitInputSchema_def listPullRequestsInputSchema_def
      getPullRequestInputSchema_def getPullRequestDiffInputSchema_def searchCodeInputSchema_def listIssuesInputSchema_def
      getIssueInputSchema_def listIssueCommentsInputSchema_def createIssueInputSchema_def updateIssueInputSchema_def
      createIssueCommentInputSchema_def propertyDefs stringSchema_def anySchema_def Let_def ex_disj_distrib)

lemma repo_args:
  assumes "applySchema os fs = Some accepted" "os \<in> set repoSchemas" "decRepoArgs (JObj accepted) = Some (owner, repo)"
  shows "owner \<noteq> [] \<and> repo \<noteq> []"
proof -
  have "str \<noteq> []" if "k \<in> {''owner'', ''repo''}" "decStr (jfield (JObj accepted) k) = Some str" for k str
  proof -
    have sub: "{''owner'', ''repo''} \<subseteq> set (osRequired os)"
      and all: "\<forall>k \<in> {''owner'', ''repo''}. \<exists>s. (k, s) \<in> set (osProperties os) \<and> jsType s = ''string'' \<and> jsMinLength s = Some 1"
      using bspec [OF repo_schemas [unfolded list_all_iff] assms(2)] by (rule conjunct1, rule conjunct2)
    from bspec [OF all that(1)] obtain s where s: "(k, s) \<in> set (osProperties os)" "jsType s = ''string''" "jsMinLength s = Some 1"
      by (elim exE conjE)
    have req: "k \<in> set (osRequired os)" by (rule subsetD [OF sub that(1)])
    show ?thesis by (rule string_nonempty [OF assms(1) s(1,2,3) _ req that(2)]) simp
  qed
  then show ?thesis using assms(3) by (auto simp: decRepoArgs_Some)
qed

definition numberSchemas :: "ObjectSchema list" where
  "numberSchemas = [getIssueInputSchema, listIssueCommentsInputSchema, updateIssueInputSchema, createIssueCommentInputSchema,
     getPullRequestInputSchema, getPullRequestDiffInputSchema]"

lemma number_member:
  "(''number'', integerSchema ''Issue number.'' 1 0) \<in> set (osProperties getIssueInputSchema)"
  "(''number'', integerSchema ''Issue number.'' 1 0) \<in> set (osProperties listIssueCommentsInputSchema)"
  "(''number'', integerSchema ''Issue number.'' 1 0) \<in> set (osProperties updateIssueInputSchema)"
  "(''number'', integerSchema ''Issue number.'' 1 0) \<in> set (osProperties createIssueCommentInputSchema)"
  "(''number'', integerSchema ''Pull request number.'' 1 0) \<in> set (osProperties getPullRequestInputSchema)"
  "(''number'', integerSchema ''Pull request number.'' 1 0) \<in> set (osProperties getPullRequestDiffInputSchema)"
       apply (simp add: getIssueInputSchema_def propertyDefs; fail)
      apply (simp add: listIssueCommentsInputSchema_def propertyDefs; fail)
     apply (simp add: updateIssueInputSchema_def propertyDefs; fail)
    apply (simp add: createIssueCommentInputSchema_def propertyDefs; fail)
   apply (simp add: getPullRequestInputSchema_def propertyDefs; fail)
  apply (simp add: getPullRequestDiffInputSchema_def propertyDefs; fail)
  done

lemma number_schemas:
  "os \<in> set numberSchemas \<Longrightarrow> \<exists>d. (''number'', integerSchema d 1 0) \<in> set (osProperties os)"
  using number_member by (auto simp only: numberSchemas_def list.set insert_iff empty_iff)

lemma number_arg:
  assumes "applySchema os fs = Some accepted" "os \<in> set numberSchemas" "decInt (jfield (JObj accepted) ''number'') = Some number"
  shows "1 \<le> number"
proof -
  obtain d where "(''number'', integerSchema d 1 0) \<in> set (osProperties os)"
    using number_schemas [OF assms(2)] by blast
  from integer_bounds(1) [OF assms(1) this assms(3)] show ?thesis .
qed

lemma getFile_args:
  assumes "applySchema getFileInputSchema fs = Some accepted" "decGetFile (JObj accepted) = Some (owner, repo, path, ref, startLine, lineCount)"
  shows "path \<noteq> [] \<and> 1 \<le> startLine \<and> 1 \<le> lineCount \<and> lineCount \<le> 1000"
proof -
  have d: "decStr (jfield (JObj accepted) ''path'') = Some path" "decInt (jfield (JObj accepted) ''start_line'') = Some startLine"
    "decInt (jfield (JObj accepted) ''line_count'') = Some lineCount"
    using assms(2) by (auto simp: decGetFile_def bind_eq_Some_conv split: prod.splits)
  have "path \<noteq> []"
    by (rule string_nonempty [OF assms(1) _ _ _ _ _ d(1), where s = "stringSchema ''Repository-relative file path.'' True False" and m = 1])
      (simp_all add: getFileInputSchema_def propertyDefs stringSchema_def anySchema_def Let_def)
  moreover have "1 \<le> startLine"
    by (rule integer_bounds(1) [OF assms(1) _ d(2), where description = "''First line to return, starting at 1.''" and d = 1 and M = 0])
      (simp add: getFileInputSchema_def propertyDefs)
  moreover have "(''line_count'', integerSchema ''Maximum lines to return, from 1 through 1000.'' defaultFileLineCount maximumFileLineCount)
      \<in> set (osProperties getFileInputSchema)" by (simp add: getFileInputSchema_def propertyDefs)
  from integer_bounds [OF assms(1) this d(3)] have "1 \<le> lineCount" "lineCount \<le> 1000" by (simp_all add: maximumFileLineCount_def)
  ultimately show ?thesis by simp
qed

lemma listCommits_args:
  assumes "applySchema listCommitsInputSchema fs = Some accepted" "decListCommits (JObj accepted) = Some (owner, repo, limit)"
  shows "1 \<le> limit \<and> limit \<le> 100"
proof -
  have d: "decInt (jfield (JObj accepted) ''limit'') = Some limit"
    using assms(2) by (auto simp: decListCommits_def bind_eq_Some_conv split: prod.splits)
  have "(''limit'', integerSchema ''Maximum number of recent default-branch commits to return, from 1 through 100.'' defaultCommitLimit maximumCommitLimit)
      \<in> set (osProperties listCommitsInputSchema)" by (simp add: listCommitsInputSchema_def propertyDefs)
  from integer_bounds [OF assms(1) this d] show ?thesis by (simp add: maximumCommitLimit_def)
qed

lemma pulls_args:
  assumes "applySchema listPullRequestsInputSchema fs = Some accepted"
    "decListPullRequests (JObj accepted) = Some (owner, repo, state, limit, before)"
  shows "1 \<le> limit \<and> limit \<le> 100 \<and> state \<in> {[], ''open'', ''closed'', ''all''}"
proof -
  have d: "decInt (jfield (JObj accepted) ''limit'') = Some limit" "decStr (jfield (JObj accepted) ''state'') = Some state"
    using assms(2) by (auto simp: decListPullRequests_def bind_eq_Some_conv split: prod.splits)
  have "(''limit'', integerSchema ''Maximum number of pull requests to return, from 1 through 100.'' defaultPullLimitShared maximumPullLimitShared)
      \<in> set (osProperties listPullRequestsInputSchema)"
    by (simp add: listPullRequestsInputSchema_def propertyDefs)
  from integer_bounds [OF assms(1) this d(1)] have "1 \<le> limit" "limit \<le> 100" by (simp_all add: maximumPullLimitShared_def)
  moreover have "state \<in> {[], ''open'', ''closed'', ''all''}"
  proof (cases "present accepted ''state''")
    case (Some v)
    have "(''state'', anySchema\<lparr>jsType := ''string'',
              jsDescription := ''Pull request state to list: open, closed, or all. Defaults to open.'',
              jsEnum := Some [JStr ''open'', JStr ''closed'', JStr ''all'']\<rparr>) \<in> set (osProperties listPullRequestsInputSchema)"
      by (simp add: listPullRequestsInputSchema_def propertyDefs)
    from applySchema_property(1) [OF assms(1) this Some] have "v \<in> {JStr ''open'', JStr ''closed'', JStr ''all''}"
      by (simp add: validValue_def)
    then show ?thesis using Some d(2) by (auto simp: jfield_present decStr_def)
  qed (use d(2) in \<open>simp add: jfield_present decStr_def\<close>)
  ultimately show ?thesis by simp
qed

lemma diff_args:
  assumes "applySchema getPullRequestDiffInputSchema fs = Some accepted"
    "decGetPullRequestDiff (JObj accepted) = Some (owner, repo, number, baseRef, paths, maxBytes)"
  shows "1 \<le> maxBytes \<and> maxBytes \<le> 4194304"
proof -
  have d: "decInt (jfield (JObj accepted) ''max_bytes'') = Some maxBytes"
    using assms(2) by (auto simp: decGetPullRequestDiff_def bind_eq_Some_conv split: prod.splits)
  have "(''max_bytes'', integerSchema ''Maximum rendered diff size in bytes, from 1 through 4194304.'' defaultDiffMaxBytes maximumDiffMaxBytes)
      \<in> set (osProperties getPullRequestDiffInputSchema)"
    by (simp add: getPullRequestDiffInputSchema_def propertyDefs)
  from integer_bounds [OF assms(1) this d] show ?thesis by (simp add: maximumDiffMaxBytes_def)
qed

text \<open>A property without a default is absent, and decodes to zero, or is within its bounds.\<close>

lemma optional_bound:
  assumes "applySchema os fs = Some accepted" "(k, s) \<in> set (osProperties os)" "jsType s = ''integer''" "jsMinimum s = Some m" "0 \<le> m"
    and "decInt (jfield (JObj accepted) k) = Some n"
  shows "0 \<le> n"
proof (cases "present accepted k = None")
  case True
  then show ?thesis using integer_property(3) [OF assms(1,2,3,6)] by simp
next
  case False
  then show ?thesis using integer_property(1) [OF assms(1,2,3,6) False assms(4)] assms(5) by simp
qed

lemma comments_args:
  assumes "applySchema listIssueCommentsInputSchema fs = Some accepted" "decListIssueComments (JObj accepted) = Some input"
  shows "1 \<le> lcMaxComments input \<and> lcMaxComments input \<le> 500 \<and> 0 \<le> lcAfterID input \<and> 0 \<le> lcCommentID input
    \<and> 0 \<le> lcBodyOffset input \<and> 4 \<le> lcBodyMaxBytes input \<and> lcBodyMaxBytes input \<le> 8192"
proof -
  have d: "decInt (jfield (JObj accepted) ''max_comments'') = Some (lcMaxComments input)"
    "decInt (jfield (JObj accepted) ''after_id'') = Some (lcAfterID input)"
    "decInt (jfield (JObj accepted) ''comment_id'') = Some (lcCommentID input)"
    "decInt (jfield (JObj accepted) ''body_offset'') = Some (lcBodyOffset input)"
    "decInt (jfield (JObj accepted) ''body_max_bytes'') = Some (lcBodyMaxBytes input)"
    using assms(2) by (auto simp: decListIssueComments_def decGetBody_def bind_eq_Some_conv split: prod.splits)
  let ?size = "(integerSchema ''Maximum body bytes in this chunk, from 4 through 8192; defaults to 8192.'' defaultBodyBytes defaultBodyBytes)
          \<lparr>jsMinimum := Some 4\<rparr>"
  let ?after = "(integerSchema ''Continue after meta.next_after_id.'' 1 0)\<lparr>jsDefault := None\<rparr>"
  let ?comment = "(integerSchema ''Read one comment's body; combine with body_offset to continue.'' 1 0)\<lparr>jsDefault := None\<rparr>"
  let ?offset = "anySchema\<lparr>jsType := ''integer'', jsMinimum := Some 0,
            jsDescription := ''UTF-8 byte offset returned by next_body_offset; defaults to zero.''\<rparr>"
  have "(''max_comments'', integerSchema ''Maximum comments to return.'' defaultMaxComments maximumMaxComments)
      \<in> set (osProperties listIssueCommentsInputSchema)" by (simp add: listIssueCommentsInputSchema_def propertyDefs)
  from integer_bounds [OF assms(1) this d(1)] have "1 \<le> lcMaxComments input" "lcMaxComments input \<le> 500"
    by (simp_all add: maximumMaxComments_def)
  moreover have "(''after_id'', ?after) \<in> set (osProperties listIssueCommentsInputSchema)"
    by (simp add: listIssueCommentsInputSchema_def propertyDefs)
  from optional_bound [OF assms(1) this _ _ _ d(2), of 1] have "0 \<le> lcAfterID input" by (simp add: integerSchema_def)
  moreover have "(''comment_id'', ?comment) \<in> set (osProperties listIssueCommentsInputSchema)"
    by (simp add: listIssueCommentsInputSchema_def propertyDefs)
  from optional_bound [OF assms(1) this _ _ _ d(3), of 1] have "0 \<le> lcCommentID input" by (simp add: integerSchema_def)
  moreover have "(''body_offset'', ?offset) \<in> set (osProperties listIssueCommentsInputSchema)"
    by (simp add: listIssueCommentsInputSchema_def propertyDefs)
  from optional_bound [OF assms(1) this _ _ _ d(4), of 0] have "0 \<le> lcBodyOffset input" by simp
  moreover have size: "(''body_max_bytes'', ?size) \<in> set (osProperties listIssueCommentsInputSchema)"
    by (simp add: listIssueCommentsInputSchema_def propertyDefs)
  have s: "jsType ?size = ''integer''" "jsDefault ?size \<noteq> None" "jsMinimum ?size = Some 4" "jsMaximum ?size = Some 8192"
    by (simp_all add: integerSchema_def defaultBodyBytes_def Let_def)
  have "present accepted ''body_max_bytes'' \<noteq> None" using applySchema_property(2) [OF assms(1) size] s(2) by blast
  then have "4 \<le> lcBodyMaxBytes input" by (rule integer_property(1) [OF assms(1) size s(1) d(5) _ s(3)])
  moreover have "lcBodyMaxBytes input \<le> 8192" using integer_property(2) [OF assms(1) size s(1) d(5) s(4)] by simp
  ultimately show ?thesis by simp
qed

lemma comment_body_arg:
  assumes "applySchema createIssueCommentInputSchema fs = Some accepted"
    "decCreateIssueComment (JObj accepted) = Some (owner, repo, number, body)"
  shows "body \<noteq> []"
proof -
  have "decStr (jfield (JObj accepted) ''body'') = Some body"
    using assms(2) by (auto simp: decCreateIssueComment_def bind_eq_Some_conv split: prod.splits)
  then show ?thesis
    by (rule string_nonempty [OF assms(1), where s = "anySchema\<lparr>jsType := ''string'', jsDescription := ''Comment body in Markdown.'', jsMinLength := Some 1\<rparr>"
          and m = 1, rotated -1]) (simp_all add: createIssueCommentInputSchema_def propertyDefs)
qed

lemma search_args:
  assumes "applySchema searchCodeInputSchema fs = Some accepted" "decSearchCode (JObj accepted) = Some input"
  shows "scQuery input \<noteq> [] \<and> 1 \<le> scMaxResults input \<and> scMaxResults input \<le> 500
    \<and> (\<exists>n. scContextLines input = Some n \<and> 0 \<le> n \<and> n \<le> 10) \<and> 0 \<le> scTimeoutSeconds input \<and> scTimeoutSeconds input \<le> 300"
proof -
  have d: "decStr (jfield (JObj accepted) ''query'') = Some (scQuery input)"
    "decInt (jfield (JObj accepted) ''max_results'') = Some (scMaxResults input)"
    "decPtr decInt (jfield (JObj accepted) ''context_lines'') = Some (scContextLines input)"
    "decInt (jfield (JObj accepted) ''timeout_seconds'') = Some (scTimeoutSeconds input)"
    using assms(2) by (auto simp: decSearchCode_def bind_eq_Some_conv split: prod.splits)
  let ?query = "anySchema\<lparr>jsType := ''string'',
          jsDescription := ''Text to search for: a literal string by default, or a regular expression when mode is regex.'',
          jsMinLength := Some 1, jsMaxLength := Some maximumSearchQueryLength\<rparr>"
  let ?results = "anySchema\<lparr>jsType := ''integer'',
          jsDescription := ''Maximum number of matches to return, from 1 through 500. Defaults to 50.'',
          jsDefault := Some (JNum 50), jsMinimum := Some 1, jsMaximum := Some maxResultsLimit\<rparr>"
  let ?around = "anySchema\<lparr>jsType := ''integer'',
          jsDescription := ''Context lines shown before and after each match, from 0 through 10. Defaults to 2.'',
          jsDefault := Some (JNum 2), jsMinimum := Some 0, jsMaximum := Some maxContextLines\<rparr>"
  let ?timeout = "anySchema\<lparr>jsType := ''integer'',
          jsDescription := ''Search time limit in seconds, from 1 through 300. Defaults to the configured server limit.'',
          jsMinimum := Some 1, jsMaximum := Some maximumSearchTimeout\<rparr>"
  have m: "(''query'', ?query) \<in> set (osProperties searchCodeInputSchema)"
    "(''max_results'', ?results) \<in> set (osProperties searchCodeInputSchema)"
    "(''context_lines'', ?around) \<in> set (osProperties searchCodeInputSchema)"
    "(''timeout_seconds'', ?timeout) \<in> set (osProperties searchCodeInputSchema)"
    by (simp_all add: searchCodeInputSchema_def propertyDefs)
  have "scQuery input \<noteq> []"
    by (rule string_nonempty [OF assms(1) m(1) _ _ _ _ d(1), of 1]) (simp_all add: searchCodeInputSchema_def propertyDefs)
  moreover have "present accepted ''max_results'' \<noteq> None" using applySchema_property(2) [OF assms(1) m(2)] by simp
  with integer_property(1,2) [OF assms(1) m(2) _ d(2)] have "1 \<le> scMaxResults input" "scMaxResults input \<le> 500"
    by (auto simp: maxResultsLimit_def)
  moreover have "present accepted ''context_lines'' \<noteq> None" using applySchema_property(2) [OF assms(1) m(3)] by simp
  then obtain v where v: "present accepted ''context_lines'' = Some v" by auto
  from applySchema_property(1) [OF assms(1) m(3) v] obtain n where "v = JNum n" "0 \<le> n" "n \<le> 10"
    by (cases v) (auto simp: validValue_def typeOk_def maxContextLines_def)
  with d(3) v have "scContextLines input = Some n" by (auto simp: decPtr_def jfield_present decInt_def split: if_splits)
  moreover have "0 \<le> scTimeoutSeconds input" by (rule optional_bound [OF assms(1) m(4) _ _ _ d(4), of 1]) simp_all
  moreover have "scTimeoutSeconds input \<le> 300"
    using integer_property(2) [OF assms(1) m(4) _ d(4), of 300] by (simp add: maximumSearchTimeout_def)
  ultimately show ?thesis using \<open>0 \<le> n\<close> \<open>n \<le> 10\<close> by blast
qed

text \<open>C10: When the arguments of a call pass the schema of its tool and decode into the input of its handler, then the
  input meets what the handler relies on, whatever the client sent: owner and repository are named, numbers are
  positive, pages and page sizes are within 1 and 100, line windows, comment limits, commit limits, diff sizes and search
  bounds are within the limits of the code (so the range errors of the handlers are never reached), and defaults have
  been filled in where the handler needs them.\<close>

theorem accepted_inputs_valid:
  assumes "applySchema os args = Some accepted"
  shows "(os \<in> {paginationInputSchema, searchRepositoriesInputSchema, listDirectoryInputSchema, listBranchesInputSchema} \<longrightarrow>
      (\<forall>page perPage. decPageArgs (JObj accepted) = Some (page, perPage) \<longrightarrow> 1 \<le> page \<and> 1 \<le> perPage \<and> perPage \<le> 100))
    \<and> (os \<in> set repoSchemas \<longrightarrow> (\<forall>owner repo. decRepoArgs (JObj accepted) = Some (owner, repo) \<longrightarrow> owner \<noteq> [] \<and> repo \<noteq> []))
    \<and> (os \<in> set numberSchemas \<longrightarrow> (\<forall>number. decInt (jfield (JObj accepted) ''number'') = Some number \<longrightarrow> 1 \<le> number))
    \<and> (os = getFileInputSchema \<longrightarrow> (\<forall>owner repo path ref startLine lineCount.
        decGetFile (JObj accepted) = Some (owner, repo, path, ref, startLine, lineCount) \<longrightarrow>
        path \<noteq> [] \<and> 1 \<le> startLine \<and> 1 \<le> lineCount \<and> lineCount \<le> 1000))
    \<and> (os = listCommitsInputSchema \<longrightarrow> (\<forall>owner repo limit. decListCommits (JObj accepted) = Some (owner, repo, limit) \<longrightarrow>
        1 \<le> limit \<and> limit \<le> 100))
    \<and> (os = listPullRequestsInputSchema \<longrightarrow> (\<forall>owner repo state limit before.
        decListPullRequests (JObj accepted) = Some (owner, repo, state, limit, before) \<longrightarrow>
        1 \<le> limit \<and> limit \<le> 100 \<and> state \<in> {[], ''open'', ''closed'', ''all''}))
    \<and> (os = getPullRequestDiffInputSchema \<longrightarrow> (\<forall>owner repo number baseRef paths maxBytes.
        decGetPullRequestDiff (JObj accepted) = Some (owner, repo, number, baseRef, paths, maxBytes) \<longrightarrow>
        1 \<le> maxBytes \<and> maxBytes \<le> 4194304))
    \<and> (os = listIssueCommentsInputSchema \<longrightarrow> (\<forall>input. decListIssueComments (JObj accepted) = Some input \<longrightarrow>
        1 \<le> lcMaxComments input \<and> lcMaxComments input \<le> 500 \<and> 0 \<le> lcAfterID input \<and> 0 \<le> lcCommentID input
        \<and> 0 \<le> lcBodyOffset input \<and> 4 \<le> lcBodyMaxBytes input \<and> lcBodyMaxBytes input \<le> 8192))
    \<and> (os = searchCodeInputSchema \<longrightarrow> (\<forall>input. decSearchCode (JObj accepted) = Some input \<longrightarrow>
        scQuery input \<noteq> [] \<and> 1 \<le> scMaxResults input \<and> scMaxResults input \<le> 500
        \<and> (\<exists>n. scContextLines input = Some n \<and> 0 \<le> n \<and> n \<le> 10) \<and> 0 \<le> scTimeoutSeconds input \<and> scTimeoutSeconds input \<le> 300))
    \<and> (os = createIssueCommentInputSchema \<longrightarrow> (\<forall>owner repo number body.
        decCreateIssueComment (JObj accepted) = Some (owner, repo, number, body) \<longrightarrow> body \<noteq> []))"
proof (intro conjI impI allI)
  fix page perPage
  assume os: "os \<in> {paginationInputSchema, searchRepositoriesInputSchema, listDirectoryInputSchema, listBranchesInputSchema}"
    and d: "decPageArgs (JObj accepted) = Some (page, perPage)"
  from paged_schemas [OF os] obtain d1 d2 where "(''page'', integerSchema d1 defaultPage 0) \<in> set (osProperties os)"
    "(''per_page'', integerSchema d2 defaultPerPage maximumPerPage) \<in> set (osProperties os)" by (elim exE conjE)
  from page_args [OF assms d this] show "1 \<le> page" "1 \<le> perPage" "perPage \<le> 100" by simp_all
next
  fix owner repo
  assume "os \<in> set repoSchemas" "decRepoArgs (JObj accepted) = Some (owner, repo)"
  from repo_args [OF assms this] show "owner \<noteq> []" "repo \<noteq> []" by simp_all
qed (use assms in \<open>simp_all add: number_arg getFile_args listCommits_args pulls_args [simplified] diff_args comments_args search_args
  comment_body_arg\<close>)

theorem accepted_inputs_valid_witness:
  "applySchema listBranchesInputSchema repoArgs = Some (repoArgs @ [(''page'', JNum 1), (''per_page'', JNum 30)])
   \<and> applySchema listBranchesInputSchema (repoArgs @ [(''per_page'', JNum 101)]) = None
   \<and> (\<exists>page perPage. decPageArgs (JObj (repoArgs @ [(''page'', JNum 1), (''per_page'', JNum 30)])) = Some (page, perPage)
        \<and> 1 \<le> page \<and> perPage \<le> 100)"
proof (intro conjI)
  show accepted: "applySchema listBranchesInputSchema repoArgs = Some (repoArgs @ [(''page'', JNum 1), (''per_page'', JNum 30)])"
    by code_simp
  show "applySchema listBranchesInputSchema (repoArgs @ [(''per_page'', JNum 101)]) = None" by code_simp
  have "decPageArgs (JObj (repoArgs @ [(''page'', JNum 1), (''per_page'', JNum 30)])) = Some (1, 30)" by code_simp
  moreover note conjunct1 [OF accepted_inputs_valid [OF accepted]]
  ultimately show "\<exists>page perPage.
      decPageArgs (JObj (repoArgs @ [(''page'', JNum 1), (''per_page'', JNum 30)])) = Some (page, perPage) \<and> 1 \<le> page \<and> perPage \<le> 100"
    by blast
qed

section \<open>Defaults\<close>

text \<open>A schema whose defaults are valid and whose required properties are its own.\<close>

definition soundSchema :: "ObjectSchema \<Rightarrow> bool" where
  "soundSchema os \<longleftrightarrow> distinct (map fst (osProperties os))
     \<and> list_all (\<lambda>(k, s). case jsDefault s of None \<Rightarrow> True | Some d \<Rightarrow> validValue s d) (osProperties os)"

lemma present_ApplyDefaults:
  assumes "distinct (map fst (osProperties os))" "(k, s) \<in> set (osProperties os)"
  shows "present (ApplyDefaults os fs) k =
    (if k \<in> set (osRequired os) \<or> present fs k \<noteq> None then present fs k else jsDefault s)"
proof -
  let ?f = "\<lambda>(k, s). if k \<in> set (osRequired os) \<or> present fs k \<noteq> None then None else map_option (Pair k) (jsDefault s)"
  have fill: "present (List.map_filter ?f ps) k = (if k \<in> set (osRequired os) \<or> present fs k \<noteq> None then None else jsDefault s)"
    if "distinct (map fst ps)" "(k, s) \<in> set ps" for ps
    using that
  proof (induction ps)
    case (Cons p ps)
    have absent: "present (List.map_filter ?f qs) k' = None" if "k' \<notin> fst ` set qs" for qs k'
      using that unfolding present_None by (auto simp: map_filter_def image_iff split: if_splits)
    obtain k' s' where p: "p = (k', s')" by (cases p)
    have cons: "present (x # gs) k = (case present gs k of None \<Rightarrow> if fst x = k then Some (snd x) else None | Some v \<Rightarrow> Some v)"
      for x :: "string \<times> json" and gs
      by (cases x) (simp add: present_def map_add_def split: option.split)
    show ?case
    proof (cases "k' = k")
      case True
      then have "s' = s" "present (List.map_filter ?f ps) k = None"
        using Cons.prems p absent [of k ps] by (force, simp)
      then show ?thesis using True p by (cases "jsDefault s") (auto simp: List.map_filter_simps cons)
    next
      case False
      then have "(k, s) \<in> set ps" using Cons.prems(2) p by auto
      with Cons False p show ?thesis by (cases "jsDefault s'") (auto simp: List.map_filter_simps cons split: option.split)
    qed
  qed simp
  show ?thesis
    using fill [OF assms] unfolding ApplyDefaults_def present_append by (auto split: option.split)
qed

lemma validObject_ApplyDefaults:
  assumes "soundSchema os"
  shows "validObject os (ApplyDefaults os fs) \<longleftrightarrow> validObject os fs"
proof -
  let ?new = "ApplyDefaults os fs"
  note keys = present_ApplyDefaults [OF conjunct1 [OF assms [unfolded soundSchema_def]]]
  have "(case present ?new k of None \<Rightarrow> True | Some v \<Rightarrow> validValue s v)
      \<longleftrightarrow> (case present fs k of None \<Rightarrow> True | Some v \<Rightarrow> validValue s v)" if "(k, s) \<in> set (osProperties os)" for k s
    using keys [OF that, of fs] assms that by (cases "present fs k"; cases "jsDefault s") (auto simp: soundSchema_def list_all_iff)
  then have "list_all (\<lambda>(k, s). case present ?new k of None \<Rightarrow> True | Some v \<Rightarrow> validValue s v) (osProperties os)
      \<longleftrightarrow> list_all (\<lambda>(k, s). case present fs k of None \<Rightarrow> True | Some v \<Rightarrow> validValue s v) (osProperties os)"
    unfolding list_all_iff by blast
  moreover have "list_all (\<lambda>(k, v). k \<in> set (map fst (osProperties os))) ?new
      \<longleftrightarrow> list_all (\<lambda>(k, v). k \<in> set (map fst (osProperties os))) fs"
    by (force simp: ApplyDefaults_def map_filter_def list_all_iff split: if_splits)
  moreover have "present ?new k = present fs k" if "k \<in> set (osRequired os)" for k
  proof (cases "k \<in> fst ` set (osProperties os)")
    case True
    then obtain s where "(k, s) \<in> set (osProperties os)" by auto
    from keys [OF this] that show ?thesis by simp
  next
    case False
    then have "present (List.map_filter (\<lambda>(k, s). if k \<in> set (osRequired os) \<or> present fs k \<noteq> None then None
        else map_option (Pair k) (jsDefault s)) (osProperties os)) k = None"
      unfolding present_None by (auto simp: map_filter_def image_iff split: if_splits)
    then show ?thesis by (simp add: ApplyDefaults_def present_append)
  qed
  then have "list_all (\<lambda>k. present ?new k \<noteq> None) (osRequired os) \<longleftrightarrow> list_all (\<lambda>k. present fs k \<noteq> None) (osRequired os)"
    by (simp add: list_all_iff)
  ultimately show ?thesis unfolding validObject_def by blast
qed

definition toolSchemas :: "ObjectSchema list" where
  "toolSchemas = [emptyInputSchema, paginationInputSchema, searchRepositoriesInputSchema] @ repoSchemas"

lemma toolSchemas_sound: "list_all soundSchema toolSchemas"
  by code_simp

lemma server_schemas: "list_all (\<lambda>tool. toSchema tool \<in> set toolSchemas) (NewServer w c defaults writeEnabled)"
  unfolding NewServer_def registerDefs issueWriteTools_def toolSchemas_def repoSchemas_def by simp

text \<open>C37: For every tool of a server, filling in the defaults before validating the arguments gives the same verdict as
  validating them as they came: the defaults are valid, and no call fails because of one. An accepted call
  keeps every argument it came with, and an optional property it leaves out has its default.\<close>

theorem defaults_keep_verdict:
  assumes "tool \<in> set (NewServer w c defaults writeEnabled)"
  shows "applySchema (toSchema tool) args
      = (if validObject (toSchema tool) args then Some (ApplyDefaults (toSchema tool) args) else None)
    \<and> (\<forall>(k, s) \<in> set (osProperties (toSchema tool)). present (ApplyDefaults (toSchema tool) args) k =
        (case present args k of Some v \<Rightarrow> Some v | None \<Rightarrow> if k \<in> set (osRequired (toSchema tool)) then None else jsDefault s))"
proof -
  have sound: "soundSchema (toSchema tool)"
    using toolSchemas_sound server_schemas [of w c defaults writeEnabled] assms by (auto simp: list_all_iff)
  then have "distinct (map fst (osProperties (toSchema tool)))" by (simp add: soundSchema_def)
  then show ?thesis
    using present_ApplyDefaults [of "toSchema tool" _ _ args] validObject_ApplyDefaults [OF sound, of args]
    by (auto simp: applySchema_def Let_def split: option.split)
qed

theorem defaults_keep_verdict_witness:
  "userTool sampleServer someClient \<in> set (NewServer sampleServer someClient DefaultSearchDefaults False)
   \<and> applySchema (toSchema (userTool sampleServer someClient)) [] = Some []
   \<and> applySchema (toSchema (userTool sampleServer someClient)) [(''x'', JNull)] = None"
proof -
  have mem: "userTool sampleServer someClient \<in> set (NewServer sampleServer someClient DefaultSearchDefaults False)"
    by (simp add: NewServer_def)
  note equal = conjunct1 [OF defaults_keep_verdict [OF mem]]
  have "applySchema (toSchema (userTool sampleServer someClient)) [] = Some []"
    unfolding equal by (simp add: userTool_def emptyInputSchema_def objectSchema_def validObject_def ApplyDefaults_def map_filter_def)
  moreover have "applySchema (toSchema (userTool sampleServer someClient)) [(''x'', JNull)] = None"
    unfolding equal by (simp add: userTool_def emptyInputSchema_def objectSchema_def validObject_def)
  ultimately show ?thesis using mem by simp
qed

end
