(* ===== verification/Packagegen.thy ===== *)
theory Packagegen
  imports Config Archive
begin

text \<open>
  internal/packagegen/packagegen.go and cmd/mkpackage/main.go: the metadata of the offline package. A package is a
  directory tree of regular files (\<open>stree\<close>). The digest, the failures of the file system and what lies outside
  the package are the fields of \<open>packageWorld\<close>; \<open>pkRegular\<close> tells regular files from links and devices.
\<close>

definition lineFeed :: char where "lineFeed = CHR 0x0A"

section \<open>The target of a binary\<close>

record BinaryInfo =
  biArch :: string
  biStatic :: bool

fun littleEndian :: "string \<Rightarrow> nat" where
  "littleEndian [] = 0"
| "littleEndian (b # bs) = byte b + 256 * littleEndian bs"

definition bytesAt :: "nat \<Rightarrow> nat \<Rightarrow> string \<Rightarrow> string" where
  "bytesAt start n s = take n (drop start s)"

definition endOfFile :: goerr where
  "endOfFile = [MsgErr ''EOF'']"

text \<open>\<open>io.ReaderAt\<close> on a file: a negative offset and a short read are errors.\<close>

definition readAt :: "string \<Rightarrow> int \<Rightarrow> nat \<Rightarrow> goerr + string" where
  "readAt contents off n =
     (if off < 0 then Inl [MsgErr ''negative offset'']
      else if off + int n \<le> int (length contents) then Inr (bytesAt (nat off) n contents)
      else Inl endOfFile)"

text \<open>The program headers from \<open>index\<close> on; the offset is computed in 64-bit integers, which wrap around.\<close>

fun headerLoop :: "string \<Rightarrow> 64 word \<Rightarrow> 16 word \<Rightarrow> nat list \<Rightarrow> BinaryInfo \<Rightarrow> goerr + BinaryInfo" where
  "headerLoop contents start entrySize [] info = Inr info"
| "headerLoop contents start entrySize (index # rest) info =
     (case readAt contents (sint (start + word_of_nat index * ucast entrySize)) 4 of
        Inl err \<Rightarrow> Inl (MsgErr ''read the ELF program headers'' # err)
      | Inr typeField \<Rightarrow>
          headerLoop contents start entrySize rest
            (if littleEndian typeField = 3 then info\<lparr>biStatic := False\<rparr> else info))"

definition InspectBinary :: "goerr + string \<Rightarrow> goerr + BinaryInfo" where
  "InspectBinary opened =
     (case opened of Inl err \<Rightarrow> Inl (MsgErr ''open binary'' # err)
      | Inr contents \<Rightarrow>
        if length contents < 64 then
          Inl (MsgErr ''read the ELF header'' # (if contents = [] then endOfFile else [MsgErr ''unexpected EOF'']))
        else
          (let header = take 64 contents;
               machine = littleEndian (bytesAt 18 2 header);
               programHeaderOffset = word_of_nat (littleEndian (bytesAt 32 8 header)) :: 64 word;
               entrySize = word_of_nat (littleEndian (bytesAt 54 2 header)) :: 16 word;
               entryCount = word_of_nat (littleEndian (bytesAt 56 2 header)) :: 16 word
           in if take 4 header \<noteq> CHR 0x7F # ''ELF'' then Inl [MsgErr ''the binary is not an ELF file'']
              else if byte (header ! 4) \<noteq> 2 \<or> byte (header ! 5) \<noteq> 1 then
                Inl [MsgErr ''the binary is not a 64-bit little-endian ELF file'']
              else if machine \<noteq> 62 then
                Inl [MsgErr (''the binary targets machine '' @ formatInt (int machine) @ '' instead of amd64'')]
              else if entrySize < 4 then Inl [MsgErr ''the ELF program header entry size is too small'']
              else headerLoop contents programHeaderOffset entrySize [0..<unat entryCount]
                     \<lparr>biArch = ''amd64'', biStatic = True\<rparr>))"

section \<open>Modules and licenses\<close>

record Module =
  mdPath :: string
  mdVersion :: string

definition moduleOfLine :: "string \<Rightarrow> Module option" where
  "moduleOfLine line =
     (if \<not> hasPrefix line ''# '' then None
      else (let (modl, version) = (case cut (drop 2 line) '' '' of Some (a, b) \<Rightarrow> (a, b) | None \<Rightarrow> (drop 2 line, []))
            in if modl = [] \<or> version = [] then None else Some \<lparr>mdPath = modl, mdVersion = version\<rparr>))"

definition ParseModulesTxt :: "string \<Rightarrow> Module list" where
  "ParseModulesTxt content = List.map_filter moduleOfLine (splitOn lineFeed content)"

definition licenseFileNames :: "string list" where
  "licenseFileNames =
     [''LICENSE'', ''LICENSE.md'', ''LICENSE.txt'', ''LICENSE-MIT'', ''MIT-LICENSE'',
      ''LICENCE'', ''LICENCE.md'', ''LICENCE.txt'', ''COPYING'', ''COPYING.md'', ''COPYING.txt'',
      ''NOTICE'', ''NOTICE.md'', ''NOTICE.txt'']"

record ModuleLicense =
  mlModule :: Module
  mlFiles :: "string list"

text \<open>\<open>isFile\<close>: \<open>os.Stat\<close> succeeds and the path is no directory.\<close>

definition CollectLicenses :: "(string \<Rightarrow> bool) \<Rightarrow> string \<Rightarrow> Module list \<Rightarrow> ModuleLicense list" where
  "CollectLicenses isFile vendorDir modules =
     map (\<lambda>m. \<lparr>mlModule = m,
       mlFiles = filter (\<lambda>name. isFile (pathJoin [pathJoin [vendorDir, mdPath m], name])) licenseFileNames\<rparr>) modules"

fun licenseTexts :: "(string \<Rightarrow> goerr + string) \<Rightarrow> string \<Rightarrow> Module \<Rightarrow> string list \<Rightarrow> string \<Rightarrow> goerr + string" where
  "licenseTexts fileOf vendorDir m [] document = Inr document"
| "licenseTexts fileOf vendorDir m (name # names) document =
     (case fileOf (pathJoin [vendorDir, mdPath m, name]) of
        Inl err \<Rightarrow> Inl (MsgErr (''read the license file of '' @ mdPath m) # err)
      | Inr contents \<Rightarrow>
          licenseTexts fileOf vendorDir m names (document @ ''--- '' @ name @ '' ---'' @ [lineFeed] @ contents @ [lineFeed]))"

fun licenseSections :: "(string \<Rightarrow> goerr + string) \<Rightarrow> string \<Rightarrow> ModuleLicense list \<Rightarrow> string \<Rightarrow> goerr + string" where
  "licenseSections fileOf vendorDir [] document = Inr document"
| "licenseSections fileOf vendorDir (license # rest) document =
     (let m = mlModule license;
          document = document @ ''=== '' @ mdPath m @ '' '' @ mdVersion m @ '' ==='' @ [lineFeed]
      in if mlFiles license = [] then
           licenseSections fileOf vendorDir rest
             (document @ ''No license file was found in the vendored copy.'' @ [lineFeed, lineFeed])
         else (case licenseTexts fileOf vendorDir m (mlFiles license) document of
             Inl err \<Rightarrow> Inl err
           | Inr document \<Rightarrow> licenseSections fileOf vendorDir rest (document @ [lineFeed])))"

definition licensesHead :: string where
  "licensesHead = ''Third-party licenses of gogs-mcp'' @ [lineFeed] @ ''================================='' @ [lineFeed, lineFeed]
     @ ''gogs-mcp vendors every Go dependency it ships. The sections below'' @ [lineFeed]
     @ ''contain the license text of each vendored module.'' @ [lineFeed, lineFeed]"

definition BuildLicensesText :: "(string \<Rightarrow> bool) \<Rightarrow> (string \<Rightarrow> goerr + string) \<Rightarrow> string \<Rightarrow> Module list \<Rightarrow> goerr + string" where
  "BuildLicensesText isFile fileOf vendorDir modules =
     licenseSections fileOf vendorDir (CollectLicenses isFile vendorDir modules) licensesHead"

section \<open>Files of the package\<close>

definition manifestName :: string where "manifestName = ''MANIFEST.sha256''"

record packageWorld =
  pkSHA :: "string \<Rightarrow> string"
  pkRegular :: "string \<Rightarrow> bool"
  pkUnlisted :: "string \<Rightarrow> goerr option"
  pkOpenErr :: "string \<Rightarrow> goerr option"
  pkReadErr :: "string \<Rightarrow> goerr option"
  pkElsewhere :: "string \<Rightarrow> goerr + (goerr + string)"
  pkWriteErr :: "string \<Rightarrow> (goerr \<times> string) option"
  pkWriteElsewhere :: "string \<Rightarrow> goerr option"

text \<open>Opening a path and reading it to its end; \<open>pkElsewhere\<close> answers for a path that is no file of the tree.\<close>

definition openAt :: "packageWorld \<Rightarrow> dirTree \<Rightarrow> string list \<Rightarrow> goerr + (goerr + string)" where
  "openAt w tree parts =
     (let p = joinWith [slash] parts in
      case pkOpenErr w p of Some err \<Rightarrow> Inl err
      | None \<Rightarrow> (case pkReadErr w p of Some err \<Rightarrow> Inr (Inl err)
        | None \<Rightarrow> (case fileAt parts tree of Some d \<Rightarrow> Inr (Inr d) | None \<Rightarrow> pkElsewhere w p)))"

definition FileSHA256 :: "(string \<Rightarrow> string) \<Rightarrow> goerr + (goerr + string) \<Rightarrow> goerr + string" where
  "FileSHA256 sha opened =
     (case opened of Inl err \<Rightarrow> Inl err
      | Inr (Inl err) \<Rightarrow> Inl (MsgErr ''hash the file'' # err)
      | Inr (Inr contents) \<Rightarrow> Inr (sha contents))"

text \<open>\<open>os.WriteFile\<close>: a failing write may leave part of the data; a path above the package is not part of the tree.\<close>

definition writeFileAt :: "packageWorld \<Rightarrow> string list \<Rightarrow> string \<Rightarrow> dirTree \<Rightarrow> (goerr + unit) \<times> dirTree" where
  "writeFileAt w parts d tree =
     (let p = joinWith [slash] parts in
      if parts = [] \<or> hd parts = ''..'' then
        ((case pkWriteElsewhere w p of Some err \<Rightarrow> Inl err | None \<Rightarrow> Inr ()), tree)
      else (case pkWriteErr w p of
          Some (err, written) \<Rightarrow>
            (Inl err, (case Archive.writeBlob parts written tree of Some t \<Rightarrow> t | None \<Rightarrow> tree))
        | None \<Rightarrow> (case Archive.writeBlob parts d tree of
              None \<Rightarrow> (Inl [MsgErr ''not a file of the package''], tree)
            | Some t \<Rightarrow> (Inr (), t))))"

lemma writeFileAt_ok:
  "writeFileAt w parts d tree = (Inr (), t) \<Longrightarrow> parts \<noteq> [] \<Longrightarrow> hd parts \<noteq> ''..'' \<Longrightarrow> Archive.writeBlob parts d tree = Some t"
  by (auto simp: writeFileAt_def Let_def split: option.splits)

section \<open>The package manifest\<close>

text \<open>\<open>filepath.WalkDir\<close>: the calls of the function, an error in place of a directory that cannot be listed.\<close>

fun packageVisits :: "packageWorld \<Rightarrow> string list \<Rightarrow> stree \<Rightarrow> (goerr + string list \<times> bool) list" where
  "packageVisits w parts (Blob d) = [Inr (parts, pkRegular w (joinWith [slash] parts))]"
| "packageVisits w parts (Tree cs) =
     Inr (parts, False) #
     (case pkUnlisted w (joinWith [slash] parts) of Some err \<Rightarrow> [Inl err]
      | None \<Rightarrow> concat (map snd (sortSlice (\<lambda>a b. fst a < fst b)
          (map (\<lambda>c. (fst c, packageVisits w (parts @ [fst c]) (snd c))) cs))))"

fun manifestLoop :: "packageWorld \<Rightarrow> dirTree \<Rightarrow> (goerr + string list \<times> bool) list \<Rightarrow> string list \<Rightarrow> goerr + string list" where
  "manifestLoop w tree [] ls = Inr ls"
| "manifestLoop w tree (Inl err # rest) ls = Inl err"
| "manifestLoop w tree (Inr (parts, regular) # rest) ls =
     (if \<not> regular then manifestLoop w tree rest ls
      else (let relative = joinWith [slash] parts in
        if relative = manifestName then manifestLoop w tree rest ls
        else (case FileSHA256 (pkSHA w) (openAt w tree parts) of
            Inl err \<Rightarrow> Inl err
          | Inr digest \<Rightarrow> manifestLoop w tree rest (ls @ [digest @ ''  '' @ relative]))))"

definition WriteManifest :: "packageWorld \<Rightarrow> dirTree \<Rightarrow> (goerr + unit) \<times> dirTree" where
  "WriteManifest w tree =
     (case manifestLoop w tree (packageVisits w [] (Tree tree)) [] of
        Inl err \<Rightarrow> (Inl (MsgErr ''walk the package tree'' # err), tree)
      | Inr ls \<Rightarrow>
          writeFileAt w [manifestName] (joinWith [lineFeed] ls @ [lineFeed]) tree)"

fun verifyLines :: "packageWorld \<Rightarrow> dirTree \<Rightarrow> string list \<Rightarrow> goerr + unit" where
  "verifyLines w tree [] = Inr ()"
| "verifyLines w tree (line # rest) =
     (case cut line ''  '' of
        None \<Rightarrow> Inl [MsgErr ''malformed manifest line %q'']
      | Some (digest, p) \<Rightarrow>
          if digest = [] \<or> p = [] then Inl [MsgErr ''malformed manifest line %q'']
          else (case FileSHA256 (pkSHA w) (openAt w tree (cleanComps False p)) of
              Inl err \<Rightarrow> Inl (MsgErr (''the packaged file '' @ p @ '' is missing or unreadable'') # err)
            | Inr actual \<Rightarrow>
                if actual \<noteq> digest
                then Inl [MsgErr (''the packaged file '' @ p @ '' does not match its SHA-256 digest'')]
                else verifyLines w tree rest))"

definition VerifyManifest :: "packageWorld \<Rightarrow> dirTree \<Rightarrow> goerr + unit" where
  "VerifyManifest w tree =
     (case openAt w tree [manifestName] of
        Inl err \<Rightarrow> Inl (MsgErr ''read the package manifest'' # err)
      | Inr (Inl err) \<Rightarrow> Inl (MsgErr ''read the package manifest'' # err)
      | Inr (Inr contents) \<Rightarrow> verifyLines w tree (splitOn lineFeed (trimSpace contents)))"


subsection \<open>What the manifest records\<close>

definition recorded :: "(goerr + string list \<times> bool) list \<Rightarrow> string list list" where
  "recorded events = filter (\<lambda>q. joinWith [slash] q \<noteq> manifestName)
     (List.map_filter (\<lambda>event. case event of Inr (q, True) \<Rightarrow> Some q | _ \<Rightarrow> None) events)"

definition manifestLine :: "packageWorld \<Rightarrow> dirTree \<Rightarrow> string list \<Rightarrow> string" where
  "manifestLine w tree q = pkSHA w (the (fileAt q tree)) @ ''  '' @ joinWith [slash] q"

definition leafAt :: "string list \<Rightarrow> stree \<Rightarrow> string option" where
  "leafAt q t = (case t of Blob d \<Rightarrow> (if q = [] then Some d else None) | Tree cs \<Rightarrow> fileAt q cs)"

lemma recorded_simps [simp]:
  "recorded [] = []"
  "recorded (Inl err # rest) = recorded rest"
  "recorded (Inr (q, False) # rest) = recorded rest"
  "recorded (Inr (q, True) # rest) =
     (if joinWith [slash] q = manifestName then recorded rest else q # recorded rest)"
  by (simp_all add: recorded_def List.map_filter_def)

lemma event_cases:
  obtains err where "event = Inl err" | q where "event = Inr (q, False)" | q where "event = Inr (q, True)"
proof (cases event)
  case (Inr x)
  with that show thesis by (cases x; cases "snd x") auto
qed (rule that)

lemma set_recorded: "q \<in> set (recorded events) \<longleftrightarrow> Inr (q, True) \<in> set events \<and> joinWith [slash] q \<noteq> manifestName"
proof (induction events)
  case (Cons event events)
  then show ?case by (cases event rule: event_cases) auto
qed simp

text \<open>A successful walk met no error, and the walk of a tree meets exactly its files.\<close>

lemma fileAt_step: "fileAt (a # p) cs = Option.bind (map_of cs a) (leafAt p)"
  by (auto simp: fileAt_Cons leafAt_def split: option.splits stree.splits)

lemma fileAt_leaf:
  assumes "distinct (map fst cs)"
  shows "fileAt q cs = Some d \<longleftrightarrow> (\<exists>c \<in> set cs. \<exists>p. q = fst c # p \<and> leafAt p (snd c) = Some d)"
proof (cases q)
  case (Cons a p)
  have at: "map_of cs a = Some t \<longleftrightarrow> (a, t) \<in> set cs" for t using assms by (rule map_of_eq_Some_iff)
  have "Option.bind (map_of cs a) (leafAt p) = Some d \<longleftrightarrow> (\<exists>t. (a, t) \<in> set cs \<and> leafAt p t = Some d)"
    unfolding at [symmetric] by (cases "map_of cs a") auto
  also have "\<dots> \<longleftrightarrow> (\<exists>c \<in> set cs. \<exists>p'. q = fst c # p' \<and> leafAt p' (snd c) = Some d)"
    unfolding Cons by force
  finally show ?thesis unfolding Cons fileAt_step .
qed simp

lemma packageVisits_files:
  "wfTree t \<Longrightarrow> \<forall>err. Inl err \<notin> set (packageVisits w parts t) \<Longrightarrow>
   Inr (q, True) \<in> set (packageVisits w parts t) \<longleftrightarrow>
     pkRegular w (joinWith [slash] q) \<and> (\<exists>p d. q = parts @ p \<and> leafAt p t = Some d)"
proof (induction w parts t arbitrary: q rule: packageVisits.induct)
  case (1 w parts d)
  then show ?case by (auto simp: leafAt_def)
next
  case (2 w parts cs)
  have listed: "pkUnlisted w (joinWith [slash] parts) = None"
    using 2(3) by (auto split: option.splits)
  have none: "\<forall>err. Inl err \<notin> set (packageVisits w (parts @ [fst c]) (snd c))" if "c \<in> set cs" for c
    using 2(3) that listed by auto
  have each: "Inr (q, True) \<in> set (packageVisits w (parts @ [fst c]) (snd c)) \<longleftrightarrow>
      pkRegular w (joinWith [slash] q) \<and> (\<exists>p d. q = (parts @ [fst c]) @ p \<and> leafAt p (snd c) = Some d)"
    if "c \<in> set cs" for c
    using 2(2) that by (intro 2(1) [OF listed that _ none [OF that]]) auto
  have "Inr (q, True) \<in> set (packageVisits w parts (Tree cs)) \<longleftrightarrow>
      (\<exists>c \<in> set cs. Inr (q, True) \<in> set (packageVisits w (parts @ [fst c]) (snd c)))"
    using listed by (auto simp: image_iff)
  also have "\<dots> \<longleftrightarrow> pkRegular w (joinWith [slash] q) \<and>
      (\<exists>p d. q = parts @ p \<and> (\<exists>c \<in> set cs. \<exists>p'. p = fst c # p' \<and> leafAt p' (snd c) = Some d))"
    using each by auto
  finally show ?case
    using 2(2) by (simp add: leafAt_def fileAt_leaf)
qed

lemma openAt_file: "fileAt q tree = Some d \<Longrightarrow> FileSHA256 sha (openAt w tree q) = Inr digest \<Longrightarrow> digest = sha d"
  by (auto simp: openAt_def FileSHA256_def Let_def split: option.splits)

lemma manifestLoop_lines:
  "manifestLoop w tree events ls = Inr out \<Longrightarrow> \<forall>q \<in> set (recorded events). fileAt q tree \<noteq> None \<Longrightarrow>
   (\<forall>err. Inl err \<notin> set events) \<and> out = ls @ map (manifestLine w tree) (recorded events)"
proof (induction events arbitrary: ls)
  case (Cons event events)
  show ?case
  proof (cases event rule: event_cases)
    case (3 q)
    show ?thesis
    proof (cases "joinWith [slash] q = manifestName")
      case True
      with 3 Cons show ?thesis by (simp add: Let_def)
    next
      case False
      with 3 Cons.prems(1) obtain digest where digest: "FileSHA256 (pkSHA w) (openAt w tree q) = Inr digest"
        "manifestLoop w tree events (ls @ [digest @ ''  '' @ joinWith [slash] q]) = Inr out"
        by (auto simp: Let_def split: sum.splits)
      from 3 False Cons.prems(2) obtain d where d: "fileAt q tree = Some d" by auto
      have "digest @ ''  '' @ joinWith [slash] q = manifestLine w tree q"
        using openAt_file [OF d digest(1)] d by (simp add: manifestLine_def)
      with Cons.IH [OF digest(2)] 3 False Cons.prems(2) show ?thesis by simp
    qed
  qed (use Cons in auto)
qed simp

subsection \<open>Reading it back\<close>

definition hexDigits :: string where "hexDigits = ''0123456789abcdef''"

definition plainName :: "string \<Rightarrow> bool" where
  "plainName n \<longleftrightarrow> normalComp n \<and> lineFeed \<notin> set n \<and> list_all (\<lambda>sp. \<not> hasSuffix n sp) goSpaces"

fun plainTree :: "stree \<Rightarrow> bool" where
  "plainTree (Blob d) \<longleftrightarrow> True"
| "plainTree (Tree cs) \<longleftrightarrow> (\<forall>c \<in> set cs. plainName (fst c) \<and> plainTree (snd c))"

lemma leafAt_plain: "plainTree t \<Longrightarrow> leafAt p t = Some d \<Longrightarrow> list_all plainName p"
proof (induction t arbitrary: p)
  case (Blob b)
  then show ?case by (auto simp: leafAt_def split: if_splits)
next
  case (Tree cs)
  show ?case
  proof (cases p)
    case (Cons a q)
    with Tree.prems(2) obtain t where t: "map_of cs a = Some t" "leafAt q t = Some d"
      by (auto simp: leafAt_def fileAt_Cons split: option.splits stree.splits)
    from map_of_SomeD [OF t(1)] have "(a, t) \<in> set cs" .
    moreover from this have "list_all plainName q"
      using Tree.prems(1) t(2) by (intro Tree.IH [of "(a, t)" t]) auto
    ultimately show ?thesis using Tree.prems(1) Cons by auto
  qed simp
qed

lemma cut_at:
  assumes "CHR '' '' \<notin> set digest"
  shows "cut (digest @ ''  '' @ p) ''  '' = Some (digest, p)"
proof -
  have "indexOf (digest @ ''  '' @ p) ''  '' = Some (length digest)"
    using assms by (induction digest) (auto simp: hasPrefix_def)
  then show ?thesis by (simp add: cut_def)
qed

lemma hasSuffix_after:
  assumes "x \<notin> set sp" "\<not> hasSuffix n sp"
  shows "\<not> hasSuffix (a @ x # n) sp"
proof
  assume "hasSuffix (a @ x # n) sp"
  then obtain s where s: "a @ x # n = s @ sp" by (auto simp: hasSuffix_iff)
  then show False
    using assms by (auto simp: append_eq_append_conv2 hasSuffix_iff append_eq_Cons_conv Cons_eq_append_conv)
qed


lemma trimSpace_document:
  assumes "s \<noteq> []" "hd s \<in> set hexDigits" "list_all (\<lambda>sp. \<not> hasSuffix s sp) goSpaces"
  shows "trimSpace (s @ [lineFeed]) = s"
proof -
  obtain a r where s: "s = a # r" "a \<in> set hexDigits" using assms(1,2) by (cases s) auto
  have "\<not> hasPrefix (s @ [lineFeed]) sp" if "sp \<in> set goSpaces" for sp
    using that s(2) unfolding s(1) by (auto simp: goSpaces_def hexDigits_def hasPrefix_def)
  then have left: "trimLeft goSpaces (s @ [lineFeed]) = s @ [lineFeed]"
    by (subst trimLeft.simps) (auto simp: find_Some_iff split: option.splits)
  have "List.find (\<lambda>sp. 0 < length sp \<and> hasSuffix (s @ [lineFeed]) sp) goSpaces = Some [lineFeed]"
    by (simp add: goSpaces_def hasSuffix_def lineFeed_def)
  moreover have "List.find (\<lambda>sp. 0 < length sp \<and> hasSuffix s sp) goSpaces = None"
    using assms(3) by (auto simp: find_None_iff list_all_iff)
  ultimately have "trimRight goSpaces (s @ [lineFeed]) = s"
    by (subst trimRight.simps) (simp, subst trimRight.simps, simp)
  with left show ?thesis by (simp add: trimSpace_def)
qed

definition plainPath :: "string list \<Rightarrow> bool" where
  "plainPath q \<longleftrightarrow> q \<noteq> [] \<and> list_all plainName q"

definition hexSHA :: "(string \<Rightarrow> string) \<Rightarrow> bool" where
  "hexSHA sha \<longleftrightarrow> (\<forall>d. sha d \<noteq> [] \<and> set (sha d) \<subseteq> set hexDigits)"

lemma hexSHA_plain: "hexSHA sha \<Longrightarrow> CHR '' '' \<notin> set (sha d) \<and> lineFeed \<notin> set (sha d)"
  by (auto simp: hexSHA_def hexDigits_def lineFeed_def dest!: spec [of _ d])

lemma plainPath_normal: "plainPath q \<Longrightarrow> list_all normalComp q"
  by (auto simp: plainPath_def plainName_def list_all_iff)

lemma set_joinWith: "set (joinWith sep ps) \<subseteq> set sep \<union> \<Union> (set ` set ps)"
  by (induction sep ps rule: joinWith.induct) auto

lemma space_shape: "sp \<in> set goSpaces \<Longrightarrow> slash \<notin> set sp \<and> (sp = '' '' \<or> CHR '' '' \<notin> set sp)"
  by (auto simp: goSpaces_def slash_def)

lemma plainPath_suffix:
  assumes "plainPath q" "sp \<in> set goSpaces"
  shows "\<not> hasSuffix (joinWith [slash] q) sp"
  using assms(1)
proof (induction q rule: rev_induct)
  case (snoc n q)
  have n: "\<not> hasSuffix n sp" using snoc.prems assms(2) by (auto simp: plainPath_def plainName_def list_all_iff)
  show ?case
  proof (cases "q = []")
    case False
    then have "joinWith [slash] (q @ [n]) = joinWith [slash] q @ slash # n" by (simp add: joinWith_append)
    then show ?thesis using hasSuffix_after [OF conjunct1 [OF space_shape [OF assms(2)]] n] by simp
  qed (use n in simp)
qed (simp add: plainPath_def)

lemma joined_path:
  assumes "plainPath q"
  shows "joinWith [slash] q \<noteq> []" "lineFeed \<notin> set (joinWith [slash] q)"
    "cleanComps False (joinWith [slash] q) = q"
proof -
  have "q \<noteq> [[]]" using assms by (auto simp: plainPath_def plainName_def normalComp_def)
  then show "joinWith [slash] q \<noteq> []" using assms by (auto simp: joinWith_eq_Nil plainPath_def)
  show "lineFeed \<notin> set (joinWith [slash] q)"
    using subsetD [OF set_joinWith, of lineFeed "[slash]" q] assms
    by (auto simp: plainPath_def plainName_def list_all_iff lineFeed_def slash_def)
  show "cleanComps False (joinWith [slash] q) = q"
    using assms by (intro cleanComps_normal plainPath_normal) (simp_all add: plainPath_def)
qed

lemma after_space:
  assumes "plainPath q" "sp \<in> set goSpaces"
  shows "\<not> hasSuffix (a @ CHR '' '' # joinWith [slash] q) sp"
proof (cases "sp = '' ''")
  case False
  with space_shape [OF assms(2)] have "CHR '' '' \<notin> set sp" by blast
  from hasSuffix_after [OF this plainPath_suffix [OF assms]] show ?thesis .
next
  case True
  with plainPath_suffix [OF assms] joined_path(1) [OF assms(1)] show ?thesis
    by (cases "joinWith [slash] q" rule: rev_cases) (auto simp: hasSuffix_iff)
qed

lemma manifestLine_plain:
  assumes "hexSHA (pkSHA w)" "plainPath q"
  shows "lineFeed \<notin> set (manifestLine w tree q)"
    "cut (manifestLine w tree q) ''  '' = Some (pkSHA w (the (fileAt q tree)), joinWith [slash] q)"
proof -
  note hex = hexSHA_plain [OF assms(1), of "the (fileAt q tree)"]
  show "lineFeed \<notin> set (manifestLine w tree q)"
    using hex joined_path(2) [OF assms(2)] by (auto simp: manifestLine_def lineFeed_def)
  show "cut (manifestLine w tree q) ''  '' = Some (pkSHA w (the (fileAt q tree)), joinWith [slash] q)"
    unfolding manifestLine_def using hex by (intro cut_at) simp
qed

lemma verifyLines_all:
  assumes "hexSHA (pkSHA w)" "\<And>q. q \<in> set qs \<Longrightarrow> plainPath q" "pkSHA w' = pkSHA w"
  shows "verifyLines w' now (map (manifestLine w tree) qs) = Inr () \<longleftrightarrow>
    (\<forall>q \<in> set qs. FileSHA256 (pkSHA w) (openAt w' now q) = Inr (pkSHA w (the (fileAt q tree))))"
  using assms(2)
proof (induction qs)
  case (Cons q qs)
  have q: "plainPath q" using Cons.prems by simp
  have "pkSHA w (the (fileAt q tree)) \<noteq> []" using assms(1) by (simp add: hexSHA_def)
  with Cons q assms(1,3) show ?case
    by (auto simp: manifestLine_plain(2) joined_path split: sum.splits)
qed simp

lemma document_roundtrip:
  assumes "hexSHA (pkSHA w)" "\<And>q. q \<in> set qs \<Longrightarrow> plainPath q" "qs \<noteq> []"
  shows "splitOn lineFeed (trimSpace (joinWith [lineFeed] (map (manifestLine w tree) qs) @ [lineFeed])) =
    map (manifestLine w tree) qs"
proof -
  let ?ls = "map (manifestLine w tree) qs"
  obtain q0 qs0 where q0: "qs = q0 # qs0" using assms(3) by (cases qs) auto
  have sha: "pkSHA w d \<noteq> []" "hd (pkSHA w d) \<in> set hexDigits" for d
    using assms(1) hd_in_set unfolding hexSHA_def by blast+
  then have line: "manifestLine w tree q \<noteq> []" "hd (manifestLine w tree q) \<in> set hexDigits" for q
    by (simp_all add: manifestLine_def)
  have hd: "joinWith [lineFeed] ?ls \<noteq> []" "hd (joinWith [lineFeed] ?ls) \<in> set hexDigits"
    using line [of q0] unfolding q0 by (cases qs0; simp add: joinWith_Cons)+
  have "\<not> hasSuffix (joinWith [lineFeed] ?ls) sp" if sp: "sp \<in> set goSpaces" for sp
  proof -
    obtain q qs1 where q: "qs = qs1 @ [q]" using assms(3) by (cases qs rule: rev_cases) auto
    have plain: "plainPath q" using assms(2) q by simp
    let ?front = "(if qs1 = [] then [] else joinWith [lineFeed] (map (manifestLine w tree) qs1) @ [lineFeed]) @
        pkSHA w (the (fileAt q tree)) @ '' ''"
    have split: "joinWith [lineFeed] ?ls = ?front @ CHR '' '' # joinWith [slash] q"
      unfolding q by (cases "qs1 = []") (simp_all add: joinWith_append manifestLine_def)
    show ?thesis unfolding split by (rule after_space [OF plain sp])
  qed
  then have "trimSpace (joinWith [lineFeed] ?ls @ [lineFeed]) = joinWith [lineFeed] ?ls"
    using hd by (intro trimSpace_document) (auto simp: list_all_iff)
  then show ?thesis
    using assms by (auto intro!: split_join simp: manifestLine_plain(1))
qed


definition packaged :: "packageWorld \<Rightarrow> dirTree \<Rightarrow> string list \<Rightarrow> string \<Rightarrow> bool" where
  "packaged w tree q d \<longleftrightarrow>
     fileAt q tree = Some d \<and> pkRegular w (joinWith [slash] q) \<and> joinWith [slash] q \<noteq> manifestName"

lemma manifestLoop_readable:
  "manifestLoop w tree events ls = Inr out \<Longrightarrow> q \<in> set (recorded events) \<Longrightarrow>
   \<exists>digest. FileSHA256 (pkSHA w) (openAt w tree q) = Inr digest"
proof (induction events arbitrary: ls)
  case (Cons event events)
  then show ?case
    by (cases event rule: event_cases) (auto simp: Let_def split: if_splits sum.splits)
qed simp

lemma WriteManifest_document:
  assumes "wfDir tree" "WriteManifest w tree = (Inr (), t1)"
  obtains qs where "\<And>q. q \<in> set qs \<longleftrightarrow> (\<exists>d. packaged w tree q d)"
    "\<And>q. fileAt q t1 = (if q = [manifestName]
       then Some (joinWith [lineFeed] (map (manifestLine w tree) qs) @ [lineFeed]) else fileAt q tree)"
    "\<And>q. q \<in> set qs \<Longrightarrow> \<exists>digest. FileSHA256 (pkSHA w) (openAt w tree q) = Inr digest"
proof -
  let ?events = "packageVisits w [] (Tree tree)"
  obtain ls where ls: "manifestLoop w tree ?events [] = Inr ls"
    and t1: "Archive.writeBlob [manifestName] (joinWith [lineFeed] ls @ [lineFeed]) tree = Some t1"
    using assms(2) unfolding WriteManifest_def
    by (cases "manifestLoop w tree ?events []") (auto simp: manifestName_def dest!: writeFileAt_ok)
  have errs: "\<forall>err. Inl err \<notin> set ?events"
    using ls
  proof (rule contrapos_pp)
    have "manifestLoop w tree events out = Inr ls \<Longrightarrow> Inl err \<notin> set events" for events out err
      by (induction w tree events out rule: manifestLoop.induct)
        (auto simp: Let_def split: if_splits sum.splits)
    then show "\<not> (\<forall>err. Inl err \<notin> set ?events) \<Longrightarrow> manifestLoop w tree ?events [] \<noteq> Inr ls" by blast
  qed
  have files: "q \<in> set (recorded ?events) \<longleftrightarrow> (\<exists>d. packaged w tree q d)" for q
    using packageVisits_files [OF _ errs] assms(1)
    by (auto simp: set_recorded packaged_def wfDir_def leafAt_def simp del: packageVisits.simps)
  then have "\<forall>q \<in> set (recorded ?events). fileAt q tree \<noteq> None" by (auto simp: packaged_def)
  with manifestLoop_lines [OF ls] have "ls = map (manifestLine w tree) (recorded ?events)" by simp
  with fileAt_writeBlob [OF t1] manifestLoop_readable [OF ls] show thesis by (intro that [OF files]) simp_all
qed

definition plainFiles :: "dirTree \<Rightarrow> bool" where
  "plainFiles tree \<longleftrightarrow> (\<forall>q d. fileAt q tree = Some d \<longrightarrow> list_all plainName q)"

lemma plainTree_files: "plainTree (Tree tree) \<Longrightarrow> plainFiles tree"
  using leafAt_plain [of "Tree tree"] by (auto simp: plainFiles_def leafAt_def)

lemma manifest_exact:
  assumes "wfDir tree" "plainFiles tree" "hexSHA (pkSHA w)" "packaged w tree some_file some_contents"
    and written: "WriteManifest w tree = (Inr (), t1)" "fileAt [manifestName] t1 = Some document"
    and later: "pkSHA w' = pkSHA w" "openAt w' now [manifestName] = Inr (Inr document)"
  shows "VerifyManifest w' now = Inr () \<longleftrightarrow>
    (\<forall>q d. packaged w tree q d \<longrightarrow> FileSHA256 (pkSHA w) (openAt w' now q) = Inr (pkSHA w d))"
proof -
  obtain qs where qs: "\<And>q. q \<in> set qs \<longleftrightarrow> (\<exists>d. packaged w tree q d)"
    and doc: "document = joinWith [lineFeed] (map (manifestLine w tree) qs) @ [lineFeed]"
    using WriteManifest_document [OF assms(1) written(1)] written(2) by (metis option.inject)
  have plain: "plainPath q" if "q \<in> set qs" for q
  proof -
    from that qs obtain d where "fileAt q tree = Some d" by (auto simp: packaged_def)
    with assms(2) show ?thesis by (cases q) (auto simp: plainFiles_def plainPath_def)
  qed
  have "qs \<noteq> []" using qs [of some_file] assms(4) by auto
  then have "VerifyManifest w' now = Inr () \<longleftrightarrow>
      (\<forall>q \<in> set qs. FileSHA256 (pkSHA w) (openAt w' now q) = Inr (pkSHA w (the (fileAt q tree))))"
    using later unfolding VerifyManifest_def doc
    by (simp add: document_roundtrip [OF assms(3) plain] verifyLines_all [OF assms(3) plain])
  also have "\<dots> \<longleftrightarrow> (\<forall>q d. packaged w tree q d \<longrightarrow> FileSHA256 (pkSHA w) (openAt w' now q) = Inr (pkSHA w d))"
    unfolding Ball_def qs by (metis option.sel packaged_def)
  finally show ?thesis .
qed

text \<open>C12: 
  A written manifest vouches for its package: verifying it later, on whatever the directory has become, succeeds
  exactly when every regular file that was packaged still reads with the digest it had.
\<close>

theorem manifest_verifies_exactly:
  assumes "wfDir tree" "plainTree (Tree tree)" "hexSHA (pkSHA w)" "packaged w tree some_file some_contents"
    and written: "WriteManifest w tree = (Inr (), t1)" "fileAt [manifestName] t1 = Some document"
    and later: "pkSHA w' = pkSHA w" "openAt w' now [manifestName] = Inr (Inr document)"
  shows "VerifyManifest w' now = Inr () \<longleftrightarrow>
    (\<forall>q d. packaged w tree q d \<longrightarrow> FileSHA256 (pkSHA w) (openAt w' now q) = Inr (pkSHA w d))"
  using assms by (intro manifest_exact plainTree_files)

text \<open>In particular the manifest that was just written verifies.\<close>

lemma manifest_fresh:
  assumes "wfDir tree" "plainFiles tree" "hexSHA (pkSHA w)" "packaged w tree some_file some_contents"
    and written: "WriteManifest w tree = (Inr (), t1)"
    and readable: "pkOpenErr w manifestName = None" "pkReadErr w manifestName = None"
  shows "VerifyManifest w t1 = Inr ()" "\<And>q. q \<noteq> [manifestName] \<Longrightarrow> fileAt q t1 = fileAt q tree"
proof -
  obtain qs where qs: "\<And>q. q \<in> set qs \<longleftrightarrow> (\<exists>d. packaged w tree q d)"
    and t1: "\<And>q. fileAt q t1 = (if q = [manifestName]
       then Some (joinWith [lineFeed] (map (manifestLine w tree) qs) @ [lineFeed]) else fileAt q tree)"
    and read: "\<And>q. q \<in> set qs \<Longrightarrow> \<exists>digest. FileSHA256 (pkSHA w) (openAt w tree q) = Inr digest"
    using WriteManifest_document [OF assms(1) written] by metis
  show "\<And>q. q \<noteq> [manifestName] \<Longrightarrow> fileAt q t1 = fileAt q tree" using t1 by simp
  have "FileSHA256 (pkSHA w) (openAt w t1 q) = Inr (pkSHA w d)" if "packaged w tree q d" for q d
  proof -
    from that have d: "fileAt q tree = Some d" "q \<noteq> [manifestName]" by (auto simp: packaged_def)
    then have "fileAt q t1 = fileAt q tree" using t1 [of q] by simp
    then have "openAt w t1 q = openAt w tree q" by (simp only: openAt_def)
    with read [of q] that qs openAt_file [OF d(1)] show ?thesis by metis
  qed
  moreover have "openAt w t1 [manifestName] =
      Inr (Inr (joinWith [lineFeed] (map (manifestLine w tree) qs) @ [lineFeed]))"
    using t1 readable by (simp add: openAt_def)
  ultimately show "VerifyManifest w t1 = Inr ()"
    using manifest_exact [OF assms(1-4) written] t1 by auto
qed

definition sampleWorld :: packageWorld where
  "sampleWorld = \<lparr>pkSHA = (\<lambda>d. if d = ''elf'' then ''0a'' else ''ff''), pkRegular = (\<lambda>p. p \<noteq> ''latest''),
     pkUnlisted = (\<lambda>_. None), pkOpenErr = (\<lambda>_. None), pkReadErr = (\<lambda>_. None),
     pkElsewhere = (\<lambda>_. Inl [MsgErr ''no such file'']), pkWriteErr = (\<lambda>_. None),
     pkWriteElsewhere = (\<lambda>_. None)\<rparr>"

lemma sample_hex: "hexSHA (pkSHA sampleWorld)"
  by (simp add: hexSHA_def sampleWorld_def hexDigits_def)

definition samplePackage :: dirTree where
  "samplePackage = [(''SBOM.cdx.json'', Blob ''{}''), (''bin'', Tree [(''gogs-mcp'', Blob ''elf'')]),
     (''latest'', Blob ''elf'')]"

definition sampleDocument :: string where
  "sampleDocument = ''ff  SBOM.cdx.json'' @ [lineFeed] @ ''0a  bin/gogs-mcp'' @ [lineFeed]"

theorem manifest_verifies_exactly_witness:
  "VerifyManifest sampleWorld (AList.update manifestName (Blob sampleDocument) samplePackage) = Inr () \<longleftrightarrow>
    (\<forall>q d. packaged sampleWorld samplePackage q d \<longrightarrow>
      FileSHA256 (pkSHA sampleWorld)
        (openAt sampleWorld (AList.update manifestName (Blob sampleDocument) samplePackage) q) = Inr (pkSHA sampleWorld d))"
proof (rule manifest_verifies_exactly)
  show "wfDir samplePackage" by (simp add: samplePackage_def wfDir_def)
  show "plainTree (Tree samplePackage)"
    by (simp add: samplePackage_def plainName_def normalComp_def slash_def lineFeed_def goSpaces_def hasSuffix_def)
  show "hexSHA (pkSHA sampleWorld)" by (rule sample_hex)
  show "packaged sampleWorld samplePackage [''bin'', ''gogs-mcp''] ''elf''"
    by (simp add: packaged_def samplePackage_def sampleWorld_def slash_def manifestName_def)
  show "WriteManifest sampleWorld samplePackage =
      (Inr (), AList.update manifestName (Blob sampleDocument) samplePackage)" by code_simp
  show "openAt sampleWorld (AList.update manifestName (Blob sampleDocument) samplePackage) [manifestName] =
      Inr (Inr sampleDocument)" by code_simp
qed (simp_all add: update_conv)


section \<open>What \<open>InspectBinary\<close> accepts\<close>

definition elfField :: "string \<Rightarrow> nat \<Rightarrow> nat \<Rightarrow> nat" where
  "elfField contents start n = littleEndian (bytesAt start n contents)"

definition elf64 :: "string \<Rightarrow> bool" where
  "elf64 contents \<longleftrightarrow> 64 \<le> length contents \<and> take 4 contents = CHR 0x7F # ''ELF'' \<and>
     byte (contents ! 4) = 2 \<and> byte (contents ! 5) = 1 \<and> elfField contents 18 2 = 62 \<and> 4 \<le> elfField contents 54 2"

definition segmentAt :: "string \<Rightarrow> nat \<Rightarrow> nat" where
  "segmentAt contents i = elfField contents 32 8 + i * elfField contents 54 2"

definition segmentCount :: "string \<Rightarrow> nat" where
  "segmentCount contents = elfField contents 56 2"

lemma byte_bound: "byte c < 256"
  unfolding byte_def by (rule nat_of_char_less_256)

lemma littleEndian_bound: "littleEndian s < 256 ^ length s"
proof (induction s)
  case (Cons b s)
  have "byte b + 256 * littleEndian s < 256 * (littleEndian s + 1)" using byte_bound [of b] by simp
  also have "\<dots> \<le> 256 * 256 ^ length s" using Cons.IH by (intro mult_le_mono) simp_all
  finally show ?case by simp
qed simp

lemma elfField_bound: "elfField contents start n < 256 ^ n"
proof -
  have "elfField contents start n < 256 ^ length (bytesAt start n contents)"
    unfolding elfField_def by (rule littleEndian_bound)
  also have "\<dots> \<le> 256 ^ n" by (rule power_increasing) (simp_all add: bytesAt_def)
  finally show ?thesis .
qed

lemma headerField: "start + n \<le> 64 \<Longrightarrow> elfField (take 64 contents) start n = elfField contents start n"
  by (simp add: elfField_def bytesAt_def drop_take min_def)

lemma sint_nat:
  assumes "n < 2 ^ 64"
  shows "sint (word_of_nat n :: 64 word) = (if n < 2 ^ 63 then int n else int n - 2 ^ 64)"
proof -
  have "n div 2 ^ 63 < 2" using assms by (intro less_mult_imp_div_less) simp
  moreover have "odd k \<longleftrightarrow> k \<noteq> 0" if "k < 2" for k :: nat using that by (auto simp: less_2_cases_iff)
  ultimately have "odd (n div 2 ^ 63) \<longleftrightarrow> n div 2 ^ 63 \<noteq> 0" by blast
  then have "bit n 63 \<longleftrightarrow> \<not> n < 2 ^ 63" by (simp add: bit_iff_odd div_eq_0_iff)
  moreover have "sint (word_of_nat n :: 64 word) = int n - 2 ^ 64 * of_bool (bit n 63)"
    using assms by (simp add: signed_of_nat signed_take_bit_eq_take_bit_minus take_bit_int_eq_self bit_of_nat_iff_bit)
  ultimately show ?thesis by simp
qed

lemma headerLoop_exact:
  "headerLoop contents start entrySize indices info = Inr out \<longleftrightarrow>
     (\<forall>i \<in> set indices. 0 \<le> sint (start + word_of_nat i * ucast entrySize) \<and>
        sint (start + word_of_nat i * ucast entrySize) + 4 \<le> int (length contents)) \<and>
     out = info\<lparr>biStatic := biStatic info \<and>
       (\<forall>i \<in> set indices. elfField contents (nat (sint (start + word_of_nat i * ucast entrySize))) 4 \<noteq> 3)\<rparr>"
proof (induction indices arbitrary: info)
  case (Cons i indices)
  show ?case
    by (auto simp: readAt_def elfField_def Cons.IH split: sum.splits if_splits)
qed (simp, rule eq_commute)


text \<open>
  As long as every read succeeds the 64-bit offsets have not wrapped around: an offset of 2^63 or more is negative
  at its first use, and from a smaller one the sum stays below 2^64.
\<close>

lemma segment_small:
  assumes "i < 2 ^ 16" "elfField contents 32 8 < 2 ^ 63"
  shows "segmentAt contents i < 2 ^ 64"
proof -
  have "i * elfField contents 54 2 \<le> 2 ^ 16 * 2 ^ 16"
    using assms(1) elfField_bound [of contents 54 2] by (intro mult_le_mono) simp_all
  then show ?thesis using assms(2) by (simp add: segmentAt_def)
qed

lemma segment_position:
  fixes contents :: string
  defines "start \<equiv> word_of_nat (elfField contents 32 8) :: 64 word"
    and "entrySize \<equiv> word_of_nat (elfField contents 54 2) :: 16 word"
  assumes "i < 2 ^ 16" "elfField contents 32 8 < 2 ^ 63"
  shows "sint (start + word_of_nat i * ucast entrySize) =
    (if segmentAt contents i < 2 ^ 63 then int (segmentAt contents i) else int (segmentAt contents i) - 2 ^ 64)"
proof -
  have size: "elfField contents 54 2 < 2 ^ 16" using elfField_bound [of contents 54 2] by simp
  have "ucast entrySize = (word_of_nat (elfField contents 54 2) :: 64 word)"
    unfolding entrySize_def using size by (simp add: unsigned_of_nat take_bit_nat_eq_self)
  then have "start + word_of_nat i * ucast entrySize = word_of_nat (segmentAt contents i)"
    by (simp add: start_def segmentAt_def)
  then show ?thesis using sint_nat [OF segment_small [OF assms(3,4)]] by simp
qed

lemma InspectBinary_loop:
  "InspectBinary (Inr contents) = Inr info \<longleftrightarrow> elf64 contents \<and>
     headerLoop contents (word_of_nat (elfField contents 32 8)) (word_of_nat (elfField contents 54 2))
       [0..<segmentCount contents] \<lparr>biArch = ''amd64'', biStatic = True\<rparr> = Inr info"
proof (cases "length contents < 64")
  case False
  have bound: "elfField contents start 2 < 2 ^ 16" for start using elfField_bound [of contents start 2] by simp
  have entry: "(word_of_nat (elfField contents 54 2) :: 16 word) < 4 \<longleftrightarrow> elfField contents 54 2 < 4"
    using bound [of 54] by (simp add: word_less_nat_alt unsigned_of_nat take_bit_nat_eq_self)
  have counted: "unat (word_of_nat (elfField contents 56 2) :: 16 word) = segmentCount contents"
    using bound [of 56] by (simp add: segmentCount_def unsigned_of_nat take_bit_nat_eq_self)
  show ?thesis
    using False
    by (simp add: InspectBinary_def Let_def flip: elfField_def)
      (auto simp: headerField elf64_def entry counted not_less)
qed (simp add: InspectBinary_def elf64_def)

lemma InspectBinary_arch: "InspectBinary (Inr contents) = Inr info \<Longrightarrow> biArch info = ''amd64''"
  by (simp add: InspectBinary_loop headerLoop_exact)

text \<open>C16: 
  A binary is accepted exactly when its header is that of a 64-bit little-endian amd64 program and all its program
  headers lie in the file, and then it is static exactly when no program header asks for an interpreter.
\<close>

theorem binary_inspected_exactly:
  assumes "length contents < 2 ^ 63"
  shows "InspectBinary (Inr contents) = Inr info \<longleftrightarrow>
    elf64 contents \<and> (\<forall>i < segmentCount contents. segmentAt contents i + 4 \<le> length contents) \<and>
    info = \<lparr>biArch = ''amd64'',
      biStatic = (\<forall>i < segmentCount contents. elfField contents (segmentAt contents i) 4 \<noteq> 3)\<rparr>"
proof -
  define start where "start = (word_of_nat (elfField contents 32 8) :: 64 word)"
  define entrySize where "entrySize = (word_of_nat (elfField contents 54 2) :: 16 word)"
  define at where "at i = sint (start + word_of_nat i * ucast entrySize)" for i
  let ?n = "segmentCount contents"
  let ?fits = "\<forall>i < ?n. 0 \<le> at i \<and> at i + 4 \<le> int (length contents)"
  have small: "?n < 2 ^ 16" using elfField_bound [of contents 56 2] by (simp add: segmentCount_def)
  have small2: "elfField contents 54 2 < 2 ^ 16" using elfField_bound [of contents 54 2] by simp
  have off: "elfField contents 32 8 < 2 ^ 64" using elfField_bound [of contents 32 8] by simp
  have pos: "at i = (if segmentAt contents i < 2 ^ 63 then int (segmentAt contents i)
      else int (segmentAt contents i) - 2 ^ 64)"
    if "i < ?n" "elfField contents 32 8 < 2 ^ 63" for i
    unfolding at_def start_def entrySize_def using that small by (intro segment_position) simp_all
  have low: "elfField contents 32 8 < 2 ^ 63" if "i < ?n" "?fits \<or> (\<forall>i < ?n. segmentAt contents i + 4 \<le> length contents)" for i
  proof (rule ccontr)
    assume high: "\<not> ?thesis"
    have "0 < ?n" using that(1) by simp
    moreover have "at 0 < 0" using sint_nat [OF off] high off by (simp add: at_def start_def)
    moreover have "\<not> segmentAt contents 0 + 4 \<le> length contents" using high assms by (simp add: segmentAt_def)
    ultimately show False using that(2) by force
  qed
  have fits: "?fits \<longleftrightarrow> (\<forall>i < ?n. segmentAt contents i + 4 \<le> length contents)"
  proof (intro iffI allI impI)
    fix i assume "?fits" "i < ?n"
    then show "segmentAt contents i + 4 \<le> length contents"
      using pos [OF _ low, of i i] segment_small [OF _ low, of i i] small assms by (auto split: if_splits)
  next
    fix i assume "\<forall>i < ?n. segmentAt contents i + 4 \<le> length contents" "i < ?n"
    then show "0 \<le> at i \<and> at i + 4 \<le> int (length contents)"
      using pos [OF _ low, of i i] assms by auto
  qed
  have same: "nat (at i) = segmentAt contents i" if "i < ?n" "?fits" for i
    using pos [OF that(1) low [OF that(1)]] that fits assms by auto
  have "InspectBinary (Inr contents) = Inr info \<longleftrightarrow> elf64 contents \<and> ?fits \<and>
      info = \<lparr>biArch = ''amd64'', biStatic = (\<forall>i < ?n. elfField contents (nat (at i)) 4 \<noteq> 3)\<rparr>"
    unfolding InspectBinary_loop headerLoop_exact at_def start_def entrySize_def by (simp add: Ball_def)
  also have "\<dots> \<longleftrightarrow> elf64 contents \<and> ?fits \<and>
      info = \<lparr>biArch = ''amd64'', biStatic = (\<forall>i < ?n. elfField contents (segmentAt contents i) 4 \<noteq> 3)\<rparr>"
    using same by auto
  finally show ?thesis unfolding fits .
qed


definition sampleElf :: string where
  "sampleElf = map char_of ([0x7F, 0x45, 0x4C, 0x46, 2, 1] @ replicate 12 0 @ [62, 0] @ replicate 12 0 @
     [64] @ replicate 21 0 @ [4, 0, 2] @ replicate 7 0 @ [1, 0, 0, 0, 3, 0, 0, 0 :: nat])"

theorem binary_inspected_exactly_witness:
  "InspectBinary (Inr sampleElf) = Inr \<lparr>biArch = ''amd64'', biStatic = False\<rparr>"
proof -
  have "length sampleElf = 72" by (simp add: sampleElf_def)
  moreover have "elf64 sampleElf" by code_simp
  moreover have "segmentCount sampleElf = 2" "segmentAt sampleElf 0 = 64" "segmentAt sampleElf 1 = 68"
    "elfField sampleElf 68 4 = 3" by code_simp+
  ultimately show ?thesis
    by (auto simp: binary_inspected_exactly less_2_cases_iff intro: exI [of _ 1])
qed

end
