(* ===== verification/RequestIDs.thy ===== *)
theory RequestIDs
  imports Packagegen "HOL-Library.Word"
begin

text \<open>
  \<open>newRequestID\<close> of internal/mcpserver/server.go: twelve random bytes in hexadecimal or, without randomness, the
  time and a counter that all calls of the process share.
\<close>

definition hexByteW :: "8 word \<Rightarrow> string" where
  "hexByteW b = [hexDigits ! (unat b div 16), hexDigits ! (unat b mod 16)]"

definition hexEncode :: "8 word list \<Rightarrow> string" where
  "hexEncode bs = concat (map hexByteW bs)"

definition sequenceBytes :: "64 word \<Rightarrow> 8 word list" where
  "sequenceBytes n = map (\<lambda>k. ucast (drop_bit k n)) [56, 48, 40, 32, 24, 16, 8, 0]"

text \<open>The second component is \<open>fallbackRequestID\<close> after the call.\<close>

definition newRequestID :: "8 word list option \<Rightarrow> string \<Rightarrow> 64 word \<Rightarrow> string \<times> 64 word" where
  "newRequestID random now fallbackRequestID =
     (case random of
        Some bytes \<Rightarrow> (hexEncode bytes, fallbackRequestID)
      | None \<Rightarrow> (let sequence = fallbackRequestID + 1 in
          (now @ ''-'' @ hexEncode (sequenceBytes sequence), sequence)))"

section \<open>Identifiers are not reused\<close>

lemma hexDigits_nth: "i < 16 \<Longrightarrow> j < 16 \<Longrightarrow> hexDigits ! i = hexDigits ! j \<longleftrightarrow> i = j"
  by (rule nth_eq_iff_index_eq) (simp_all add: hexDigits_def)

lemma hexByteW_inj: "hexByteW a = hexByteW b \<Longrightarrow> a = b"
proof -
  assume eq: "hexByteW a = hexByteW b"
  have "unat x < 2 ^ LENGTH(8)" for x :: "8 word" by (rule unsigned_less)
  then have "unat x < 256" for x :: "8 word" by simp
  then have "unat x div 16 < 16" "unat x mod 16 < 16" for x :: "8 word"
    by (simp_all add: less_mult_imp_div_less)
  with eq have "unat a div 16 = unat b div 16" "unat a mod 16 = unat b mod 16"
    by (simp_all add: hexByteW_def hexDigits_nth)
  then have "unat a = unat b" by (metis div_mult_mod_eq)
  then show "a = b" by (simp add: word_unat_eq_iff)
qed

lemma hexEncode_length: "length (hexEncode bs) = 2 * length bs"
  by (induction bs) (simp_all add: hexEncode_def hexByteW_def)

lemma hexEncode_inj: "hexEncode as = hexEncode bs \<Longrightarrow> as = bs"
proof (induction as arbitrary: bs)
  case Nil
  then show ?case by (cases bs) (simp_all add: hexEncode_def hexByteW_def)
next
  case (Cons a as)
  then obtain b cs where bs: "bs = b # cs" by (cases bs) (simp_all add: hexEncode_def hexByteW_def)
  have "length (hexByteW a) = length (hexByteW b)" by (simp add: hexByteW_def)
  with Cons.prems have "hexByteW a = hexByteW b" "hexEncode as = hexEncode cs"
    by (simp_all add: hexEncode_def bs)
  then show ?case using hexByteW_inj Cons.IH by (simp add: bs)
qed

lemma sequenceBytes_inj: "sequenceBytes m = sequenceBytes n \<Longrightarrow> m = n"
proof -
  assume "sequenceBytes m = sequenceBytes n"
  then have eq: "(ucast (drop_bit (8 * k) m) :: 8 word) = ucast (drop_bit (8 * k) n)" if "k < 8" for k
    using that by (auto simp: sequenceBytes_def less_Suc_eq numeral_eq_Suc)
  show "m = n"
  proof (rule bit_word_eqI)
    fix i assume "i < LENGTH(64)"
    then have i: "i div 8 < 8" "i mod 8 < 8" by simp_all
    have "bit (ucast (drop_bit (8 * (i div 8)) w) :: 8 word) (i mod 8) = bit w i" for w :: "64 word"
      using i by (simp add: bit_ucast_iff bit_drop_bit_eq)
    then show "bit m i = bit n i" using eq [OF i(1)] by metis
  qed
qed

text \<open>Without randomness no two of the next \<open>2\<^sup>6\<^sup>4\<close> requests share an identifier, whatever the clock does.\<close>

lemma fallback_distinct:
  assumes "length now = length now'" "n \<noteq> n'"
  shows "fst (newRequestID None now n) \<noteq> fst (newRequestID None now' n')"
  using assms sequenceBytes_inj hexEncode_inj by (fastforce simp: newRequestID_def Let_def)

lemma fallback_counts:
  "snd (newRequestID None now n) = n + 1" "snd (newRequestID (Some bs) now n) = n"
  by (simp_all add: newRequestID_def Let_def)

text \<open>An identifier of the other kind has another length: 24 digits against 42.\<close>

lemma kinds_distinct:
  assumes "length bs = 12" "length now = 25"
  shows "fst (newRequestID (Some bs) t n) \<noteq> fst (newRequestID None now m)"
proof -
  have "length (fst (newRequestID (Some bs) t n)) = 24" "length (fst (newRequestID None now m)) = 42"
    using assms by (simp_all add: newRequestID_def Let_def hexEncode_length sequenceBytes_def)
  then show ?thesis by (metis numeral_eq_iff num.simps)
qed

end
