(* ===== verification/SecureLog.thy ===== *)
theory SecureLog
  imports GoString
begin

text \<open>
  internal/securelog/securelog.go: log lines pass through a redactor that replaces the secrets of one user
  before they reach the shared destination, which takes one line at a time. The JSON handler of the
  standard library is given by the lines it writes; it calls \<open>Write\<close> once for each record whose level
  reaches the threshold.
\<close>

section \<open>The logger\<close>

definition marker :: string where "marker = ''[REDACTED]''"

text \<open>\<open>Write\<close> of the shared writer appends a line to what was written; the lock makes it one step.\<close>

definition Write :: "string list \<Rightarrow> string \<Rightarrow> string list" where
  "Write written line = written @ [line]"

definition redact :: "string list \<Rightarrow> string \<Rightarrow> string" where
  "redact secrets line = foldl (\<lambda>redacted secret. if secret \<noteq> [] then replaceAll redacted secret marker else redacted) line secrets"

definition redactedWrite :: "string list \<Rightarrow> string list \<Rightarrow> string \<Rightarrow> string list" where
  "redactedWrite secrets written line = Write written (redact secrets line)"

definition parseLevel :: "string \<Rightarrow> int" where
  "parseLevel level = (if level = ''debug'' then - 4 else if level = ''warn'' then 4 else if level = ''error'' then 8 else 0)"

definition NewRedactingLogger :: "string \<Rightarrow> string list \<Rightarrow> string list \<Rightarrow> int \<times> string \<Rightarrow> string list" where
  "NewRedactingLogger level secrets written entry =
     (if fst entry \<ge> parseLevel level then redactedWrite secrets written (snd entry) else written)"

definition NewLogger :: "string \<Rightarrow> string list \<Rightarrow> int \<times> string \<Rightarrow> string list" where
  "NewLogger level written entry = (if fst entry \<ge> parseLevel level then Write written (snd entry) else written)"

text \<open>The secrets both deployments give to a logger that may see a token.\<close>

definition tokenSecrets :: "string \<Rightarrow> string list" where
  "tokenSecrets tok = [tok, ''token '' @ tok]"

section \<open>Replacement removes every occurrence\<close>

text \<open>A string that shares no character with the marker.\<close>

definition apart :: "string \<Rightarrow> bool" where
  "apart w \<longleftrightarrow> w \<noteq> [] \<and> set w \<inter> set marker = {}"

lemma marker_head: "marker = CHR ''['' # tl marker" "CHR ''['' \<in> set marker"
  by (simp_all add: marker_def)

lemma replaceAll_Nil [simp]: "replaceAll [] old new = []"
  by (simp add: replaceAll.simps [of "[]" old new])

lemma replaceAll_Cons:
  "old \<noteq> [] \<Longrightarrow> replaceAll (ch # s) old new =
     (if hasPrefix (ch # s) old then new @ replaceAll (drop (length old) (ch # s)) old new else ch # replaceAll s old new)"
  by (simp add: replaceAll.simps [of "ch # s" old new])

text \<open>What the output starts with, up to the first marker, the input starts with.\<close>

lemma replaced_prefix:
  "old \<noteq> [] \<Longrightarrow> hasPrefix (replaceAll s old marker) w \<Longrightarrow> set w \<inter> set marker = {} \<Longrightarrow> hasPrefix s w"
proof (induction s arbitrary: w)
  case Nil
  then show ?case by simp
next
  case (Cons ch s)
  show ?case
  proof (cases w)
    case Nil
    then show ?thesis by (simp add: hasPrefix_def)
  next
    case w: (Cons x v)
    show ?thesis
    proof (cases "hasPrefix (ch # s) old")
      case True
      then have "replaceAll (ch # s) old marker = CHR ''['' # tl marker @ replaceAll (drop (length old) (ch # s)) old marker"
        using Cons.prems(1) marker_head(1) by (simp add: replaceAll_Cons)
      then have "x = CHR ''[''" using Cons.prems(2) w by (simp add: hasPrefix_def)
      then show ?thesis using Cons.prems(3) w marker_head(2) by auto
    next
      case False
      then have "x = ch" "hasPrefix (replaceAll s old marker) v"
        using Cons.prems(1,2) w by (simp_all add: replaceAll_Cons hasPrefix_def)
      then have "hasPrefix s v" using Cons.IH Cons.prems(1,3) w by simp
      then show ?thesis using w \<open>x = ch\<close> by (simp add: hasPrefix_def)
    qed
  qed
qed

lemma contains_suffix: "contains s w \<longleftrightarrow> (\<exists>t u. s = t @ u \<and> hasPrefix u w)"
  by (auto simp: contains_iff hasPrefix_iff)

lemma contains_Nil: "w \<noteq> [] \<Longrightarrow> \<not> contains [] w"
  by (simp add: contains_iff)

lemma contains_Cons: "contains (ch # s) w \<longleftrightarrow> hasPrefix (ch # s) w \<or> contains s w"
proof
  assume "contains (ch # s) w"
  then obtain t u where "ch # s = t @ u" "hasPrefix u w" by (auto simp: contains_suffix)
  then show "hasPrefix (ch # s) w \<or> contains s w" by (cases t) (auto simp: contains_suffix)
next
  assume "hasPrefix (ch # s) w \<or> contains s w"
  then show "contains (ch # s) w"
    by (metis append_Cons append_Nil contains_suffix)
qed

lemma contains_marker:
  assumes "apart w" "contains (m @ s) w" "set m \<subseteq> set marker"
  shows "contains s w"
  using assms(2,3)
proof (induction m)
  case (Cons x m)
  have "\<not> hasPrefix ((x # m) @ s) w"
    using assms(1) Cons.prems(2) by (cases w) (auto simp: apart_def hasPrefix_def)
  then show ?case using Cons by (simp add: contains_Cons)
qed simp

text \<open>Removing one secret never brings another one about.\<close>

lemma replaced_contains:
  assumes "old \<noteq> []" "apart w"
  shows "contains (replaceAll s old marker) w \<Longrightarrow> contains s w"
proof (induction s rule: length_induct)
  case (1 s)
  show ?case
  proof (cases s)
    case Nil
    then show ?thesis using 1 by simp
  next
    case (Cons ch t)
    show ?thesis
    proof (cases "hasPrefix s old")
      case True
      then have "contains (replaceAll (drop (length old) s) old marker) w"
        using 1(2) contains_marker [OF assms(2), of marker] assms(1) Cons by (simp add: replaceAll_Cons)
      moreover have "length (drop (length old) s) < length s" using assms(1) Cons by (cases old) auto
      ultimately have "contains (drop (length old) s) w" using 1(1) by blast
      then show ?thesis by (metis append_take_drop_id append_assoc contains_iff)
    next
      case False
      then have run: "replaceAll s old marker = ch # replaceAll t old marker"
        using assms(1) Cons by (simp add: replaceAll_Cons)
      show ?thesis
      proof (cases "hasPrefix (ch # replaceAll t old marker) w")
        case True
        then have "hasPrefix s w" using run replaced_prefix [OF assms(1), of s w] assms(2) by (simp add: apart_def)
        then show ?thesis by (metis append_Nil contains_suffix)
      next
        case False
        then show ?thesis using 1 run Cons by (simp add: contains_Cons)
      qed
    qed
  qed
qed

lemma replaced_gone:
  assumes "apart old"
  shows "\<not> contains (replaceAll s old marker) old"
proof (induction s rule: length_induct)
  case (1 s)
  have ne: "old \<noteq> []" using assms by (simp add: apart_def)
  show ?case
  proof (cases s)
    case Nil
    then show ?thesis using contains_Nil ne by simp
  next
    case (Cons ch t)
    show ?thesis
    proof (cases "hasPrefix s old")
      case True
      have "length (drop (length old) s) < length s" using ne Cons by (cases old) auto
      then have "\<not> contains (replaceAll (drop (length old) s) old marker) old" using 1 by blast
      then show ?thesis
        using True ne Cons contains_marker [OF assms, of marker] by (auto simp: replaceAll_Cons)
    next
      case False
      then have run: "replaceAll s old marker = ch # replaceAll t old marker"
        using ne Cons by (simp add: replaceAll_Cons)
      moreover have "\<not> hasPrefix (ch # replaceAll t old marker) old"
        using run replaced_prefix [OF ne, of s old] assms False by (auto simp: apart_def)
      moreover have "\<not> contains (replaceAll t old marker) old" using 1 Cons by simp
      ultimately show ?thesis by (simp add: contains_Cons)
    qed
  qed
qed

lemma replaced_same: "old \<noteq> [] \<Longrightarrow> \<not> contains s old \<Longrightarrow> replaceAll s old new = s"
  by (induction s) (auto simp: replaceAll_Cons contains_Cons)

lemma redact_snoc: "redact (secrets @ [w]) line = (if w \<noteq> [] then replaceAll (redact secrets line) w marker else redact secrets line)"
  by (simp add: redact_def)

lemma redact_free:
  assumes "apart w" "w \<in> set secrets"
  shows "\<not> contains (redact secrets line) w"
  using assms(2)
proof (induction secrets rule: rev_induct)
  case (snoc x secrets)
  show ?case
  proof (cases "w = x")
    case True
    then show ?thesis using assms(1) replaced_gone by (simp add: redact_snoc apart_def)
  next
    case False
    then have "\<not> contains (redact secrets line) w" using snoc by simp
    then show ?thesis using replaced_contains [OF _ assms(1), of x "redact secrets line"] by (auto simp: redact_snoc)
  qed
qed simp

lemma redact_same: "\<forall>w \<in> set secrets. w = [] \<or> \<not> contains line w \<Longrightarrow> redact secrets line = line"
  by (induction secrets rule: rev_induct) (auto simp: redact_snoc replaced_same, simp add: redact_def)

section \<open>The property\<close>

text \<open>What one user's logger writes, entry by entry.\<close>

definition logAll :: "string \<Rightarrow> string list \<Rightarrow> string list \<Rightarrow> (int \<times> string) list \<Rightarrow> string list" where
  "logAll level secrets written entries = foldl (NewRedactingLogger level secrets) written entries"

lemma logAll_lines:
  "logAll level secrets written entries
    = written @ map (redact secrets) (map snd (filter (\<lambda>entry. fst entry \<ge> parseLevel level) entries))"
  by (induction entries rule: rev_induct) (simp_all add: logAll_def NewRedactingLogger_def redactedWrite_def Write_def)

text \<open>C36: The log of a user contains one line per record of the configured level, in order, and no line
  contains the user's token, with or without its scheme; a line without the token is written as it is.
  The token is one that shares no character with the replacement text, as the lower-case hexadecimal
  tokens of Gogs do not.\<close>

theorem logs_hide_token:
  assumes "apart tok"
  shows "\<exists>new. logAll level (tokenSecrets tok) written entries = written @ new
    \<and> list_all2 (\<lambda>entry line. \<not> contains line tok
        \<and> (contains (snd entry) tok \<or> line = snd entry))
      (filter (\<lambda>entry. fst entry \<ge> parseLevel level) entries) new"
proof -
  have "\<not> contains (redact (tokenSecrets tok) line) tok" for line
    using redact_free [OF assms] by (simp add: tokenSecrets_def)
  moreover have "redact (tokenSecrets tok) line = line" if "\<not> contains line tok" for line
  proof -
    have "\<not> contains line (''token '' @ tok)" using that by (metis append_assoc contains_iff)
    then show ?thesis using that by (intro redact_same) (simp add: tokenSecrets_def)
  qed
  ultimately have "list_all2 (\<lambda>entry line. \<not> contains line tok \<and> (contains (snd entry) tok \<or> line = snd entry))
      es (map (redact (tokenSecrets tok)) (map snd es))" for es :: "(int \<times> string) list"
    by (induction es) auto
  then show ?thesis unfolding logAll_lines by blast
qed

theorem logs_hide_token_witness:
  "logAll ''info'' (tokenSecrets ''c0ffee'') [] [(0, ''auth token c0ffee''), (- 4, ''hidden''), (4, ''ok'')]
     = [''auth token [REDACTED]'', ''ok'']
   \<and> \<not> contains (hd (logAll ''info'' (tokenSecrets ''c0ffee'') [] [(0, ''auth token c0ffee'')])) ''c0ffee''"
proof -
  have "apart ''c0ffee''" by (simp add: apart_def marker_def)
  from logs_hide_token [OF this, of "''info''" "[]" "[(0, ''auth token c0ffee'')]"]
  have "\<not> contains (hd (logAll ''info'' (tokenSecrets ''c0ffee'') [] [(0, ''auth token c0ffee'')])) ''c0ffee''"
    by (auto simp: parseLevel_def list_all2_Cons1)
  moreover have "logAll ''info'' (tokenSecrets ''c0ffee'') [] [(0, ''auth token c0ffee''), (- 4, ''hidden''), (4, ''ok'')]
     = [''auth token [REDACTED]'', ''ok'']"
    by code_simp
  ultimately show ?thesis by simp
qed

end
