(* ===== verification/PackageImage.thy ===== *)
theory PackageImage
  imports Packagegen
begin

text \<open>
  internal/packagegen/oci.go, the documents of packagegen.go and cmd/mkpackage/main.go: the container image, the bill
  of materials, the source identity and the command that puts a package together. The tar, gzip and JSON encoders and
  the random numbers are the fields of \<open>buildWorld\<close>; the object of a Go map is written with its fields in the order
  of the source, and it is the encoder that sorts them. The package directory is the state, a \<open>dirTree\<close>.
\<close>

section \<open>The world of a build\<close>

record layerEntry =
  leName :: string
  leDirectory :: bool
  leMode :: int
  leOwner :: int
  leEpoch :: bool
  leBody :: "string option"

record buildWorld =
  bwMarshal :: "json \<Rightarrow> goerr + string"
  bwMarshalIndent :: "json \<Rightarrow> goerr + string"
  bwRandom :: "goerr + string"
  bwTar :: "layerEntry list \<Rightarrow> string"
  bwHeaderErr :: "string \<Rightarrow> goerr option"
  bwBodyErr :: "string \<Rightarrow> goerr option"
  bwTarCloseErr :: "layerEntry list \<Rightarrow> goerr option"
  bwGzip :: "string \<Rightarrow> string"
  bwGzipErr :: "string \<Rightarrow> goerr option"
  bwGzipCloseErr :: "string \<Rightarrow> goerr option"
  bwGoVersion :: string

definition failing :: "string \<Rightarrow> goerr option \<Rightarrow> goerr + unit" where
  "failing message err = (case err of Some e \<Rightarrow> Inl (MsgErr message # e) | None \<Rightarrow> Inr ())"

lemma failing_Inr [simp]: "failing message err = Inr u \<longleftrightarrow> err = None"
  by (simp add: failing_def split: option.splits)

section \<open>The image layer\<close>

definition containerUser :: int where "containerUser = 65532"

definition imageDigest :: "packageWorld \<Rightarrow> string \<Rightarrow> string" where
  "imageDigest w d = ''sha256:'' @ pkSHA w d"

definition layerEntries :: "string \<Rightarrow> layerEntry list" where
  "layerEntries binary =
     [\<lparr>leName = ''gogs-mcp'', leDirectory = False, leMode = 493, leOwner = 0, leEpoch = False, leBody = Some binary\<rparr>,
      \<lparr>leName = ''cache/'', leDirectory = True, leMode = 511, leOwner = containerUser, leEpoch = True, leBody = None\<rparr>]"

fun layerLoop :: "buildWorld \<Rightarrow> layerEntry list \<Rightarrow> goerr + unit" where
  "layerLoop b [] = Inr ()"
| "layerLoop b (entry # rest) =
     bindE (failing ''write the image layer entry'' (bwHeaderErr b (leName entry))) (\<lambda>_.
     bindE (if leBody entry \<noteq> None then failing ''write the image layer body'' (bwBodyErr b (leName entry)) else Inr ()) (\<lambda>_.
     layerLoop b rest))"

text \<open>The compressed layer and the digest of the uncompressed one.\<close>

definition buildOCILayer :: "buildWorld \<Rightarrow> packageWorld \<Rightarrow> string \<Rightarrow> goerr + string \<times> string" where
  "buildOCILayer b w binary =
     (let entries = layerEntries binary; layer = bwTar b entries in
      bindE (layerLoop b entries) (\<lambda>_.
      bindE (failing ''close the image layer'' (bwTarCloseErr b entries)) (\<lambda>_.
      bindE (failing ''compress the image layer'' (bwGzipErr b layer)) (\<lambda>_.
      bindE (failing ''close the image layer compression'' (bwGzipCloseErr b layer)) (\<lambda>_.
      Inr (bwGzip b layer, imageDigest w layer))))))"

section \<open>The image layout\<close>

record blobDescriptor =
  bdMediaType :: string
  bdDigest :: string
  bdSize :: int

definition descriptorJSON :: "blobDescriptor \<Rightarrow> json" where
  "descriptorJSON d =
     JObj [(''mediaType'', JStr (bdMediaType d)), (''digest'', JStr (bdDigest d)), (''size'', JNum (bdSize d))]"

definition imageConfig :: "string \<Rightarrow> string \<Rightarrow> json" where
  "imageConfig created diffID = JObj
     [(''created'', JStr created), (''architecture'', JStr ''amd64''), (''os'', JStr ''linux''),
      (''config'', JObj
        [(''User'', JStr (formatInt containerUser @ '':'' @ formatInt containerUser)),
         (''Env'', JArr [JStr ''GOGS_MCP_CACHE_DIR=/cache'']), (''Entrypoint'', JArr [JStr ''/gogs-mcp'']),
         (''Cmd'', JArr [JStr ''serve'']), (''WorkingDir'', JStr ''/''),
         (''Volumes'', JObj [(''/cache'', JObj [])])]),
      (''rootfs'', JObj [(''type'', JStr ''layers''), (''diff_ids'', JArr [JStr diffID])]),
      (''history'', JArr [JObj [(''created'', JStr created), (''created_by'', JStr ''gogs-mcp mkpackage'')]])]"

definition annotations :: "string \<Rightarrow> string \<Rightarrow> string \<Rightarrow> (string \<times> json) list" where
  "annotations version commit created =
     [(''org.opencontainers.image.title'', JStr ''gogs-mcp''), (''org.opencontainers.image.version'', JStr version),
      (''org.opencontainers.image.revision'', JStr commit), (''org.opencontainers.image.created'', JStr created)]"

definition imageManifest :: "blobDescriptor \<Rightarrow> blobDescriptor \<Rightarrow> (string \<times> json) list \<Rightarrow> json" where
  "imageManifest configDescriptor layerDescriptor notes = JObj
     [(''schemaVersion'', JNum 2), (''mediaType'', JStr ''application/vnd.oci.image.manifest.v1+json''),
      (''config'', descriptorJSON configDescriptor), (''layers'', JArr [descriptorJSON layerDescriptor]),
      (''annotations'', JObj notes)]"

definition imageIndex :: "string \<Rightarrow> int \<Rightarrow> string \<Rightarrow> (string \<times> json) list \<Rightarrow> json" where
  "imageIndex digest len reference notes = JObj
     [(''schemaVersion'', JNum 2), (''mediaType'', JStr ''application/vnd.oci.image.index.v1+json''),
      (''manifests'', JArr [JObj
        [(''mediaType'', JStr ''application/vnd.oci.image.manifest.v1+json''), (''digest'', JStr digest),
         (''size'', JNum len),
         (''annotations'', JObj ((''org.opencontainers.image.ref.name'', JStr reference) # notes))]])]"

definition blobPath :: "string \<Rightarrow> string" where
  "blobPath digest = pathJoin [''blobs'', ''sha256'', trimPrefix digest ''sha256:'']"

definition describe :: "packageWorld \<Rightarrow> string \<Rightarrow> string \<Rightarrow> blobDescriptor" where
  "describe w mediaType d = \<lparr>bdMediaType = mediaType, bdDigest = imageDigest w d, bdSize = int (length d)\<rparr>"

text \<open>The files of the layout in the order of the archive; of two blobs with one digest the later one counts.\<close>

definition imageLayout :: "buildWorld \<Rightarrow> packageWorld \<Rightarrow> string \<Rightarrow> string \<Rightarrow> string \<Rightarrow> string \<Rightarrow> string \<Rightarrow>
    goerr + (string \<times> string) list" where
  "imageLayout b w reference version commit created binary =
     bindE (buildOCILayer b w binary) (\<lambda>(layer, diffID).
     bindE (wrapErr ''encode the image configuration'' (bwMarshal b (imageConfig created diffID))) (\<lambda>config.
     (let layerDescriptor = describe w ''application/vnd.oci.image.layer.v1.tar+gzip'' layer;
          configDescriptor = describe w ''application/vnd.oci.image.config.v1+json'' config;
          notes = annotations version commit created
      in bindE (wrapErr ''encode the image manifest''
             (bwMarshal b (imageManifest configDescriptor layerDescriptor notes))) (\<lambda>manifest.
         bindE (wrapErr ''encode the image index''
             (bwMarshal b (imageIndex (imageDigest w manifest) (int (length manifest)) reference notes))) (\<lambda>index.
         (let blobs = Map.empty(bdDigest configDescriptor \<mapsto> config, bdDigest layerDescriptor \<mapsto> layer,
                imageDigest w manifest \<mapsto> manifest)
          in Inr ([(''oci-layout'', ''{\"imageLayoutVersion\":\"1.0.0\"}'' @ [lineFeed]), (''index.json'', index)] @
             map (\<lambda>digest. (blobPath digest, case blobs digest of Some d \<Rightarrow> d | None \<Rightarrow> []))
               [bdDigest configDescriptor, bdDigest layerDescriptor, imageDigest w manifest])))))))"

text \<open>\<open>writeBlob\<close>: one entry of the archive.\<close>

definition blobEntry :: "string \<Rightarrow> string \<Rightarrow> layerEntry" where
  "blobEntry name contents =
     \<lparr>leName = name, leDirectory = False, leMode = 420, leOwner = 0, leEpoch = False, leBody = Some contents\<rparr>"

fun archiveLoop :: "buildWorld \<Rightarrow> (string \<times> string) list \<Rightarrow> goerr + unit" where
  "archiveLoop b [] = Inr ()"
| "archiveLoop b ((name, contents) # rest) =
     bindE (failing (''write '' @ name @ '' to the image archive'') (bwHeaderErr b name)) (\<lambda>_.
     bindE (failing (''write the contents of '' @ name) (bwBodyErr b name)) (\<lambda>_. archiveLoop b rest))"

definition imageArchive :: "buildWorld \<Rightarrow> packageWorld \<Rightarrow> string \<Rightarrow> string \<Rightarrow> string \<Rightarrow> string \<Rightarrow> string \<Rightarrow>
    goerr + string" where
  "imageArchive b w reference version commit created binary =
     bindE (imageLayout b w reference version commit created binary) (\<lambda>files.
       let entries = map (\<lambda>(name, contents). blobEntry name contents) files in
       bindE (archiveLoop b files) (\<lambda>_.
       bindE (failing ''close the image archive'' (bwTarCloseErr b entries)) (\<lambda>_.
       Inr (bwTar b entries))))"


section \<open>The documents of a package\<close>

definition hexByte :: "char \<Rightarrow> string" where
  "hexByte c = [hexDigits ! (byte c div 16), hexDigits ! (byte c mod 16)]"

definition hexOf :: "string \<Rightarrow> string" where
  "hexOf s = concat (map hexByte s)"

definition onByte :: "(8 word \<Rightarrow> 8 word) \<Rightarrow> char \<Rightarrow> char" where
  "onByte f c = char_of (unat (f (word_of_nat (byte c))))"

definition randomUUID :: "buildWorld \<Rightarrow> goerr + string" where
  "randomUUID b = bindE (wrapErr ''generate the SBOM serial number'' (bwRandom b)) (\<lambda>raw.
     let raw = raw[6 := onByte (\<lambda>x. (x AND 0x0F) OR 0x40) (raw ! 6)];
         raw = raw[8 := onByte (\<lambda>x. (x AND 0x3F) OR 0x80) (raw ! 8)]
     in Inr (joinWith ''-'' (map hexOf [goSlice 0 4 raw, goSlice 4 6 raw, goSlice 6 8 raw, goSlice 8 10 raw, goSlice 10 16 raw])))"

definition componentJSON :: "string \<Rightarrow> string \<Rightarrow> string \<Rightarrow> string \<Rightarrow> json" where
  "componentJSON kind ref name version = JObj
     [(''type'', JStr kind), (''bom-ref'', JStr ref), (''name'', JStr name), (''version'', JStr version),
      (''purl'', JStr ref)]"

definition golangRef :: "string \<Rightarrow> string \<Rightarrow> string" where
  "golangRef name version = ''pkg:golang/'' @ name @ ''@'' @ version"

definition sbomDocument :: "string \<Rightarrow> string \<Rightarrow> string \<Rightarrow> string \<Rightarrow> string \<Rightarrow> Module list \<Rightarrow> json" where
  "sbomDocument serial product version commit imageReference modules = JObj
     [(''bomFormat'', JStr ''CycloneDX''), (''specVersion'', JStr ''1.5''),
      (''serialNumber'', JStr (''urn:uuid:'' @ serial)), (''version'', JNum 1),
      (''metadata'', JObj [(''component'',
         JObj [(''name'', JStr product), (''version'', JStr version), (''commit'', JStr commit)])]),
      (''components'', JArr
        ([componentJSON ''application'' (golangRef product version) product version,
          componentJSON ''container'' (''pkg:oci/'' @ imageReference) imageReference version] @
         map (\<lambda>m. componentJSON ''library'' (golangRef (mdPath m) (mdVersion m)) (mdPath m) (mdVersion m)) modules))]"

definition BuildSBOM :: "buildWorld \<Rightarrow> string \<Rightarrow> string \<Rightarrow> string \<Rightarrow> string \<Rightarrow> Module list \<Rightarrow> goerr + string" where
  "BuildSBOM b product version commit imageReference modules =
     bindE (randomUUID b) (\<lambda>serial.
     bindE (wrapErr ''encode the SBOM''
         (bwMarshalIndent b (sbomDocument serial product version commit imageReference modules))) (\<lambda>encoded.
     Inr (encoded @ [lineFeed])))"

record Artifact =
  arPath :: string
  arSHA256 :: string

record Target =
  tgOS :: string
  tgArch :: string

record ContainerImage =
  ciReference :: string
  ciArchive :: Artifact

record TestAsset =
  taReference :: string
  taGogsVersion :: string
  taGogsCommit :: string
  taArchitecture :: string
  taArchive :: Artifact

record SourceMetadata =
  smProduct :: string
  smVersion :: string
  smCommit :: string
  smBuildTime :: string
  smGoVersion :: string
  smTarget :: Target
  smGogsAPI :: string
  smBinary :: Artifact
  smSource :: Artifact
  smImage :: ContainerImage
  smTestAssets :: "TestAsset option"
  smStatic :: bool

definition artifactJSON :: "Artifact \<Rightarrow> json" where
  "artifactJSON a = JObj [(''path'', JStr (arPath a)), (''sha256'', JStr (arSHA256 a))]"

definition testAssetJSON :: "TestAsset \<Rightarrow> json" where
  "testAssetJSON t = JObj
     [(''reference'', JStr (taReference t)), (''gogs_version'', JStr (taGogsVersion t)),
      (''gogs_commit'', JStr (taGogsCommit t)), (''architecture'', JStr (taArchitecture t)),
      (''archive'', artifactJSON (taArchive t))]"

definition metadataJSON :: "SourceMetadata \<Rightarrow> json" where
  "metadataJSON m = JObj
     ([(''product'', JStr (smProduct m)), (''version'', JStr (smVersion m)), (''commit'', JStr (smCommit m)),
       (''build_time'', JStr (smBuildTime m)), (''go_version'', JStr (smGoVersion m)),
       (''target'', JObj [(''os'', JStr (tgOS (smTarget m))), (''arch'', JStr (tgArch (smTarget m)))]),
       (''gogs_api_target'', JStr (smGogsAPI m)), (''binary'', artifactJSON (smBinary m)),
       (''source_archive'', artifactJSON (smSource m)),
       (''container_image'', JObj [(''reference'', JStr (ciReference (smImage m))),
          (''archive'', artifactJSON (ciArchive (smImage m)))])] @
      (case smTestAssets m of None \<Rightarrow> [] | Some t \<Rightarrow> [(''test_assets'', testAssetJSON t)]) @
      [(''statically_linked'', JBool (smStatic m))])"

definition BuildSourceMetadata :: "buildWorld \<Rightarrow> SourceMetadata \<Rightarrow> goerr + string" where
  "BuildSourceMetadata b metadata =
     bindE (wrapErr ''encode the source metadata'' (bwMarshalIndent b (metadataJSON metadata))) (\<lambda>encoded.
     Inr (encoded @ [lineFeed]))"

section \<open>The image of a package\<close>

type_synonym 'a packaging = "(dirTree, goerr, 'a) io"

record ImageArchive =
  iaReference :: string
  iaPath :: "string list"
  iaSHA256 :: string

text \<open>Reading a file, without and with the wrapping of \<open>FileSHA256\<close>.\<close>

definition readPackaged :: "packageWorld \<Rightarrow> string list \<Rightarrow> string packaging" where
  "readPackaged w parts tree =
     (case openAt w tree parts of Inl err \<Rightarrow> (Inl err, tree) | Inr r \<Rightarrow> (r, tree))"

definition digestOf :: "packageWorld \<Rightarrow> string list \<Rightarrow> string packaging" where
  "digestOf w parts tree = (FileSHA256 (pkSHA w) (openAt w tree parts), tree)"

definition makeDirs :: "string list \<Rightarrow> unit packaging" where
  "makeDirs parts tree =
     (case mkdirAll parts tree of None \<Rightarrow> (Inl [MsgErr ''create the images directory'', MsgErr ''not a directory''], tree)
      | Some t \<Rightarrow> (Inr (), t))"

definition wrapM :: "string \<Rightarrow> ('s, goerr, 'a) io \<Rightarrow> ('s, goerr, 'a) io" where
  "wrapM message m = onResult m (\<lambda>r. liftE (wrapErr message r))"

definition BuildImageArchive :: "buildWorld \<Rightarrow> packageWorld \<Rightarrow> string \<Rightarrow> string \<Rightarrow> string \<Rightarrow> ImageArchive packaging" where
  "BuildImageArchive b w version commit created =
     bindM (wrapM ''read the packaged binary'' (readPackaged w [''bin'', ''gogs-mcp''])) (\<lambda>binary.
     bindM (makeDirs [''images'']) (\<lambda>_.
     (let p = cleanComps False (''images/gogs-mcp-'' @ version @ ''-linux-amd64-oci.tar'');
          reference = ''gogs-mcp:'' @ version
      in bindM (liftE (imageArchive b w reference version commit created binary)) (\<lambda>archive.
         bindM (writeFileAt w p archive) (\<lambda>_.
         bindM (digestOf w p) (\<lambda>digest.
         ret \<lparr>iaReference = reference, iaPath = p, iaSHA256 = digest\<rparr>))))))"

section \<open>mkpackage\<close>

record packageFlags =
  pfRoot :: string
  pfProject :: string
  pfVersion :: string
  pfCommit :: string
  pfBuildTime :: string
  pfGogsAPI :: string
  pfNArg :: nat

record projectFiles =
  pjModulesTxt :: "goerr + string"
  pjIsFile :: "string \<Rightarrow> bool"
  pjRead :: "string \<Rightarrow> goerr + string"

definition GogsE2EVersion :: string where "GogsE2EVersion = ''0.14.2''"
definition GogsE2ECommit :: string where "GogsE2ECommit = ''5dcb6c64bdf61e38dbdbb941c1d69789c560d0fb''"

text \<open>\<open>filepath.Glob\<close> of a pattern below one directory of the package; no such directory is no match.\<close>

definition globIn :: "string \<Rightarrow> string \<Rightarrow> dirTree \<Rightarrow> string list" where
  "globIn dir pattern tree =
     (case map_of tree dir of
        Some (Tree cs) \<Rightarrow> sortSlice (<) (filter (\<lambda>name. pathMatch pattern name = Some True) (map fst cs))
      | _ \<Rightarrow> [])"

definition readModules :: "projectFiles \<Rightarrow> goerr + Module list" where
  "readModules project =
     bindE (wrapErr ''read vendor/modules.txt'' (pjModulesTxt project)) (\<lambda>contents.
     (let modules = ParseModulesTxt contents in
      if modules = [] then Inl [MsgErr ''vendor/modules.txt lists no modules''] else Inr modules))"

definition findTestAsset :: "packageWorld \<Rightarrow> string \<Rightarrow> (TestAsset option) packaging" where
  "findTestAsset w root tree =
     (case globIn ''test-assets'' ''gogs-*.tar'' tree of
        [] \<Rightarrow> (Inr None, tree)
      | [name] \<Rightarrow>
          bindM (digestOf w [''test-assets'', name]) (\<lambda>digest.
          ret (Some \<lparr>taReference = ''gogs-e2e:'' @ GogsE2EVersion, taGogsVersion = GogsE2EVersion,
            taGogsCommit = GogsE2ECommit, taArchitecture = ''linux/amd64'',
            taArchive = \<lparr>arPath = ''test-assets/'' @ name, arSHA256 = digest\<rparr>\<rparr>)) tree
      | _ \<Rightarrow> (Inl [MsgErr (''expected at most one test asset under '' @ root @ ''/test-assets'')], tree))"

definition inspectPackaged :: "packageWorld \<Rightarrow> string list \<Rightarrow> BinaryInfo packaging" where
  "inspectPackaged w parts tree =
     ((case openAt w tree parts of
         Inl err \<Rightarrow> InspectBinary (Inl err)
       | Inr (Inl err) \<Rightarrow> Inl (MsgErr ''read the ELF header'' # err)
       | Inr (Inr contents) \<Rightarrow> InspectBinary (Inr contents)), tree)"

definition usageErr :: goerr where
  "usageErr = [MsgErr ''usage: mkpackage -root PACKAGE_DIR -project PROJECT_ROOT -version VERSION -commit COMMIT [--build-time TIME]'']"

text \<open>The part of \<open>run\<close> that looks at the inputs: the digests of the binary and the source archive.\<close>

definition packageInputs :: "packageWorld \<Rightarrow> string \<Rightarrow> (BinaryInfo \<times> string \<times> string \<times> string) packaging" where
  "packageInputs w root =
     (let binaryPath = pathJoin [root, ''bin'', ''gogs-mcp''] in
      bindM (wrapM (''inspect '' @ binaryPath) (inspectPackaged w [''bin'', ''gogs-mcp''])) (\<lambda>info.
      if \<not> biStatic info then fail [MsgErr (binaryPath @ '' is not statically linked; build with CGO_ENABLED=0'')]
      else bindM (digestOf w [''bin'', ''gogs-mcp'']) (\<lambda>binaryDigest tree.
        (case globIn ''source'' ''gogs-mcp-*.tar.gz'' tree of
           [name] \<Rightarrow> bindM (digestOf w [''source'', name]) (\<lambda>sourceDigest.
             ret (info, binaryDigest, name, sourceDigest)) tree
         | _ \<Rightarrow> (Inl [MsgErr (''expected exactly one source archive under '' @ root @ ''/source'')], tree)))))"

definition packageMetadata :: "buildWorld \<Rightarrow> packageFlags \<Rightarrow> BinaryInfo \<times> string \<times> string \<times> string \<Rightarrow> ImageArchive \<Rightarrow>
    string \<Rightarrow> TestAsset option \<Rightarrow> SourceMetadata" where
  "packageMetadata b flags = (\<lambda>(info, binaryDigest, name, sourceDigest) image imageDigest testAsset.
     \<lparr>smProduct = ''gogs-mcp'', smVersion = pfVersion flags, smCommit = pfCommit flags, smBuildTime = pfBuildTime flags,
      smGoVersion = bwGoVersion b, smTarget = \<lparr>tgOS = ''linux'', tgArch = biArch info\<rparr>, smGogsAPI = pfGogsAPI flags,
      smBinary = \<lparr>arPath = ''bin/gogs-mcp'', arSHA256 = binaryDigest\<rparr>,
      smSource = \<lparr>arPath = ''source/'' @ name, arSHA256 = sourceDigest\<rparr>,
      smImage = \<lparr>ciReference = iaReference image,
        ciArchive = \<lparr>arPath = ''images/'' @ last (iaPath image), arSHA256 = imageDigest\<rparr>\<rparr>,
      smTestAssets = testAsset, smStatic = biStatic info\<rparr>)"

definition runMkpackage :: "buildWorld \<Rightarrow> packageWorld \<Rightarrow> projectFiles \<Rightarrow> goerr + packageFlags \<Rightarrow> unit packaging" where
  "runMkpackage b w project parsed =
     bindM (liftE parsed) (\<lambda>flags.
     if pfRoot flags = [] \<or> pfProject flags = [] \<or> pfVersion flags = [] \<or> pfCommit flags = [] \<or> pfNArg flags \<noteq> 0
     then fail usageErr
     else
       bindM (packageInputs w (pfRoot flags)) (\<lambda>inputs.
       bindM (liftE (readModules project)) (\<lambda>modules.
       bindM (BuildImageArchive b w (pfVersion flags) (pfCommit flags) (pfBuildTime flags)) (\<lambda>image.
       bindM (digestOf w (iaPath image)) (\<lambda>imageDigest.
       bindM (findTestAsset w (pfRoot flags)) (\<lambda>testAsset.
       bindM (liftE (BuildSBOM b ''gogs-mcp'' (pfVersion flags) (pfCommit flags) (iaReference image) modules)) (\<lambda>sbom.
       bindM (writeFileAt w [''SBOM.cdx.json''] sbom) (\<lambda>_.
       bindM (liftE (BuildLicensesText (pjIsFile project) (pjRead project) (pathJoin [pfProject flags, ''vendor'']) modules))
         (\<lambda>licenses.
       bindM (writeFileAt w [''THIRD_PARTY_LICENSES.txt''] licenses) (\<lambda>_.
       bindM (liftE (BuildSourceMetadata b (packageMetadata b flags inputs image imageDigest testAsset))) (\<lambda>metadata.
       bindM (writeFileAt w [''SOURCE-METADATA.json''] metadata) (\<lambda>_.
       WriteManifest w))))))))))))"


section \<open>The image resolves\<close>

definition blobName :: "packageWorld \<Rightarrow> string \<Rightarrow> string" where
  "blobName w d = ''blobs/sha256/'' @ pkSHA w d"

lemma blobName_simps [simp]:
  "blobName w d = blobName w e \<longleftrightarrow> pkSHA w d = pkSHA w e"
  "blobName w d \<noteq> ''index.json''" "blobName w d \<noteq> ''oci-layout''"
  by (simp_all add: blobName_def)

lemma imageDigest_eq [simp]: "imageDigest w d = imageDigest w e \<longleftrightarrow> pkSHA w d = pkSHA w e"
  by (simp add: imageDigest_def)

lemma blobPath_digest:
  assumes "hexSHA (pkSHA w)"
  shows "blobPath (imageDigest w d) = blobName w d"
proof -
  have "list_all normalComp [''sha256'', pkSHA w d]"
    using assms by (auto simp: hexSHA_def normalComp_def hexDigits_def slash_def dest!: spec [of _ d])
  then have "pathJoin [''blobs'', ''sha256'', pkSHA w d] = blobName w d"
    by (simp add: blobName_def pathJoin_normal rootComps_def isRooted_def cleanComps_def cleanStep_def slash_def)
  then show ?thesis unfolding blobPath_def imageDigest_def trimPrefix_append .
qed

text \<open>
  Every digest the index, the manifest and the configuration of an image refer to names a blob of the layout with
  that digest; when the three blobs have different digests it is the described one, of the described size.
\<close>

theorem image_references_resolve:
  assumes "imageLayout b w reference version commit created binary = Inr files" "hexSHA (pkSHA w)"
  shows "\<exists>config layer manifest index.
    map fst files = [''oci-layout'', ''index.json''] @ map (blobName w) [config, layer, manifest] \<and>
    map_of files ''index.json'' = Some index \<and>
    bwMarshal b (imageIndex (imageDigest w manifest) (int (length manifest)) reference (annotations version commit created))
      = Inr index \<and>
    bwMarshal b (imageManifest (describe w ''application/vnd.oci.image.config.v1+json'' config)
      (describe w ''application/vnd.oci.image.layer.v1.tar+gzip'' layer) (annotations version commit created)) = Inr manifest \<and>
    bwMarshal b (imageConfig created (imageDigest w (bwTar b (layerEntries binary)))) = Inr config \<and>
    layer = bwGzip b (bwTar b (layerEntries binary)) \<and>
    (\<forall>d \<in> {config, layer, manifest}. \<exists>blob.
      map_of files (blobName w d) = Some blob \<and> pkSHA w blob = pkSHA w d \<and>
      (distinct (map (pkSHA w) [config, layer, manifest]) \<longrightarrow> blob = d))"
proof -
  obtain layer diffID config manifest index where steps: "buildOCILayer b w binary = Inr (layer, diffID)"
    "bwMarshal b (imageConfig created diffID) = Inr config"
    "bwMarshal b (imageManifest (describe w ''application/vnd.oci.image.config.v1+json'' config)
      (describe w ''application/vnd.oci.image.layer.v1.tar+gzip'' layer) (annotations version commit created)) = Inr manifest"
    "bwMarshal b (imageIndex (imageDigest w manifest) (int (length manifest)) reference (annotations version commit created))
      = Inr index"
    and files: "files = [(''oci-layout'', ''{\"imageLayoutVersion\":\"1.0.0\"}'' @ [lineFeed]), (''index.json'', index)] @
      map (\<lambda>digest. (blobPath digest, case (Map.empty(imageDigest w config \<mapsto> config, imageDigest w layer \<mapsto> layer,
          imageDigest w manifest \<mapsto> manifest)) digest of Some d \<Rightarrow> d | None \<Rightarrow> []))
        [imageDigest w config, imageDigest w layer, imageDigest w manifest]"
    using assms(1) by (auto simp: imageLayout_def bindE_eq_Inr Let_def describe_def)
  have layer: "layer = bwGzip b (bwTar b (layerEntries binary))" "diffID = imageDigest w (bwTar b (layerEntries binary))"
    using steps(1) by (auto simp: buildOCILayer_def bindE_eq_Inr Let_def)
  show ?thesis
    using steps(2-4)
    by (intro exI [of _ config] exI [of _ layer] exI [of _ manifest] exI [of _ index])
      (auto simp: files layer blobPath_digest [OF assms(2)])
qed


section \<open>A finished package\<close>

lemma readers [simp]:
  "digestOf w p t = (r, t') \<longleftrightarrow> t' = t \<and> FileSHA256 (pkSHA w) (openAt w t p) = r"
  by (auto simp: digestOf_def)

lemma findTestAsset_reads: "findTestAsset w root t = (r, t') \<Longrightarrow> t' = t"
  by (auto simp: findTestAsset_def bindM_def split: list.splits prod.splits sum.splits)

lemma wrapM_Inr [simp]: "wrapM message m s = (Inr x, t) \<longleftrightarrow> m s = (Inr x, t)"
  by (auto simp: wrapM_def onResult_def liftE_def split: prod.splits)

lemma single_case: "(case xs of [x] \<Rightarrow> f x | _ \<Rightarrow> e) = r \<longleftrightarrow> (\<exists>x. xs = [x] \<and> f x = r) \<or> (\<nexists>x. xs = [x]) \<and> e = r"
  by (auto split: list.split)

lemma packageInputs_reads: "packageInputs w root t = (Inr inputs, t') \<Longrightarrow> t' = t"
  by (auto simp: packageInputs_def Let_def bindM_eq_Inr inspectPackaged_def single_case split: if_split_asm)

lemma packageInputs_ok:
  assumes "packageInputs w root tree = (Inr (info, binaryDigest, name, sourceDigest), t)"
    "fileAt [''bin'', ''gogs-mcp''] tree = Some binary"
  shows "t = tree" "biStatic info" "binaryDigest = pkSHA w binary" "InspectBinary (Inr binary) = Inr info"
proof -
  have opened: "FileSHA256 (pkSHA w) (openAt w tree [''bin'', ''gogs-mcp'']) = Inr binaryDigest"
    "inspectPackaged w [''bin'', ''gogs-mcp''] tree = (Inr info, tree)" and rest: "t = tree" "biStatic info"
    using assms(1)
    by (auto simp: packageInputs_def Let_def bindM_eq_Inr inspectPackaged_def single_case split: if_split_asm)
  from rest show "t = tree" "biStatic info" by simp_all
  from opened(1) assms(2) show "binaryDigest = pkSHA w binary" using openAt_file by metis
  from opened(1) assms(2) have "openAt w tree [''bin'', ''gogs-mcp''] = Inr (Inr binary)"
    by (auto simp: openAt_def FileSHA256_def Let_def split: option.splits)
  with opened(2) show "InspectBinary (Inr binary) = Inr info" by (simp add: inspectPackaged_def)
qed

definition soundTree :: "dirTree \<Rightarrow> bool" where
  "soundTree t \<longleftrightarrow> wfDir t \<and> plainFiles t"

lemma write_step:
  assumes "writeFileAt w p d t = (Inr (), t')" "plainPath p" "soundTree t"
  shows "soundTree t'" "fileAt q t' = (if q = p then Some d else fileAt q t)"
proof -
  have p: "p \<noteq> []" "hd p \<noteq> ''..''" "list_all plainName p"
    using assms(2) by (cases p; auto simp: plainPath_def plainName_def normalComp_def)+
  note written = writeFileAt_ok [OF assms(1) p(1,2)]
  show step: "fileAt q t' = (if q = p then Some d else fileAt q t)" for q by (rule fileAt_writeBlob [OF written])
  show "soundTree t'"
    using assms(3) writeBlob_wf [OF written] p(3) step by (auto simp: soundTree_def plainFiles_def split: if_splits)
qed

definition imageFile :: "string \<Rightarrow> string" where
  "imageFile version = ''gogs-mcp-'' @ version @ ''-linux-amd64-oci.tar''"

lemma imageFile_plain:
  assumes "plainName version"
  shows "plainPath [''images'', imageFile version]"
    "cleanComps False (''images/gogs-mcp-'' @ version @ ''-linux-amd64-oci.tar'') = [''images'', imageFile version]"
proof -
  have "\<not> hasSuffix (imageFile version) sp" if "sp \<in> set goSpaces" for sp
  proof
    assume "hasSuffix (imageFile version) sp"
    then obtain s where "imageFile version = s @ sp" by (auto simp: hasSuffix_iff)
    moreover have "last (imageFile version) = CHR ''r''" by (simp add: imageFile_def)
    ultimately have "last (s @ sp) = CHR ''r''" by simp
    with that show False by (auto simp: goSpaces_def)
  qed
  moreover have "normalComp (imageFile version)" "lineFeed \<notin> set (imageFile version)"
    using assms by (auto simp: plainName_def imageFile_def normalComp_def slash_def lineFeed_def)
  ultimately have "plainName (imageFile version)" by (simp add: plainName_def list_all_iff)
  then show "plainPath [''images'', imageFile version]"
    by (simp add: plainPath_def plainName_def normalComp_def slash_def lineFeed_def goSpaces_def hasSuffix_def)
  then have "list_all normalComp [''images'', imageFile version]" by (rule plainPath_normal)
  from cleanComps_normal [OF this, of False]
  show "cleanComps False (''images/gogs-mcp-'' @ version @ ''-linux-amd64-oci.tar'') = [''images'', imageFile version]"
    by (simp add: imageFile_def slash_def)
qed

lemma plain_documents:
  "plainPath [''SBOM.cdx.json'']" "plainPath [''THIRD_PARTY_LICENSES.txt'']" "plainPath [''SOURCE-METADATA.json'']"
  by (simp_all add: plainPath_def plainName_def normalComp_def slash_def lineFeed_def goSpaces_def hasSuffix_def)

lemma BuildImageArchive_ok:
  assumes "BuildImageArchive b w version commit created tree = (Inr img, t)" "plainName version" "soundTree tree"
  obtains archive where "soundTree t" "iaPath img = [''images'', imageFile version]"
    "\<And>q. fileAt q t = (if q = [''images'', imageFile version] then Some archive else fileAt q tree)"
proof -
  obtain t0 archive where t0: "mkdirAll [''images''] tree = Some t0"
    and t: "writeFileAt w [''images'', imageFile version] archive t0 = (Inr (), t)"
    and img: "iaPath img = [''images'', imageFile version]"
    using assms(1) imageFile_plain(2) [OF assms(2)]
    by (auto simp: BuildImageArchive_def bindM_eq_Inr Let_def makeDirs_def readPackaged_def
        split: option.splits sum.splits)
  have "soundTree t0"
    using assms(3) mkdirAll_wf [OF t0] by (simp add: soundTree_def plainFiles_def fileAt_mkdirAll [OF t0])
  from write_step [OF t imageFile_plain(1) [OF assms(2)] this] img fileAt_mkdirAll [OF t0]
  show thesis by (intro that [of archive]) simp_all
qed


text \<open>C11: 
  When \<open>mkpackage\<close> succeeds, the package it leaves verifies against its own manifest, its binary is a statically linked
  amd64 program, and the source identity names the digests that the binary and the image in the package really have.
\<close>

theorem finished_package_verifies:
  assumes "runMkpackage b w project (Inr flags) tree = (Inr (), t)"
    and "wfDir tree" "plainTree (Tree tree)" "hexSHA (pkSHA w)" "plainName (pfVersion flags)"
    and binary: "fileAt [''bin'', ''gogs-mcp''] tree = Some binary" "pkRegular w ''bin/gogs-mcp''"
    and readable: "pkOpenErr w manifestName = None" "pkReadErr w manifestName = None"
  shows "VerifyManifest w t = Inr () \<and> InspectBinary (Inr binary) = Inr \<lparr>biArch = ''amd64'', biStatic = True\<rparr> \<and>
    fileAt [''bin'', ''gogs-mcp''] t = Some binary \<and>
    (\<exists>image metadata encoded.
      fileAt [''images'', imageFile (pfVersion flags)] t = Some image \<and>
      fileAt [''SOURCE-METADATA.json''] t = Some (encoded @ [lineFeed]) \<and>
      bwMarshalIndent b (metadataJSON metadata) = Inr encoded \<and>
      smBinary metadata = \<lparr>arPath = ''bin/gogs-mcp'', arSHA256 = pkSHA w binary\<rparr> \<and>
      ciArchive (smImage metadata) = \<lparr>arPath = ''images/'' @ imageFile (pfVersion flags), arSHA256 = pkSHA w image\<rparr>)"
proof -
  have sound: "soundTree tree" using assms(2) plainTree_files [OF assms(3)] by (simp add: soundTree_def)
  obtain info binaryDigest name sourceDigest img digest t1 testAsset sbom t2 licenses t3 encoded t4 where
    inputs: "packageInputs w (pfRoot flags) tree = (Inr (info, binaryDigest, name, sourceDigest), tree)"
    and img: "BuildImageArchive b w (pfVersion flags) (pfCommit flags) (pfBuildTime flags) tree = (Inr img, t1)"
    and digest: "FileSHA256 (pkSHA w) (openAt w t1 (iaPath img)) = Inr digest"
    and t2: "writeFileAt w [''SBOM.cdx.json''] sbom t1 = (Inr (), t2)"
    and t3: "writeFileAt w [''THIRD_PARTY_LICENSES.txt''] licenses t2 = (Inr (), t3)"
    and encoded: "bwMarshalIndent b (metadataJSON (packageMetadata b flags (info, binaryDigest, name, sourceDigest)
      img digest testAsset)) = Inr encoded"
    and t4: "writeFileAt w [''SOURCE-METADATA.json''] (encoded @ [lineFeed]) t3 = (Inr (), t4)"
    and t: "WriteManifest w t4 = (Inr (), t)"
    using assms(1)
    by (clarsimp simp: runMkpackage_def bindM_eq_Inr BuildSourceMetadata_def bindE_eq_Inr split: if_split_asm)
      (drule findTestAsset_reads, frule packageInputs_reads, hypsubst, rule that, assumption+)
  note input = packageInputs_ok [OF inputs binary(1)]
  obtain archive where t1: "soundTree t1" "iaPath img = [''images'', imageFile (pfVersion flags)]"
    "\<And>q. fileAt q t1 = (if q = [''images'', imageFile (pfVersion flags)] then Some archive else fileAt q tree)"
    using BuildImageArchive_ok [OF img assms(5) sound] by metis
  note s2 = write_step [OF t2 plain_documents(1) t1(1)]
  note s3 = write_step [OF t3 plain_documents(2) s2(1)]
  note s4 = write_step [OF t4 plain_documents(3) s3(1)]
  have files: "fileAt [''bin'', ''gogs-mcp''] t4 = Some binary"
    "fileAt [''images'', imageFile (pfVersion flags)] t4 = Some archive"
    "fileAt [''SOURCE-METADATA.json''] t4 = Some (encoded @ [lineFeed])"
    unfolding s4(2) s3(2) s2(2) t1(3) using binary(1) by simp_all
  have "packaged w t4 [''bin'', ''gogs-mcp''] binary"
    using files(1) binary(2) by (simp add: packaged_def slash_def manifestName_def)
  with manifest_fresh [OF _ _ assms(4) _ t readable] s4(1)
  have "VerifyManifest w t = Inr ()" and same: "\<And>q. q \<noteq> [manifestName] \<Longrightarrow> fileAt q t = fileAt q t4"
    by (auto simp: soundTree_def)
  moreover have "digest = pkSHA w archive" using openAt_file [OF _ digest, of archive] t1(2,3) by simp
  moreover have "info = \<lparr>biArch = ''amd64'', biStatic = True\<rparr>"
    using input(2) InspectBinary_arch [OF input(4)] by (cases info) simp
  ultimately show ?thesis
    using files input(3,4) encoded t1(2) same
    by (intro conjI exI [of _ archive] exI [of _ "packageMetadata b flags (info, binaryDigest, name, sourceDigest)
          img digest testAsset"] exI [of _ encoded])
      (simp_all add: manifestName_def packageMetadata_def del: fileAt.simps)
qed


definition sampleBuild :: buildWorld where
  "sampleBuild = \<lparr>bwMarshal = (\<lambda>_. Inr ''{}''), bwMarshalIndent = (\<lambda>_. Inr ''{ }''), bwRandom = Inr (replicate 16 CHR 0x07),
     bwTar = (\<lambda>entries. concat (map leName entries)), bwHeaderErr = (\<lambda>_. None), bwBodyErr = (\<lambda>_. None),
     bwTarCloseErr = (\<lambda>_. None), bwGzip = (\<lambda>d. rev d), bwGzipErr = (\<lambda>_. None), bwGzipCloseErr = (\<lambda>_. None),
     bwGoVersion = ''go1''\<rparr>"

definition staticElf :: string where
  "staticElf = map char_of ([0x7F, 0x45, 0x4C, 0x46, 2, 1] @ replicate 12 0 @ [62, 0] @ replicate 12 0 @
     [64] @ replicate 21 0 @ [4, 0, 0 :: nat] @ replicate 7 0)"

definition sampleInput :: dirTree where
  "sampleInput = [(''source'', Tree [(''gogs-mcp-1.tar.gz'', Blob ''src'')]), (''bin'', Tree [(''gogs-mcp'', Blob staticElf)])]"

definition sampleFlags :: packageFlags where
  "sampleFlags = \<lparr>pfRoot = ''/p'', pfProject = ''/r'', pfVersion = ''1'', pfCommit = ''c'', pfBuildTime = ''t'',
     pfGogsAPI = ''v'', pfNArg = 0\<rparr>"

definition sampleProject :: projectFiles where
  "sampleProject = \<lparr>pjModulesTxt = Inr ''# m v1'', pjIsFile = (\<lambda>p. p = ''/r/vendor/m/LICENSE''), pjRead = (\<lambda>_. Inr ''MIT'')\<rparr>"


definition sampleLayout :: "(string \<times> string) list" where
  "sampleLayout = [(''oci-layout'', ''{\"imageLayoutVersion\":\"1.0.0\"}'' @ [lineFeed]), (''index.json'', ''{}''),
     (''blobs/sha256/ff'', ''{}''), (''blobs/sha256/ff'', ''{}''), (''blobs/sha256/ff'', ''{}'')]"

lemma sample_layout: "imageLayout sampleBuild sampleWorld ''gogs-mcp:1'' ''1'' ''c'' ''t'' staticElf = Inr sampleLayout"
proof -
  have "blobPath ''sha256:ff'' = ''blobs/sha256/ff''" by code_simp
  moreover have "bwGzip sampleBuild (bwTar sampleBuild (layerEntries staticElf)) = rev ''gogs-mcpcache/''" by code_simp
  ultimately show ?thesis
    by (simp add: imageLayout_def buildOCILayer_def sampleBuild_def sampleWorld_def Let_def wrapErr_def layerEntries_def
        failing_def describe_def imageDigest_def sampleLayout_def)
qed

theorem image_references_resolve_witness:
  "\<exists>config index. map_of sampleLayout ''index.json'' = Some index \<and>
     (\<exists>blob. map_of sampleLayout (blobName sampleWorld config) = Some blob \<and> pkSHA sampleWorld blob = pkSHA sampleWorld config)"
proof -
  obtain config layer manifest index where "map_of sampleLayout ''index.json'' = Some index"
    and blobs: "\<forall>d \<in> {config, layer, manifest}. \<exists>blob. map_of sampleLayout (blobName sampleWorld d) = Some blob \<and>
      pkSHA sampleWorld blob = pkSHA sampleWorld d \<and>
      (distinct (map (pkSHA sampleWorld) [config, layer, manifest]) \<longrightarrow> blob = d)"
    using image_references_resolve [OF sample_layout sample_hex] by blast
  then show ?thesis using bspec [OF blobs, of config] by blast
qed

definition sampleArchive :: string where
  "sampleArchive = ''oci-layoutindex.jsonblobs/sha256/ffblobs/sha256/ffblobs/sha256/ff''"

definition sampleImage :: ImageArchive where
  "sampleImage = \<lparr>iaReference = ''gogs-mcp:1'', iaPath = [''images'', ''gogs-mcp-1-linux-amd64-oci.tar''], iaSHA256 = ''ff''\<rparr>"

definition withImage :: dirTree where
  "withImage = sampleInput @ [(''images'', Tree [(''gogs-mcp-1-linux-amd64-oci.tar'', Blob sampleArchive)])]"

lemma sample_archive: "imageArchive sampleBuild sampleWorld ''gogs-mcp:1'' ''1'' ''c'' ''t'' staticElf = Inr sampleArchive"
  unfolding imageArchive_def sample_layout
  by (simp add: sampleLayout_def sampleBuild_def failing_def blobEntry_def sampleArchive_def)

lemma sample_image: "BuildImageArchive sampleBuild sampleWorld ''1'' ''c'' ''t'' sampleInput = (Inr sampleImage, withImage)"
proof -
  have "readPackaged sampleWorld [''bin'', ''gogs-mcp''] sampleInput = (Inr staticElf, sampleInput)" by code_simp
  moreover have "makeDirs [''images''] sampleInput = (Inr (), sampleInput @ [(''images'', Tree [])])" by code_simp
  moreover have "cleanComps False (''images/gogs-mcp-'' @ ''1'' @ ''-linux-amd64-oci.tar'') = iaPath sampleImage" by code_simp
  moreover have "writeFileAt sampleWorld (iaPath sampleImage) sampleArchive (sampleInput @ [(''images'', Tree [])]) =
    (Inr (), withImage)" by code_simp
  moreover have "FileSHA256 (pkSHA sampleWorld) (openAt sampleWorld withImage (iaPath sampleImage)) = Inr ''ff''" by code_simp
  ultimately show ?thesis
    by (simp add: BuildImageArchive_def sample_archive Let_def) (simp add: sampleImage_def)
qed


definition sampleModules :: "Module list" where
  "sampleModules = [\<lparr>mdPath = ''m'', mdVersion = ''v1''\<rparr>]"

definition sampleLicenses :: string where
  "sampleLicenses = licensesHead @ ''=== m v1 ==='' @ [lineFeed] @ ''--- LICENSE ---'' @ [lineFeed] @ ''MIT'' @ [lineFeed, lineFeed]"

definition withDocuments :: "nat \<Rightarrow> dirTree" where
  "withDocuments n = withImage @ take n [(''SBOM.cdx.json'', Blob (''{ }'' @ [lineFeed])),
     (''THIRD_PARTY_LICENSES.txt'', Blob sampleLicenses), (''SOURCE-METADATA.json'', Blob (''{ }'' @ [lineFeed]))]"

lemma sample_run:
  "runMkpackage sampleBuild sampleWorld sampleProject (Inr sampleFlags) sampleInput =
    WriteManifest sampleWorld (withDocuments 3)"
proof -
  have "packageInputs sampleWorld ''/p'' sampleInput =
      (Inr (\<lparr>biArch = ''amd64'', biStatic = True\<rparr>, ''ff'', ''gogs-mcp-1.tar.gz'', ''ff''), sampleInput)" by code_simp
  moreover have "readModules sampleProject = Inr sampleModules" by code_simp
  moreover have "digestOf sampleWorld (iaPath sampleImage) withImage = (Inr ''ff'', withImage)" by code_simp
  moreover have "findTestAsset sampleWorld ''/p'' withImage = (Inr None, withImage)" by code_simp
  moreover have "BuildSBOM sampleBuild ''gogs-mcp'' ''1'' ''c'' r sampleModules = Inr (''{ }'' @ [lineFeed])" for r
    by (simp add: BuildSBOM_def sampleBuild_def randomUUID_def wrapErr_def Let_def)
  moreover have "writeFileAt sampleWorld [''SBOM.cdx.json''] (''{ }'' @ [lineFeed]) withImage = (Inr (), withDocuments 1)"
    by code_simp
  moreover have "BuildLicensesText (pjIsFile sampleProject) (pjRead sampleProject) (pathJoin [''/r'', ''vendor''])
      sampleModules = Inr sampleLicenses" by code_simp
  moreover have "writeFileAt sampleWorld [''THIRD_PARTY_LICENSES.txt''] sampleLicenses (withDocuments 1) =
      (Inr (), withDocuments 2)" by code_simp
  moreover have "BuildSourceMetadata sampleBuild m = Inr (''{ }'' @ [lineFeed])" for m
    by (simp add: BuildSourceMetadata_def sampleBuild_def wrapErr_def)
  moreover have "writeFileAt sampleWorld [''SOURCE-METADATA.json''] (''{ }'' @ [lineFeed]) (withDocuments 2) =
      (Inr (), withDocuments 3)" by code_simp
  moreover note sample_image
  ultimately show ?thesis
    by (simp add: runMkpackage_def sampleFlags_def bindM_def del: readers)
qed

theorem finished_package_verifies_witness:
  "\<exists>t. runMkpackage sampleBuild sampleWorld sampleProject (Inr sampleFlags) sampleInput = (Inr (), t) \<and>
     VerifyManifest sampleWorld t = Inr ()"
proof -
  have "fst (WriteManifest sampleWorld (withDocuments 3)) = Inr ()" by code_simp
  then obtain t where t: "runMkpackage sampleBuild sampleWorld sampleProject (Inr sampleFlags) sampleInput = (Inr (), t)"
    unfolding sample_run by (metis prod.collapse)
  have "VerifyManifest sampleWorld t = Inr ()"
  proof (rule conjunct1 [OF finished_package_verifies [OF t]])
    show "wfDir sampleInput" by (simp add: sampleInput_def wfDir_def)
    show "plainTree (Tree sampleInput)"
      by (simp add: sampleInput_def plainName_def normalComp_def slash_def lineFeed_def goSpaces_def hasSuffix_def)
    show "plainName (pfVersion sampleFlags)"
      by (simp add: sampleFlags_def plainName_def normalComp_def slash_def lineFeed_def goSpaces_def hasSuffix_def)
    show "fileAt [''bin'', ''gogs-mcp''] sampleInput = Some staticElf" by (simp add: sampleInput_def)
  qed (simp_all add: sample_hex, simp_all add: sampleWorld_def)
  with t show ?thesis by blast
qed

end
