(* ===== verification/App.thy ===== *)
theory App
  imports HttpRoutes Snapshot ToolIssues
begin

text \<open>
  internal/app/app.go and \<open>NewClient\<close> of internal/gogs/client.go: the command line. A command takes the state of the
  process (\<open>appState\<close>: what was printed, the tree of the cache root, the requests to Gogs) to its exit code and the
  state it leaves. The flag package is modelled by \<open>parseFlags\<close>; the system, Gogs, the failures of the file system
  and the two servers once they run are the fields of \<open>appWorld\<close>.
\<close>

section \<open>The process\<close>

definition exitOK :: int where "exitOK = 0"
definition exitInternal :: int where "exitInternal = 1"
definition exitConfig :: int where "exitConfig = 2"
definition exitConnection :: int where "exitConnection = 3"

text \<open>What is printed: a text, a format with a quoted string or an error, what the flag package says about an error, and one JSON document.\<close>

datatype printed = Say string | SayQuoted string string | SayErr string goerr | FlagUsage string goerr | LogErr string goerr
  | LogLine string string "(string \<times> string) list" | Doc json

record appState =
  asOut :: "printed list"
  asErr :: "printed list"
  asCache :: "fnode option"
  asClient :: clientState

type_synonym command = "appState \<Rightarrow> int \<times> appState"

definition printOut :: "printed \<Rightarrow> appState \<Rightarrow> appState" where
  "printOut t s = s\<lparr>asOut := asOut s @ [t]\<rparr>"

definition printErr :: "printed \<Rightarrow> appState \<Rightarrow> appState" where
  "printErr t s = s\<lparr>asErr := asErr s @ [t]\<rparr>"

text \<open>Ending with a message.\<close>

definition exitErr :: "int \<Rightarrow> printed \<Rightarrow> command" where
  "exitErr code t s = (code, printErr t s)"

definition exitOut :: "int \<Rightarrow> printed \<Rightarrow> command" where
  "exitOut code t s = (code, printOut t s)"

record appWorld =
  awConfig :: configWorld
  awLookup :: lookupEnv
  awUserCacheDir :: "goerr + string"
  awGogs :: httpWorld
  awSystemPool :: "goerr option"
  awReadPEM :: "string \<Rightarrow> goerr + string"
  awPEM :: "string \<Rightarrow> bool"
  awInstance :: "baseURL \<Rightarrow> goerr + instanceURL"
  awSHA :: "string \<Rightarrow> string"
  awBaseURLText :: "baseURL \<Rightarrow> string"
  awCleanup :: cleanupWorld
  awUserDisk :: diskWorld
  awUserStat :: "goerr option"
  awUserWriter :: "goerr option"
  awPullDisk :: "string \<Rightarrow> diskWorld"
  awPullWriter :: "string \<Rightarrow> goerr option"
  awRemoveErr :: "fpath \<Rightarrow> (goerr \<times> fnode) option"
  awStdio :: "Client \<Rightarrow> goerr option"
  awHTTP :: listenWorld
  awParseInt64 :: "string \<Rightarrow> int option"
  awVersion :: string
  awCommit :: string
  awBuildTime :: string
  awGoVersion :: string

section \<open>Flags\<close>

datatype flagKind = StringFlag | BoolFlag | Int64Flag

definition parseBool :: "string \<Rightarrow> bool option" where
  "parseBool s =
     (if s \<in> {''1'', ''t'', ''T'', ''TRUE'', ''true'', ''True''} then Some True
      else if s \<in> {''0'', ''f'', ''F'', ''FALSE'', ''false'', ''False''} then Some False
      else None)"

definition validFlag :: "appWorld \<Rightarrow> flagKind \<Rightarrow> string \<Rightarrow> bool" where
  "validFlag w kind v = (case kind of StringFlag \<Rightarrow> True | BoolFlag \<Rightarrow> parseBool v \<noteq> None
     | Int64Flag \<Rightarrow> awParseInt64 w v \<noteq> None)"

text \<open>\<open>FlagSet.Parse\<close>: the values set, the last one first, and the arguments that are left.\<close>

fun parseFlags :: "appWorld \<Rightarrow> (string \<times> flagKind) list \<Rightarrow> (string \<times> string) list \<Rightarrow> string list \<Rightarrow>
    goerr + (string \<times> string) list \<times> string list" where
  "parseFlags w kinds vals [] = Inr (vals, [])"
| "parseFlags w kinds vals (s # args) =
     (if length s < 2 \<or> hd s \<noteq> CHR ''-'' then Inr (vals, s # args)
      else if s = ''--'' then Inr (vals, args)
      else
        (let body = (if s ! 1 = CHR ''-'' then drop 2 s else drop 1 s);
             (name, given) = (case cut body ''='' of None \<Rightarrow> (body, None) | Some (a, b) \<Rightarrow> (a, Some b))
         in if body = [] \<or> hd body = CHR ''-'' \<or> hd body = CHR ''='' then Inl [MsgErr ''bad flag syntax: %s'']
            else (case map_of kinds name of
                None \<Rightarrow>
                  (if name = ''help'' \<or> name = ''h'' then Inl [MsgErr ''flag: help requested'']
                   else Inl [MsgErr ''flag provided but not defined: -%s''])
              | Some kind \<Rightarrow>
                  (case (if kind = BoolFlag \<and> given = None then Some ''true'' else given) of
                     Some v \<Rightarrow>
                       (if validFlag w kind v then parseFlags w kinds ((name, v) # vals) args
                        else Inl [MsgErr ''invalid value %q for flag -%s: %v''])
                   | None \<Rightarrow>
                       (case args of
                          [] \<Rightarrow> Inl [MsgErr ''flag needs an argument: -%s'']
                        | v # rest \<Rightarrow>
                            (if validFlag w kind v then parseFlags w kinds ((name, v) # vals) rest
                             else Inl [MsgErr ''invalid value %q for flag -%s: %v'']))))))"

definition stringFlag :: "string \<Rightarrow> (string \<times> string) list \<Rightarrow> string" where
  "stringFlag name vals = (case map_of vals name of Some v \<Rightarrow> v | None \<Rightarrow> [])"

definition boolFlag :: "string \<Rightarrow> (string \<times> string) list \<Rightarrow> bool" where
  "boolFlag name vals = (case map_of vals name of Some v \<Rightarrow> parseBool v = Some True | None \<Rightarrow> False)"

definition int64Flag :: "appWorld \<Rightarrow> string \<Rightarrow> (string \<times> string) list \<Rightarrow> int" where
  "int64Flag w name vals =
     (case map_of vals name of Some v \<Rightarrow> (case awParseInt64 w v of Some n \<Rightarrow> n | None \<Rightarrow> 0) | None \<Rightarrow> 0)"

definition parseConfigFlag :: "appWorld \<Rightarrow> string \<Rightarrow> string list \<Rightarrow> appState \<Rightarrow> string option \<times> appState" where
  "parseConfigFlag w cmd args s =
     (case parseFlags w [(''config'', StringFlag)] [] args of
        Inl err \<Rightarrow> (None, printErr (FlagUsage cmd err) s)
      | Inr (vals, rest) \<Rightarrow>
          if rest \<noteq> [] then (None, printErr (Say (cmd @ '' does not accept positional arguments.'')) s)
          else (Some (stringFlag ''config'' vals), s))"

section \<open>The Gogs client\<close>

record clientOptions =
  coAPIRoot :: "baseURL option"
  coToken :: string
  coCAFile :: string
  coTimeout :: int
  coUserAgent :: string
  coCacheDir :: string
  coCacheTTL :: int
  coCacheMaxBytes :: int

text \<open>\<open>NewClient\<close> as far as it can fail; the certificates, the timeout and the redirect rule belong to the requests.\<close>

definition NewClient :: "appWorld \<Rightarrow> clientOptions \<Rightarrow> goerr + Client" where
  "NewClient w options =
     (case coAPIRoot options of
        None \<Rightarrow> Inl [MsgErr ''API root is required'']
      | Some root \<Rightarrow>
          bindE (if coCAFile options = [] then Inr ()
             else (case awSystemPool w of
                 Some err \<Rightarrow> Inl (MsgErr ''load system CA pool'' # err)
               | None \<Rightarrow> bindE (wrapErr ''read custom CA file'' (awReadPEM w (coCAFile options))) (\<lambda>pem.
                   if awPEM w pem then Inr () else Inl [MsgErr ''GOGS_CA_FILE contains no valid certificates''])))
          (\<lambda>_. Inr \<lparr>apiRoot = url.truncate root, token = coToken options, hasAuthenticationFailure = False\<rparr>))"

text \<open>The client of a command; only \<open>serve\<close> gives it a budget for its cache.\<close>

definition clientFor :: "appWorld \<Rightarrow> Config \<Rightarrow> string \<Rightarrow> int \<Rightarrow> int \<Rightarrow> goerr + Client" where
  "clientFor w c cacheDir ttl maxBytes = NewClient w
     \<lparr>coAPIRoot = Some (APIRoot c), coToken = Token c, coCAFile = CAFile c, coTimeout = HTTPTimeout c,
      coUserAgent = ''gogs-mcp/'' @ awVersion w, coCacheDir = cacheDir, coCacheTTL = ttl, coCacheMaxBytes = maxBytes\<rparr>"

text \<open>The client of the http transport for one token. Over a loaded configuration it is the client the stdio
  transport would have with that token.\<close>

definition newClient :: "appWorld \<Rightarrow> httpServer \<Rightarrow> string \<Rightarrow> string \<Rightarrow> goerr + Client" where
  "newClient w server tok cacheDir = (let ho = hsOptions server in NewClient w
     \<lparr>coAPIRoot = Some (hsApiRoot server), coToken = tok, coCAFile = hoCAFile ho, coTimeout = hoHTTPTimeout ho,
      coUserAgent = hoUserAgent ho, coCacheDir = cacheDir, coCacheTTL = hoCacheTTL ho,
      coCacheMaxBytes = hoCacheMaxBytes ho\<rparr>)"

lemma http_client_is_stdio_client:
  assumes "Load (awConfig w) path lookup = Inr c" "Transport c = ''http''" "second \<le> HTTPUserCacheTTL c"
    and "cwSplitHostPort (awConfig w) (HTTPAddr c) = Inr ()"
    and "resolveCacheDir (awUserCacheDir w) c = Inr root" "isRooted root"
  shows "\<exists>s. newServer (cwSplitHostPort (awConfig w)) (serveOptions c root (awVersion w)) = Inr s
    \<and> newClient w s tok dir = clientFor w (c\<lparr>Token := tok\<rparr>) dir (CacheTTL c) (CacheMaxBytes c)"
  using loaded_config_serves [OF assms, of "awVersion w"]
  by (auto simp: newClient_def clientFor_def Let_def serveOptions_def APIRoot_def)

definition currentUser :: "appWorld \<Rightarrow> Client \<Rightarrow> appState \<Rightarrow> (goerr + User) \<times> appState" where
  "currentUser w c s =
     (case GetAuthenticatedUser (awGogs w) c (asClient s) of (r, st) \<Rightarrow> (r, s\<lparr>asClient := st\<rparr>))"

section \<open>Caches\<close>

definition cacheManagerFor :: "appWorld \<Rightarrow> Config \<Rightarrow> goerr + Manager" where
  "cacheManagerFor w c =
     bindE (resolveCacheDir (awUserCacheDir w) c) (\<lambda>cacheDir.
       NewManager cacheDir (awBaseURLText w (the (BaseURL c))) (awInstance w (the (BaseURL c))) DefaultLimits
         \<lparr>evMaxBytes = CacheMaxBytes c, evTTL = CacheTTL c\<rparr>)"

text \<open>\<open>os.RemoveAll\<close> of a path below the cache root; a failure may leave some of it.\<close>

definition removePath :: "appWorld \<Rightarrow> fpath \<Rightarrow> appState \<Rightarrow> goerr option \<times> appState" where
  "removePath w p s =
     (case awRemoveErr w p of
        Some (err, left) \<Rightarrow> (Some err,
          if Option.bind (asCache s) (nodeAt p) = None then s
          else s\<lparr>asCache := map_option (putAt p left) (asCache s)\<rparr>)
      | None \<Rightarrow> (None, s\<lparr>asCache := map_option (removeAt p) (asCache s)\<rparr>))"

definition removeSharedCacheRoots :: "appWorld \<Rightarrow> appState \<Rightarrow> goerr option \<times> appState" where
  "removeSharedCacheRoots w s =
     (case removePath w [''pull''] s of
        (Some err, s) \<Rightarrow> (Some err, s)
      | (None, s) \<Rightarrow> removePath w [''users''] s)"

definition removeUserCacheRoot :: "appWorld \<Rightarrow> int \<Rightarrow> appState \<Rightarrow> goerr option \<times> appState" where
  "removeUserCacheRoot w userID s = removePath w [''users'', formatInt userID] s"

text \<open>\<open>RemoveAll\<close> and \<open>RemoveUser\<close> of the snapshot manager on the tree of the cache root.\<close>

definition removeEverySnapshot :: "appWorld \<Rightarrow> appState \<Rightarrow> goerr option \<times> appState" where
  "removeEverySnapshot w s = (case RemoveAll (awCleanup w) (asCache s) of (err, t) \<Rightarrow> (err, s\<lparr>asCache := t\<rparr>))"

definition removeSnapshotsOf :: "appWorld \<Rightarrow> Manager \<Rightarrow> int \<Rightarrow> appState \<Rightarrow> goerr option \<times> appState" where
  "removeSnapshotsOf w m userID s =
     (let p = (case normalizedInstanceHash (awSHA w) (mgInstance m) of Inr h \<Rightarrow> [h, formatInt userID] | Inl _ \<Rightarrow> []) in
      case RemoveUser (awSHA w) m (awUserDisk w) (awUserStat w) (awUserWriter w) userID
             (if p = [] then None else Option.bind (asCache s) (nodeAt p)) of
        (err, None) \<Rightarrow> (err, s)
      | (err, Some left) \<Rightarrow> (err, s\<lparr>asCache := map_option (putAt p left) (asCache s)\<rparr>))"

text \<open>\<open>CleanPullCacheDir\<close> on the cache root: each directory goes as a whole, under the writer lock of the root.\<close>

definition removePullDir :: "appWorld \<Rightarrow> string \<Rightarrow> appState \<Rightarrow> goerr option \<times> appState" where
  "removePullDir w name s =
     (let tree = (case Option.bind (asCache s) (nodeAt [name]) of Some n \<Rightarrow> n | None \<Rightarrow> FDir 0 []) in
      case RemoveTree (awPullDisk w name) (awPullWriter w name) name True tree of
        (Some err, _) \<Rightarrow> (Some err, s)
      | (None, _) \<Rightarrow> (None, s\<lparr>asCache := map_option (removeAt [name]) (asCache s)\<rparr>))"

definition CleanPullCacheDir :: "appWorld \<Rightarrow> string \<Rightarrow> appState \<Rightarrow> goerr option \<times> appState" where
  "CleanPullCacheDir w dir s =
     (if dir = [] then (None, s)
      else (case removePullDir w ''.pull'' s of
          (Some err, s) \<Rightarrow> (Some err, s)
        | (None, s) \<Rightarrow> removePullDir w ''pull'' s))"


section \<open>Serving\<close>

definition httpTokenErr :: string where
  "httpTokenErr = ''Configuration error: the http transport authenticates every request with a header credential; remove GOGS_TOKEN and GOGS_TOKEN_FILE and keep them only for verify or cache clean.''"

text \<open>The log lines the level lets through, and the exit code of a program that panicked.\<close>

definition levelRank :: "string \<Rightarrow> nat" where
  "levelRank level =
     (if level = ''debug'' then 0 else if level = ''info'' then 1 else if level = ''warn'' then 2 else 3)"

definition printLines :: "string \<Rightarrow> logLine list \<Rightarrow> appState \<Rightarrow> appState" where
  "printLines level lines =
     fold (\<lambda>(l, message, details). printErr (LogLine l message details))
       (filter (\<lambda>(l, message, details). levelRank level \<le> levelRank l) lines)"

definition exitPanic :: int where "exitPanic = 2"

definition runServeHTTP :: "appWorld \<Rightarrow> Config \<Rightarrow> command" where
  "runServeHTTP w cfg =
     (case resolveCacheDir (awUserCacheDir w) cfg of
        Inl err \<Rightarrow> exitErr exitConfig (SayErr ''Could not resolve the cache directory: %s.'' err)
      | Inr cacheTop \<Rightarrow>
        (case cacheManagerFor w cfg of
           Inl err \<Rightarrow> exitErr exitConfig (SayErr ''Could not initialize the snapshot cache: %s.'' err)
         | Inr snapshots \<Rightarrow>
           (case newServer (cwSplitHostPort (awConfig w)) (serveOptions cfg cacheTop (awVersion w)) of
              Inl err \<Rightarrow> exitErr exitConfig (SayErr ''Configuration error: %s.'' err)
            | Inr server \<Rightarrow>
              (\<lambda>s. (case runServer (awHTTP w) server of
                   (lines, ended) \<Rightarrow>
                     (let s = printLines (LogLevel cfg) lines s in
                      case ended of
                        RunOK \<Rightarrow> (exitOK, s)
                      | ListenError addr err \<Rightarrow> exitErr exitConfig (SayErr ''Configuration error: %s.'' err) s
                      | RunErr err \<Rightarrow> exitErr exitInternal (SayErr ''The HTTP transport stopped unexpectedly: %s.'' err) s
                      | RunPanic \<Rightarrow> (exitPanic, s)))))))"

text \<open>The log of the stdio server: errors pass at every level a configuration can set.\<close>

definition logError :: "string \<Rightarrow> goerr \<Rightarrow> printed" where
  "logError message err = LogErr message err"

definition runServe :: "appWorld \<Rightarrow> string list \<Rightarrow> command" where
  "runServe w args s =
     (case parseConfigFlag w ''serve'' args s of
        (None, s) \<Rightarrow> (exitConfig, s)
      | (Some configPath, s) \<Rightarrow>
        (case Load (awConfig w) configPath (awLookup w) of
           Inl err \<Rightarrow> exitErr exitConfig (SayErr ''Configuration error: %s.'' err) s
         | Inr cfg \<Rightarrow>
           if Transport cfg = ''http'' \<and> Token cfg \<noteq> [] then exitErr exitConfig (Say httpTokenErr) s
           else if Transport cfg = ''http'' then runServeHTTP w cfg s
           else (case resolveCacheDir (awUserCacheDir w) cfg of
               Inl err \<Rightarrow> exitErr exitConfig (logError ''Could not resolve the cache directory.'' err) s
             | Inr cacheDir \<Rightarrow>
               (case clientFor w cfg cacheDir (CacheTTL cfg) (CacheMaxBytes cfg) of
                  Inl err \<Rightarrow> exitErr exitInternal (logError ''Could not initialize the Gogs client.'' err) s
                | Inr client \<Rightarrow>
                  (case cacheManagerFor w cfg of
                     Inl err \<Rightarrow> exitErr exitConfig (logError ''Could not initialize the snapshot cache.'' err) s
                   | Inr snapshots \<Rightarrow>
                     (case awStdio w client of
                        None \<Rightarrow> (exitOK, s)
                      | Some err \<Rightarrow>
                          if errIs err ContextCanceled then (exitOK, s)
                          else exitErr exitInternal (logError ''The MCP server stopped unexpectedly.'' err) s))))))"

section \<open>Verifying\<close>

record diagnosticError =
  deCode :: string
  deMessage :: string
  deRetryable :: bool

record diagnostic =
  dgOK :: bool
  dgBaseURL :: string
  dgUser :: "User option"
  dgError :: "diagnosticError option"

definition userJSON :: "User \<Rightarrow> json" where
  "userJSON u = JObj [(''id'', JNum (uId u)), (''username'', JStr (uUsername u)), (''full_name'', JStr (uFullName u)),
     (''email'', JStr (uEmail u))]"

definition diagnosticJSON :: "diagnostic \<Rightarrow> json" where
  "diagnosticJSON d = JObj
     ([(''ok'', JBool (dgOK d))] @
      (if dgBaseURL d = [] then [] else [(''base_url'', JStr (dgBaseURL d))]) @
      (case dgUser d of None \<Rightarrow> [] | Some u \<Rightarrow> [(''user'', userJSON u)]) @
      (case dgError d of None \<Rightarrow> []
       | Some e \<Rightarrow> [(''error'', JObj [(''code'', JStr (deCode e)), (''message'', JStr (deMessage e)),
           (''retryable'', JBool (deRetryable e))])]))"

definition printJSON :: "json \<Rightarrow> appState \<Rightarrow> appState" where
  "printJSON v s = printOut (Doc v) s"

definition configInvalid :: "string \<Rightarrow> diagnostic" where
  "configInvalid message = \<lparr>dgOK = False, dgBaseURL = [], dgUser = None,
     dgError = Some \<lparr>deCode = ''CONFIG_INVALID'', deMessage = message, deRetryable = False\<rparr>\<rparr>"

definition diagnose :: "int \<Rightarrow> diagnostic \<Rightarrow> command" where
  "diagnose code d s = (code, printJSON (diagnosticJSON d) s)"

definition runVerify :: "appWorld \<Rightarrow> string list \<Rightarrow> command" where
  "runVerify w args s =
     (case parseConfigFlag w ''verify'' args s of
        (None, s) \<Rightarrow> (exitConfig, s)
      | (Some configPath, s) \<Rightarrow>
        (case Load (awConfig w) configPath (awLookup w) of
           Inl err \<Rightarrow> diagnose exitConfig (configInvalid ''The Gogs MCP configuration is invalid.'') s
         | Inr cfg \<Rightarrow>
           if trimSpace (Token cfg) = [] then
             diagnose exitConfig (configInvalid
               ''verify needs a Gogs token; the http transport takes per-request credentials from headers, so set GOGS_TOKEN or GOGS_TOKEN_FILE only for this command.'') s
           else (case clientFor w cfg [] 0 0 of
               Inl err \<Rightarrow> diagnose exitConfig (configInvalid ''The HTTP client configuration is invalid.'') s
             | Inr client \<Rightarrow>
               (case currentUser w client s of
                  (Inl err, s) \<Rightarrow>
                    (let classified = gogsOf (AsError err) in
                     diagnose exitConnection \<lparr>dgOK = False, dgBaseURL = awBaseURLText w (the (BaseURL cfg)), dgUser = None,
                       dgError = Some \<lparr>deCode = codeString (Code classified), deMessage = Message classified,
                         deRetryable = Retryable classified\<rparr>\<rparr> s)
                | (Inr user, s) \<Rightarrow>
                    diagnose exitOK \<lparr>dgOK = True, dgBaseURL = awBaseURLText w (the (BaseURL cfg)), dgUser = Some user,
                      dgError = None\<rparr> s))))"

section \<open>Cleaning caches\<close>

definition cacheUsage :: string where
  "cacheUsage = ''Usage: gogs-mcp cache clean [--config PATH] [--user ID | --all].''"

text \<open>Running a removal: its failure ends the command.\<close>

definition orFail :: "(appState \<Rightarrow> goerr option \<times> appState) \<Rightarrow> string \<Rightarrow> command \<Rightarrow> command" where
  "orFail removal message k s =
     (case removal s of (Some err, s) \<Rightarrow> exitErr exitInternal (SayErr message err) s | (None, s) \<Rightarrow> k s)"

definition cleanAll :: "appWorld \<Rightarrow> command" where
  "cleanAll w =
     orFail (removeEverySnapshot w) ''Could not remove the snapshot caches: %s.''
       (orFail (removeSharedCacheRoots w) ''Could not remove the shared pull request caches: %s.''
         (exitOut exitOK (Say ''Removed every snapshot and pull request cache.'')))"

definition cleanUser :: "appWorld \<Rightarrow> Manager \<Rightarrow> int \<Rightarrow> command" where
  "cleanUser w snapshots userID =
     orFail (removeSnapshotsOf w snapshots userID) ''Could not remove the snapshot cache: %s.''
       (orFail (removeUserCacheRoot w userID) ''Could not remove the per-user cache: %s.''
         (exitOut exitOK (Say (''Removed the snapshot and pull request caches for user ID '' @ formatInt userID @ ''.''))))"

definition cleanCaller :: "appWorld \<Rightarrow> Manager \<Rightarrow> string \<Rightarrow> Config \<Rightarrow> command" where
  "cleanCaller w snapshots cacheTop cfg s =
     (if Token cfg = [] then
        exitErr exitConfig (Say ''cache clean needs a Gogs token, or pass --user ID or --all to remove caches without credentials.'') s
      else (case clientFor w cfg cacheTop 0 0 of
          Inl err \<Rightarrow> exitErr exitConfig (SayErr ''Could not initialize the Gogs client: %s.'' err) s
        | Inr client \<Rightarrow>
          (case currentUser w client s of
             (Inl err, s) \<Rightarrow>
               (let classified = gogsOf (AsError err) in
                exitErr exitConnection (Say (''Could not resolve the authenticated user: '' @ Message classified @ '' ('' @
                  codeString (Code classified) @ '').'')) s)
           | (Inr user, s) \<Rightarrow>
               orFail (removeSnapshotsOf w snapshots (uId user)) ''Could not remove the snapshot cache: %s.''
                 (orFail (CleanPullCacheDir w cacheTop) ''Could not remove the pull request git cache: %s.''
                   (exitOut exitOK (Say (''Removed the snapshot and pull request caches for user '' @ uUsername user @ ''.'')))) s)))"

definition runCache :: "appWorld \<Rightarrow> string list \<Rightarrow> command" where
  "runCache w args s =
     (if args = [] \<or> hd args \<noteq> ''clean'' then exitErr exitConfig (Say cacheUsage) s
      else (case parseFlags w [(''config'', StringFlag), (''all'', BoolFlag), (''user'', Int64Flag)] [] (tl args) of
          Inl err \<Rightarrow> exitErr exitConfig (FlagUsage ''cache clean'' err) s
        | Inr (vals, rest) \<Rightarrow>
          (let all = boolFlag ''all'' vals; userID = int64Flag w ''user'' vals in
           if rest \<noteq> [] then exitErr exitConfig (Say ''cache clean does not accept positional arguments.'') s
           else if all \<and> userID \<noteq> 0 then exitErr exitConfig (Say ''cache clean accepts either --all or --user, not both.'') s
           else (case LoadForMaintenance (awConfig w) (stringFlag ''config'' vals) (awLookup w) of
               Inl err \<Rightarrow> exitErr exitConfig (SayErr ''Configuration error: %s.'' err) s
             | Inr cfg \<Rightarrow>
               (case cacheManagerFor w cfg of
                  Inl err \<Rightarrow> exitErr exitConfig (SayErr ''Could not initialize the snapshot cache: %s.'' err) s
                | Inr snapshots \<Rightarrow>
                  (case resolveCacheDir (awUserCacheDir w) cfg of
                     Inl err \<Rightarrow> exitErr exitConfig (SayErr ''Could not resolve the cache directory: %s.'' err) s
                   | Inr cacheTop \<Rightarrow>
                     if all then cleanAll w s
                     else if userID > 0 then cleanUser w snapshots userID s
                     else if userID < 0 then
                       exitErr exitConfig (Say ''The --user value must be a positive Gogs user ID.'') s
                     else cleanCaller w snapshots cacheTop cfg s))))))"

section \<open>The command line\<close>

definition versionJSON :: "appWorld \<Rightarrow> json" where
  "versionJSON w = JObj [(''version'', JStr (awVersion w)), (''commit'', JStr (awCommit w)),
     (''build_time'', JStr (awBuildTime w)), (''go_version'', JStr (awGoVersion w))]"

definition runVersion :: "appWorld \<Rightarrow> string list \<Rightarrow> command" where
  "runVersion w args s =
     (case parseFlags w [(''json'', BoolFlag)] [] args of
        Inl err \<Rightarrow> (exitConfig, printErr (FlagUsage ''version'' err) s)
      | Inr (vals, rest) \<Rightarrow>
          if rest \<noteq> [] then (exitConfig, s)
          else if boolFlag ''json'' vals then (exitOK, printJSON (versionJSON w) s)
          else exitOut exitOK (Say (''gogs-mcp '' @ awVersion w @ '' ('' @ awCommit w @ '', '' @ awBuildTime w @ '', '' @
            awGoVersion w @ '').'')) s)"

definition usageText :: string where
  "usageText = ''Usage: gogs-mcp <serve|verify|cache|version> [options].''"

definition Run :: "appWorld \<Rightarrow> string list \<Rightarrow> command" where
  "Run w args s =
     (case args of
        [] \<Rightarrow> exitErr exitConfig (Say usageText) s
      | name # rest \<Rightarrow>
          if name = ''serve'' then runServe w rest s
          else if name = ''verify'' then runVerify w rest s
          else if name = ''cache'' then runCache w rest s
          else if name = ''version'' then runVersion w rest s
          else if name \<in> {''help'', ''-h'', ''--help''} then exitOut exitOK (Say usageText) s
          else exitErr exitConfig (Say usageText) (printErr (SayQuoted ''Unknown command %q.'' name) s))"


section \<open>What a command may touch\<close>

definition nodeIn :: "fpath \<Rightarrow> appState \<Rightarrow> fnode option" where
  "nodeIn q s = Option.bind (asCache s) (nodeAt q)"

text \<open>A step that only touches the cache, and there only the given places.\<close>

definition confined :: "fpath set \<Rightarrow> appState \<Rightarrow> appState \<Rightarrow> bool" where
  "confined ps s t \<longleftrightarrow> asClient t = asClient s \<and> asOut t = asOut s \<and> asErr t = asErr s \<and>
     (\<forall>q. (\<forall>p \<in> ps. apart p q) \<longrightarrow> nodeIn q t = nodeIn q s)"

lemma confined_refl [simp]: "confined ps s s"
  by (simp add: confined_def)

lemma confined_trans: "confined ps s t \<Longrightarrow> confined qs t u \<Longrightarrow> confined (ps \<union> qs) s u"
  by (auto simp: confined_def)

lemma confined_cache:
  assumes "\<And>root q. asCache s = Some root \<Longrightarrow> \<forall>p \<in> ps. apart p q \<Longrightarrow> nodeAt q (f root) = nodeAt q root"
  shows "confined ps s (s\<lparr>asCache := map_option f (asCache s)\<rparr>)"
  using assms by (cases "asCache s") (auto simp: confined_def nodeIn_def)

lemma removePath_confined: "removePath w p s = (err, t) \<Longrightarrow> confined {p} s t"
  using confined_cache [of s "{p}" "removeAt p"] confined_cache [of s "{p}" "putAt p left" for left]
  by (auto simp: removePath_def nodeAt_removeAt_other nodeAt_putAt_other split: option.splits if_splits)

lemma removeSharedCacheRoots_confined:
  "removeSharedCacheRoots w s = (err, t) \<Longrightarrow> confined ({[''pull'']} \<union> {[''users'']}) s t"
  by (auto simp: removeSharedCacheRoots_def split: prod.splits option.splits
      dest!: removePath_confined intro: confined_trans) (auto simp: confined_def)

lemma removeUserCacheRoot_confined:
  "removeUserCacheRoot w userID s = (err, t) \<Longrightarrow> confined {[''users'', formatInt userID]} s t"
  unfolding removeUserCacheRoot_def by (rule removePath_confined)

lemma some_hash: "isInstanceHash (replicate 64 CHR ''0'')"
  by (auto simp: isInstanceHash_def isHex_def isHexDigit_def list_all_iff)

lemma removeEverySnapshot_confined:
  assumes "removeEverySnapshot w s = (err, t)"
  shows "confined {[name] | name. isInstanceHash name} s t"
proof -
  have "nodeAt q root' = nodeAt q root"
    if run: "RemoveAll (awCleanup w) (Some root) = (e, Some root')" and q_apart: "\<forall>name. isInstanceHash name \<longrightarrow> apart [name] q" for e root root' q
  proof -
    have "q \<noteq> []" using q_apart some_hash by auto
    then obtain a q' where q: "q = a # q'" by (cases q) auto
    with q_apart have "\<not> isInstanceHash a" by (auto simp: apart_Cons)
    with run q removeInstances_other [of "awCleanup w" "childNames root" root _ _ q] show ?thesis
      by (auto simp: RemoveAll_def split: option.splits prod.splits)
  qed
  moreover have "snd (RemoveAll (awCleanup w) (Some root)) \<noteq> None" for root
    by (auto simp: RemoveAll_def split: option.splits prod.splits)
  moreover have "RemoveAll (awCleanup w) None = (None, None)" by (simp add: RemoveAll_def)
  ultimately show ?thesis
    using assms
    by (cases "asCache s"; cases "RemoveAll (awCleanup w) (asCache s)"; cases "snd (RemoveAll (awCleanup w) (asCache s))")
      (auto simp: removeEverySnapshot_def confined_def nodeIn_def, metis prod.sel(2) option.distinct(1))
qed

definition hexDigest :: "(string \<Rightarrow> string) \<Rightarrow> bool" where
  "hexDigest sha \<longleftrightarrow> (\<forall>d. isInstanceHash (sha d))"

lemma removeSnapshotsOf_confined:
  assumes "removeSnapshotsOf w m userID s = (err, t)" "hexDigest (awSHA w)"
  shows "confined {[name, formatInt userID] | name. isInstanceHash name} s t"
proof (cases "normalizedInstanceHash (awSHA w) (mgInstance m)")
  case (Inl e)
  with assms(1) show ?thesis
    by (auto simp: removeSnapshotsOf_def RemoveUser_def userRootOf_def split: option.splits if_splits)
next
  case (Inr h)
  then have "isInstanceHash h"
    using assms(2) by (auto simp: normalizedInstanceHash_def hexDigest_def bindE_eq_Inr)
  with Inr assms(1) confined_cache [of s "{[name, formatInt userID] | name. isInstanceHash name}"
      "putAt [h, formatInt userID] left" for left]
  show ?thesis
    by (auto simp: removeSnapshotsOf_def Let_def split: prod.splits option.splits intro: nodeAt_putAt_other)
qed

lemma removePullDir_confined: "removePullDir w name s = (err, t) \<Longrightarrow> confined {[name]} s t"
  using confined_cache [of s "{[name]}" "removeAt [name]"]
  by (auto simp: removePullDir_def Let_def nodeAt_removeAt_other split: prod.splits option.splits)

lemma CleanPullCacheDir_confined:
  "CleanPullCacheDir w dir s = (err, t) \<Longrightarrow> confined ({[''.pull'']} \<union> {[''pull'']}) s t"
  by (auto simp: CleanPullCacheDir_def split: prod.splits option.splits if_splits
      dest!: removePullDir_confined intro: confined_trans) (auto simp: confined_def)

text \<open>\<open>orFail\<close> runs a removal and then the rest.\<close>

lemma orFail_cases:
  assumes "orFail removal message k s = (code, t)"
  obtains err u where "removal s = (Some err, u)" "code = exitInternal" "t = printErr (SayErr message err) u"
  | u where "removal s = (None, u)" "k u = (code, t)"
  using assms by (auto simp: orFail_def exitErr_def split: prod.splits option.splits)


section \<open>Exit codes and effects\<close>

definition shielded :: "string \<Rightarrow> bool" where
  "shielded name \<longleftrightarrow> name \<notin> {''pull'', ''.pull'', ''users''} \<and> \<not> isInstanceHash name"

definition cachePlace :: "fpath \<Rightarrow> bool" where
  "cachePlace p \<longleftrightarrow> p \<noteq> [] \<and> \<not> shielded (hd p)"

definition onlyGets :: "appState \<Rightarrow> appState \<Rightarrow> request list \<Rightarrow> bool" where
  "onlyGets s t requests \<longleftrightarrow> sent (asClient t) = sent (asClient s) @ requests \<and> length requests \<le> 3 \<and>
     list_all (\<lambda>q. rqMethod q = ''GET'') requests"

text \<open>What an exit code means: 2 is reported before anything happened, 3 after Gogs was asked and before anything
  was removed; whatever happens, only the caches below the cache root are touched.\<close>

definition lawful :: "appState \<Rightarrow> int \<Rightarrow> appState \<Rightarrow> bool" where
  "lawful s code t \<longleftrightarrow>
     (\<exists>requests. onlyGets s t requests \<and>
       (code \<in> {exitOK, exitInternal} \<or>
        code = exitConfig \<and> requests = [] \<and> asCache t = asCache s \<or>
        code = exitConnection \<and> requests \<noteq> [] \<and> asCache t = asCache s)) \<and>
     (\<forall>name q. shielded name \<longrightarrow> nodeIn (name # q) t = nodeIn (name # q) s)"

lemma lawful_quiet:
  "asClient t = asClient s \<Longrightarrow> asCache t = asCache s \<Longrightarrow> code \<in> {exitOK, exitInternal, exitConfig} \<Longrightarrow> lawful s code t"
  by (auto simp: lawful_def onlyGets_def nodeIn_def)

lemma print_simps [simp]:
  "asClient (printErr m s) = asClient s" "asCache (printErr m s) = asCache s" "asOut (printErr m s) = asOut s"
  "asClient (printOut m s) = asClient s" "asCache (printOut m s) = asCache s" "asErr (printOut m s) = asErr s"
  "nodeIn q (printErr m s) = nodeIn q s" "nodeIn q (printOut m s) = nodeIn q s"
  by (simp_all add: printErr_def printOut_def nodeIn_def)

lemma exit_simps:
  "exitErr code m s = (code', t) \<longleftrightarrow> code' = code \<and> t = printErr m s"
  "exitOut code m s = (code', t) \<longleftrightarrow> code' = code \<and> t = printOut m s"
  "diagnose code d s = (code', t) \<longleftrightarrow> code' = code \<and> t = printJSON (diagnosticJSON d) s"
  by (auto simp: exitErr_def exitOut_def diagnose_def)

lemma parseConfigFlag_state:
  "parseConfigFlag w cmd args s = (r, t) \<Longrightarrow> asClient t = asClient s \<and> asCache t = asCache s \<and> asOut t = asOut s"
  by (auto simp: parseConfigFlag_def split: sum.splits prod.splits if_splits)

text \<open>Asking Gogs who the caller is: one to three reads of the user.\<close>

lemma currentUser_state:
  assumes "currentUser w c s = (r, t)"
  shows "asCache t = asCache s" "asOut t = asOut s" "asErr t = asErr s" "\<exists>requests. onlyGets s t requests \<and> requests \<noteq> []"
    "GetAuthenticatedUser (awGogs w) c (asClient s) = (r, asClient t)"
proof -
  obtain st where st: "GetAuthenticatedUser (awGogs w) c (asClient s) = (r, st)" "t = s\<lparr>asClient := st\<rparr>"
    using assms by (auto simp: currentUser_def split: prod.splits)
  then show "asCache t = asCache s" "asOut t = asOut s" "asErr t = asErr s"
    "GetAuthenticatedUser (awGogs w) c (asClient s) = (r, asClient t)" by simp_all
  obtain r' where loop: "getLoop (awGogs w) c (mkRequest c ''GET'' [] JNull [''user'']) decUser 3 0 [] (asClient s) = (r', st)"
    using st(1) by (auto simp: GetAuthenticatedUser_def getJSON_def getJSONWithQuery_def getJSONWithHeaders_def bindM_def
        split: prod.splits sum.splits)
  from getLoop_spec [OF loop] obtain k where "k \<le> 3" "0 < k"
    "sent st = sent (asClient s) @ replicate k (mkRequest c ''GET'' [] JNull [''user''])" by auto
  then show "\<exists>requests. onlyGets s t requests \<and> requests \<noteq> []"
    using st(2) by (intro exI [of _ "replicate k (mkRequest c ''GET'' [] JNull [''user''])"])
      (auto simp: onlyGets_def mkRequest_def list_all_iff)
qed

lemma confined_lawful:
  assumes "confined ps u v" "\<And>p. p \<in> ps \<Longrightarrow> cachePlace p"
    and "asCache u = asCache s" "\<exists>requests. onlyGets s u requests" "code \<in> {exitOK, exitInternal}"
    and "asClient t = asClient v" "asCache t = asCache v"
  shows "lawful s code t"
proof -
  have "nodeIn (name # q) v = nodeIn (name # q) u" if "shielded name" for name q
  proof -
    have "apart p (name # q)" if "p \<in> ps" for p
      using assms(2) [OF that] \<open>shielded name\<close> by (cases p) (auto simp: cachePlace_def apart_Cons)
    then show ?thesis using assms(1) by (simp add: confined_def)
  qed
  then show ?thesis
    using assms(1,3-7) by (auto simp: lawful_def confined_def onlyGets_def nodeIn_def)
qed

lemma places:
  "cachePlace [''pull'']" "cachePlace [''.pull'']" "cachePlace [''users'']" "cachePlace (''users'' # p)"
  "isInstanceHash name \<Longrightarrow> cachePlace (name # p)"
  by (simp_all add: cachePlace_def shielded_def)

lemma two_removals:
  assumes "orFail first m1 (orFail later m2 (exitOut exitOK m)) u = (code, t)"
    and "\<And>err v. first u = (err, v) \<Longrightarrow> confined ps u v" "\<And>err v x. later x = (err, v) \<Longrightarrow> confined qs x v"
  obtains v where "confined (ps \<union> qs) u v" "asClient t = asClient v" "asCache t = asCache v"
    "code \<in> {exitOK, exitInternal}"
  using assms(1)
proof (cases rule: orFail_cases)
  case (1 err v)
  with assms(2) [OF 1(1)] that [of v] show thesis by (auto simp: confined_def)
next
  case (2 v)
  from 2(2) show thesis
  proof (cases rule: orFail_cases)
    case (1 err x)
    with confined_trans [OF assms(2) [OF 2(1)] assms(3) [OF 1(1)]] that [of x] show thesis by simp
  next
    case (2 x)
    with confined_trans [OF assms(2) [OF \<open>first u = (None, v)\<close>] assms(3) [OF 2(1)]] that [of x] show thesis
      by (simp add: exit_simps)
  qed
qed

lemma removals_lawful:
  assumes "orFail first m1 (orFail later m2 (exitOut exitOK m)) u = (code, t)"
    and "\<And>err v. first u = (err, v) \<Longrightarrow> confined ps u v" "\<And>err v x. later x = (err, v) \<Longrightarrow> confined qs x v"
    and "\<And>p. p \<in> ps \<union> qs \<Longrightarrow> cachePlace p" "asCache u = asCache s" "\<exists>requests. onlyGets s u requests"
  shows "lawful s code t"
proof -
  obtain v where v: "confined (ps \<union> qs) u v" "asClient t = asClient v" "asCache t = asCache v"
    "code \<in> {exitOK, exitInternal}" using two_removals [OF assms(1-3)] .
  show ?thesis by (rule confined_lawful [OF v(1) assms(4-6) v(4,2,3)])
qed

lemma onlyGets_none: "\<exists>requests. onlyGets s s requests"
  by (auto simp: onlyGets_def)

lemma cleanAll_lawful: "cleanAll w s = (code, t) \<Longrightarrow> lawful s code t"
  unfolding cleanAll_def
  by (rule removals_lawful [OF _ removeEverySnapshot_confined removeSharedCacheRoots_confined])
    (auto intro: places onlyGets_none)

lemma cleanUser_lawful: "cleanUser w m userID s = (code, t) \<Longrightarrow> hexDigest (awSHA w) \<Longrightarrow> lawful s code t"
  unfolding cleanUser_def
  by (rule removals_lawful [OF _ removeSnapshotsOf_confined removeUserCacheRoot_confined])
    (auto intro: places onlyGets_none)

lemma cleanCaller_lawful:
  assumes "cleanCaller w m cacheTop cfg s = (code, t)" "hexDigest (awSHA w)"
  shows "lawful s code t"
proof (cases "Token cfg = []")
  case True
  with assms(1) show ?thesis by (auto simp: cleanCaller_def exit_simps intro!: lawful_quiet)
next
  case False
  show ?thesis
  proof (cases "clientFor w cfg cacheTop 0 0")
    case (Inl err)
    with False assms(1) show ?thesis by (auto simp: cleanCaller_def exit_simps intro!: lawful_quiet)
  next
    case (Inr c)
    obtain r u where asked: "currentUser w c s = (r, u)" by fastforce
    note state = currentUser_state [OF asked]
    show ?thesis
    proof (cases r)
      case (Inl err)
      with False Inr asked assms(1) state(1,4) show ?thesis
        by (auto simp: cleanCaller_def exit_simps Let_def lawful_def onlyGets_def nodeIn_def)
    next
      case (Inr user)
      with False \<open>clientFor w cfg cacheTop 0 0 = Inr c\<close> asked assms(1)
      have "orFail (removeSnapshotsOf w m (uId user)) ''Could not remove the snapshot cache: %s.''
          (orFail (CleanPullCacheDir w cacheTop) ''Could not remove the pull request git cache: %s.''
            (exitOut exitOK (Say (''Removed the snapshot and pull request caches for user '' @ uUsername user @ ''.'')))) u
          = (code, t)" by (simp add: cleanCaller_def)
      then show ?thesis
        by (rule removals_lawful [OF _ removeSnapshotsOf_confined CleanPullCacheDir_confined])
          (use assms(2) state in \<open>auto intro: places\<close>)
    qed
  qed
qed

lemma runCache_lawful:
  assumes "runCache w args s = (code, t)" "hexDigest (awSHA w)"
  shows "lawful s code t"
  using assms(1) cleanAll_lawful cleanUser_lawful [OF _ assms(2)] cleanCaller_lawful [OF _ assms(2)]
  by (auto simp: runCache_def exit_simps Let_def intro: lawful_quiet split: if_splits sum.splits prod.splits)

lemma runVerify_lawful:
  assumes "runVerify w args s = (code, t)"
  shows "lawful s code t"
proof -
  obtain configPath u where flags: "parseConfigFlag w ''verify'' args s = (configPath, u)" by fastforce
  note same = parseConfigFlag_state [OF flags]
  show ?thesis
  proof (cases "\<exists>cp cfg c. configPath = Some cp \<and> Load (awConfig w) cp (awLookup w) = Inr cfg \<and>
      trimSpace (Token cfg) \<noteq> [] \<and> clientFor w cfg [] 0 0 = Inr c")
    case False
    with assms flags same show ?thesis
      by (auto simp: runVerify_def exit_simps printJSON_def intro!: lawful_quiet
          split: option.splits sum.splits if_splits)
  next
    case True
    then obtain cp cfg c where c: "configPath = Some cp" "Load (awConfig w) cp (awLookup w) = Inr cfg"
      "trimSpace (Token cfg) \<noteq> []" "clientFor w cfg [] 0 0 = Inr c" by auto
    obtain r v where asked: "currentUser w c u = (r, v)" by fastforce
    note state = currentUser_state [OF asked]
    from assms flags c asked same state(1,4) show ?thesis
      by (cases r) (auto simp: runVerify_def exit_simps printJSON_def Let_def lawful_def onlyGets_def nodeIn_def)
  qed
qed

lemma printLines_state [simp]:
  "asClient (printLines level lines s) = asClient s" "asCache (printLines level lines s) = asCache s"
  unfolding printLines_def by (induction lines arbitrary: s) (auto simp: printErr_def)

lemma runServe_lawful:
  assumes "runServe w args s = (code, t)"
  shows "lawful s code t"
proof -
  obtain configPath u where flags: "parseConfigFlag w ''serve'' args s = (configPath, u)" by fastforce
  note same = parseConfigFlag_state [OF flags]
  have "asClient t = asClient u \<and> asCache t = asCache u \<and> code \<in> {exitOK, exitInternal, exitConfig}"
    using assms flags
    by (auto simp: runServe_def runServeHTTP_def exit_simps exitPanic_def exitConfig_def Let_def
        split: option.splits sum.splits if_splits prod.splits runEnd.splits)
  with same show ?thesis by (intro lawful_quiet) auto
qed



lemma parse_user_flag:
  assumes "awParseInt64 w v = Some n"
  shows "parseFlags w [(''config'', StringFlag), (''all'', BoolFlag), (''user'', Int64Flag)] [] [''--user'', v] =
    Inr ([(''user'', v)], [])"
proof -
  have "cut ''user'' ''='' = None" by code_simp
  then show ?thesis using assms by (simp add: validFlag_def)
qed

lemma removed_pair: "nodeAt [a, b] (removeAt [a, b] root) = None"
proof (cases root)
  case (FDir m cs)
  have "map_of (map (\<lambda>c. if fst c = a then (fst c, removeAt [b] (snd c)) else c) cs) a =
      map_option (removeAt [b]) (map_of cs a)" by (induction cs) auto
  moreover have "nodeAt [b] (removeAt [b] n) = None" for n
  proof (cases n)
    case (FDir m' ds)
    moreover have "map_of (filter (\<lambda>c. fst c \<noteq> b) ds) b = None" by (induction ds) auto
    ultimately show ?thesis by simp
  qed simp_all
  ultimately show ?thesis using FDir by (auto split: option.splits)
qed simp_all

lemma removeUserCacheRoot_gone:
  "removeUserCacheRoot w userID s = (None, t) \<Longrightarrow> nodeIn [''users'', formatInt userID] t = None"
  by (cases "asCache s") (auto simp: removeUserCacheRoot_def removePath_def nodeIn_def removed_pair split: option.splits)

text \<open>C14: 
  \<open>cache clean --user N\<close> needs no credentials and sends nothing; it touches only the caches of that user, whichever the
  instance, and when it reports success nothing is left of the user's pull request cache.
\<close>

theorem clean_user_spares_others:
  assumes "Run w [''cache'', ''clean'', ''--user'', v] s = (code, t)" "awParseInt64 w v = Some n" "0 < n"
    "hexDigest (awSHA w)"
  shows "asClient t = asClient s \<and> (\<forall>a b q. b \<noteq> formatInt n \<longrightarrow> nodeIn (a # b # q) t = nodeIn (a # b # q) s) \<and>
    (code = exitOK \<longrightarrow> nodeIn [''users'', formatInt n] t = None)"
proof -
  have flags: "boolFlag ''all'' [(''user'', v)] = False" "int64Flag w ''user'' [(''user'', v)] = n"
    using assms(2) by (simp_all add: boolFlag_def int64Flag_def)
  have run: "runCache w [''clean'', ''--user'', v] s = (code, t)" using assms(1) by (simp add: Run_def)
  consider (early) "asClient t = asClient s" "asCache t = asCache s" "code = exitConfig"
    | (clean) m where "cleanUser w m n s = (code, t)"
    using run assms(3) flags unfolding runCache_def list.sel parse_user_flag [OF assms(2)]
    by (auto simp: exit_simps Let_def split: sum.splits)
  then show ?thesis
  proof cases
    case early
    then show ?thesis by (simp add: nodeIn_def exitConfig_def exitOK_def)
  next
    case clean
    let ?ps = "{[name, formatInt n] | name. isInstanceHash name} \<union> {[''users'', formatInt n]}"
    obtain u where u: "confined ?ps s u" "asClient t = asClient u" "asCache t = asCache u"
      by (rule two_removals [OF clean [unfolded cleanUser_def] removeSnapshotsOf_confined [OF _ assms(4)]
          removeUserCacheRoot_confined])
    have "nodeIn (a # b # q) u = nodeIn (a # b # q) s" if "b \<noteq> formatInt n" for a b q
    proof -
      have "\<forall>p \<in> ?ps. apart p (a # b # q)" using that by (auto simp: apart_Cons)
      with u(1) show ?thesis unfolding confined_def by blast
    qed
    moreover have "nodeIn [''users'', formatInt n] t = None" if "code = exitOK"
      using clean that unfolding cleanUser_def
    proof (cases rule: orFail_cases)
      case (2 x)
      from 2(2) show ?thesis
      proof (cases rule: orFail_cases)
        case (2 y)
        with removeUserCacheRoot_gone [OF 2(1)] show ?thesis by (simp add: exit_simps)
      qed (use that in \<open>simp add: exitOK_def exitInternal_def\<close>)
    qed (simp add: exitOK_def exitInternal_def)
    ultimately show ?thesis using u by (auto simp: confined_def nodeIn_def)
  qed
qed




section \<open>A concrete installation\<close>

definition sampleGogs :: httpWorld where
  "sampleGogs = \<lparr>doRequest = (\<lambda>past q. Response 200 [] ''user'' None None), waitCanceled = (\<lambda>past k. None),
     parseJSON = (\<lambda>body. Some (JObj [(''id'', JNum 7), (''username'', JStr ''ann'')]))\<rparr>"

definition sampleApp :: appWorld where
  "sampleApp = \<lparr>awConfig = sampleConfigWorld, awLookup = sampleEnv, awUserCacheDir = Inr ''/cache'', awGogs = sampleGogs,
     awSystemPool = None, awReadPEM = (\<lambda>p. Inl [MsgErr p]), awPEM = (\<lambda>pem. True),
     awInstance = (\<lambda>u. Inr \<lparr>iuScheme = ''https'', iuHostname = ''host'', iuPort = [], iuPath = []\<rparr>),
     awSHA = (\<lambda>d. replicate 64 CHR ''0''), awBaseURLText = (\<lambda>u. ''https://host/git''), awCleanup = quietCleanup,
     awUserDisk = someDisk, awUserStat = None, awUserWriter = None, awPullDisk = (\<lambda>name. someDisk),
     awPullWriter = (\<lambda>name. None), awRemoveErr = (\<lambda>p. None), awStdio = (\<lambda>c. None), awHTTP = \<lparr>swListen = (\<lambda>addr. Inr (addr, True)), swWild = (\<lambda>p. None), swEnd = (\<lambda>server. Cancelled None), swServerClosed = (\<lambda>err. False)\<rparr>,
     awParseInt64 = parseInt, awVersion = ''dev'', awCommit = ''unknown'', awBuildTime = ''unknown'', awGoVersion = ''go1''\<rparr>"

definition sampleStart :: appState where
  "sampleStart = \<lparr>asOut = [], asErr = [], asCache = Some (FDir 0
      [(''users'', FDir 0 [(''7'', FDir 0 [(''x'', FFile 5)]), (''8'', FDir 0 [(''x'', FFile 6)])]), (''config'', FFile 3)]),
     asClient = \<lparr>sent = [], logs = [], authenticationFailures = 0\<rparr>\<rparr>"

lemma sample_digest: "hexDigest (awSHA sampleApp)"
  using some_hash by (simp add: hexDigest_def sampleApp_def)


theorem clean_user_spares_others_witness:
  "nodeIn [''users'', ''8'', ''x''] (snd (Run sampleApp [''cache'', ''clean'', ''--user'', ''7''] sampleStart)) = Some (FFile 6) \<and>
   nodeIn [''users'', ''7''] (snd (Run sampleApp [''cache'', ''clean'', ''--user'', ''7''] sampleStart)) = None"
proof -
  let ?run = "Run sampleApp [''cache'', ''clean'', ''--user'', ''7''] sampleStart"
  have n: "awParseInt64 sampleApp ''7'' = Some 7" "formatInt 7 = ''7''" by code_simp+
  have "fst ?run = exitOK" by code_simp
  with clean_user_spares_others [OF prod.collapse [symmetric] n(1) _ sample_digest, of sampleStart] n(2)
  show ?thesis by (auto simp: nodeIn_def sampleStart_def)
qed


end
