(* ===== verification/PathFuel.thy ===== *)
theory PathFuel
  imports GoPath
begin

text \<open>
  The loops of \<open>path.Match\<close> in GoPath run on fuel. Every round consumes a byte of the chunk or of the pattern, so one
  unit more than its length is always enough: more fuel gives the same answer, and \<open>None\<close> only means a bad pattern.
\<close>

lemma getEsc_shorter: "getEsc chunk = Some (lo, rest) \<Longrightarrow> rest \<noteq> [] \<and> length rest < length chunk"
  by (auto simp: getEsc_def Let_def split: if_splits list.splits prod.splits)

lemma getEsc_twice:
  assumes "getEsc chunk = Some (lo, rest)" "getEsc (tl rest) = Some (hi, rest')"
  shows "length rest' < length chunk"
  using getEsc_shorter [OF assms(1)] getEsc_shorter [OF assms(2)] by (simp, linarith)

lemma classBody_fuel:
  "length chunk < n \<Longrightarrow> length chunk < n' \<Longrightarrow> classBody n r chunk m k = classBody n' r chunk m k"
proof (induction n arbitrary: n' chunk m k)
  case (Suc n)
  obtain f where n': "n' = Suc f" using Suc.prems(2) by (cases n') auto
  have "classBody n r rest b (Suc k) = classBody f r rest b (Suc k)" if "length rest < length chunk" for rest b
    using that Suc.prems n' by (intro Suc.IH) auto
  then show ?case
    unfolding n' using getEsc_shorter [of chunk] getEsc_twice [of chunk]
    by (auto split: option.split prod.split)
qed simp

lemma classBody_shorter: "classBody n r chunk m k = Some (b, rest) \<Longrightarrow> length rest < length chunk"
proof (induction n arbitrary: chunk m k)
  case (Suc n)
  show ?case
  proof (cases "chunk \<noteq> [] \<and> hd chunk = CHR '']'' \<and> k > 0")
    case False
    with Suc.prems obtain lo r' m' where "getEsc chunk = Some (lo, r')"
      and "classBody n r r' m' (Suc k) = Some (b, rest) \<or>
        (\<exists>hi r'' m''. getEsc (tl r') = Some (hi, r'') \<and> classBody n r r'' m'' (Suc k) = Some (b, rest))"
      by (auto split: option.splits prod.splits if_splits)
    with Suc.IH getEsc_shorter getEsc_twice show ?thesis by (meson less_trans)
  qed (use Suc.prems in auto)
qed simp

lemma matchChunk_fuel:
  "length chunk < n \<Longrightarrow> length chunk < n' \<Longrightarrow> matchChunk n failed chunk s = matchChunk n' failed chunk s"
proof (induction n arbitrary: n' failed chunk s)
  case (Suc n)
  obtain f where n': "n' = Suc f" using Suc.prems(2) by (cases n') auto
  have step: "matchChunk n b rest t = matchChunk f b rest t" if "length rest < length chunk" for rest b t
    using that Suc.prems n' by (intro Suc.IH) auto
  show ?case
  proof (cases chunk)
    case (Cons c cs)
    let ?body = "if cs \<noteq> [] \<and> hd cs = CHR ''^'' then tl cs else cs"
    have "length ?body < length chunk" using Cons by (auto simp: less_Suc_eq_le)
    then have inner: "matchChunk n b rest t = matchChunk f b rest t"
      if "classBody (Suc (length ?body)) r ?body False 0 = Some (m, rest)" for r m rest b t
      using classBody_shorter [OF that] by (intro step) simp
    have lit: "matchChunk n b (tl l) t = matchChunk f b (tl l) t"
      if "l = (if c = CHR 0x5C then cs else chunk)" "l \<noteq> []" for l b t
      using that Cons by (intro step) (auto split: if_splits)
    have rest: "matchChunk n b cs t = matchChunk f b cs t" for b t using Cons by (intro step) simp
    show ?thesis
      unfolding n' Cons matchChunk.simps list.case Let_def
      by (intro if_cong option.case_cong prod.case_cong refl)
        (blast intro: inner rest lit [unfolded Cons, OF refl])+
  qed (simp add: n')
qed simp

lemma scanBody_length: "scanBody b s = (a, r) \<Longrightarrow> length a + length r = length s"
  by (induction b s arbitrary: a r rule: scanBody.induct)
    (auto simp: Let_def split: if_splits list.splits prod.splits)

lemma scanBody_consumes: "scanBody False s = (a, r) \<Longrightarrow> s \<noteq> [] \<Longrightarrow> hd s \<noteq> CHR ''*'' \<Longrightarrow> a \<noteq> []"
  by (cases s) (auto simp: Let_def split: if_splits list.splits prod.splits)

lemma scanChunk_shorter:
  assumes "scanChunk pattern = (star, chunk, rest)" "pattern \<noteq> []"
  shows "length rest < length pattern"
proof -
  let ?p = "dropWhile (\<lambda>c. c = CHR ''*'') pattern"
  have scan: "scanBody False ?p = (chunk, rest)" using assms(1) by (simp add: scanChunk_def Let_def)
  note total = scanBody_length [OF scan] length_dropWhile_le [of "\<lambda>c. c = CHR ''*''" pattern]
  show ?thesis
  proof (cases "hd pattern = CHR ''*''")
    case True
    then have "length ?p < length pattern" using assms(2) by (cases pattern) (auto simp: le_imp_less_Suc length_dropWhile_le)
    with total show ?thesis by simp
  next
    case False
    then have "?p = pattern" using assms(2) by (cases pattern) auto
    with scanBody_consumes [OF scan] False assms(2) total show ?thesis by (cases chunk) auto
  qed
qed

lemma restWellFormed_fuel:
  "length pattern < n \<Longrightarrow> length pattern < n' \<Longrightarrow> restWellFormed n pattern = restWellFormed n' pattern"
proof (induction n arbitrary: n' pattern)
  case (Suc n)
  obtain f where n': "n' = Suc f" using Suc.prems(2) by (cases n') auto
  have "restWellFormed n rest = restWellFormed f rest"
    if "scanChunk pattern = (star, chunk, rest)" "pattern \<noteq> []" for star chunk rest
    using scanChunk_shorter [OF that] Suc.prems n' by (intro Suc.IH) auto
  then show ?case unfolding n' by (auto split: prod.split)
qed simp

text \<open>The matcher at any fuel beyond the length of the pattern is \<open>pathMatch\<close>.\<close>

lemma matchFrom_fuel:
  "length pattern < n \<Longrightarrow> length pattern < n' \<Longrightarrow> matchFrom n pattern name = matchFrom n' pattern name"
proof (induction n arbitrary: n' pattern name)
  case (Suc n)
  obtain f where n': "n' = Suc f" using Suc.prems(2) by (cases n') auto
  have step: "matchFrom n rest t = matchFrom f rest t"
    if "scanChunk pattern = (star, chunk, rest)" "pattern \<noteq> []" for star chunk rest t
    using scanChunk_shorter [OF that] Suc.prems n' by (intro Suc.IH) auto
  show ?case
    unfolding n' matchFrom.simps
    by (intro if_cong option.case_cong prod.case_cong refl) (blast intro: step)+
qed simp

theorem pathMatch_fuel: "length pattern < n \<Longrightarrow> matchFrom n pattern name = pathMatch pattern name"
  unfolding pathMatch_def by (rule matchFrom_fuel) auto

end
